(* ===== verification/Gw_Prelude.thy ===== *)
theory Gw_Prelude
  imports Main "HOL-Library.Sublist" "HOL-Library.Finite_Map" "HOL-Library.Char_ord"
begin

text \<open>
  Shared by every component of the gateway model: the operations of Go's \<open>strings\<close> package that
  the sources call, iteration over Go maps, and the state-and-error functions the handlers are
  written with.

  A Go string is a byte sequence, here a \<^typ>\<open>string\<close> (a list of bytes). Case mapping and white
  space are those of ASCII; bytes from 128 on are left alone (the Unicode tables of Go's
  \<open>unicode\<close> package are not modelled).
\<close>

named_theorems go_str \<open>definitions of the string functions, for evaluation\<close>
named_theorems io_simps \<open>definitions of the state-and-error functions\<close>
named_theorems go_inv \<open>operations that keep an invariant\<close>

section \<open>Go's strings package\<close>

definition lower_char :: "char \<Rightarrow> char" where
  "lower_char c = (let n = of_char c :: nat in if 65 \<le> n \<and> n \<le> 90 then char_of (n + 32) else c)"

definition ToLower :: "string \<Rightarrow> string" where
  "ToLower s = map lower_char s"

definition is_space :: "char \<Rightarrow> bool" where
  "is_space c = (let n = of_char c :: nat in n = 32 \<or> (9 \<le> n \<and> n \<le> 13))"

definition trim_left :: "(char \<Rightarrow> bool) \<Rightarrow> string \<Rightarrow> string" where
  "trim_left P s = dropWhile P s"

definition trim_right :: "(char \<Rightarrow> bool) \<Rightarrow> string \<Rightarrow> string" where
  "trim_right P s = rev (dropWhile P (rev s))"

definition TrimSpace :: "string \<Rightarrow> string" where
  "TrimSpace s = trim_right is_space (trim_left is_space s)"

definition TrimChar :: "string \<Rightarrow> char \<Rightarrow> string" where
  "TrimChar s c = trim_right ((=) c) (trim_left ((=) c) s)"

definition HasPrefix :: "string \<Rightarrow> string \<Rightarrow> bool" where
  "HasPrefix s p = prefix p s"

definition HasSuffix :: "string \<Rightarrow> string \<Rightarrow> bool" where
  "HasSuffix s p = suffix p s"

definition TrimPrefix :: "string \<Rightarrow> string \<Rightarrow> string" where
  "TrimPrefix s p = (if prefix p s then drop (length p) s else s)"

definition TrimSuffix :: "string \<Rightarrow> string \<Rightarrow> string" where
  "TrimSuffix s p = (if suffix p s then take (length s - length p) s else s)"

definition Contains :: "string \<Rightarrow> string \<Rightarrow> bool" where
  "Contains s sub = sublist sub s"

definition EqualFold :: "string \<Rightarrow> string \<Rightarrow> bool" where
  "EqualFold a b = (ToLower a = ToLower b)"

text \<open>\<open>strings.Cut\<close> at the first occurrence of a one-byte separator: before, after, found.\<close>

definition CutChar :: "string \<Rightarrow> char \<Rightarrow> string \<times> string \<times> bool" where
  "CutChar s c = (let a = takeWhile (\<lambda>x. x \<noteq> c) s in
     if c \<in> set s then (a, drop (Suc (length a)) s, True) else (s, '''', False))"

text \<open>\<open>strings.CutPrefix\<close>.\<close>

definition CutPrefix :: "string \<Rightarrow> string \<Rightarrow> string \<times> bool" where
  "CutPrefix s p = (if prefix p s then (drop (length p) s, True) else (s, False))"

text \<open>\<open>strings.Split\<close> on a one-byte separator: never the empty list.\<close>

fun SplitChar :: "char \<Rightarrow> string \<Rightarrow> string list" where
  "SplitChar c [] = [[]]"
| "SplitChar c (x # xs) =
     (if x = c then [] # SplitChar c xs
      else (case SplitChar c xs of [] \<Rightarrow> [[x]] | y # ys \<Rightarrow> (x # y) # ys))"

text \<open>
  \<open>strings.ReplaceAll\<close> and \<open>strings.Replace(_, _, _, 1)\<close> for a non-empty \<open>old\<close>, the only way the
  sources use them; an empty \<open>old\<close> leaves the string alone here.
\<close>

function ReplaceAll :: "string \<Rightarrow> string \<Rightarrow> string \<Rightarrow> string" where
  "ReplaceAll s old new =
     (if old = [] \<or> s = [] then s
      else if prefix old s then new @ ReplaceAll (drop (length old) s) old new
      else hd s # ReplaceAll (tl s) old new)"
  by pat_completeness auto
termination
  by (relation "measure (\<lambda>(s, old, new). length s)") auto

declare ReplaceAll.simps [simp del]

fun ReplaceFirst :: "string \<Rightarrow> string \<Rightarrow> string \<Rightarrow> string" where
  "ReplaceFirst [] old new = []"
| "ReplaceFirst (x # xs) old new =
     (if old \<noteq> [] \<and> prefix old (x # xs) then new @ drop (length old) (x # xs)
      else x # ReplaceFirst xs old new)"

text \<open>\<open>fmt\<close>'s \<open>%q\<close> (\<open>strconv.Quote\<close>) on ASCII bytes.\<close>

definition hex_digit :: "nat \<Rightarrow> char" where
  "hex_digit n = (if n < 10 then char_of (48 + n) else char_of (87 + n))"

definition quote_char :: "char \<Rightarrow> string" where
  "quote_char c = (let n = of_char c :: nat in
     if n = 34 \<or> n = 92 then [CHR 0x5C, c]
     else if n = 7 then [CHR 0x5C, CHR ''a'']
     else if n = 8 then [CHR 0x5C, CHR ''b'']
     else if n = 9 then [CHR 0x5C, CHR ''t'']
     else if n = 10 then [CHR 0x5C, CHR ''n'']
     else if n = 11 then [CHR 0x5C, CHR ''v'']
     else if n = 12 then [CHR 0x5C, CHR ''f'']
     else if n = 13 then [CHR 0x5C, CHR ''r'']
     else if n < 32 \<or> n = 127 then [CHR 0x5C, CHR ''x'', hex_digit (n div 16), hex_digit (n mod 16)]
     else [c])"

definition go_quote :: "string \<Rightarrow> string" where
  "go_quote s = CHR 0x22 # concat (map quote_char s) @ [CHR 0x22]"

text \<open>\<open>fmt\<close>'s \<open>%d\<close>.\<close>

fun nat_digits :: "nat \<Rightarrow> string" where
  "nat_digits n = (if n < 10 then [char_of (48 + n)] else nat_digits (n div 10) @ [char_of (48 + n mod 10)])"

declare nat_digits.simps [simp del]

definition show_int :: "int \<Rightarrow> string" where
  "show_int i = (if i < 0 then CHR ''-'' # nat_digits (nat (- i)) else nat_digits (nat i))"

text \<open>\<open>hex.EncodeToString\<close>.\<close>

definition hex_encode :: "string \<Rightarrow> string" where
  "hex_encode bs = concat (map (\<lambda>c. let n = of_char c :: nat in [hex_digit (n div 16), hex_digit (n mod 16)]) bs)"

lemmas [go_str] = ToLower_def lower_char_def is_space_def trim_left_def trim_right_def TrimSpace_def
  TrimChar_def HasPrefix_def HasSuffix_def TrimPrefix_def TrimSuffix_def Contains_def EqualFold_def
  CutChar_def CutPrefix_def hex_digit_def quote_char_def go_quote_def hex_encode_def char_of_def bit_Suc_0_iff

subsection \<open>Laws of the string functions\<close>

lemma of_char_lower [simp]:
  "(of_char (lower_char c) :: nat) =
     (let n = of_char c :: nat in if 65 \<le> n \<and> n \<le> 90 then n + 32 else n)"
  by (auto simp: lower_char_def Let_def)

lemma lower_char_idem [simp]: "lower_char (lower_char c) = lower_char c"
  by (auto simp: lower_char_def Let_def)

lemma ToLower_idem [simp]: "ToLower (ToLower s) = ToLower s"
  by (simp add: ToLower_def)

lemma ToLower_Nil [simp]: "ToLower [] = []"
  by (simp add: ToLower_def)

lemma ToLower_eq_Nil [simp]: "ToLower s = [] \<longleftrightarrow> s = []"
  by (simp add: ToLower_def)

lemma length_ToLower [simp]: "length (ToLower s) = length s"
  by (simp add: ToLower_def)

lemma ToLower_append [simp]: "ToLower (a @ b) = ToLower a @ ToLower b"
  by (simp add: ToLower_def)

lemma is_space_lower [simp]: "is_space (lower_char c) = is_space c"
  by (auto simp: is_space_def Let_def)

lemma trim_right_idem [simp]: "trim_right P (trim_right P s) = trim_right P s"
  by (simp add: trim_right_def)

lemma trim_right_Nil [simp]: "trim_right P [] = []"
  by (simp add: trim_right_def)

lemma trim_left_Nil [simp]: "trim_left P [] = []"
  by (simp add: trim_left_def)

lemma trim_left_idem [simp]: "trim_left P (trim_left P s) = trim_left P s"
  by (simp add: trim_left_def)

lemma trim_right_append_stop: "\<not> P x \<Longrightarrow> trim_right P (xs @ [x]) = xs @ [x]"
  by (simp add: trim_right_def)

lemma trim_right_prefix: "prefix (trim_right P s) s"
proof -
  have "suffix (dropWhile P (rev s)) (rev s)" by (rule suffix_dropWhile)
  then show ?thesis by (simp add: trim_right_def suffix_to_prefix)
qed

lemma hd_prefix: "prefix a b \<Longrightarrow> a \<noteq> [] \<Longrightarrow> hd a = hd b"
  by (auto simp: prefix_def)

lemma dropWhile_fixed: "(xs \<noteq> [] \<Longrightarrow> \<not> P (hd xs)) \<Longrightarrow> dropWhile P xs = xs"
  by (cases xs) auto

lemma trim_left_trim_right: "trim_left P (trim_right P (trim_left P s)) = trim_right P (trim_left P s)"
proof -
  let ?t = "trim_right P (trim_left P s)"
  have "?t \<noteq> [] \<Longrightarrow> \<not> P (hd ?t)"
    using hd_prefix [OF trim_right_prefix [of P "trim_left P s"]] hd_dropWhile [of P s]
    by (cases "dropWhile P s = []") (simp_all add: trim_left_def)
  then show ?thesis by (simp add: trim_left_def dropWhile_fixed)
qed

lemma TrimSpace_idem [simp]: "TrimSpace (TrimSpace s) = TrimSpace s"
  by (simp add: TrimSpace_def trim_left_trim_right)

lemma TrimSpace_Nil [simp]: "TrimSpace [] = []"
  by (simp add: TrimSpace_def)

lemma ToLower_TrimSpace: "ToLower (TrimSpace s) = TrimSpace (ToLower s)"
  by (simp add: ToLower_def TrimSpace_def trim_left_def trim_right_def dropWhile_map rev_map comp_def)

lemma TrimPrefix_append [simp]: "TrimPrefix (p @ s) p = s"
  by (simp add: TrimPrefix_def)

lemma TrimSuffix_append [simp]: "TrimSuffix (s @ p) p = s"
  by (auto simp: TrimSuffix_def suffix_def)

lemma HasPrefix_append [simp]: "HasPrefix (p @ s) p"
  by (simp add: HasPrefix_def)

lemma HasSuffix_append [simp]: "HasSuffix (s @ p) p"
  by (auto simp: HasSuffix_def suffix_def)

lemma SplitChar_not_Nil [simp]: "SplitChar c s \<noteq> []"
  by (cases s) (auto split: list.splits)

lemma SplitChar_no_sep: "c \<notin> set s \<Longrightarrow> SplitChar c s = [s]"
  by (induction s) auto

lemma SplitChar_append_sep: "c \<notin> set a \<Longrightarrow> SplitChar c (a @ c # b) = a # SplitChar c b"
  by (induction a) auto

lemma SplitChar_parts: "p \<in> set (SplitChar c s) \<Longrightarrow> c \<notin> set p"
  by (induction s arbitrary: p) (auto split: if_splits list.splits)

lemma hex_digit_inj: "a < 16 \<Longrightarrow> b < 16 \<Longrightarrow> hex_digit a = hex_digit b \<longleftrightarrow> a = b"
  by (auto simp: hex_digit_def split: if_splits)

lemma length_hex_encode [simp]: "length (hex_encode bs) = 2 * length bs"
  by (induction bs) (auto simp: hex_encode_def Let_def)

lemma hex_encode_inj: "hex_encode a = hex_encode b \<Longrightarrow> a = b"
proof (induction a arbitrary: b)
  case Nil
  then show ?case by (cases b) (auto simp: hex_encode_def Let_def)
next
  case (Cons x a)
  then obtain y b' where b: "b = y # b'"
    by (cases b) (auto simp: hex_encode_def Let_def)
  let ?n = "of_char x :: nat" and ?m = "of_char y :: nat"
  have lt: "?n div 16 < 16" "?m div 16 < 16"
    using nat_of_char_less_256 [of x] nat_of_char_less_256 [of y] by linarith+
  from Cons.prems b have *: "hex_digit (?n div 16) = hex_digit (?m div 16)"
      "hex_digit (?n mod 16) = hex_digit (?m mod 16)" and t: "hex_encode a = hex_encode b'"
    by (auto simp: hex_encode_def Let_def)
  from * lt have "?n div 16 = ?m div 16" "?n mod 16 = ?m mod 16"
    by (simp_all add: hex_digit_inj)
  then have "?n = ?m" by (metis div_mult_mod_eq)
  then have "x = y" by simp
  with Cons.IH [OF t] b show ?case by simp
qed

section \<open>Go's path package\<close>

text \<open>\<open>path.Clean\<close>, \<open>path.Join\<close> and \<open>path.Base\<close>; \<open>path/filepath\<close> is the same on the gateway's platform.\<close>

fun join_with :: "char \<Rightarrow> string list \<Rightarrow> string" where
  "join_with c [] = []"
| "join_with c [x] = x"
| "join_with c (x # xs) = x @ c # join_with c xs"

fun clean_parts :: "bool \<Rightarrow> string list \<Rightarrow> string list \<Rightarrow> string list" where
  "clean_parts rooted out [] = out"
| "clean_parts rooted out (p # ps) =
     (if p = '''' \<or> p = ''.'' then clean_parts rooted out ps
      else if p = ''..'' then
        if out \<noteq> [] \<and> last out \<noteq> ''..'' then clean_parts rooted (butlast out) ps
        else if rooted then clean_parts rooted out ps
        else clean_parts rooted (out @ [''..'']) ps
      else clean_parts rooted (out @ [p]) ps)"

definition path_Clean :: "string \<Rightarrow> string" where
  "path_Clean p =
     (if p = '''' then ''.''
      else let rooted = (hd p = CHR ''/'');
               body = join_with CHR ''/'' (clean_parts rooted [] (SplitChar CHR ''/'' p))
           in if rooted then CHR ''/'' # body else if body = '''' then ''.'' else body)"

definition path_Join :: "string list \<Rightarrow> string" where
  "path_Join es = (let es = filter (\<lambda>e. e \<noteq> '''') es in
     if es = [] then '''' else path_Clean (join_with CHR ''/'' es))"

definition path_Base :: "string \<Rightarrow> string" where
  "path_Base p =
     (if p = '''' then ''.''
      else let p = trim_right ((=) CHR ''/'') p in
        if p = '''' then ''/'' else last (SplitChar CHR ''/'' p))"

section \<open>Go maps\<close>

text \<open>
  A Go map is a finite map. \<open>for k, v := range m\<close> visits the entries in an order Go does not
  specify and that changes from loop to loop, so every operation that ranges over a map takes the
  order of keys it visits as an argument: \<open>go_range ord m\<close> is the sequence of values. Theorems hold
  for every \<open>ord\<close> with \<open>iter_order ord m\<close>.
\<close>

definition iter_order :: "'k list \<Rightarrow> ('k, 'v) fmap \<Rightarrow> bool" where
  "iter_order ord m \<longleftrightarrow> distinct ord \<and> set ord = fmdom' m"

definition go_range :: "'k list \<Rightarrow> ('k, 'v) fmap \<Rightarrow> 'v list" where
  "go_range ord m = List.map_filter (fmlookup m) ord"

definition go_len :: "('k, 'v) fmap \<Rightarrow> nat" where
  "go_len m = fcard (fmdom m)"

lemma go_range_Nil [simp]: "go_range [] m = []"
  by (simp add: go_range_def List.map_filter_simps)

lemma go_range_Cons [simp]:
  "go_range (k # ks) m = (case fmlookup m k of None \<Rightarrow> go_range ks m | Some v \<Rightarrow> v # go_range ks m)"
  by (auto simp: go_range_def List.map_filter_simps split: option.splits)

lemma set_go_range: "set (go_range ord m) = {v. \<exists>k \<in> set ord. fmlookup m k = Some v}"
  by (induction ord) (auto split: option.splits)

lemma set_go_range_order:
  "iter_order ord m \<Longrightarrow> set (go_range ord m) = {v. \<exists>k. fmlookup m k = Some v}"
  by (auto simp: iter_order_def set_go_range fmlookup_dom'_iff)

lemma go_range_cong: "(\<And>k. k \<in> set ord \<Longrightarrow> fmlookup m k = fmlookup m' k) \<Longrightarrow> go_range ord m = go_range ord m'"
  by (induction ord) (auto split: option.splits)

lemma length_go_range:
  assumes "iter_order ord m"
  shows "length (go_range ord m) = go_len m"
proof -
  have "set ks \<subseteq> fmdom' m \<Longrightarrow> length (go_range ks m) = length ks" for ks
    by (induction ks) (auto simp: fmlookup_dom'_iff)
  moreover have "length ord = go_len m"
    using assms distinct_card [of ord]
    by (simp add: iter_order_def go_len_def fmdom'_alt_def fcard.rep_eq)
  ultimately show ?thesis using assms by (simp add: iter_order_def)
qed

lemma iter_order_exists: "\<exists>ord. iter_order ord m"
  using finite_distinct_list [OF finite_fmdom', of m] by (auto simp: iter_order_def)

text \<open>The first entry of a \<open>range\<close> loop that satisfies a test, as \<open>break\<close> finds it.\<close>

lemma find_go_range_Some:
  assumes "find P (go_range ord m) = Some v"
  shows "P v \<and> (\<exists>k \<in> set ord. fmlookup m k = Some v)"
proof -
  from assms have "v \<in> set (go_range ord m)" "P v"
    by (auto simp: find_Some_iff)
  then show ?thesis by (auto simp: set_go_range)
qed

lemma find_go_range_None:
  assumes "iter_order ord m"
  shows "find P (go_range ord m) = None \<longleftrightarrow> (\<forall>k v. fmlookup m k = Some v \<longrightarrow> \<not> P v)"
  using assms by (auto simp: find_None_iff set_go_range_order)

lemma fmdom'_fmfilter [simp]: "fmlookup (fmfilter P m) k = None \<longleftrightarrow> \<not> P k \<or> fmlookup m k = None"
  by auto

section \<open>State and errors\<close>

text \<open>
  A function that reads and writes a state \<open>'s\<close> and returns a value or an error is
  \<open>'s \<Rightarrow> ('e + 'a) \<times> 's\<close>, the error on the left. \<open>bindE m f\<close> is
  \<open>x, err := m(); if err != nil { return err }; f(x)\<close>; \<open>tryE m f\<close> hands the outcome, error
  included, to \<open>f\<close> (for the calls whose error the source inspects or drops).
\<close>

type_synonym ('s, 'e, 'a) eio = "'s \<Rightarrow> ('e + 'a) \<times> 's"

definition retE :: "'a \<Rightarrow> ('s, 'e, 'a) eio" where
  "retE x = (\<lambda>s. (Inr x, s))"

definition failE :: "'e \<Rightarrow> ('s, 'e, 'a) eio" where
  "failE e = (\<lambda>s. (Inl e, s))"

definition tryE :: "('s, 'e, 'a) eio \<Rightarrow> ('e + 'a \<Rightarrow> ('s, 'f, 'b) eio) \<Rightarrow> ('s, 'f, 'b) eio" where
  "tryE m f = (\<lambda>s. case m s of (r, s') \<Rightarrow> f r s')"

definition bindE :: "('s, 'e, 'a) eio \<Rightarrow> ('a \<Rightarrow> ('s, 'e, 'b) eio) \<Rightarrow> ('s, 'e, 'b) eio" where
  "bindE m f = tryE m (\<lambda>r. case r of Inl e \<Rightarrow> failE e | Inr x \<Rightarrow> f x)"

definition thenE :: "('s, 'e, 'a) eio \<Rightarrow> ('s, 'e, 'b) eio \<Rightarrow> ('s, 'e, 'b) eio" where
  "thenE m k = bindE m (\<lambda>_. k)"

text \<open>\<open>_ = m()\<close>: the outcome is dropped.\<close>

definition ignoreE :: "('s, 'e, 'a) eio \<Rightarrow> ('s, 'e, 'b) eio \<Rightarrow> ('s, 'e, 'b) eio" where
  "ignoreE m k = tryE m (\<lambda>_. k)"

text \<open>\<open>if err := m(); err != nil { return wrap(err) }\<close>.\<close>

definition wrapE :: "('e \<Rightarrow> 'e) \<Rightarrow> ('s, 'e, 'a) eio \<Rightarrow> ('s, 'e, 'a) eio" where
  "wrapE g m = tryE m (\<lambda>r. case r of Inl e \<Rightarrow> failE (g e) | Inr x \<Rightarrow> retE x)"

definition getE :: "('s \<Rightarrow> 'a) \<Rightarrow> ('s, 'e, 'a) eio" where
  "getE f = (\<lambda>s. (Inr (f s), s))"

definition modE :: "('s \<Rightarrow> 's) \<Rightarrow> ('s, 'e, unit) eio" where
  "modE f = (\<lambda>s. (Inr (), f s))"

lemmas [io_simps] = retE_def failE_def tryE_def bindE_def thenE_def ignoreE_def wrapE_def getE_def modE_def

text \<open>
  A relation between the states before and after that every step keeps: reflexive and transitive
  \<open>R\<close>, one rule per combinator, so that a fact about each primitive call lifts to every function
  built from them.
\<close>

definition keeps :: "('s \<Rightarrow> 's \<Rightarrow> bool) \<Rightarrow> ('s, 'e, 'a) eio \<Rightarrow> bool" where
  "keeps R m \<longleftrightarrow> (\<forall>s. R s (snd (m s)))"

definition preorder_rel :: "('s \<Rightarrow> 's \<Rightarrow> bool) \<Rightarrow> bool" where
  "preorder_rel R \<longleftrightarrow> reflp R \<and> transp R"

named_theorems keeps_intro \<open>composition rules for \<open>keeps\<close>\<close>

lemma keeps_retE [keeps_intro]: "preorder_rel R \<Longrightarrow> keeps R (retE x)"
  by (auto simp: keeps_def retE_def preorder_rel_def reflp_def)

lemma keeps_failE [keeps_intro]: "preorder_rel R \<Longrightarrow> keeps R (failE x)"
  by (auto simp: keeps_def failE_def preorder_rel_def reflp_def)

lemma keeps_getE [keeps_intro]: "preorder_rel R \<Longrightarrow> keeps R (getE f)"
  by (auto simp: keeps_def getE_def preorder_rel_def reflp_def)

lemma keeps_tryE [keeps_intro]:
  assumes "preorder_rel R" "keeps R m" "\<And>r. keeps R (f r)"
  shows "keeps R (tryE m f)"
  unfolding keeps_def
proof
  fix s
  obtain r s' where ms: "m s = (r, s')" by fastforce
  with assms(2) have "R s s'" by (metis keeps_def snd_conv)
  moreover from assms(3) have "R s' (snd (f r s'))" by (simp add: keeps_def)
  ultimately show "R s (snd (tryE m f s))"
    using assms(1) by (auto simp: tryE_def ms preorder_rel_def dest: transpD)
qed

lemma keeps_bindE [keeps_intro]:
  assumes "preorder_rel R" "keeps R m" "\<And>x. keeps R (f x)"
  shows "keeps R (bindE m f)"
  unfolding bindE_def
  by (rule keeps_tryE [OF assms(1,2)]) (auto split: sum.split intro: keeps_failE assms)

lemma keeps_thenE [keeps_intro]:
  "preorder_rel R \<Longrightarrow> keeps R m \<Longrightarrow> keeps R k \<Longrightarrow> keeps R (thenE m k)"
  unfolding thenE_def by (rule keeps_bindE)

lemma keeps_ignoreE [keeps_intro]:
  "preorder_rel R \<Longrightarrow> keeps R m \<Longrightarrow> keeps R k \<Longrightarrow> keeps R (ignoreE m k)"
  unfolding ignoreE_def by (rule keeps_tryE)

lemma keeps_wrapE [keeps_intro]:
  "preorder_rel R \<Longrightarrow> keeps R m \<Longrightarrow> keeps R (wrapE g m)"
  unfolding wrapE_def
  by (rule keeps_tryE) (auto split: sum.split intro: keeps_failE keeps_retE)

lemma keeps_modE: "(\<And>s. R s (f s)) \<Longrightarrow> keeps R (modE f)"
  by (simp add: keeps_def modE_def)

lemma keeps_if [keeps_intro]: "(b \<Longrightarrow> keeps R m) \<Longrightarrow> (\<not> b \<Longrightarrow> keeps R k) \<Longrightarrow> keeps R (if b then m else k)"
  by simp

lemma keeps_case_option [keeps_intro]:
  "keeps R m \<Longrightarrow> (\<And>x. keeps R (f x)) \<Longrightarrow> keeps R (case v of None \<Rightarrow> m | Some x \<Rightarrow> f x)"
  by (cases v) auto

lemma keeps_case_sum [keeps_intro]:
  "(\<And>x. keeps R (f x)) \<Longrightarrow> (\<And>x. keeps R (g x)) \<Longrightarrow> keeps R (case v of Inl x \<Rightarrow> f x | Inr x \<Rightarrow> g x)"
  by (cases v) auto

lemma keeps_case_list [keeps_intro]:
  "keeps R m \<Longrightarrow> (\<And>x xs. keeps R (f x xs)) \<Longrightarrow> keeps R (case v of [] \<Rightarrow> m | x # xs \<Rightarrow> f x xs)"
  by (cases v) auto

lemma keeps_case_prod [keeps_intro]:
  "(\<And>x y. keeps R (f x y)) \<Longrightarrow> keeps R (case v of (x, y) \<Rightarrow> f x y)"
  by (cases v) auto

lemma keeps_Let [keeps_intro]: "(\<And>x. keeps R (f x)) \<Longrightarrow> keeps R (let x = v in f x)"
  by simp

lemma keepsD: "keeps R m \<Longrightarrow> m s = (r, s') \<Longrightarrow> R s s'"
  by (metis keeps_def snd_conv)

end
