(* ===== verification/Activity.thy ===== *)
theory Activity
  imports Gw_Prelude "HOL-Library.Word"
begin

text \<open>
  The activity bus (\<open>internal/activity/bus.go\<close>): a ring buffer of the newest events behind the
  Activity panes. Events, the bus, \<open>New\<close>, \<open>Emit\<close> (its two critical sections, and the whole of it),
  \<open>Since\<close> and \<open>Snapshot\<close>, and the eight call-site helpers. Time stamps come in as arguments; the
  sequence number is a 64-bit word compared as a signed integer, as \<open>int64\<close> is.
\<close>

section \<open>State\<close>

text \<open>Values of an event's \<open>Detail\<close> map.\<close>

datatype aval = AStr string | ABool bool | AInt int | AStrs "string list"

type_synonym detail = "(string \<times> aval) list"

definition Inbound :: string where "Inbound = ''inbound''"
definition Runtime :: string where "Runtime = ''runtime''"
definition Outbound :: string where "Outbound = ''outbound''"

definition defaultCap :: int where "defaultCap = 500"

record event =
  ev_ID :: "64 word"
  ev_TS :: int
  ev_Channel :: string
  ev_Level :: string
  ev_Op :: string
  ev_Message :: string
  ev_Detail :: detail
  ev_DryRun :: bool

text \<open>A line mirrored to the container log: prefix, operation, message, detail if not empty.\<close>

record log_line =
  ll_prefix :: string
  ll_op :: string
  ll_message :: string
  ll_detail :: "detail option"

record bus =
  b_seq :: "64 word"
  b_cap :: nat
  b_ring :: "event list"
  b_log :: "log_line list"

definition bus_New :: "int \<Rightarrow> bus" where
  "bus_New capacity = (let capacity = (if capacity < 4 then 4 else capacity) in
     \<lparr>b_seq = 0, b_cap = nat capacity, b_ring = [], b_log = []\<rparr>)"

definition defaultBus :: bus where
  "defaultBus = bus_New defaultCap"

section \<open>Operations\<close>

text \<open>
  \<open>Emit\<close> takes the sequence number atomically (\<open>emit_alloc\<close>) before it takes the lock under which
  the event enters the ring (\<open>emit_append\<close>); other goroutines may run in between.
\<close>

definition emit_alloc :: "int \<Rightarrow> string \<Rightarrow> string \<Rightarrow> string \<Rightarrow> string \<Rightarrow> detail \<Rightarrow> bus \<Rightarrow> event \<times> bus" where
  "emit_alloc now ch level op message detail b =
     (let level = (if level = '''' then ''info'' else level);
          b' = b\<lparr>b_seq := b_seq b + 1\<rparr>
      in (\<lparr>ev_ID = b_seq b', ev_TS = now, ev_Channel = ch, ev_Level = level, ev_Op = op,
           ev_Message = message, ev_Detail = detail, ev_DryRun = (level = ''dryrun'')\<rparr>, b'))"

text \<open>
  \<open>copy(ring[0:], ring[1:])\<close> moves every element one place down and leaves the last one in place;
  then the last slot is overwritten.
\<close>

definition emit_append :: "event \<Rightarrow> bus \<Rightarrow> bus" where
  "emit_append ev b =
     (if b_cap b \<le> length (b_ring b)
      then b\<lparr>b_ring := (tl (b_ring b) @ [last (b_ring b)])[b_cap b - 1 := ev]\<rparr>
      else b\<lparr>b_ring := b_ring b @ [ev]\<rparr>)"

definition emit_mirror :: "event \<Rightarrow> bus \<Rightarrow> bus" where
  "emit_mirror ev b =
     (let prefix = ev_Channel ev @ (if ev_DryRun ev then ''/DRY-RUN'' else '''')
      in b\<lparr>b_log := b_log b @ [\<lparr>ll_prefix = prefix, ll_op = ev_Op ev, ll_message = ev_Message ev,
             ll_detail = (if ev_Detail ev \<noteq> [] then Some (ev_Detail ev) else None)\<rparr>]\<rparr>)"

definition Emit :: "int \<Rightarrow> string \<Rightarrow> string \<Rightarrow> string \<Rightarrow> string \<Rightarrow> detail \<Rightarrow> bus \<Rightarrow> event \<times> bus" where
  "Emit now ch level op message detail b =
     (case emit_alloc now ch level op message detail b of
        (ev, b') \<Rightarrow> (ev, emit_mirror ev (emit_append ev b')))"

text \<open>The loop of \<open>Since\<close>, with the slice \<open>out\<close> it fills and its \<open>continue\<close>s and \<open>break\<close>.\<close>

fun since_loop :: "64 word \<Rightarrow> string \<Rightarrow> int \<Rightarrow> event list \<Rightarrow> event list \<Rightarrow> event list" where
  "since_loop afterID ch limit out [] = out"
| "since_loop afterID ch limit out (ev # ring) =
     (if ev_ID ev \<le>s afterID then since_loop afterID ch limit out ring
      else if ch \<noteq> '''' \<and> ev_Channel ev \<noteq> ch then since_loop afterID ch limit out ring
      else let out = out @ [ev] in
        if limit \<le> int (length out) then out else since_loop afterID ch limit out ring)"

definition Since :: "64 word \<Rightarrow> string \<Rightarrow> int \<Rightarrow> bus \<Rightarrow> event list" where
  "Since afterID ch limit b =
     (let limit = (if limit \<le> 0 \<or> int (b_cap b) < limit then int (b_cap b) else limit)
      in since_loop afterID ch limit [] (b_ring b))"

definition Snapshot :: "string \<Rightarrow> int \<Rightarrow> bus \<Rightarrow> event list" where
  "Snapshot ch limit b =
     (let limit = (if limit \<le> 0 then 200 else limit);
          filtered = filter (\<lambda>ev. \<not> (ch \<noteq> '''' \<and> ev_Channel ev \<noteq> ch)) (b_ring b)
      in if limit < int (length filtered) then drop (length filtered - nat limit) filtered else filtered)"

text \<open>Call-site helpers, on the process-wide bus.\<close>

definition act_In :: "int \<Rightarrow> string \<Rightarrow> string \<Rightarrow> detail \<Rightarrow> bus \<Rightarrow> bus" where
  "act_In now op message detail b = snd (Emit now Inbound ''info'' op message detail b)"

definition act_InErr :: "int \<Rightarrow> string \<Rightarrow> string \<Rightarrow> detail \<Rightarrow> bus \<Rightarrow> bus" where
  "act_InErr now op message detail b = snd (Emit now Inbound ''error'' op message detail b)"

definition act_Run :: "int \<Rightarrow> string \<Rightarrow> string \<Rightarrow> detail \<Rightarrow> bus \<Rightarrow> bus" where
  "act_Run now op message detail b = snd (Emit now Runtime ''info'' op message detail b)"

definition act_RunWarn :: "int \<Rightarrow> string \<Rightarrow> string \<Rightarrow> detail \<Rightarrow> bus \<Rightarrow> bus" where
  "act_RunWarn now op message detail b = snd (Emit now Runtime ''warn'' op message detail b)"

definition act_RunErr :: "int \<Rightarrow> string \<Rightarrow> string \<Rightarrow> detail \<Rightarrow> bus \<Rightarrow> bus" where
  "act_RunErr now op message detail b = snd (Emit now Runtime ''error'' op message detail b)"

definition act_Out :: "int \<Rightarrow> string \<Rightarrow> string \<Rightarrow> detail \<Rightarrow> bus \<Rightarrow> bus" where
  "act_Out now op message detail b = snd (Emit now Outbound ''info'' op message detail b)"

definition act_OutDry :: "int \<Rightarrow> string \<Rightarrow> string \<Rightarrow> detail \<Rightarrow> bus \<Rightarrow> bus" where
  "act_OutDry now op message detail b = snd (Emit now Outbound ''dryrun'' op message detail b)"

definition act_OutErr :: "int \<Rightarrow> string \<Rightarrow> string \<Rightarrow> detail \<Rightarrow> bus \<Rightarrow> bus" where
  "act_OutErr now op message detail b = snd (Emit now Outbound ''error'' op message detail b)"

section \<open>Sequential use: the newest events, in order, with consecutive ids\<close>

text \<open>The ring is a sliding window: appending keeps the newest \<open>cap\<close> events.\<close>

definition ring_window :: "nat \<Rightarrow> event list \<Rightarrow> event list" where
  "ring_window n xs = drop (length xs - n) xs"

definition bus_wf :: "bus \<Rightarrow> bool" where
  "bus_wf b \<longleftrightarrow> 4 \<le> b_cap b \<and> length (b_ring b) \<le> b_cap b \<and> length (b_ring b) \<le> unat (b_seq b) \<and>
     map (unat \<circ> ev_ID) (b_ring b) = [Suc (unat (b_seq b) - length (b_ring b)) ..< Suc (unat (b_seq b))]"

lemma emit_append_ring:
  assumes "length (b_ring b) \<le> b_cap b" "0 < b_cap b"
  shows "b_ring (emit_append ev b) = ring_window (b_cap b) (b_ring b @ [ev])"
proof (cases "b_cap b \<le> length (b_ring b)")
  case True
  with assms have len: "length (b_ring b) = b_cap b" and ne: "b_ring b \<noteq> []" by auto
  obtain x xs where "b_ring b = x # xs" using ne by (cases "b_ring b") auto
  moreover from this len have "b_cap b = Suc (length xs)" by simp
  ultimately show ?thesis
    by (simp add: emit_append_def ring_window_def list_update_append)
next
  case False
  then show ?thesis by (simp add: emit_append_def ring_window_def)
qed

lemma emit_append_frame [simp]:
  "b_seq (emit_append ev b) = b_seq b" "b_cap (emit_append ev b) = b_cap b"
  by (simp_all add: emit_append_def)

lemma emit_mirror_frame [simp]:
  "b_seq (emit_mirror ev b) = b_seq b" "b_cap (emit_mirror ev b) = b_cap b"
  "b_ring (emit_mirror ev b) = b_ring b"
  by (simp_all add: emit_mirror_def Let_def)

lemma Emit_frame:
  assumes "Emit now ch level op message detail b = (ev, b')"
  shows "b_cap b' = b_cap b" "b_seq b' = b_seq b + 1" "ev_ID ev = b_seq b + 1"
    "b_ring b' = b_ring (emit_append ev b)" "ev_Channel ev = ch"
  using assms by (auto simp: Emit_def emit_alloc_def emit_append_def Let_def)

lemma bus_wf_New: "bus_wf (bus_New c)"
  by (auto simp: bus_wf_def bus_New_def Let_def)

lemma unat_seq_Suc: "unat (s :: 64 word) < 2 ^ 63 - 1 \<Longrightarrow> unat (s + 1) = Suc (unat s)"
  by (simp add: unat_word_ariths)

lemma drop_upt_window: "drop k [a ..< b] = [a + k ..< b]"
  by simp

lemma bus_wf_Emit:
  assumes wf: "bus_wf b" and small: "unat (b_seq b) < 2 ^ 63 - 1"
    and em: "Emit now ch level op message detail b = (ev, b')"
  shows "bus_wf b'" and "b_ring b' = ring_window (b_cap b) (b_ring b @ [ev])"
proof -
  note fr = Emit_frame [OF em]
  have cap: "0 < b_cap b" "length (b_ring b) \<le> b_cap b" "4 \<le> b_cap b"
    using wf by (auto simp: bus_wf_def)
  from emit_append_ring [OF cap(2,1)] fr(4)
  show ring: "b_ring b' = ring_window (b_cap b) (b_ring b @ [ev])" by simp
  let ?n = "unat (b_seq b)" and ?l = "length (b_ring b)"
  have seq: "unat (b_seq b') = Suc ?n" using fr(2) small unat_seq_Suc by simp
  have ids: "map (unat \<circ> ev_ID) (b_ring b @ [ev]) = [Suc (?n - ?l) ..< Suc (Suc ?n)]"
    using wf seq fr(2,3) by (simp add: bus_wf_def)
  have l: "?l \<le> ?n" using wf by (simp add: bus_wf_def)
  have "map (unat \<circ> ev_ID) (b_ring b') = drop (Suc ?l - b_cap b) [Suc (?n - ?l) ..< Suc (Suc ?n)]"
    by (simp only: ring ring_window_def drop_map [symmetric] ids [symmetric] length_append) simp
  also have "\<dots> = [Suc (?n - ?l) + (Suc ?l - b_cap b) ..< Suc (Suc ?n)]" by (rule drop_upt_window)
  also have "\<dots> = [Suc (Suc ?n - length (b_ring b')) ..< Suc (Suc ?n)]"
    using l cap by (simp add: ring ring_window_def)
  finally have ids': "map (unat \<circ> ev_ID) (b_ring b') = [Suc (Suc ?n - length (b_ring b')) ..< Suc (Suc ?n)]" .
  have "length (b_ring b') \<le> b_cap b" "length (b_ring b') \<le> Suc ?n"
    using cap l by (auto simp: ring ring_window_def)
  with ids' cap seq fr(1) show "bus_wf b'" by (simp only: bus_wf_def)
qed

subsection \<open>What readers get\<close>

lemma since_loop_eq:
  assumes "int (length out) < limit"
  shows "since_loop a ch limit out ring =
     out @ take (nat limit - length out) (filter (\<lambda>ev. \<not> ev_ID ev \<le>s a \<and> (ch = '''' \<or> ev_Channel ev = ch)) ring)"
  using assms
proof (induction ring arbitrary: out)
  case Nil
  then show ?case by simp
next
  case (Cons ev ring)
  show ?case
  proof (cases "\<not> ev_ID ev \<le>s a \<and> (ch = '''' \<or> ev_Channel ev = ch)")
    case True
    show ?thesis
    proof (cases "limit \<le> int (length (out @ [ev]))")
      case True2: True
      with Cons.prems have "nat limit - length out = 1" by simp
      with True True2 show ?thesis by (auto simp: Let_def)
    next
      case False
      then have "nat limit - length out = Suc (nat limit - length (out @ [ev]))" by simp
      with Cons.IH [of "out @ [ev]"] True False show ?thesis by (auto simp: Let_def)
    qed
  next
    case False
    with Cons.IH [OF Cons.prems] show ?thesis by auto
  qed
qed

lemma Since_eq:
  assumes "0 < b_cap b"
  shows "Since a ch limit b =
    take (if limit \<le> 0 \<or> int (b_cap b) < limit then b_cap b else nat limit)
      (filter (\<lambda>ev. \<not> ev_ID ev \<le>s a \<and> (ch = '''' \<or> ev_Channel ev = ch)) (b_ring b))"
  using assms by (auto simp: Since_def Let_def since_loop_eq)

lemma Snapshot_eq:
  "Snapshot ch limit b = ring_window (if limit \<le> 0 then 200 else nat limit)
     (filter (\<lambda>ev. ch = '''' \<or> ev_Channel ev = ch) (b_ring b))"
  by (auto simp: Snapshot_def Let_def ring_window_def)

subsection \<open>Whole runs\<close>

type_synonym emit_args = "int \<times> string \<times> string \<times> string \<times> string \<times> detail"

fun emit_all :: "emit_args list \<Rightarrow> bus \<Rightarrow> event list \<times> bus" where
  "emit_all [] b = ([], b)"
| "emit_all ((now, ch, level, op, message, detail) # xs) b =
     (let (ev, b1) = Emit now ch level op message detail b; (evs, b2) = emit_all xs b1 in (ev # evs, b2))"

lemma ring_window_window: "ring_window n (ring_window n xs @ ys) = ring_window n (xs @ ys)"
  by (cases "length xs \<le> n") (auto simp: ring_window_def add.commute)

lemma emit_all_run:
  assumes "bus_wf b" "unat (b_seq b) + length xs < 2 ^ 63" "emit_all xs b = (evs, b')"
  shows "bus_wf b' \<and> b_cap b' = b_cap b \<and> unat (b_seq b') = unat (b_seq b) + length xs
    \<and> b_ring b' = ring_window (b_cap b) (b_ring b @ evs)
    \<and> map (unat \<circ> ev_ID) evs = [Suc (unat (b_seq b)) ..< Suc (unat (b_seq b) + length xs)]"
  using assms
proof (induction xs b arbitrary: evs b' rule: emit_all.induct)
  case (1 b)
  then show ?case by (auto simp: ring_window_def bus_wf_def)
next
  case (2 now ch level op message detail xs b)
  obtain ev b1 where e1: "Emit now ch level op message detail b = (ev, b1)" by fastforce
  obtain evs2 b2 where e2: "emit_all xs b1 = (evs2, b2)" by fastforce
  have small: "unat (b_seq b) < 2 ^ 63 - 1" using "2.prems"(2) by simp
  note s1 = bus_wf_Emit [OF "2.prems"(1) small e1] Emit_frame [OF e1]
  have seq: "unat (b_seq b1) = Suc (unat (b_seq b))" using s1(4) small unat_seq_Suc by simp
  with "2.prems"(2) have "unat (b_seq b1) + length xs < 2 ^ 63" by simp
  from "2.IH" [OF e1 [symmetric] refl s1(1) this e2] "2.prems"(3) e1 e2 s1 seq
  show ?case using ring_window_window [of "b_cap b" "b_ring b @ [ev]" evs2]
    by (auto simp: Let_def upt_conv_Cons not_less_eq_eq)
qed

text \<open>A poll past the oldest id kept in the ring returns the following ids with no gap.\<close>

lemma sint_small: "unat (x :: 64 word) < 2 ^ 63 \<Longrightarrow> sint x = int (unat x)"
proof -
  assume "unat x < 2 ^ 63"
  then have "int (unat x) < int (2 ^ 63)" by (simp only: of_nat_less_iff)
  then have hi: "uint x < 2 ^ 63" by (simp only: uint_nat of_nat_power of_nat_numeral)
  have "(0::int) \<le> uint x" by simp
  then have lo: "- (2 ^ 63) \<le> uint x" by (rule order_trans [rotated]) simp
  from signed_take_bit_int_eq_self [OF lo hi] have "signed_take_bit 63 (uint x) = int (unat x)"
    by (simp only: uint_nat)
  moreover have "sint x = signed_take_bit 63 (uint x)"
    by (subst sint_uint) simp
  ultimately show ?thesis by simp
qed

lemma filter_gt_upt: "filter (\<lambda>i. a < i) [m ..< n] = [max m (Suc a) ..< n]"
  by (induction n) (auto simp: max_def not_less)

lemma since_ids:
  assumes wf: "bus_wf b" and small: "unat (b_seq b) < 2 ^ 63" "unat a < 2 ^ 63"
  shows "map (unat \<circ> ev_ID) (filter (\<lambda>ev. \<not> ev_ID ev \<le>s a) (b_ring b)) =
     [max (Suc (unat (b_seq b) - length (b_ring b))) (Suc (unat a)) ..< Suc (unat (b_seq b))]"
proof -
  let ?ids = "[Suc (unat (b_seq b) - length (b_ring b)) ..< Suc (unat (b_seq b))]"
  have ids: "map (unat \<circ> ev_ID) (b_ring b) = ?ids" using wf by (simp add: bus_wf_def)
  have bnd: "unat (ev_ID ev) < 2 ^ 63" if "ev \<in> set (b_ring b)" for ev
  proof -
    from that have "unat (ev_ID ev) \<in> set (map (unat \<circ> ev_ID) (b_ring b))" by auto
    then have "unat (ev_ID ev) \<le> unat (b_seq b)" by (simp only: ids) auto
    then show ?thesis using small(1) by (rule le_less_trans)
  qed
  have "filter (\<lambda>ev. \<not> ev_ID ev \<le>s a) (b_ring b) = filter ((\<lambda>i. unat a < i) \<circ> (unat \<circ> ev_ID)) (b_ring b)"
    by (rule filter_cong [OF refl])
      (simp only: comp_apply word_sle_eq sint_small [OF bnd] sint_small [OF small(2)] of_nat_le_iff not_le)
  then have "map (unat \<circ> ev_ID) (filter (\<lambda>ev. \<not> ev_ID ev \<le>s a) (b_ring b)) = filter (\<lambda>i. unat a < i) ?ids"
    by (simp only: filter_map [symmetric] ids)
  then show ?thesis by (simp only: filter_gt_upt)
qed

section \<open>Concurrent emitters\<close>

text \<open>
  \<open>b.seq.Add(1)\<close> comes before \<open>b.mu.Lock()\<close>: an event whose id is taken may enter the ring after a
  later one. The system is the bus, the events between the two, and the number of ids taken so far
  (which the code does not keep; it is \<open>seq\<close> until the 64-bit counter wraps).
\<close>

record emit_sys =
  es_bus :: bus
  es_pending :: "event list"
  es_count :: nat

inductive emit_step :: "emit_sys \<Rightarrow> emit_sys \<Rightarrow> bool" where
  alloc: "emit_alloc now ch level op message detail (es_bus s) = (ev, b') \<Longrightarrow>
     emit_step s (s\<lparr>es_bus := b', es_pending := ev # es_pending s, es_count := Suc (es_count s)\<rparr>)"
| append: "ev \<in> set (es_pending s) \<Longrightarrow>
     emit_step s (s\<lparr>es_bus := emit_mirror ev (emit_append ev (es_bus s)), es_pending := remove1 ev (es_pending s)\<rparr>)"

inductive emit_reach :: "int \<Rightarrow> emit_sys \<Rightarrow> bool" for c :: int where
  start: "emit_reach c \<lparr>es_bus = bus_New c, es_pending = [], es_count = 0\<rparr>"
| step: "emit_reach c s \<Longrightarrow> emit_step s t \<Longrightarrow> emit_reach c t"

inductive_cases emit_stepE: "emit_step s t"

text \<open>
  What survives any interleaving: the ring never exceeds its capacity, and no id is in the system
  twice as long as the counter has not wrapped.
\<close>

definition emit_sys_inv :: "emit_sys \<Rightarrow> bool" where
  "emit_sys_inv s \<longleftrightarrow> 4 \<le> b_cap (es_bus s) \<and> length (b_ring (es_bus s)) \<le> b_cap (es_bus s) \<and>
     (es_count s < 2 ^ 63 \<longrightarrow> unat (b_seq (es_bus s)) = es_count s \<and>
       distinct (map ev_ID (b_ring (es_bus s) @ es_pending s)) \<and>
       (\<forall>ev \<in> set (b_ring (es_bus s) @ es_pending s). unat (ev_ID ev) \<le> es_count s))"

lemma emit_sys_inv_start: "emit_sys_inv \<lparr>es_bus = bus_New c, es_pending = [], es_count = 0\<rparr>"
  by (auto simp: emit_sys_inv_def bus_New_def Let_def)

lemma distinct_map_drop:
  assumes "distinct (map f (xs @ ys))"
  shows "distinct (map f (drop k xs @ ys))"
proof -
  from assms have inj: "inj_on f (set (xs @ ys))" and d: "distinct (xs @ ys)" by (simp_all only: distinct_map)
  have "set (drop k xs @ ys) \<subseteq> set (xs @ ys)" using set_drop_subset [of k xs] by auto
  with inj have "inj_on f (set (drop k xs @ ys))" by (rule inj_on_subset)
  moreover from d have "distinct (drop k xs @ ys)" by (auto dest: in_set_dropD)
  ultimately show ?thesis by (simp only: distinct_map)
qed

lemma distinct_move:
  assumes "distinct (map f (xs @ ys))" "y \<in> set ys"
  shows "distinct (map f ((xs @ [y]) @ remove1 y ys))"
proof -
  from assms(2) obtain as bs where ys: "ys = as @ y # bs" and "y \<notin> set as"
    by (auto dest: split_list_first)
  then have "remove1 y ys = as @ bs" by (simp add: remove1_append)
  with assms ys show ?thesis by auto
qed

lemma emit_step_inv:
  assumes "emit_step s t" "emit_sys_inv s"
  shows "emit_sys_inv t"
  using assms
proof (cases rule: emit_step.cases)
  case (alloc now ch level op message detail ev b')
  have b': "b' = es_bus s\<lparr>b_seq := b_seq (es_bus s) + 1\<rparr>" and id: "ev_ID ev = b_seq (es_bus s) + 1"
    using alloc(2) by (auto simp: emit_alloc_def Let_def)
  show ?thesis
  proof (cases "Suc (es_count s) < 2 ^ 63")
    case True
    with assms(2) have n: "unat (b_seq (es_bus s)) = es_count s" by (simp add: emit_sys_inv_def)
    with True have sq: "unat (b_seq (es_bus s) + 1) = Suc (es_count s)" by (simp add: unat_seq_Suc)
    have le: "\<forall>e \<in> set (b_ring (es_bus s) @ es_pending s). unat (ev_ID e) \<le> es_count s"
      using True assms(2) by (simp add: emit_sys_inv_def)
    then have new: "ev_ID ev \<notin> ev_ID ` set (b_ring (es_bus s) @ es_pending s)"
      using sq id by fastforce
    have "\<forall>e \<in> set (b_ring (es_bus s) @ es_pending s). unat (ev_ID e) \<le> Suc (es_count s)"
      using le by (auto intro: le_SucI)
    with True assms(2) n sq id b' alloc(1) new show ?thesis
      by (auto simp: emit_sys_inv_def)
  next
    case False
    with assms(2) alloc(1) b' show ?thesis by (simp add: emit_sys_inv_def)
  qed
next
  case (append ev)
  let ?b = "es_bus s"
  have cap: "4 \<le> b_cap ?b" "length (b_ring ?b) \<le> b_cap ?b" using assms(2) by (auto simp: emit_sys_inv_def)
  then have ring: "b_ring (emit_append ev ?b) = drop (Suc (length (b_ring ?b)) - b_cap ?b) (b_ring ?b @ [ev])"
    by (subst emit_append_ring) (auto simp: ring_window_def)
  have sub: "set (drop k (b_ring ?b @ [ev]) @ remove1 ev (es_pending s)) \<subseteq> set (b_ring ?b @ es_pending s)" for k
    using append(2) set_drop_subset [of k "b_ring ?b @ [ev]"] set_remove1_subset [of ev "es_pending s"]
    by auto
  have dist: "es_count s < 2 ^ 63 \<Longrightarrow>
      distinct (map ev_ID (drop k (b_ring ?b @ [ev]) @ remove1 ev (es_pending s)))" for k
    using assms(2) append(2)
    by (intro distinct_map_drop distinct_move) (simp_all only: emit_sys_inv_def)
  let ?k = "Suc (length (b_ring ?b)) - b_cap ?b"
  have t: "b_ring (es_bus t) = drop ?k (b_ring ?b @ [ev])" "es_pending t = remove1 ev (es_pending s)"
    "es_count t = es_count s" "b_seq (es_bus t) = b_seq ?b" "b_cap (es_bus t) = b_cap ?b"
    using append(1) ring by simp_all
  have "length (b_ring (es_bus t)) \<le> b_cap ?b" using cap by (simp add: t)
  moreover have "\<forall>e \<in> set (b_ring (es_bus t) @ es_pending t). unat (ev_ID e) \<le> es_count t" if "es_count s < 2 ^ 63"
    using assms(2) that sub [of ?k] unfolding emit_sys_inv_def t by blast
  ultimately show ?thesis
    using assms(2) cap(1) dist [of ?k] unfolding emit_sys_inv_def t by blast
qed

lemma emit_reach_inv: "emit_reach c s \<Longrightarrow> emit_sys_inv s"
  by (induction rule: emit_reach.induct) (auto intro: emit_sys_inv_start emit_step_inv)

section \<open>Properties\<close>

text \<open>
  After any sequence of \<open>Emit\<close> calls on a fresh bus the ring holds exactly the newest events, as
  many as the capacity (at least 4) allows, in the order they were emitted, and the events carry the
  ids 1, 2, 3, ... with no gap.
\<close>

theorem bus_keeps_newest:
  assumes "length xs < 2 ^ 63" and "emit_all xs (bus_New c) = (evs, b)"
  shows "b_cap b = nat (max 4 c) \<and> b_ring b = ring_window (b_cap b) evs
    \<and> map (unat \<circ> ev_ID) evs = [1 ..< Suc (length xs)]"
proof -
  have c: "b_cap (bus_New c) = nat (max 4 c)" "b_ring (bus_New c) = []" "unat (b_seq (bus_New c)) = 0"
    by (simp_all add: bus_New_def Let_def max_def)
  then have "unat (b_seq (bus_New c)) + length xs < 2 ^ 63" using assms(1) by simp
  from emit_all_run [OF bus_wf_New this assms(2)] c show ?thesis by simp
qed

theorem bus_keeps_newest_witness:
  "case emit_all (replicate 6 (0, Runtime, '''', ''op'', ''m'', [])) (bus_New 1) of (evs, b) \<Rightarrow>
     b_cap b = 4 \<and> b_ring b = ring_window 4 evs \<and> map (unat \<circ> ev_ID) evs = [1, 2, 3, 4, 5, 6]"
proof -
  let ?r = "emit_all (replicate 6 (0, Runtime, '''', ''op'', ''m'', [])) (bus_New 1)"
  have "[1 ..< Suc 6] = [1, 2, 3, 4, 5, 6::nat]" by code_simp
  then show ?thesis
    using bus_keeps_newest [of "replicate 6 (0, Runtime, '''', ''op'', ''m'', [])" 1 "fst ?r" "snd ?r"]
    by (auto split: prod.split)
qed



text \<open>
  However concurrent \<open>Emit\<close> calls interleave, the ring never grows past its capacity and no two
  events in it share an id, as long as fewer than 2 ^ 63 ids have been taken.
\<close>

theorem concurrent_emit_safe:
  assumes "emit_reach c s" and "es_count s < 2 ^ 63"
  shows "length (b_ring (es_bus s)) \<le> b_cap (es_bus s) \<and> distinct (map ev_ID (b_ring (es_bus s)))"
  using emit_reach_inv [OF assms(1)] assms(2) by (auto simp: emit_sys_inv_def)

definition race_event :: "64 word \<Rightarrow> event" where
  "race_event i = \<lparr>ev_ID = i, ev_TS = 0, ev_Channel = Runtime, ev_Level = ''info'', ev_Op = ''op'',
     ev_Message = ''m'', ev_Detail = [], ev_DryRun = False\<rparr>"

definition race_log :: log_line where
  "race_log = \<lparr>ll_prefix = Runtime, ll_op = ''op'', ll_message = ''m'', ll_detail = None\<rparr>"

definition race_bus :: "64 word \<Rightarrow> event list \<Rightarrow> log_line list \<Rightarrow> bus" where
  "race_bus n ring log = \<lparr>b_seq = n, b_cap = 500, b_ring = ring, b_log = log\<rparr>"

lemma race_run:
  "emit_reach 500 \<lparr>es_bus = race_bus 2 [race_event 2] [race_log], es_pending = [race_event 1], es_count = 2\<rparr>"
  "emit_step \<lparr>es_bus = race_bus 2 [race_event 2] [race_log], es_pending = [race_event 1], es_count = 2\<rparr>
     \<lparr>es_bus = race_bus 2 [race_event 2, race_event 1] [race_log, race_log], es_pending = [], es_count = 2\<rparr>"
proof -
  let ?s0 = "\<lparr>es_bus = bus_New 500, es_pending = [], es_count = 0\<rparr>"
  let ?s1 = "\<lparr>es_bus = race_bus 1 [] [], es_pending = [race_event 1], es_count = 1\<rparr>"
  let ?s2 = "\<lparr>es_bus = race_bus 2 [] [], es_pending = [race_event 2, race_event 1], es_count = 2\<rparr>"
  let ?s3 = "\<lparr>es_bus = race_bus 2 [race_event 2] [race_log], es_pending = [race_event 1], es_count = 2\<rparr>"
  note d = numeral_2_eq_2 race_bus_def race_event_def race_log_def emit_alloc_def emit_append_def emit_mirror_def Let_def
  have "emit_step ?s0 ?s1"
    using emit_step.alloc [of 0 Runtime "''''" "''op''" "''m''" "[]" ?s0 "race_event 1" "race_bus 1 [] []"]
    by (simp add: d bus_New_def)
  moreover have "emit_step ?s1 ?s2"
    using emit_step.alloc [of 0 Runtime "''''" "''op''" "''m''" "[]" ?s1 "race_event 2" "race_bus 2 [] []"]
    by (simp add: d)
  moreover have "emit_step ?s2 ?s3"
    using emit_step.append [of "race_event 2" ?s2] by (simp add: d)
  ultimately show "emit_reach 500 ?s3"
    by (blast intro: emit_reach.intros)
  show "emit_step ?s3 \<lparr>es_bus = race_bus 2 [race_event 2, race_event 1] [race_log, race_log], es_pending = [], es_count = 2\<rparr>"
    using emit_step.append [of "race_event 1" ?s3] by (simp add: d)
qed

theorem concurrent_emit_safe_witness:
  "length [race_event 2] \<le> 500 \<and> distinct (map ev_ID [race_event 2])"
  using concurrent_emit_safe [OF race_run(1)] by (simp add: race_bus_def)

text \<open>
  The order in which ids are taken is not the order in which events enter the ring: there is a
  run in which a poller that follows the documented protocol (ask for the events after the last id it
  saw) receives event 2, and event 1, which enters the ring afterwards, is in the ring but is not
  returned by its next poll.
\<close>

theorem since_can_lose_event:
  "\<exists>s t ev late. emit_reach defaultCap s \<and> emit_step s t \<and> Since 0 '''' 0 (es_bus s) = [ev] \<and>
     late \<in> set (b_ring (es_bus t)) \<and> late \<noteq> ev \<and> Since (ev_ID ev) '''' 0 (es_bus t) = []"
proof (intro exI conjI)
  show "emit_reach defaultCap \<lparr>es_bus = race_bus 2 [race_event 2] [race_log], es_pending = [race_event 1], es_count = 2\<rparr>"
    using race_run(1) by (simp add: defaultCap_def)
  show "race_event 1 \<noteq> race_event 2" by (simp add: race_event_def)
qed (rule race_run(2), simp_all add: Since_eq race_bus_def race_event_def word_sle_eq)

end
