(* ===== verification/Gw_Store.thy ===== *)
theory Gw_Store
  imports Gw_Prelude
begin

text \<open>
  The store (\<open>internal/store/store.go\<close>): vCenter endpoints by id, BIOS-UUID mappings by normalised
  UUID, the process-wide settings, and their image in \<open>state.json\<close>. Every exported operation is one
  definition; those that change state return the outcome and the new store.

  The file is modelled by what the code distinguishes in it: missing, unreadable, empty, not a JSON
  state, or the JSON text of a state. \<open>encoding/json\<close> writes and reads back the records used here
  (ASCII strings, booleans, an optional record) unchanged, so the text of a state is the state. What
  the operating system and \<open>crypto/rand\<close> decide comes in a \<open>store_env\<close>: failures of the three file
  operations, eight random bytes, and the orders in which the map loops run. Each operation holds the
  store's lock from its first to its last statement, so operations do not interleave.
\<close>

section \<open>Data\<close>

record secret_ref =
  sr_Name :: string
  sr_PasswordKey :: string
  sr_UsernameKey :: string

record vcenter =
  vc_ID :: string
  vc_Name :: string
  vc_URL :: string
  vc_Username :: string
  vc_Password :: string
  vc_Insecure :: bool
  vc_Datacenter :: string
  vc_Datastore :: string
  vc_Folder :: string
  vc_ISOFolder :: string
  vc_Notes :: string
  vc_DryRun :: bool
  vc_ConfigMap :: string
  vc_ConfigOrigin :: string
  vc_CredentialsSecret :: "secret_ref option"
  vc_PasswordSource :: string
  vc_HasPassword :: bool

definition OriginGitOps :: string where "OriginGitOps = ''gitops''"
definition OriginRuntime :: string where "OriginRuntime = ''runtime''"
definition PasswordFromSecret :: string where "PasswordFromSecret = ''secret''"
definition PasswordManual :: string where "PasswordManual = ''manual''"

text \<open>Go's zero value \<open>VCenter{}\<close>.\<close>

definition vcenter_zero :: vcenter where
  "vcenter_zero = \<lparr>vc_ID = '''', vc_Name = '''', vc_URL = '''', vc_Username = '''', vc_Password = '''',
     vc_Insecure = False, vc_Datacenter = '''', vc_Datastore = '''', vc_Folder = '''', vc_ISOFolder = '''',
     vc_Notes = '''', vc_DryRun = False, vc_ConfigMap = '''', vc_ConfigOrigin = '''',
     vc_CredentialsSecret = None, vc_PasswordSource = '''', vc_HasPassword = False\<rparr>"

record mapping =
  mp_UUID :: string
  mp_VCenterID :: string
  mp_Name :: string
  mp_Notes :: string

record settings =
  set_DryRun :: bool

record state_doc =
  sd_VCenters :: "vcenter list"
  sd_Mappings :: "mapping list"
  sd_Settings :: settings

datatype state_file =
    NoFile
  | Unreadable string
  | EmptyFile
  | NotJSON string
  | StateFile state_doc

record store =
  s_path :: string
  s_vcenters :: "(string, vcenter) fmap"
  s_byUUID :: "(string, mapping) fmap"
  s_settings :: settings
  s_file :: state_file

record store_env =
  se_mkdir :: "string option"
  se_write :: "string option"
  se_rename :: "string option"
  se_rand :: string
  se_vorder :: "string list"
  se_morder :: "string list"
  se_scan1 :: "string list"
  se_scan2 :: "string list"
  se_mscan :: "string list"

type_synonym 'a store_result = "(string + 'a) \<times> store"

section \<open>Normalisation\<close>

definition NormalizeUUID :: "string \<Rightarrow> string" where
  "NormalizeUUID u = ToLower (TrimSpace u)"

definition newID :: "store_env \<Rightarrow> string" where
  "newID env = hex_encode (se_rand env)"

definition unset_names :: "string list" where
  "unset_names = ['''', ''none'', ''notset'', ''not set'', ''n/a'', ''na'', ''-'', ''null'', ''undefined'']"

definition normalizeDatastore :: "string \<Rightarrow> string" where
  "normalizeDatastore s = (let s = TrimSpace s in
     if ToLower s \<in> set unset_names then '''' else s)"

definition default_iso :: string where "default_iso = ''rf2vc/isos''"

definition redact :: "vcenter \<Rightarrow> vcenter" where
  "redact vc = vc\<lparr>vc_HasPassword := (vc_Password vc \<noteq> ''''), vc_Password := '''',
     vc_Datastore := normalizeDatastore (vc_Datastore vc)\<rparr>"

section \<open>Persistence\<close>

definition snapshot :: "string list \<Rightarrow> string list \<Rightarrow> store \<Rightarrow> state_doc" where
  "snapshot vorder morder s = \<lparr>sd_VCenters = go_range vorder (s_vcenters s),
     sd_Mappings = go_range morder (s_byUUID s), sd_Settings = s_settings s\<rparr>"

text \<open>Write to a temporary file, then rename over \<open>state.json\<close>: a failure leaves the old file.\<close>

definition persistLocked :: "store_env \<Rightarrow> store \<Rightarrow> unit store_result" where
  "persistLocked env s =
     (let st = snapshot (se_vorder env) (se_morder env) s in
      case se_write env of Some e \<Rightarrow> (Inl e, s)
      | None \<Rightarrow> (case se_rename env of Some e \<Rightarrow> (Inl e, s)
          | None \<Rightarrow> (Inr (), s\<lparr>s_file := StateFile st\<rparr>)))"

definition load_vcenter :: "vcenter \<Rightarrow> (string, vcenter) fmap \<Rightarrow> (string, vcenter) fmap" where
  "load_vcenter vc m =
     (if vc_ID vc = '''' then m
      else let vc = (if vc_ISOFolder vc = '''' then vc\<lparr>vc_ISOFolder := default_iso\<rparr> else vc);
               vc = vc\<lparr>vc_Datastore := normalizeDatastore (vc_Datastore vc)\<rparr>
        in fmupd (vc_ID vc) vc m)"

definition load_mapping :: "mapping \<Rightarrow> (string, mapping) fmap \<Rightarrow> (string, mapping) fmap" where
  "load_mapping mp m =
     (let u = NormalizeUUID (mp_UUID mp) in
      if u = '''' \<or> mp_VCenterID mp = '''' then m
      else fmupd u (mp\<lparr>mp_UUID := u\<rparr>) m)"

definition store_load :: "store_env \<Rightarrow> store \<Rightarrow> unit store_result" where
  "store_load env s = (case s_file s of
       NoFile \<Rightarrow> persistLocked env s
     | Unreadable e \<Rightarrow> (Inl e, s)
     | EmptyFile \<Rightarrow> (Inr (), s)
     | NotJSON e \<Rightarrow> (Inl (''parse '' @ s_path s @ '': '' @ e), s)
     | StateFile st \<Rightarrow> (Inr (), s\<lparr>s_settings := sd_Settings st,
         s_vcenters := fold load_vcenter (sd_VCenters st) fmempty,
         s_byUUID := fold load_mapping (sd_Mappings st) fmempty\<rparr>))"

definition store_Open :: "store_env \<Rightarrow> string \<Rightarrow> state_file \<Rightarrow> string + store" where
  "store_Open env path file = (case se_mkdir env of Some e \<Rightarrow> Inl e | None \<Rightarrow>
     let s = \<lparr>s_path = path, s_vcenters = fmempty, s_byUUID = fmempty,
              s_settings = \<lparr>set_DryRun = False\<rparr>, s_file = file\<rparr>
     in case store_load env s of (Inl e, _) \<Rightarrow> Inl e | (Inr _, s') \<Rightarrow> Inr s')"

text \<open>The tail of every mutation: \<open>if err := s.persistLocked(); err != nil { return err }\<close>.\<close>

definition persist_return :: "store_env \<Rightarrow> 'a \<Rightarrow> store \<Rightarrow> 'a store_result" where
  "persist_return env x s = (case persistLocked env s of (Inl e, s') \<Rightarrow> (Inl e, s') | (Inr _, s') \<Rightarrow> (Inr x, s'))"

section \<open>Operations\<close>

definition SeedFromGOVC :: "store_env \<Rightarrow> (string \<Rightarrow> string) \<Rightarrow> store \<Rightarrow> bool store_result" where
  "SeedFromGOVC env getenv s =
     (let url = TrimSpace (getenv ''GOVC_URL'');
          user = TrimSpace (getenv ''GOVC_USERNAME'');
          pass = getenv ''GOVC_PASSWORD'';
          dc = TrimSpace (getenv ''GOVC_DATACENTER'');
          ds = normalizeDatastore (getenv ''GOVC_DATASTORE'')
      in if url = '''' \<or> user = '''' \<or> pass = '''' \<or> dc = '''' then (Inr False, s)
      else if 0 < go_len (s_vcenters s) then (Inr False, s)
      else let insecure = (EqualFold (getenv ''GOVC_INSECURE'') ''1'' \<or> EqualFold (getenv ''GOVC_INSECURE'') ''true'');
               iso = TrimSpace (getenv ''GOVC_ISO_FOLDER'');
               iso = (if iso = '''' then default_iso else iso);
               vc = vcenter_zero\<lparr>vc_ID := newID env, vc_Name := ''seeded-from-govc'', vc_URL := url,
                 vc_Username := user, vc_Password := pass, vc_Insecure := insecure, vc_Datacenter := dc,
                 vc_Datastore := ds, vc_Folder := TrimSpace (getenv ''GOVC_FOLDER''), vc_ISOFolder := iso,
                 vc_Notes := ''auto-seeded from GOVC_* env on first boot''\<rparr>
           in persist_return env True (s\<lparr>s_vcenters := fmupd (vc_ID vc) vc (s_vcenters s)\<rparr>))"

definition ListVCenters :: "string list \<Rightarrow> store \<Rightarrow> vcenter list" where
  "ListVCenters order s = map redact (go_range order (s_vcenters s))"

definition GetVCenter :: "string \<Rightarrow> store \<Rightarrow> vcenter option" where
  "GetVCenter vid s = map_option redact (fmlookup (s_vcenters s) vid)"

definition GetVCenterSecret :: "string \<Rightarrow> store \<Rightarrow> vcenter option" where
  "GetVCenterSecret vid s =
     map_option (\<lambda>vc. vc\<lparr>vc_Datastore := normalizeDatastore (vc_Datastore vc)\<rparr>) (fmlookup (s_vcenters s) vid)"

definition UpsertVCenter :: "store_env \<Rightarrow> vcenter \<Rightarrow> store \<Rightarrow> vcenter store_result" where
  "UpsertVCenter env vc s =
     (let vc = vc\<lparr>vc_Datastore := normalizeDatastore (vc_Datastore vc)\<rparr> in
      if vc_URL vc = '''' \<or> vc_Username vc = '''' \<or> vc_Datacenter vc = ''''
      then (Inl ''url, username, and datacenter are required'', s)
      else
        let vc = (if vc_Name vc = '''' then vc\<lparr>vc_Name := vc_URL vc\<rparr> else vc);
            vc = (if vc_ISOFolder vc = '''' then vc\<lparr>vc_ISOFolder := default_iso\<rparr> else vc)
        in if vc_ID vc = '''' then
             let vc = vc\<lparr>vc_ID := newID env\<rparr> in
             if vc_Password vc = '''' then (Inl ''password is required for new vCenter'', s)
             else
               let vc = vc\<lparr>vc_PasswordSource := PasswordManual, vc_ConfigMap := '''',
                     vc_ConfigOrigin := '''', vc_CredentialsSecret := None\<rparr>;
                   vc = vc\<lparr>vc_HasPassword := False\<rparr>
               in persist_return env (redact vc) (s\<lparr>s_vcenters := fmupd (vc_ID vc) vc (s_vcenters s)\<rparr>)
           else case fmlookup (s_vcenters s) (vc_ID vc) of
             None \<Rightarrow> (Inl (''vcenter '' @ vc_ID vc @ '' not found''), s)
           | Some existing \<Rightarrow>
               let vc = (if vc_Password vc = ''''
                     then vc\<lparr>vc_Password := vc_Password existing, vc_PasswordSource := vc_PasswordSource existing\<rparr>
                     else vc\<lparr>vc_PasswordSource := PasswordManual\<rparr>);
                   vc = vc\<lparr>vc_DryRun := vc_DryRun existing\<rparr>;
                   vc = vc\<lparr>vc_ConfigMap := vc_ConfigMap existing, vc_ConfigOrigin := vc_ConfigOrigin existing,
                     vc_CredentialsSecret := vc_CredentialsSecret existing\<rparr>;
                   vc = vc\<lparr>vc_HasPassword := False\<rparr>
               in persist_return env (redact vc) (s\<lparr>s_vcenters := fmupd (vc_ID vc) vc (s_vcenters s)\<rparr>))"

text \<open>
  The record a ConfigMap's vCenter is merged with: by id, else the first with the same ConfigMap, else
  the first with the same name that has no other ConfigMap.
\<close>

definition config_match :: "store_env \<Rightarrow> vcenter \<Rightarrow> store \<Rightarrow> vcenter option" where
  "config_match env inp s =
     (let byID = (if vc_ID inp = '''' then None else fmlookup (s_vcenters s) (vc_ID inp));
          byCM = (case byID of Some vc \<Rightarrow> Some vc | None \<Rightarrow>
            find (\<lambda>vc. vc_ConfigMap inp \<noteq> '''' \<and> vc_ConfigMap vc = vc_ConfigMap inp)
              (go_range (se_scan1 env) (s_vcenters s)))
      in case byCM of Some vc \<Rightarrow> Some vc | None \<Rightarrow>
           find (\<lambda>vc. vc_Name vc = vc_Name inp \<and> (vc_ConfigMap vc = '''' \<or> vc_ConfigMap vc = vc_ConfigMap inp))
             (go_range (se_scan2 env) (s_vcenters s)))"

text \<open>The three stages of the merge: defaults, identity and dry-run, password.\<close>

definition config_defaults :: "vcenter \<Rightarrow> vcenter" where
  "config_defaults inp =
     (let inp = (if vc_Name inp = '''' then inp\<lparr>vc_Name := vc_URL inp\<rparr> else inp);
          inp = (if vc_ISOFolder inp = '''' then inp\<lparr>vc_ISOFolder := default_iso\<rparr> else inp)
      in inp\<lparr>vc_Datastore := normalizeDatastore (vc_Datastore inp)\<rparr>)"

definition config_identity :: "store_env \<Rightarrow> vcenter option \<Rightarrow> bool option \<Rightarrow> vcenter \<Rightarrow> vcenter" where
  "config_identity env found dryRun inp =
     (let inp = (case found of
          Some existing \<Rightarrow> inp\<lparr>vc_ID := vc_ID existing, vc_DryRun := vc_DryRun existing\<rparr>
        | None \<Rightarrow> if vc_ID inp = '''' then inp\<lparr>vc_ID := newID env\<rparr> else inp)
      in case dryRun of Some d \<Rightarrow> inp\<lparr>vc_DryRun := d\<rparr> | None \<Rightarrow> inp)"

definition config_password :: "vcenter option \<Rightarrow> string \<Rightarrow> vcenter \<Rightarrow> vcenter" where
  "config_password found secretPassword inp =
     (let none = inp\<lparr>vc_Password := '''', vc_PasswordSource := ''''\<rparr> in
      if secretPassword \<noteq> ''''
      then inp\<lparr>vc_Password := secretPassword, vc_PasswordSource := PasswordFromSecret\<rparr>
      else case found of None \<Rightarrow> none
      | Some existing \<Rightarrow> if vc_Password existing = '''' then none
          else inp\<lparr>vc_Password := vc_Password existing,
            vc_PasswordSource := (if vc_PasswordSource existing = PasswordFromSecret
              then PasswordManual else vc_PasswordSource existing)\<rparr>)"

definition ApplyConfigVCenter ::
    "store_env \<Rightarrow> vcenter \<Rightarrow> bool option \<Rightarrow> string \<Rightarrow> store \<Rightarrow> vcenter store_result" where
  "ApplyConfigVCenter env inp dryRun secretPassword s =
     (if vc_URL inp = '''' \<or> vc_Datacenter inp = ''''
      then (Inl (''configmap '' @ vc_ConfigMap inp @ '': url and datacenter are required''), s)
      else
        let inp = config_defaults inp;
            found = config_match env inp s;
            inp = config_identity env found dryRun inp;
            inp = config_password found secretPassword inp;
            inp = inp\<lparr>vc_HasPassword := False\<rparr>
        in persist_return env (redact inp) (s\<lparr>s_vcenters := fmupd (vc_ID inp) inp (s_vcenters s)\<rparr>))"

definition SetVCenterConfigMap ::
    "store_env \<Rightarrow> string \<Rightarrow> string \<Rightarrow> string \<Rightarrow> secret_ref option \<Rightarrow> store \<Rightarrow> unit store_result" where
  "SetVCenterConfigMap env vid configMap origin ref s = (case fmlookup (s_vcenters s) vid of
       None \<Rightarrow> (Inl (''vcenter '' @ vid @ '' not found''), s)
     | Some vc \<Rightarrow>
         let vc = vc\<lparr>vc_ConfigMap := configMap, vc_ConfigOrigin := origin, vc_CredentialsSecret := ref\<rparr>
         in persistLocked env (s\<lparr>s_vcenters := fmupd vid vc (s_vcenters s)\<rparr>))"

definition GetSettings :: "store \<Rightarrow> settings" where
  "GetSettings s = s_settings s"

definition SetGlobalDryRun :: "store_env \<Rightarrow> bool \<Rightarrow> store \<Rightarrow> settings store_result" where
  "SetGlobalDryRun env on s =
     (let s' = s\<lparr>s_settings := (s_settings s)\<lparr>set_DryRun := on\<rparr>\<rparr> in persist_return env (s_settings s') s')"

definition SetVCenterDryRun :: "store_env \<Rightarrow> string \<Rightarrow> bool \<Rightarrow> store \<Rightarrow> vcenter store_result" where
  "SetVCenterDryRun env vid on s = (case fmlookup (s_vcenters s) vid of
       None \<Rightarrow> (Inl (''vcenter '' @ vid @ '' not found''), s)
     | Some vc \<Rightarrow> let vc = vc\<lparr>vc_DryRun := on\<rparr> in
         persist_return env (redact vc) (s\<lparr>s_vcenters := fmupd vid vc (s_vcenters s)\<rparr>))"

definition DryRunActive :: "string \<Rightarrow> store \<Rightarrow> bool" where
  "DryRunActive vcID s =
     (if set_DryRun (s_settings s) then True
      else case fmlookup (s_vcenters s) vcID of Some vc \<Rightarrow> vc_DryRun vc | None \<Rightarrow> False)"

definition DryRunForUUID :: "string \<Rightarrow> store \<Rightarrow> bool" where
  "DryRunForUUID uuid s =
     (if set_DryRun (s_settings s) then True
      else case fmlookup (s_byUUID s) (NormalizeUUID uuid) of None \<Rightarrow> False
      | Some m \<Rightarrow> (case fmlookup (s_vcenters s) (mp_VCenterID m) of Some vc \<Rightarrow> vc_DryRun vc | None \<Rightarrow> False))"

text \<open>Deleting while ranging: the loop visits the keys in \<open>order\<close> and drops the matching entries.\<close>

definition drop_mappings_of :: "string \<Rightarrow> string list \<Rightarrow> (string, mapping) fmap \<Rightarrow> (string, mapping) fmap" where
  "drop_mappings_of vid order m =
     fold (\<lambda>u m. case fmlookup m u of Some mp \<Rightarrow> if mp_VCenterID mp = vid then fmdrop u m else m | None \<Rightarrow> m) order m"

definition DeleteVCenter :: "store_env \<Rightarrow> string \<Rightarrow> store \<Rightarrow> unit store_result" where
  "DeleteVCenter env vid s = (case fmlookup (s_vcenters s) vid of
       None \<Rightarrow> (Inl (''vcenter '' @ vid @ '' not found''), s)
     | Some _ \<Rightarrow> persistLocked env (s\<lparr>s_byUUID := drop_mappings_of vid (se_mscan env) (s_byUUID s),
         s_vcenters := fmdrop vid (s_vcenters s)\<rparr>))"

definition ListMappings :: "string list \<Rightarrow> store \<Rightarrow> mapping list" where
  "ListMappings order s = go_range order (s_byUUID s)"

text \<open>The three results of \<open>LookupUUID\<close>: unmapped, mapped to a vCenter that is gone, or both.\<close>

definition LookupUUID :: "string \<Rightarrow> store \<Rightarrow> (mapping \<times> vcenter option) option" where
  "LookupUUID uuid s = (case fmlookup (s_byUUID s) (NormalizeUUID uuid) of None \<Rightarrow> None
     | Some m \<Rightarrow> Some (m, fmlookup (s_vcenters s) (mp_VCenterID m)))"

definition UpsertMapping :: "store_env \<Rightarrow> mapping \<Rightarrow> store \<Rightarrow> mapping store_result" where
  "UpsertMapping env m s =
     (let m = m\<lparr>mp_UUID := NormalizeUUID (mp_UUID m)\<rparr> in
      if mp_UUID m = '''' \<or> mp_VCenterID m = '''' then (Inl ''uuid and vcenterId are required'', s)
      else case fmlookup (s_vcenters s) (mp_VCenterID m) of
          None \<Rightarrow> (Inl (''vcenter '' @ mp_VCenterID m @ '' not found''), s)
        | Some _ \<Rightarrow> persist_return env m (s\<lparr>s_byUUID := fmupd (mp_UUID m) m (s_byUUID s)\<rparr>))"

definition DeleteMapping :: "store_env \<Rightarrow> string \<Rightarrow> store \<Rightarrow> unit store_result" where
  "DeleteMapping env uuid s =
     (let u = NormalizeUUID uuid in
      case fmlookup (s_byUUID s) u of None \<Rightarrow> (Inl (''mapping '' @ u @ '' not found''), s)
      | Some _ \<Rightarrow> persistLocked env (s\<lparr>s_byUUID := fmdrop u (s_byUUID s)\<rparr>))"

definition Stats :: "store \<Rightarrow> nat \<times> nat" where
  "Stats s = (go_len (s_vcenters s), go_len (s_byUUID s))"

section \<open>Laws of the parts\<close>

lemma NormalizeUUID_idem [simp]: "NormalizeUUID (NormalizeUUID u) = NormalizeUUID u"
  by (simp add: NormalizeUUID_def ToLower_TrimSpace)

lemma normalizeDatastore_idem [simp]: "normalizeDatastore (normalizeDatastore s) = normalizeDatastore s"
  by (auto simp: normalizeDatastore_def Let_def unset_names_def)

lemma default_iso_not_Nil [simp]: "default_iso \<noteq> ''''"
  by (simp add: default_iso_def)

lemma newID_not_Nil [simp]: "length (se_rand env) = 8 \<Longrightarrow> newID env \<noteq> ''''"
  by (metis Zero_not_Suc length_hex_encode list.size(3) mult_eq_0_iff newID_def numeral_2_eq_2 zero_neq_numeral)

lemma redact_simps [simp]:
  "vc_Password (redact vc) = ''''" "vc_ID (redact vc) = vc_ID vc" "vc_Name (redact vc) = vc_Name vc"
  "vc_ConfigMap (redact vc) = vc_ConfigMap vc" "vc_ConfigOrigin (redact vc) = vc_ConfigOrigin vc"
  "vc_CredentialsSecret (redact vc) = vc_CredentialsSecret vc" "vc_DryRun (redact vc) = vc_DryRun vc"
  "vc_PasswordSource (redact vc) = vc_PasswordSource vc" "vc_HasPassword (redact vc) = (vc_Password vc \<noteq> '''')"
  by (simp_all add: redact_def)

text \<open>Persisting never touches what is in memory.\<close>

lemma persist_memory [simp]:
  "s_vcenters (snd (persistLocked env s)) = s_vcenters s" "s_byUUID (snd (persistLocked env s)) = s_byUUID s"
  "s_settings (snd (persistLocked env s)) = s_settings s" "s_path (snd (persistLocked env s)) = s_path s"
  by (simp_all add: persistLocked_def Let_def split: option.split)

lemma persist_return_memory [simp]:
  "s_vcenters (snd (persist_return env x s)) = s_vcenters s" "s_byUUID (snd (persist_return env x s)) = s_byUUID s"
  "s_settings (snd (persist_return env x s)) = s_settings s" "s_path (snd (persist_return env x s)) = s_path s"
  by (simp_all add: persist_return_def persistLocked_def Let_def split: option.split)

lemma persist_return_Inr:
  "persist_return env x s = (Inr y, s') \<Longrightarrow>
     y = x \<and> s' = s\<lparr>s_file := StateFile (snapshot (se_vorder env) (se_morder env) s)\<rparr>"
  by (auto simp: persist_return_def persistLocked_def Let_def split: option.splits)

lemma persistLocked_Inr:
  "persistLocked env s = (Inr y, s') \<Longrightarrow> s' = s\<lparr>s_file := StateFile (snapshot (se_vorder env) (se_morder env) s)\<rparr>"
  by (auto simp: persistLocked_def Let_def split: option.splits)

lemma persist_healthy:
  assumes "se_write env = None" "se_rename env = None"
  shows "\<exists>s'. persistLocked env s = (Inr (), s')" "\<exists>s'. persist_return env x s = (Inr x, s')"
  using assms by (simp_all add: persistLocked_def persist_return_def Let_def)

lemma persist_return_snd: "snd (persist_return env x s) = snd (persistLocked env s)"
  by (simp add: persist_return_def split: prod.split sum.split)

section \<open>The operations as one transition function\<close>

datatype store_op =
    OpSeed "string \<Rightarrow> string"
  | OpUpsertVCenter vcenter
  | OpApplyConfig vcenter "bool option" string
  | OpSetConfigMap string string string "secret_ref option"
  | OpSetGlobalDryRun bool
  | OpSetVCenterDryRun string bool
  | OpDeleteVCenter string
  | OpUpsertMapping mapping
  | OpDeleteMapping string

definition forget :: "'a store_result \<Rightarrow> unit store_result" where
  "forget r = (case r of (Inl e, s) \<Rightarrow> (Inl e, s) | (Inr _, s) \<Rightarrow> (Inr (), s))"

fun run_op :: "store_env \<Rightarrow> store_op \<Rightarrow> store \<Rightarrow> unit store_result" where
  "run_op env (OpSeed getenv) s = forget (SeedFromGOVC env getenv s)"
| "run_op env (OpUpsertVCenter vc) s = forget (UpsertVCenter env vc s)"
| "run_op env (OpApplyConfig inp d pw) s = forget (ApplyConfigVCenter env inp d pw s)"
| "run_op env (OpSetConfigMap vid cm origin ref) s = SetVCenterConfigMap env vid cm origin ref s"
| "run_op env (OpSetGlobalDryRun on) s = forget (SetGlobalDryRun env on s)"
| "run_op env (OpSetVCenterDryRun vid on) s = forget (SetVCenterDryRun env vid on s)"
| "run_op env (OpDeleteVCenter vid) s = DeleteVCenter env vid s"
| "run_op env (OpUpsertMapping m) s = forget (UpsertMapping env m s)"
| "run_op env (OpDeleteMapping u) s = DeleteMapping env u s"

lemma forget_snd [simp]: "snd (forget r) = snd r"
  by (simp add: forget_def split: prod.split sum.split)

lemma forget_Inr: "forget r = (Inr (), s) \<longleftrightarrow> (\<exists>x. r = (Inr x, s))"
  by (auto simp: forget_def split: prod.splits sum.splits)

lemma forget_Inl: "forget r = (Inl e, s) \<longleftrightarrow> r = (Inl e, s)"
  by (auto simp: forget_def split: prod.splits sum.splits)

lemmas store_op_defs = SeedFromGOVC_def UpsertVCenter_def ApplyConfigVCenter_def SetVCenterConfigMap_def
  SetGlobalDryRun_def SetVCenterDryRun_def DeleteVCenter_def UpsertMapping_def DeleteMapping_def

section \<open>Well-formedness\<close>

text \<open>What the in-memory maps promise: keys agree with the records, normalised and filled in.\<close>

definition vcenter_ok :: "string \<Rightarrow> vcenter \<Rightarrow> bool" where
  "vcenter_ok k vc \<longleftrightarrow> vc_ID vc = k \<and> k \<noteq> '''' \<and> vc_ISOFolder vc \<noteq> '''' \<and>
     normalizeDatastore (vc_Datastore vc) = vc_Datastore vc"

definition mapping_ok :: "string \<Rightarrow> mapping \<Rightarrow> bool" where
  "mapping_ok u m \<longleftrightarrow> mp_UUID m = u \<and> NormalizeUUID u = u \<and> u \<noteq> '''' \<and> mp_VCenterID m \<noteq> ''''"

definition store_ok :: "store \<Rightarrow> bool" where
  "store_ok s \<longleftrightarrow> (\<forall>k vc. fmlookup (s_vcenters s) k = Some vc \<longrightarrow> vcenter_ok k vc) \<and>
     (\<forall>u m. fmlookup (s_byUUID s) u = Some m \<longrightarrow> mapping_ok u m)"

text \<open>Every mapping points at a vCenter that exists.\<close>

definition refs_ok :: "store \<Rightarrow> bool" where
  "refs_ok s \<longleftrightarrow> (\<forall>u m. fmlookup (s_byUUID s) u = Some m \<longrightarrow> fmlookup (s_vcenters s) (mp_VCenterID m) \<noteq> None)"

lemma store_ok_vcenter: "store_ok s \<Longrightarrow> fmlookup (s_vcenters s) k = Some vc \<Longrightarrow> vcenter_ok k vc"
  by (simp add: store_ok_def)

lemma store_ok_mapping: "store_ok s \<Longrightarrow> fmlookup (s_byUUID s) u = Some m \<Longrightarrow> mapping_ok u m"
  by (simp add: store_ok_def)

lemma ok_persist [simp]:
  "store_ok (snd (persistLocked env s)) = store_ok s" "store_ok (snd (persist_return env x s)) = store_ok s"
  "refs_ok (snd (persistLocked env s)) = refs_ok s" "refs_ok (snd (persist_return env x s)) = refs_ok s"
  by (simp_all add: store_ok_def refs_ok_def)

lemma store_ok_settings [simp]: "store_ok (s\<lparr>s_settings := x\<rparr>) = store_ok s"
  by (simp add: store_ok_def)

lemma refs_ok_settings [simp]: "refs_ok (s\<lparr>s_settings := x\<rparr>) = refs_ok s"
  by (simp add: refs_ok_def)

lemma store_ok_put_vcenter [go_inv]:
  "store_ok s \<Longrightarrow> vcenter_ok k vc \<Longrightarrow> store_ok (s\<lparr>s_vcenters := fmupd k vc (s_vcenters s)\<rparr>)"
  by (auto simp: store_ok_def)

lemma refs_ok_put_vcenter [go_inv]:
  "refs_ok s \<Longrightarrow> refs_ok (s\<lparr>s_vcenters := fmupd k vc (s_vcenters s)\<rparr>)"
  by (auto simp: refs_ok_def)

lemma config_match_stored:
  assumes "store_ok s" "config_match env inp s = Some vc"
  shows "fmlookup (s_vcenters s) (vc_ID vc) = Some vc"
proof -
  have "\<exists>k. fmlookup (s_vcenters s) k = Some vc"
    using assms(2) by (auto simp: config_match_def Let_def split: if_splits option.splits dest!: find_go_range_Some)
  then obtain k where k: "fmlookup (s_vcenters s) k = Some vc" by blast
  with store_ok_vcenter [OF assms(1)] have "vc_ID vc = k" by (auto simp: vcenter_ok_def)
  with k show ?thesis by simp
qed

lemma drop_mappings_lookup:
  "fmlookup (drop_mappings_of vid order m) u =
     (case fmlookup m u of None \<Rightarrow> None
      | Some mp \<Rightarrow> if u \<in> set order \<and> mp_VCenterID mp = vid then None else Some mp)"
proof -
  let ?f = "\<lambda>u m. case fmlookup m u of Some mp \<Rightarrow> if mp_VCenterID mp = vid then fmdrop u m else m | None \<Rightarrow> m"
  have "fmlookup (fold ?f ks m) u = (case fmlookup m u of None \<Rightarrow> None
      | Some mp \<Rightarrow> if u \<in> set ks \<and> mp_VCenterID mp = vid then None else Some mp)" for ks
    by (induction ks arbitrary: m) (auto split: option.splits if_splits)
  then show ?thesis by (simp add: drop_mappings_of_def)
qed

text \<open>
  Opening any file whatever gives a well-formed store; the file decides whether the references are.
\<close>

lemma load_vcenter_ok:
  assumes "\<forall>k vc. fmlookup m k = Some vc \<longrightarrow> vcenter_ok k vc"
  shows "\<forall>k vc. fmlookup (fold load_vcenter vcs m) k = Some vc \<longrightarrow> vcenter_ok k vc"
  using assms
proof (induction vcs arbitrary: m)
  case (Cons v vcs)
  have "\<forall>k vc. fmlookup (load_vcenter v m) k = Some vc \<longrightarrow> vcenter_ok k vc"
    using Cons.prems by (auto simp: load_vcenter_def Let_def vcenter_ok_def)
  from Cons.IH [OF this] show ?case by simp
qed simp

lemma load_mapping_ok:
  assumes "\<forall>k mp. fmlookup m k = Some mp \<longrightarrow> mapping_ok k mp"
  shows "\<forall>k mp. fmlookup (fold load_mapping mps m) k = Some mp \<longrightarrow> mapping_ok k mp"
  using assms
proof (induction mps arbitrary: m)
  case (Cons v mps)
  have "\<forall>k mp. fmlookup (load_mapping v m) k = Some mp \<longrightarrow> mapping_ok k mp"
    using Cons.prems by (auto simp: load_mapping_def Let_def mapping_ok_def)
  from Cons.IH [OF this] show ?case by simp
qed simp

lemma store_Open_Inr:
  assumes "store_Open env path file = Inr s"
  obtains s0 where "s0 = \<lparr>s_path = path, s_vcenters = fmempty, s_byUUID = fmempty,
      s_settings = \<lparr>set_DryRun = False\<rparr>, s_file = file\<rparr>" "store_load env s0 = (Inr (), s)"
  using assms by (auto simp: store_Open_def Let_def split: option.splits sum.splits prod.splits)

lemma store_ok_Open [go_inv]:
  assumes "store_Open env path file = Inr s"
  shows "store_ok s"
proof -
  obtain s0 where s0: "s0 = \<lparr>s_path = path, s_vcenters = fmempty, s_byUUID = fmempty,
      s_settings = \<lparr>set_DryRun = False\<rparr>, s_file = file\<rparr>" and l: "store_load env s0 = (Inr (), s)"
    using assms by (rule store_Open_Inr)
  show ?thesis
  proof (cases "file")
    case (StateFile st)
    then show ?thesis
      using l s0 load_vcenter_ok [of fmempty "sd_VCenters st"] load_mapping_ok [of fmempty "sd_Mappings st"]
      by (auto simp: store_load_def store_ok_def)
  next
    case NoFile
    then have "s = snd (persistLocked env s0)" using l s0 by (simp add: store_load_def)
    then show ?thesis using s0 by (simp add: store_ok_def)
  qed (use l s0 in \<open>auto simp: store_load_def store_ok_def\<close>)
qed

text \<open>Each operation keeps well-formedness, whatever fails.\<close>

lemma SeedFromGOVC_ok [go_inv]:
  assumes "store_ok s" "length (se_rand env) = 8"
  shows "store_ok (snd (SeedFromGOVC env getenv s))"
  using assms by (auto simp: SeedFromGOVC_def Let_def vcenter_ok_def intro!: store_ok_put_vcenter)

lemma UpsertVCenter_ok [go_inv]:
  assumes "store_ok s" "length (se_rand env) = 8"
  shows "store_ok (snd (UpsertVCenter env vc s))"
  using assms
  by (auto simp: UpsertVCenter_def Let_def vcenter_ok_def split: option.split intro!: store_ok_put_vcenter)

lemma config_stage_frames [simp]:
  "vc_ID (config_password found pw inp) = vc_ID inp"
  "vc_ISOFolder (config_password found pw inp) = vc_ISOFolder inp"
  "vc_Datastore (config_password found pw inp) = vc_Datastore inp"
  "vc_ISOFolder (config_identity env found d inp) = vc_ISOFolder inp"
  "vc_Datastore (config_identity env found d inp) = vc_Datastore inp"
  "vc_ISOFolder (config_defaults inp) \<noteq> ''''"
  "normalizeDatastore (vc_Datastore (config_defaults inp)) = vc_Datastore (config_defaults inp)"
  by (simp_all add: config_password_def config_identity_def config_defaults_def Let_def split: option.split)

lemma config_identity_ID:
  "vc_ID (config_identity env found d inp) = (case found of Some ex \<Rightarrow> vc_ID ex
     | None \<Rightarrow> if vc_ID inp = '''' then newID env else vc_ID inp)"
  by (simp add: config_identity_def Let_def split: option.split)

lemma ApplyConfigVCenter_ok [go_inv]:
  assumes "store_ok s" "length (se_rand env) = 8"
  shows "store_ok (snd (ApplyConfigVCenter env inp d pw s))"
proof -
  have m: "vc_ID ex \<noteq> ''''" if "config_match env i s = Some ex" for ex i
    using store_ok_vcenter [OF assms(1) config_match_stored [OF assms(1) that]] by (simp add: vcenter_ok_def)
  then have "vc_ID (config_identity env (config_match env i s) d i) \<noteq> ''''" for i
    using assms(2) by (simp add: config_identity_ID split: option.split)
  with assms(1) show ?thesis
    by (auto simp: ApplyConfigVCenter_def Let_def vcenter_ok_def intro!: store_ok_put_vcenter)
qed

lemma put_vcenter_at:
  assumes "store_ok s" "fmlookup (s_vcenters s) k = Some vc" "vc_ID vc' = vc_ID vc" "vc_ISOFolder vc' = vc_ISOFolder vc"
    "vc_Datastore vc' = vc_Datastore vc"
  shows "store_ok (s\<lparr>s_vcenters := fmupd k vc' (s_vcenters s)\<rparr>)"
  using assms store_ok_vcenter [OF assms(1,2)] by (auto simp: store_ok_def vcenter_ok_def)

lemma SetVCenterConfigMap_ok [go_inv]:
  "store_ok s \<Longrightarrow> store_ok (snd (SetVCenterConfigMap env vid cm origin ref s))"
  by (auto simp: SetVCenterConfigMap_def Let_def split: option.split intro: put_vcenter_at)

lemma SetVCenterDryRun_ok [go_inv]: "store_ok s \<Longrightarrow> store_ok (snd (SetVCenterDryRun env vid on s))"
  by (auto simp: SetVCenterDryRun_def Let_def split: option.split intro: put_vcenter_at)

lemma SetGlobalDryRun_ok [go_inv]: "store_ok s \<Longrightarrow> store_ok (snd (SetGlobalDryRun env on s))"
  by (simp add: SetGlobalDryRun_def Let_def)

lemma DeleteVCenter_ok [go_inv]: "store_ok s \<Longrightarrow> store_ok (snd (DeleteVCenter env vid s))"
  by (auto simp: DeleteVCenter_def store_ok_def drop_mappings_lookup split: option.splits if_splits)

lemma UpsertMapping_ok [go_inv]: "store_ok s \<Longrightarrow> store_ok (snd (UpsertMapping env m s))"
  by (auto simp: UpsertMapping_def Let_def store_ok_def mapping_ok_def split: option.split)

lemma DeleteMapping_ok [go_inv]: "store_ok s \<Longrightarrow> store_ok (snd (DeleteMapping env u s))"
  by (auto simp: DeleteMapping_def Let_def store_ok_def split: option.split)

lemma run_op_ok [go_inv]: "store_ok s \<Longrightarrow> length (se_rand env) = 8 \<Longrightarrow> store_ok (snd (run_op env op s))"
  by (cases op) (simp_all add: go_inv)

text \<open>Each operation keeps the references, provided the deletion loop visits every mapping.\<close>

lemma refs_ok_delete:
  assumes "refs_ok s" "iter_order order (s_byUUID s)"
  shows "refs_ok (s\<lparr>s_byUUID := drop_mappings_of vid order (s_byUUID s), s_vcenters := fmdrop vid (s_vcenters s)\<rparr>)"
proof -
  have "u \<in> set order" if "fmlookup (s_byUUID s) u = Some m" for u m
    using assms(2) that by (auto simp: iter_order_def fmdom'I)
  with assms(1) show ?thesis
    by (auto simp: refs_ok_def drop_mappings_lookup split: option.splits if_splits)
qed

lemma refs_ok_upsert_mapping:
  "refs_ok s \<Longrightarrow> fmlookup (s_vcenters s) (mp_VCenterID m) \<noteq> None \<Longrightarrow>
    refs_ok (s\<lparr>s_byUUID := fmupd (mp_UUID m) m (s_byUUID s)\<rparr>)"
  by (auto simp: refs_ok_def)

lemma run_op_refs [go_inv]:
  assumes "refs_ok s" "iter_order (se_mscan env) (s_byUUID s)"
  shows "refs_ok (snd (run_op env op s))"
proof (cases op)
  case (OpUpsertMapping m)
  let ?m = "m\<lparr>mp_UUID := NormalizeUUID (mp_UUID m)\<rparr>"
  show ?thesis using OpUpsertMapping assms(1) refs_ok_upsert_mapping [OF assms(1), of ?m]
    by (simp add: UpsertMapping_def Let_def split: option.split)
next
  case (OpDeleteMapping u)
  then show ?thesis using assms(1) by (auto simp: DeleteMapping_def Let_def refs_ok_def split: option.split)
next
  case (OpDeleteVCenter vid)
  then show ?thesis using assms refs_ok_delete [OF assms] by (simp add: DeleteVCenter_def split: option.split)
qed (use assms(1) in \<open>auto simp: store_op_defs Let_def split: option.split intro!: refs_ok_put_vcenter\<close>)

section \<open>Durability\<close>

text \<open>The file holds the state that is in memory.\<close>

definition in_sync :: "store \<Rightarrow> bool" where
  "in_sync s \<longleftrightarrow> (\<exists>vo mo. iter_order vo (s_vcenters s) \<and> iter_order mo (s_byUUID s) \<and>
     s_file s = StateFile (snapshot vo mo s))"

text \<open>The orders of an environment are iteration orders of the maps its loops range over.\<close>

definition env_ok :: "store_env \<Rightarrow> store_op \<Rightarrow> store \<Rightarrow> bool" where
  "env_ok env op s \<longleftrightarrow> length (se_rand env) = 8 \<and>
     iter_order (se_scan1 env) (s_vcenters s) \<and> iter_order (se_scan2 env) (s_vcenters s) \<and>
     iter_order (se_mscan env) (s_byUUID s) \<and>
     iter_order (se_vorder env) (s_vcenters (snd (run_op env op s))) \<and>
     iter_order (se_morder env) (s_byUUID (snd (run_op env op s)))"

lemma load_vcenters_go_range:
  assumes "\<And>k vc. fmlookup m k = Some vc \<Longrightarrow> vcenter_ok k vc"
  shows "fmlookup (fold load_vcenter (go_range ks m) acc) k =
     (if k \<in> set ks \<and> fmlookup m k \<noteq> None then fmlookup m k else fmlookup acc k)"
proof (induction ks arbitrary: acc)
  case (Cons j ks)
  show ?case
  proof (cases "fmlookup m j")
    case (Some vc)
    then have "load_vcenter vc acc = fmupd j vc acc"
      using assms [OF Some] by (simp add: load_vcenter_def vcenter_ok_def Let_def)
    with Some Cons.IH [of "fmupd j vc acc"] show ?thesis by auto
  qed (use Cons.IH in auto)
qed simp

lemma load_mappings_go_range:
  assumes "\<And>u mp. fmlookup m u = Some mp \<Longrightarrow> mapping_ok u mp"
  shows "fmlookup (fold load_mapping (go_range ks m) acc) u =
     (if u \<in> set ks \<and> fmlookup m u \<noteq> None then fmlookup m u else fmlookup acc u)"
proof (induction ks arbitrary: acc)
  case (Cons j ks)
  show ?case
  proof (cases "fmlookup m j")
    case (Some mp)
    then have "load_mapping mp acc = fmupd j mp acc"
      using assms [OF Some] by (auto simp: load_mapping_def mapping_ok_def Let_def)
    with Some Cons.IH [of "fmupd j mp acc"] show ?thesis by auto
  qed (use Cons.IH in auto)
qed simp

lemma reopen_in_sync:
  assumes ok: "store_ok s" and sync: "in_sync s" and env: "se_mkdir env = None"
  shows "\<exists>t. store_Open env path (s_file s) = Inr t \<and> s_vcenters t = s_vcenters s \<and>
     s_byUUID t = s_byUUID s \<and> s_settings t = s_settings s"
proof -
  obtain vo mo where o: "iter_order vo (s_vcenters s)" "iter_order mo (s_byUUID s)"
      "s_file s = StateFile (snapshot vo mo s)"
    using sync by (auto simp: in_sync_def)
  have "fold load_vcenter (go_range vo (s_vcenters s)) fmempty = s_vcenters s"
    using o(1) load_vcenters_go_range [OF store_ok_vcenter [OF ok], where ks = vo and acc = fmempty]
    by (intro fmap_ext) (auto simp: iter_order_def fmlookup_dom'_iff)
  moreover have "fold load_mapping (go_range mo (s_byUUID s)) fmempty = s_byUUID s"
    using o(2) load_mappings_go_range [OF store_ok_mapping [OF ok], where ks = mo and acc = fmempty]
    by (intro fmap_ext) (auto simp: iter_order_def fmlookup_dom'_iff)
  ultimately show ?thesis
    using o(3) env by (auto simp: store_Open_def store_load_def snapshot_def Let_def)
qed

text \<open>An operation that reports success and writes leaves file and memory in agreement.\<close>

lemma persistLocked_sync:
  assumes "persistLocked env s = (Inr (), s')" "iter_order (se_vorder env) (s_vcenters s')"
    "iter_order (se_morder env) (s_byUUID s')"
  shows "in_sync s'"
proof -
  have "s' = s\<lparr>s_file := StateFile (snapshot (se_vorder env) (se_morder env) s)\<rparr>"
    using assms(1) by (rule persistLocked_Inr)
  with assms(2,3) show ?thesis
    unfolding in_sync_def by (intro exI [of _ "se_vorder env"] exI [of _ "se_morder env"]) (simp add: snapshot_def)
qed

lemma persist_return_sync:
  assumes "persist_return env x s = (Inr y, s')" "iter_order (se_vorder env) (s_vcenters s')"
    "iter_order (se_morder env) (s_byUUID s')"
  shows "in_sync s'"
proof -
  from assms(1) have "persistLocked env s = (Inr (), s')"
    by (auto simp: persist_return_def split: prod.splits sum.splits)
  then show ?thesis using assms(2,3) by (rule persistLocked_sync)
qed

lemma run_op_sync:
  assumes env: "env_ok env op s" and run: "run_op env op s = (Inr (), s')" and w: "\<And>g. op \<noteq> OpSeed g"
  shows "in_sync s'"
proof -
  have o: "iter_order (se_vorder env) (s_vcenters s')" "iter_order (se_morder env) (s_byUUID s')"
    using env run by (auto simp: env_ok_def)
  show ?thesis
  proof (cases op)
    case (OpSeed g)
    with w show ?thesis by blast
  next
    case (OpSetConfigMap vid cm origin ref)
    with run o show ?thesis
      by (auto simp: SetVCenterConfigMap_def Let_def split: option.splits intro: persistLocked_sync)
  next
    case (OpDeleteVCenter vid)
    with run o show ?thesis by (auto simp: DeleteVCenter_def split: option.splits intro: persistLocked_sync)
  next
    case (OpDeleteMapping u)
    with run o show ?thesis
      by (auto simp: DeleteMapping_def Let_def split: option.splits intro: persistLocked_sync)
  qed (use run o in \<open>auto simp: forget_Inr store_op_defs Let_def split: option.splits if_splits intro: persist_return_sync\<close>)
qed

section \<open>Reachable stores\<close>

inductive store_reach :: "state_file \<Rightarrow> store \<Rightarrow> bool" for init :: state_file where
  opened: "store_Open env path init = Inr s \<Longrightarrow> store_reach init s"
| op: "store_reach init s \<Longrightarrow> env_ok env op s \<Longrightarrow> store_reach init (snd (run_op env op s))"

lemma store_reach_ok: "store_reach init s \<Longrightarrow> store_ok s"
proof (induction rule: store_reach.induct)
  case (opened env path s)
  then show ?case by (rule store_ok_Open)
next
  case (op s env op)
  then show ?case by (intro run_op_ok) (auto simp: env_ok_def)
qed

lemma refs_ok_fresh: "store_Open env path NoFile = Inr s \<Longrightarrow> refs_ok s"
  by (auto elim!: store_Open_Inr simp: store_load_def refs_ok_def dest!: persistLocked_Inr)

lemma store_reach_refs: "store_reach init s \<Longrightarrow> init = NoFile \<Longrightarrow> refs_ok s"
proof (induction rule: store_reach.induct)
  case (opened env path s)
  then show ?case by (auto intro: refs_ok_fresh)
next
  case (op s env op)
  then show ?case by (intro run_op_refs) (auto simp: env_ok_def)
qed

section \<open>The interface the routing clients rely on\<close>

text \<open>
  The Redfish and management handlers route a UUID through three reads of the store. What they rely
  on: lookups see UUIDs up to case and surrounding blanks, the mapping found is the one asked for, a
  vCenter found by \<open>lookup\<close> is the one \<open>secret\<close> returns for the mapping's id, and dry-run follows the
  mapping.
\<close>

locale uuid_router =
  fixes lookup :: "string \<Rightarrow> 's \<Rightarrow> (mapping \<times> vcenter option) option"
    and secret :: "string \<Rightarrow> 's \<Rightarrow> vcenter option"
    and dry_uuid :: "string \<Rightarrow> 's \<Rightarrow> bool"
    and dry_vc :: "string \<Rightarrow> 's \<Rightarrow> bool"
    and inv :: "'s \<Rightarrow> bool"
  assumes lookup_norm: "lookup (NormalizeUUID u) s = lookup u s"
    and dry_norm: "dry_uuid (NormalizeUUID u) s = dry_uuid u s"
    and lookup_id: "inv s \<Longrightarrow> lookup u s = Some (m, v) \<Longrightarrow> mp_UUID m = NormalizeUUID u"
    and lookup_secret: "lookup u s = Some (m, v) \<Longrightarrow> secret (mp_VCenterID m) s = None \<longleftrightarrow> v = None"
    and secret_id: "inv s \<Longrightarrow> secret k s = Some vc \<Longrightarrow> vc_ID vc = k"
    and dry_mapped: "lookup u s = Some (m, v) \<Longrightarrow> dry_uuid u s = dry_vc (mp_VCenterID m) s"
begin

lemma lookup_eq: "NormalizeUUID u = NormalizeUUID v \<Longrightarrow> lookup u s = lookup v s"
  by (metis lookup_norm)

lemma dry_eq: "NormalizeUUID u = NormalizeUUID v \<Longrightarrow> dry_uuid u s = dry_uuid v s"
  by (metis dry_norm)

lemma resolved:
  assumes "inv s" "lookup u s = Some (m, Some vc)"
  obtains full where "secret (mp_VCenterID m) s = Some full" "vc_ID full = mp_VCenterID m"
    "mp_UUID m = NormalizeUUID u" "dry_uuid u s = dry_vc (vc_ID full) s"
proof -
  from lookup_secret [OF assms(2)] obtain full where f: "secret (mp_VCenterID m) s = Some full" by auto
  then have "vc_ID full = mp_VCenterID m" by (rule secret_id [OF assms(1)])
  with f lookup_id [OF assms] dry_mapped [OF assms(2)] that show ?thesis by simp
qed

end

interpretation sr: uuid_router LookupUUID GetVCenterSecret DryRunForUUID DryRunActive store_ok
proof unfold_locales
  fix u m v s
  assume "store_ok s" "LookupUUID u s = Some (m, v)"
  then show "mp_UUID m = NormalizeUUID u"
    by (auto simp: LookupUUID_def split: option.splits dest: store_ok_mapping simp: mapping_ok_def)
next
  fix k vc s
  assume "store_ok s" "GetVCenterSecret k s = Some vc"
  then show "vc_ID vc = k"
    by (auto simp: GetVCenterSecret_def dest: store_ok_vcenter simp: vcenter_ok_def)
qed (auto simp: LookupUUID_def DryRunForUUID_def DryRunActive_def GetVCenterSecret_def split: option.splits)

section \<open>Properties\<close>

text \<open>
  Every store reachable by opening any file and running any operations, whatever the file and
  random environment does, is well formed: each vCenter sits under its own non-empty id with a
  non-empty ISO folder and a normalised datastore, each mapping under its own non-empty normalised
  UUID with a vCenter id. If the gateway started without a state file, every mapping also points at
  an existing vCenter.
\<close>

theorem store_well_formed:
  assumes "store_reach init s"
  shows "(\<forall>k vc. fmlookup (s_vcenters s) k = Some vc \<longrightarrow> vc_ID vc = k \<and> k \<noteq> '''' \<and> vc_ISOFolder vc \<noteq> ''''
            \<and> normalizeDatastore (vc_Datastore vc) = vc_Datastore vc)
    \<and> (\<forall>u m. fmlookup (s_byUUID s) u = Some m \<longrightarrow> mp_UUID m = u \<and> NormalizeUUID u = u \<and> u \<noteq> '''' \<and> mp_VCenterID m \<noteq> '''')
    \<and> (init = NoFile \<longrightarrow> (\<forall>u m. fmlookup (s_byUUID s) u = Some m \<longrightarrow> fmlookup (s_vcenters s) (mp_VCenterID m) \<noteq> None))"
  using store_reach_ok [OF assms] store_reach_refs [OF assms]
  by (simp add: store_ok_def refs_ok_def vcenter_ok_def mapping_ok_def)

definition demo_env :: "string list \<Rightarrow> string list \<Rightarrow> string list \<Rightarrow> store_env" where
  "demo_env v0 v m = \<lparr>se_mkdir = None, se_write = None, se_rename = None, se_rand = ''01234567'',
     se_vorder = v, se_morder = m, se_scan1 = v0, se_scan2 = v0, se_mscan = m\<rparr>"

definition demo_vc :: vcenter where
  "demo_vc = vcenter_zero\<lparr>vc_URL := ''https://vc.example'', vc_Username := ''u'', vc_Password := ''p'',
     vc_Datacenter := ''DC1'', vc_Datastore := ''NONE''\<rparr>"

definition demo_id :: string where "demo_id = ''3031323334353637''"

lemma demo_newID: "newID (demo_env v0 v m) = demo_id"
  by (simp add: newID_def demo_env_def demo_id_def go_str Let_def)

definition demo_store :: store where
  "demo_store = \<lparr>s_path = ''/data/state.json'', s_vcenters = fmempty, s_byUUID = fmempty,
     s_settings = \<lparr>set_DryRun = False\<rparr>,
     s_file = StateFile \<lparr>sd_VCenters = [], sd_Mappings = [], sd_Settings = \<lparr>set_DryRun = False\<rparr>\<rparr>\<rparr>"

lemma demo_open: "store_Open (demo_env [] [] []) ''/data/state.json'' NoFile = Inr demo_store"
  by (simp add: store_Open_def store_load_def persistLocked_def snapshot_def demo_env_def demo_store_def Let_def)

text \<open>The record the demo vCenter becomes, and the store after it is created and a UUID bound to it.\<close>

definition demo_stored :: vcenter where
  "demo_stored = demo_vc\<lparr>vc_ID := demo_id, vc_Name := ''https://vc.example'', vc_Datastore := '''',
     vc_ISOFolder := default_iso, vc_PasswordSource := PasswordManual\<rparr>"

definition demo_store1 :: store where
  "demo_store1 = demo_store\<lparr>s_vcenters := fmupd demo_id demo_stored fmempty,
     s_file := StateFile \<lparr>sd_VCenters = [demo_stored], sd_Mappings = [], sd_Settings = \<lparr>set_DryRun = False\<rparr>\<rparr>\<rparr>"

lemma normalizeDatastore_none: "normalizeDatastore ''NONE'' = ''''"
  by (simp add: normalizeDatastore_def unset_names_def go_str Let_def)

lemma demo_upsert: "UpsertVCenter (demo_env [] [demo_id] []) demo_vc demo_store = (Inr (redact demo_stored), demo_store1)"
  unfolding UpsertVCenter_def persist_return_def persistLocked_def snapshot_def demo_newID
  by (simp add: demo_vc_def demo_env_def demo_store_def demo_store1_def demo_stored_def vcenter_zero_def
      normalizeDatastore_none Let_def)

lemma iter_order_empty [simp]: "iter_order [] fmempty"
  by (simp add: iter_order_def)

lemma iter_order_single [simp]: "iter_order [k] (fmupd k v fmempty)"
  by (simp add: iter_order_def)

lemma demo_env_ok: "env_ok (demo_env [] [demo_id] []) (OpUpsertVCenter demo_vc) demo_store"
  unfolding env_ok_def by (simp add: demo_upsert) (simp add: demo_env_def demo_store_def demo_store1_def)

lemma demo_reach: "store_reach NoFile demo_store" "store_reach NoFile demo_store1"
proof -
  show 0: "store_reach NoFile demo_store" by (rule store_reach.opened [OF demo_open])
  from store_reach.op [OF 0 demo_env_ok] show "store_reach NoFile demo_store1" by (simp add: demo_upsert)
qed

theorem store_well_formed_witness:
  "vc_ISOFolder demo_stored \<noteq> '''' \<and> vc_ID demo_stored = demo_id"
  using store_well_formed [OF demo_reach(2)] by (simp add: demo_store1_def)

text \<open>
  C29: Durability. After any operation, other than the first-boot seeding, that reports success in a
  reachable store, restarting the gateway on the file it left reads back exactly the vCenters, the
  mappings and the settings that were in memory, in whatever order the maps were written.
\<close>

theorem store_survives_restart:
  assumes "store_reach init s" and "env_ok env op s" and "run_op env op s = (Inr (), s')"
    and "\<And>g. op \<noteq> OpSeed g" and "se_mkdir env' = None"
  shows "\<exists>t. store_Open env' path (s_file s') = Inr t \<and> s_vcenters t = s_vcenters s' \<and>
     s_byUUID t = s_byUUID s' \<and> s_settings t = s_settings s'"
proof (rule reopen_in_sync [OF _ _ assms(5)])
  have "store_reach init (snd (run_op env op s))" using assms(1,2) by (rule store_reach.op)
  then show "store_ok s'" using store_reach_ok assms(3) by fastforce
  show "in_sync s'" using assms(2-4) by (rule run_op_sync)
qed

theorem store_survives_restart_witness:
  "\<exists>t. store_Open (demo_env [] [] []) ''/data/state.json'' (s_file demo_store1) = Inr t \<and>
     s_vcenters t = s_vcenters demo_store1 \<and> s_byUUID t = s_byUUID demo_store1"
  using store_survives_restart [OF demo_reach(1) demo_env_ok, of demo_store1 "demo_env [] [] []" "''/data/state.json''"]
  by (auto simp: demo_upsert forget_Inr) (auto simp: demo_env_def)

text \<open>
  An operation the store refuses (missing fields, unknown vCenter or mapping) with a working disk
  changes nothing: memory and file stay as they were.
\<close>

theorem store_refusal_changes_nothing:
  assumes "run_op env op s = (Inl e, s')" and "se_write env = None" and "se_rename env = None"
  shows "s' = s"
  using assms
  by (cases op) (auto simp: forget_Inl store_op_defs Let_def persist_return_def persistLocked_def
      split: option.splits if_splits)

theorem store_refusal_changes_nothing_witness:
  "snd (run_op (demo_env [] [] []) (OpDeleteMapping ''AA'') demo_store) = demo_store"
proof -
  let ?r = "run_op (demo_env [] [] []) (OpDeleteMapping ''AA'') demo_store"
  have r: "fst ?r = Inl (''mapping '' @ NormalizeUUID ''AA'' @ '' not found'')"
    by (simp add: DeleteMapping_def demo_store_def Let_def)
  show ?thesis
    by (rule store_refusal_changes_nothing [of "demo_env [] [] []" "OpDeleteMapping ''AA''" _
          "''mapping '' @ NormalizeUUID ''AA'' @ '' not found''"])
      (use r in \<open>auto simp: prod_eq_iff demo_env_def\<close>)
qed

definition same_but_passwords :: "vcenter \<Rightarrow> vcenter \<Rightarrow> bool" where
  "same_but_passwords a b \<longleftrightarrow> a\<lparr>vc_Password := ''''\<rparr> = b\<lparr>vc_Password := ''''\<rparr> \<and>
     (vc_Password a = '''') = (vc_Password b = '''')"

lemma redact_same: "same_but_passwords a b \<Longrightarrow> redact a = redact b"
  by (cases a; cases b) (auto simp: same_but_passwords_def redact_def)

lemma go_range_same:
  assumes "\<And>k. rel_option same_but_passwords (fmlookup m k) (fmlookup m' k)"
  shows "map redact (go_range order m) = map redact (go_range order m')"
proof (induction order)
  case (Cons k ks)
  then show ?case using assms [of k] redact_same
    by (cases "fmlookup m k"; cases "fmlookup m' k") auto
qed simp

text \<open>
  C30: The store's answers never carry a password: every record a listing, a lookup for the management
  API or a successful mutation returns has an empty password, and the listing is the same whatever
  the passwords are, as long as the same vCenters have one.
\<close>

theorem store_never_reveals_passwords:
  "(\<forall>vc \<in> set (ListVCenters order s). vc_Password vc = '''')
   \<and> (\<forall>vc. GetVCenter vid s = Some vc \<longrightarrow> vc_Password vc = '''')
   \<and> (\<forall>vc. fst (UpsertVCenter env x s) = Inr vc \<longrightarrow> vc_Password vc = '''')
   \<and> (\<forall>vc. fst (ApplyConfigVCenter env x d pw s) = Inr vc \<longrightarrow> vc_Password vc = '''')
   \<and> (\<forall>vc. fst (SetVCenterDryRun env vid on s) = Inr vc \<longrightarrow> vc_Password vc = '''')
   \<and> ((\<forall>k. rel_option same_but_passwords (fmlookup (s_vcenters s) k) (fmlookup (s_vcenters t) k)) \<longrightarrow>
       ListVCenters order s = ListVCenters order t)"
proof (intro conjI impI)
  have p: "fst (persist_return env (redact v) u) = Inr vc \<longrightarrow> vc_Password vc = ''''" for v u vc
    by (auto simp: persist_return_def split: prod.splits sum.splits)
  show "\<forall>vc. fst (UpsertVCenter env x s) = Inr vc \<longrightarrow> vc_Password vc = ''''"
    by (simp add: UpsertVCenter_def Let_def p split: option.split)
  show "\<forall>vc. fst (ApplyConfigVCenter env x d pw s) = Inr vc \<longrightarrow> vc_Password vc = ''''"
    by (simp add: ApplyConfigVCenter_def Let_def p)
  show "\<forall>vc. fst (SetVCenterDryRun env vid on s) = Inr vc \<longrightarrow> vc_Password vc = ''''"
    by (simp add: SetVCenterDryRun_def Let_def p split: option.split)
  show "ListVCenters order s = ListVCenters order t"
    if "\<forall>k. rel_option same_but_passwords (fmlookup (s_vcenters s) k) (fmlookup (s_vcenters t) k)"
    using that by (simp add: ListVCenters_def go_range_same)
qed (auto simp: ListVCenters_def GetVCenter_def)

theorem store_never_reveals_passwords_witness:
  "ListVCenters [demo_id] demo_store1 =
     ListVCenters [demo_id] (demo_store1\<lparr>s_vcenters := fmupd demo_id (demo_stored\<lparr>vc_Password := ''other''\<rparr>) fmempty\<rparr>)"
proof -
  let ?t = "demo_store1\<lparr>s_vcenters := fmupd demo_id (demo_stored\<lparr>vc_Password := ''other''\<rparr>) fmempty\<rparr>"
  have "vc_Password demo_stored = ''p''" by (simp add: demo_stored_def demo_vc_def)
  then have "\<forall>k. rel_option same_but_passwords (fmlookup (s_vcenters demo_store1) k) (fmlookup (s_vcenters ?t) k)"
    by (auto simp: demo_store1_def same_but_passwords_def)
  then show ?thesis
    using store_never_reveals_passwords [where s = demo_store1 and t = ?t and order = "[demo_id]"] by blast
qed

text \<open>
  Binding a UUID takes effect for every spelling of it and for nothing else: after a successful
  \<open>UpsertMapping\<close>, looking up any UUID equal to it up to case and surrounding blanks finds the stored
  mapping with its vCenter and that vCenter's credentials, and every other UUID resolves as before.
\<close>

theorem mapping_lookup_after_upsert:
  assumes "UpsertMapping env m s = (Inr m', s')"
  shows "m' = m\<lparr>mp_UUID := NormalizeUUID (mp_UUID m)\<rparr> \<and>
    (\<exists>vc full. \<forall>u. LookupUUID u s' =
       (if NormalizeUUID u = NormalizeUUID (mp_UUID m) then Some (m', Some vc) else LookupUUID u s)
       \<and> GetVCenterSecret (mp_VCenterID m) s' = Some full)"
proof -
  obtain vc where vc: "fmlookup (s_vcenters s) (mp_VCenterID m) = Some vc"
    using assms by (auto simp: UpsertMapping_def Let_def split: if_splits option.splits)
  have s': "m' = m\<lparr>mp_UUID := NormalizeUUID (mp_UUID m)\<rparr>"
      "s_vcenters s' = s_vcenters s" "s_byUUID s' = fmupd (NormalizeUUID (mp_UUID m)) m' (s_byUUID s)"
    using assms by (auto simp: UpsertMapping_def Let_def split: if_splits option.splits dest!: persist_return_Inr)
  have "\<forall>u. LookupUUID u s' =
       (if NormalizeUUID u = NormalizeUUID (mp_UUID m) then Some (m', Some vc) else LookupUUID u s)
       \<and> GetVCenterSecret (mp_VCenterID m) s' = Some (vc\<lparr>vc_Datastore := normalizeDatastore (vc_Datastore vc)\<rparr>)"
    using s' vc by (auto simp: LookupUUID_def GetVCenterSecret_def split: option.split)
  with s'(1) show ?thesis by blast
qed

definition demo_map :: mapping where
  "demo_map = \<lparr>mp_UUID = ''AA-BB '', mp_VCenterID = demo_id, mp_Name = ''node1'', mp_Notes = ''''\<rparr>"

lemma demo_uuid: "NormalizeUUID ''AA-BB '' = ''aa-bb''" "NormalizeUUID '' aa-bb'' = ''aa-bb''"
  by (simp_all add: NormalizeUUID_def go_str Let_def)

definition demo_store2 :: store where
  "demo_store2 = demo_store1\<lparr>s_byUUID := fmupd ''aa-bb'' (demo_map\<lparr>mp_UUID := ''aa-bb''\<rparr>) fmempty,
     s_file := StateFile \<lparr>sd_VCenters = [demo_stored], sd_Mappings = [demo_map\<lparr>mp_UUID := ''aa-bb''\<rparr>],
       sd_Settings = \<lparr>set_DryRun = False\<rparr>\<rparr>\<rparr>"

lemma demo_bind: "UpsertMapping (demo_env [demo_id] [demo_id] [''aa-bb'']) demo_map demo_store1 =
    (Inr (demo_map\<lparr>mp_UUID := ''aa-bb''\<rparr>), demo_store2)"
  unfolding UpsertMapping_def persist_return_def persistLocked_def snapshot_def
  by (simp add: demo_map_def demo_uuid demo_store1_def demo_store2_def demo_store_def demo_id_def demo_env_def Let_def)

theorem mapping_lookup_after_upsert_witness:
  "\<exists>vc. LookupUUID '' aa-bb'' demo_store2 = Some (demo_map\<lparr>mp_UUID := ''aa-bb''\<rparr>, Some vc)"
proof -
  have "NormalizeUUID '' aa-bb'' = NormalizeUUID (mp_UUID demo_map)" by (simp add: demo_map_def demo_uuid)
  then show ?thesis using mapping_lookup_after_upsert [OF demo_bind] by auto
qed

text \<open>
  Deleting a vCenter removes it and exactly the mappings bound to it; every other vCenter and
  mapping resolves as before.
\<close>

theorem delete_vcenter_cascades:
  assumes "DeleteVCenter env vid s = (Inr (), s')" and "iter_order (se_mscan env) (s_byUUID s)"
  shows "GetVCenter vid s' = None
    \<and> (\<forall>k. k \<noteq> vid \<longrightarrow> GetVCenter k s' = GetVCenter k s)
    \<and> (\<forall>u. fmlookup (s_byUUID s') u = (case fmlookup (s_byUUID s) u of None \<Rightarrow> None
          | Some m \<Rightarrow> if mp_VCenterID m = vid then None else Some m))"
proof -
  have "s_vcenters s' = fmdrop vid (s_vcenters s)"
      "s_byUUID s' = drop_mappings_of vid (se_mscan env) (s_byUUID s)"
    using assms(1) by (auto simp: DeleteVCenter_def split: option.splits dest!: persistLocked_Inr)
  moreover have "u \<in> set (se_mscan env)" if "fmlookup (s_byUUID s) u = Some m" for u m
    using assms(2) that by (auto simp: iter_order_def fmdom'I)
  ultimately show ?thesis
    by (auto simp: GetVCenter_def drop_mappings_lookup split: option.split)
qed

theorem delete_vcenter_cascades_witness:
  "fst (DeleteVCenter (demo_env [demo_id] [] [''aa-bb'']) demo_id demo_store2) = Inr () \<and>
   LookupUUID ''aa-bb'' (snd (DeleteVCenter (demo_env [demo_id] [] [''aa-bb'']) demo_id demo_store2)) = None"
proof -
  let ?r = "DeleteVCenter (demo_env [demo_id] [] [''aa-bb'']) demo_id demo_store2"
  have r: "fst ?r = Inr ()"
    by (simp add: DeleteVCenter_def persistLocked_def demo_store2_def demo_store1_def demo_env_def Let_def)
  then have "?r = (Inr (), snd ?r)" by (metis prod.collapse)
  from delete_vcenter_cascades [OF this] have
    "\<forall>u. fmlookup (s_byUUID (snd ?r)) u = (case fmlookup (s_byUUID demo_store2) u of None \<Rightarrow> None
          | Some m \<Rightarrow> if mp_VCenterID m = demo_id then None else Some m)"
    by (simp add: demo_store2_def demo_store1_def demo_env_def)
  then have "LookupUUID ''aa-bb'' (snd ?r) = None"
    by (auto simp: LookupUUID_def demo_store2_def demo_map_def split: option.splits if_splits)
  with r show ?thesis by simp
qed

text \<open>
  Moving a vCenter into a ConfigMap keeps its identity. When a record matches (by id, ConfigMap or
  name), the merged record keeps that record's id, so every UUID mapping still resolves to it; the
  Secret's password wins when there is one, otherwise the password typed before is kept (and a
  password that came from a Secret that is gone becomes a manual one).
\<close>

theorem config_merge_keeps_identity:
  assumes ok: "store_reach init s" and ap: "ApplyConfigVCenter env inp dr pw s = (Inr out, s')"
    and m: "config_match env (config_defaults inp) s = Some ex"
  shows "vc_ID out = vc_ID ex \<and> s_byUUID s' = s_byUUID s
    \<and> (\<forall>k. k \<noteq> vc_ID ex \<longrightarrow> fmlookup (s_vcenters s') k = fmlookup (s_vcenters s) k)
    \<and> (\<exists>vc. fmlookup (s_vcenters s') (vc_ID ex) = Some vc
        \<and> vc_URL vc = vc_URL inp
        \<and> vc_DryRun vc = (case dr of Some d \<Rightarrow> d | None \<Rightarrow> vc_DryRun ex)
        \<and> vc_Password vc = (if pw \<noteq> '''' then pw else vc_Password ex)
        \<and> vc_PasswordSource vc = (if pw \<noteq> '''' then PasswordFromSecret else if vc_Password ex = '''' then ''''
            else if vc_PasswordSource ex = PasswordFromSecret then PasswordManual else vc_PasswordSource ex))"
proof -
  let ?vc = "(config_password (Some ex) pw (config_identity env (Some ex) dr (config_defaults inp)))\<lparr>vc_HasPassword := False\<rparr>"
  have vid: "vc_ID ?vc = vc_ID ex" by (simp add: config_identity_ID)
  have "out = redact ?vc \<and> s_vcenters s' = fmupd (vc_ID ?vc) ?vc (s_vcenters s) \<and> s_byUUID s' = s_byUUID s"
    using ap m by (auto simp: ApplyConfigVCenter_def Let_def split: if_splits dest!: persist_return_Inr)
  moreover have "vc_URL ?vc = vc_URL inp" "vc_DryRun ?vc = (case dr of Some d \<Rightarrow> d | None \<Rightarrow> vc_DryRun ex)"
    by (simp_all add: config_password_def config_identity_def config_defaults_def Let_def split: option.split)
  ultimately show ?thesis using vid
    by (auto simp: config_password_def Let_def)
qed

definition demo_cm :: vcenter where
  "demo_cm = vcenter_zero\<lparr>vc_Name := ''https://vc.example'', vc_URL := ''https://new.example'',
     vc_Datacenter := ''DC2'', vc_ConfigMap := ''vc-lab'', vc_ConfigOrigin := OriginGitOps\<rparr>"

theorem config_merge_keeps_identity_witness:
  "let r = ApplyConfigVCenter (demo_env [demo_id] [demo_id] []) demo_cm None '''' demo_store1 in
   (\<exists>out. fst r = Inr out \<and> vc_ID out = demo_id)
   \<and> (\<exists>vc. fmlookup (s_vcenters (snd r)) demo_id = Some vc \<and> vc_URL vc = ''https://new.example'' \<and> vc_Password vc = ''p'')"
proof -
  let ?env = "demo_env [demo_id] [demo_id] []"
  let ?r = "ApplyConfigVCenter ?env demo_cm None '''' demo_store1"
  have ex: "vc_ID demo_stored = demo_id" "vc_Password demo_stored = ''p''"
    by (simp_all add: demo_stored_def demo_vc_def)
  have m: "config_match ?env (config_defaults demo_cm) demo_store1 = Some demo_stored"
    by (simp add: config_match_def config_defaults_def demo_cm_def demo_store1_def demo_env_def demo_stored_def
        demo_vc_def vcenter_zero_def Let_def)
  obtain out s' where r: "?r = (Inr out, s')"
    by (simp add: ApplyConfigVCenter_def persist_return_def persistLocked_def demo_cm_def demo_env_def Let_def)
  from config_merge_keeps_identity [OF demo_reach(2) r m] r ex show ?thesis
    by (auto simp: Let_def demo_cm_def)
qed

text \<open>
  Memory is ahead of the file after a failed write. When writing \<open>state.json\<close> fails, the operation
  reports the error, the file keeps its old content, and the change is in memory all the same: here a
  refused "dry-run on" is in force until the restart that forgets it.
\<close>

theorem failed_write_still_applies:
  "let env = (demo_env [] [demo_id] [])\<lparr>se_write := Some ''disk full''\<rparr>;
       (r, s') = SetGlobalDryRun env True demo_store1
   in store_reach NoFile demo_store1 \<and> r = Inl ''disk full'' \<and> s_file s' = s_file demo_store1
      \<and> DryRunActive demo_id s' \<and> \<not> DryRunActive demo_id demo_store1
      \<and> (\<exists>t. store_Open (demo_env [] [] []) ''/data/state.json'' (s_file s') = Inr t \<and> set_DryRun (s_settings t) = False)"
  using demo_reach(2)
  by (auto simp: SetGlobalDryRun_def persist_return_def persistLocked_def DryRunActive_def demo_store1_def
      demo_stored_def demo_vc_def vcenter_zero_def demo_env_def store_Open_def store_load_def demo_store_def Let_def)

end
