(* ===== verification/Vsphere_World.thy ===== *)
theory Vsphere_World
  imports Gw_Store Activity
begin

text \<open>
  What the vSphere packages (\<open>internal/vsphere\<close>) work with: the per-vCenter client, the process state
  it shares (activity bus, clock, local ISO cache directory), and the world outside. \<open>govmomi\<close>, the
  vCenter, the network and the operating system are not under \<open>src/\<close>: they are a parameter, a record
  \<open>vsphere\<close> of functions. Every call the code makes outside is appended, with its outcome, to a
  history, and an answer may depend on the whole history, so the parameter stands for any
  environment. Time passes by an arbitrary non-negative amount with each call.

  Logging with \<open>log.Printf\<close> leaves no state and is not modelled. A request runs alone on its client
  here (the code's mutexes guard the fields, not a whole request).
\<close>

section \<open>Errors and values of the outside world\<close>

text \<open>
  The code inspects an error's text, and for three \<open>govmomi\<close> errors its type. Wrapping with \<open>%w\<close>
  keeps the type visible to \<open>errors.As\<close>.
\<close>

datatype err_kind = EPlain | EFinderNotFound | ENoSuchFile | ENoSuchDirectory

datatype verr = VErr (err_kind: err_kind) (err_text: string)

definition errorf :: "string \<Rightarrow> verr" where
  "errorf msg = VErr EPlain msg"

definition wrapf :: "string \<Rightarrow> verr \<Rightarrow> verr" where
  "wrapf pre e = VErr (err_kind e) (pre @ '': '' @ err_text e)"

datatype power = PoweredOn | PoweredOff | Suspended | OtherPower string

text \<open>An \<open>object.VirtualMachine\<close>: its reference and the inventory path set on it, if any.\<close>

record vm_obj =
  vm_ref :: string
  vm_path :: string

datatype cd_backing = IsoBacking string | RemotePassthrough string | RemoteAtapi | Atapi | OtherBacking

record cd_conn =
  cn_Connected :: bool
  cn_StartConnected :: bool
  cn_AllowGuestControl :: bool

record cdrom =
  cd_key :: string
  cd_Backing :: cd_backing
  cd_Connectable :: "cd_conn option"

datatype boot_dev = BootCdrom | BootDevice string

text \<open>
  What the code asks of a \<open>VirtualDeviceList\<close>: the CD-ROMs in it (\<open>SelectByType\<close>), the boot order it
  gives for a preference list (\<open>BootOrder\<close>), an IDE controller, a new CD-ROM on a controller.
\<close>

record device_list =
  dl_cdroms :: "cdrom list"
  dl_BootOrder :: "string list \<Rightarrow> boot_dev list"
  dl_FindIDE :: "verr + string"
  dl_CreateCdrom :: "string \<Rightarrow> verr + cdrom"

datatype reconfig = ExtraConfig "(string \<times> string) list" | DeviceAdd cdrom | DeviceEdit cdrom

text \<open>A pending VM question; a choice without an element description is \<open>None\<close>.\<close>

record question =
  q_Id :: string
  q_Text :: string
  q_Choices :: "(string \<times> string) option list"
  q_DefaultIndex :: int

record vm_props =
  pr_Name :: string
  pr_Uuid :: "string option"
  pr_Power :: power

record vm_hardware =
  hw_MemoryMB :: int
  hw_NumCPU :: int

datatype child = ChildVM vm_obj | ChildFolder string | ChildOther string

text \<open>What a datastore search or stat returns about a file: its path and size, by the concrete type.\<close>

datatype file_info =
    FileInfo string int
  | VmDiskFileInfo string int
  | IsoImageFileInfo string int
  | OtherFileInfo "(string \<times> int) option"

text \<open>How \<open>task.Wait\<close> ends: after some number of ticks of the 500 ms ticker, done or cancelled.\<close>

datatype task_end = TaskDone "verr option" | TaskCancelled verr

section \<open>Calls and history\<close>

datatype vcall =
    CLogin string
  | CLogout
  | CDatacenter string
  | CDatastore string
  | CFindByUuid string
  | CInventoryPath string
  | CProperties string "string list"
  | CPowerState string
  | CPowerOn string
  | CPowerOff string
  | CShutdownGuest string
  | CReconfigure string reconfig
  | CWaitTask string
  | CAnswer string string string
  | CSetBootOptions string "boot_dev list"
  | CDevice string
  | CFinderList string
  | CFindByInventoryPath string
  | CChildren string
  | CStat string
  | CBrowser
  | CSearchDatastore string "string list"
  | CMakeDirectory string
  | CFindInventoryPath
  | CAttachedHosts
  | CTicket string
  | CUploadHost string string
  | CUploadVC string
  | CProbe string
  | CHttpGet string
  | COs string string

type_synonym hist = "(vcall \<times> verr option) list"

text \<open>Calls that change the vCenter, a VM or a datastore.\<close>

fun mutating :: "vcall \<Rightarrow> bool" where
  "mutating (CPowerOn _) = True"
| "mutating (CPowerOff _) = True"
| "mutating (CShutdownGuest _) = True"
| "mutating (CReconfigure _ _) = True"
| "mutating (CAnswer _ _ _) = True"
| "mutating (CSetBootOptions _ _) = True"
| "mutating (CMakeDirectory _) = True"
| "mutating (CUploadHost _ _) = True"
| "mutating (CUploadVC _) = True"
| "mutating _ = False"

section \<open>The environment\<close>

record vsphere =
  ve_latency :: "hist \<Rightarrow> nat"
  ve_cancelled :: "hist \<Rightarrow> verr option"
  ve_ParseURL :: "string \<Rightarrow> verr + string"
  ve_URLOk :: "string \<Rightarrow> bool"
  ve_URLHost :: "string \<Rightarrow> string"
  ve_Login :: "hist \<Rightarrow> string \<Rightarrow> string \<Rightarrow> string \<Rightarrow> bool \<Rightarrow> verr + unit"
  ve_Logout :: "hist \<Rightarrow> verr + unit"
  ve_Datacenter :: "hist \<Rightarrow> string \<Rightarrow> verr + unit"
  ve_Datastore :: "hist \<Rightarrow> string \<Rightarrow> verr + unit"
  ve_FindByUuid :: "hist \<Rightarrow> string \<Rightarrow> string \<Rightarrow> verr + child option"
  ve_InventoryPath :: "hist \<Rightarrow> string \<Rightarrow> verr + string"
  ve_VMName :: "vm_obj \<Rightarrow> string"
  ve_Properties :: "hist \<Rightarrow> string \<Rightarrow> verr + vm_props"
  ve_Hardware :: "hist \<Rightarrow> string \<Rightarrow> verr + vm_hardware option"
  ve_PropDevices :: "hist \<Rightarrow> string \<Rightarrow> verr + cdrom list option"
  ve_Question :: "hist \<Rightarrow> string \<Rightarrow> verr + question option"
  ve_PowerState :: "hist \<Rightarrow> string \<Rightarrow> verr + power"
  ve_PowerOn :: "hist \<Rightarrow> string \<Rightarrow> verr + unit"
  ve_PowerOff :: "hist \<Rightarrow> string \<Rightarrow> verr + unit"
  ve_ShutdownGuest :: "hist \<Rightarrow> string \<Rightarrow> verr + unit"
  ve_Reconfigure :: "hist \<Rightarrow> string \<Rightarrow> reconfig \<Rightarrow> verr + unit"
  ve_WaitTask :: "hist \<Rightarrow> string \<Rightarrow> nat \<times> task_end"
  ve_Answer :: "hist \<Rightarrow> string \<Rightarrow> string \<Rightarrow> string \<Rightarrow> verr + unit"
  ve_SetBootOptions :: "hist \<Rightarrow> string \<Rightarrow> boot_dev list \<Rightarrow> verr + unit"
  ve_Device :: "hist \<Rightarrow> string \<Rightarrow> verr + device_list"
  ve_FinderList :: "hist \<Rightarrow> string \<Rightarrow> verr + vm_obj list"
  ve_FindByInventoryPath :: "hist \<Rightarrow> string \<Rightarrow> verr + string option"
  ve_Children :: "hist \<Rightarrow> string \<Rightarrow> verr + child list"
  ve_DSPath :: "string \<Rightarrow> string \<Rightarrow> string"
  ve_Stat :: "hist \<Rightarrow> string \<Rightarrow> verr + file_info"
  ve_Browser :: "hist \<Rightarrow> verr + unit"
  ve_SearchDatastore :: "hist \<Rightarrow> string \<Rightarrow> string list \<Rightarrow> verr + file_info list option"
  ve_MakeDirectory :: "hist \<Rightarrow> string \<Rightarrow> verr + unit"
  ve_DsPathsKnown :: "hist \<Rightarrow> bool"
  ve_FindInventoryPath :: "hist \<Rightarrow> verr + unit"
  ve_AttachedHosts :: "hist \<Rightarrow> verr + string list"
  ve_Ticket :: "hist \<Rightarrow> string \<Rightarrow> verr + unit"
  ve_UploadHost :: "hist \<Rightarrow> string \<Rightarrow> string \<Rightarrow> verr + unit"
  ve_UploadVC :: "hist \<Rightarrow> string \<Rightarrow> verr + unit"
  ve_InFlight :: "hist \<Rightarrow> string \<Rightarrow> verr option option"
  ve_Probe :: "hist \<Rightarrow> string \<Rightarrow> bool \<Rightarrow> verr + string"
  ve_HttpGet :: "hist \<Rightarrow> string \<Rightarrow> verr + (int \<times> string \<times> string \<times> verr option)"
  ve_Os :: "hist \<Rightarrow> string \<Rightarrow> string \<Rightarrow> verr + unit"
  ve_ReadDir :: "hist \<Rightarrow> string \<Rightarrow> verr + (string \<times> bool \<times> int option) list"
  ve_sha256 :: "string \<Rightarrow> string"

section \<open>Client and process state\<close>

record endpoint =
  ep_ID :: string
  ep_URL :: string
  ep_Username :: string
  ep_Password :: string
  ep_Insecure :: bool
  ep_Datacenter :: string
  ep_Datastore :: string
  ep_Folder :: string
  ep_ISOFolder :: string
  ep_ISOCache :: string
  ep_Allowlist :: "string list"

record uuid_entry =
  ue_ref :: string
  ue_path :: string
  ue_at :: int

text \<open>
  \<open>cl_connected\<close>: \<open>client\<close>, \<open>finder\<close> and \<open>dc\<close> are set; \<open>cl_ds\<close>: the datastore object, if any;
  \<open>cl_uuidCache\<close>: \<open>None\<close> is the nil map.
\<close>

record client =
  cl_ep :: endpoint
  cl_connected :: bool
  cl_ds :: "string option"
  cl_mediaISO :: "(string, string) fmap"
  cl_uuidCache :: "(string, uuid_entry) fmap option"
  cl_searchDenied :: bool

record world =
  w_bus :: bus
  w_clock :: int
  w_calls :: hist
  w_files :: "(string, string) fmap"

record vstate =
  v_cl :: client
  v_w :: world

type_synonym 'a vio = "(vstate, verr, 'a) eio"

text \<open>Clock readings are nanoseconds, as \<open>time.Duration\<close> is.\<close>

definition second :: int where "second = 1000000000"

section \<open>Primitives\<close>

definition outcome :: "verr + 'a \<Rightarrow> verr option" where
  "outcome r = (case r of Inl e \<Rightarrow> Some e | Inr _ \<Rightarrow> None)"

definition record_call :: "vsphere \<Rightarrow> vcall \<Rightarrow> verr option \<Rightarrow> world \<Rightarrow> world" where
  "record_call E c e w = w\<lparr>w_calls := w_calls w @ [(c, e)], w_clock := w_clock w + int (ve_latency E (w_calls w))\<rparr>"

definition do_call :: "vsphere \<Rightarrow> vcall \<Rightarrow> (hist \<Rightarrow> verr + 'a) \<Rightarrow> 'a vio" where
  "do_call E c f = (\<lambda>s. let r = f (w_calls (v_w s)) in (r, s\<lparr>v_w := record_call E c (outcome r) (v_w s)\<rparr>))"

definition cl_get :: "(client \<Rightarrow> 'a) \<Rightarrow> 'a vio" where
  "cl_get f = getE (\<lambda>s. f (v_cl s))"

definition cl_mod :: "(client \<Rightarrow> client) \<Rightarrow> unit vio" where
  "cl_mod f = modE (\<lambda>s. s\<lparr>v_cl := f (v_cl s)\<rparr>)"

definition clock_get :: "int vio" where
  "clock_get = getE (\<lambda>s. w_clock (v_w s))"

definition act :: "(int \<Rightarrow> string \<Rightarrow> string \<Rightarrow> detail \<Rightarrow> bus \<Rightarrow> bus) \<Rightarrow> string \<Rightarrow> string \<Rightarrow> detail \<Rightarrow> unit vio" where
  "act h op message detail = modE (\<lambda>s. s\<lparr>v_w := (v_w s)\<lparr>w_bus := h (w_clock (v_w s)) op message detail (w_bus (v_w s))\<rparr>\<rparr>)"

text \<open>\<open>time.After(d)\<close> in a \<open>select\<close> with \<open>ctx.Done()\<close>: cancelled, or the clock moves on by \<open>d\<close>.\<close>

definition sleep :: "vsphere \<Rightarrow> int \<Rightarrow> unit vio" where
  "sleep E d = (\<lambda>s. case ve_cancelled E (w_calls (v_w s)) of
       Some e \<Rightarrow> (Inl e, s)
     | None \<Rightarrow> (Inr (), s\<lparr>v_w := (v_w s)\<lparr>w_clock := w_clock (v_w s) + max 0 d\<rparr>\<rparr>))"

lemmas [io_simps] = cl_get_def cl_mod_def clock_get_def act_def

section \<open>What a function may do outside\<close>

text \<open>
  \<open>calls_only P\<close> relates two states when the second's history extends the first's by calls that all
  satisfy \<open>P\<close> and time has not gone back.
\<close>

definition calls_only :: "(vcall \<Rightarrow> bool) \<Rightarrow> vstate \<Rightarrow> vstate \<Rightarrow> bool" where
  "calls_only P s t \<longleftrightarrow> w_clock (v_w s) \<le> w_clock (v_w t) \<and>
     (\<exists>l. w_calls (v_w t) = w_calls (v_w s) @ l \<and> list_all (\<lambda>(c, _). P c) l)"

lemma calls_only_preorder [simp, keeps_intro]: "preorder_rel (calls_only P)"
  by (auto simp: preorder_rel_def calls_only_def reflp_def transp_def intro: order_trans)

lemma calls_only_refl [simp]: "calls_only P s s"
  by (simp add: calls_only_def)

lemma calls_only_trans: "calls_only P s t \<Longrightarrow> calls_only P t u \<Longrightarrow> calls_only P s u"
  using calls_only_preorder [of P] by (auto simp: preorder_rel_def dest: transpD)

lemma calls_only_mono: "calls_only P s t \<Longrightarrow> (\<And>c. P c \<Longrightarrow> Q c) \<Longrightarrow> calls_only Q s t"
  by (fastforce simp: calls_only_def list_all_iff)

lemma keeps_calls_mono: "keeps (calls_only P) m \<Longrightarrow> (\<And>c. P c \<Longrightarrow> Q c) \<Longrightarrow> keeps (calls_only Q) m"
  by (auto simp: keeps_def intro: calls_only_mono)

lemma keeps_do_call [keeps_intro]: "P c \<Longrightarrow> keeps (calls_only P) (do_call E c f)"
  by (auto simp: keeps_def do_call_def calls_only_def record_call_def Let_def)

lemma keeps_cl_get [keeps_intro]: "keeps (calls_only P) (cl_get f)"
  by (auto simp: keeps_def io_simps)

lemma keeps_cl_mod [keeps_intro]: "keeps (calls_only P) (cl_mod f)"
  by (auto simp: keeps_def io_simps calls_only_def)

lemma keeps_clock_get [keeps_intro]: "keeps (calls_only P) clock_get"
  by (auto simp: keeps_def io_simps)

lemma keeps_act [keeps_intro]: "keeps (calls_only P) (act h op m d)"
  by (auto simp: keeps_def io_simps calls_only_def)

lemma keeps_sleep [keeps_intro]: "keeps (calls_only P) (sleep E d)"
  by (auto simp: keeps_def sleep_def calls_only_def split: option.split)

text \<open>The calls a state has seen beyond another, and their order.\<close>

definition new_calls :: "vstate \<Rightarrow> vstate \<Rightarrow> hist" where
  "new_calls s t = drop (length (w_calls (v_w s))) (w_calls (v_w t))"

lemma new_calls_only: "calls_only P s t \<Longrightarrow> (c, e) \<in> set (new_calls s t) \<Longrightarrow> P c"
  by (auto simp: calls_only_def new_calls_def list_all_iff)

lemma keeps_new_calls:
  assumes "keeps (calls_only P) m" "m s = (r, t)"
  shows "\<forall>(c, e) \<in> set (new_calls s t). P c"
  using new_calls_only [OF keepsD [OF assms]] by auto

section \<open>Reading off a successful run\<close>

lemma bindE_InrE:
  assumes "bindE m f s = (Inr y, t)"
  obtains x u where "m s = (Inr x, u)" "f x u = (Inr y, t)"
  using assms by (auto simp: bindE_def tryE_def failE_def split: prod.splits sum.splits)

lemma thenE_InrE:
  assumes "thenE m k s = (Inr y, t)"
  obtains x u where "m s = (Inr x, u)" "k u = (Inr y, t)"
  using assms unfolding thenE_def by (rule bindE_InrE)

lemma tryE_E:
  assumes "tryE m f s = (r, t)"
  obtains x u where "m s = (x, u)" "f x u = (r, t)"
  using assms by (auto simp: tryE_def split: prod.splits)

lemma ignoreE_E:
  assumes "ignoreE m k s = (r, t)"
  obtains x u where "m s = (x, u)" "k u = (r, t)"
  using assms unfolding ignoreE_def by (rule tryE_E)

lemma wrapE_InrE:
  assumes "wrapE g m s = (Inr y, t)"
  shows "m s = (Inr y, t)"
  using assms by (auto simp: wrapE_def tryE_def failE_def retE_def split: prod.splits sum.splits)

lemma do_call_Inr:
  assumes "do_call E c f s = (Inr y, t)"
  shows "f (w_calls (v_w s)) = Inr y \<and> v_cl t = v_cl s \<and> w_calls (v_w t) = w_calls (v_w s) @ [(c, None)]"
  using assms by (auto simp: do_call_def record_call_def outcome_def Let_def)

lemma do_call_calls: "do_call E c f s = (r, t) \<Longrightarrow> w_calls (v_w t) = w_calls (v_w s) @ [(c, outcome r)]"
  by (auto simp: do_call_def record_call_def Let_def)

section \<open>An environment to evaluate on\<close>

text \<open>
  One vCenter where every call works: one VM \<open>node1\<close> under \<open>/DC/vm/LAB\<close>, powered on, with a CD-ROM
  that has an ISO connected. Witnesses override single functions of it.
\<close>

definition demo_cd :: cdrom where
  "demo_cd = \<lparr>cd_key = ''3000'', cd_Backing = IsoBacking ''[DS] rf2vc/isos/a.iso'',
     cd_Connectable = Some \<lparr>cn_Connected = True, cn_StartConnected = True, cn_AllowGuestControl = True\<rparr>\<rparr>"

definition demo_devices :: device_list where
  "demo_devices = \<lparr>dl_cdroms = [demo_cd],
     dl_BootOrder = (\<lambda>prefer. map (\<lambda>p. if p = ''cdrom'' then BootCdrom else BootDevice p) prefer),
     dl_FindIDE = Inr ''ide0'', dl_CreateCdrom = (\<lambda>_. Inr (demo_cd\<lparr>cd_Backing := Atapi, cd_Connectable := None\<rparr>))\<rparr>"

definition demo_vm :: vm_obj where "demo_vm = \<lparr>vm_ref = ''vm-1'', vm_path = ''''\<rparr>"

definition demo_vs :: vsphere where
  "demo_vs = \<lparr>ve_latency = (\<lambda>_. 0), ve_cancelled = (\<lambda>_. None), ve_ParseURL = Inr, ve_URLOk = (\<lambda>_. True), ve_URLHost = (\<lambda>u. u),
     ve_Login = (\<lambda>_ _ _ _ _. Inr ()), ve_Logout = (\<lambda>_. Inr ()), ve_Datacenter = (\<lambda>_ _. Inr ()),
     ve_Datastore = (\<lambda>_ _. Inr ()), ve_FindByUuid = (\<lambda>_ _ _. Inr (Some (ChildVM demo_vm))),
     ve_InventoryPath = (\<lambda>_ _. Inr ''/DC/vm/LAB/node1''), ve_VMName = (\<lambda>_. ''node1''),
     ve_Properties = (\<lambda>_ _. Inr \<lparr>pr_Name = ''node1'', pr_Uuid = Some ''aa-bb'', pr_Power = PoweredOn\<rparr>),
     ve_Hardware = (\<lambda>_ _. Inr (Some \<lparr>hw_MemoryMB = 4096, hw_NumCPU = 2\<rparr>)),
     ve_PropDevices = (\<lambda>_ _. Inr (Some [demo_cd])), ve_Question = (\<lambda>_ _. Inr None),
     ve_PowerState = (\<lambda>_ _. Inr PoweredOn), ve_PowerOn = (\<lambda>_ _. Inr ()), ve_PowerOff = (\<lambda>_ _. Inr ()),
     ve_ShutdownGuest = (\<lambda>_ _. Inr ()), ve_Reconfigure = (\<lambda>_ _ _. Inr ()),
     ve_WaitTask = (\<lambda>_ _. (0, TaskDone None)), ve_Answer = (\<lambda>_ _ _ _. Inr ()),
     ve_SetBootOptions = (\<lambda>_ _ _. Inr ()), ve_Device = (\<lambda>_ _. Inr demo_devices),
     ve_FinderList = (\<lambda>_ _. Inr [demo_vm]), ve_FindByInventoryPath = (\<lambda>_ _. Inr (Some ''group-v1'')),
     ve_Children = (\<lambda>_ _. Inr [ChildVM demo_vm]), ve_DSPath = (\<lambda>ds p. CHR ''['' # ds @ ''] '' @ p),
     ve_Stat = (\<lambda>_ p. Inr (IsoImageFileInfo p 2097152)), ve_Browser = (\<lambda>_. Inr ()),
     ve_SearchDatastore = (\<lambda>_ _ _. Inr (Some [])), ve_MakeDirectory = (\<lambda>_ _. Inr ()),
     ve_DsPathsKnown = (\<lambda>_. True), ve_FindInventoryPath = (\<lambda>_. Inr ()),
     ve_AttachedHosts = (\<lambda>_. Inr [''esx1'']), ve_Ticket = (\<lambda>_ _. Inr ()), ve_UploadHost = (\<lambda>_ _ _. Inr ()), ve_UploadVC = (\<lambda>_ _. Inr ()),
     ve_InFlight = (\<lambda>_ _. None), ve_Probe = (\<lambda>_ _ _. Inr ''vc''),
     ve_HttpGet = (\<lambda>_ _. Inr (200, ''200 OK'', ''iso'', None)), ve_Os = (\<lambda>_ _ _. Inr ()), ve_ReadDir = (\<lambda>_ _. Inr []),
     ve_sha256 = (\<lambda>s. take 32 (s @ replicate 32 CHR ''x''))\<rparr>"

definition demo_ep :: endpoint where
  "demo_ep = \<lparr>ep_ID = ''1'', ep_URL = ''https://vc'', ep_Username = ''u'', ep_Password = ''p'', ep_Insecure = False,
     ep_Datacenter = ''DC'', ep_Datastore = ''DS'', ep_Folder = ''/DC/vm/LAB'', ep_ISOFolder = ''rf2vc/isos'',
     ep_ISOCache = ''/var/tmp/rf2vc'', ep_Allowlist = []\<rparr>"

definition demo_client :: client where
  "demo_client = \<lparr>cl_ep = demo_ep, cl_connected = False, cl_ds = None, cl_mediaISO = fmempty,
     cl_uuidCache = None, cl_searchDenied = False\<rparr>"

definition demo_world :: world where
  "demo_world = \<lparr>w_bus = defaultBus, w_clock = 0, w_calls = [], w_files = fmempty\<rparr>"

definition demo_st :: vstate where
  "demo_st = \<lparr>v_cl = demo_client, v_w = demo_world\<rparr>"

lemmas demo_defs = demo_cd_def demo_devices_def demo_vm_def demo_vs_def demo_ep_def demo_client_def
  demo_world_def demo_st_def

end
