(* ===== verification/Vsphere_Lookup.thy ===== *)
theory Vsphere_Lookup
  imports Vsphere_World
begin

text \<open>
  Finding a VM (\<open>internal/vsphere/client.go\<close>, \<open>folder_vms.go\<close>): opening a session (\<open>NewClient\<close>,
  \<open>ensure\<close>, \<open>Close\<close>), the UUID cache, \<open>SearchIndex.FindByUuid\<close> with the folder gate, the fallback
  that walks the inventory under GOVC_FOLDER, the folder listing, and the system information read from
  a VM. Everything here only reads from vSphere.
\<close>

section \<open>Sessions\<close>

definition NormalizeDatastore :: "string \<Rightarrow> string" where
  "NormalizeDatastore s = (let s = TrimSpace s; l = ToLower s in
     if l = '''' \<or> l = ''none'' \<or> l = ''notset'' \<or> l = ''not set'' \<or> l = ''n/a'' \<or> l = ''na'' \<or> l = ''-''
       \<or> l = ''null'' \<or> l = ''undefined''
     then '''' else s)"

definition ErrNoPassword :: verr where
  "ErrNoPassword = errorf ''no password set: enter it with Edit, or create the credentials Secret''"

definition world_call :: "vsphere \<Rightarrow> vcall \<Rightarrow> (hist \<Rightarrow> verr + 'a) \<Rightarrow> (world, verr, 'a) eio" where
  "world_call E c f = (\<lambda>w. let r = f (w_calls w) in (r, record_call E c (outcome r) w))"

definition NewClient :: "vsphere \<Rightarrow> endpoint \<Rightarrow> (world, verr, client) eio" where
  "NewClient E ep =
     (if ep_Password ep = '''' then failE ErrNoPassword
      else
        let ep = (if ep_ISOCache ep = '''' then ep\<lparr>ep_ISOCache := ''/var/tmp/rf2vc''\<rparr> else ep);
            ep = (if ep_ISOFolder ep = '''' then ep\<lparr>ep_ISOFolder := ''rf2vc/isos''\<rparr> else ep);
            ep = ep\<lparr>ep_Datastore := NormalizeDatastore (ep_Datastore ep)\<rparr>
        in thenE (world_call E (COs ''mkdir'' (ep_ISOCache ep)) (\<lambda>h. ve_Os E h ''mkdir'' (ep_ISOCache ep)))
             (retE \<lparr>cl_ep = ep, cl_connected = False, cl_ds = None, cl_mediaISO = fmempty,
                cl_uuidCache = None, cl_searchDenied = False\<rparr>))"

text \<open>\<open>_ = client.Logout(ctx); return fmt.Errorf(...)\<close>.\<close>

definition logout_fail :: "vsphere \<Rightarrow> verr \<Rightarrow> 'a vio" where
  "logout_fail E e = ignoreE (do_call E CLogout (ve_Logout E)) (failE e)"

definition ensure :: "vsphere \<Rightarrow> unit vio" where
  "ensure E = bindE (cl_get cl_connected) (\<lambda>connected. if connected then retE () else
     bindE (cl_get cl_ep) (\<lambda>ep. case ve_ParseURL E (ep_URL ep) of
         Inl e \<Rightarrow> failE (wrapf ''parse vsphere url'' e)
       | Inr u \<Rightarrow>
           thenE (wrapE (wrapf ''vsphere login'') (do_call E (CLogin u)
               (\<lambda>h. ve_Login E h u (ep_Username ep) (ep_Password ep) (ep_Insecure ep))))
           (tryE (do_call E (CDatacenter (ep_Datacenter ep)) (\<lambda>h. ve_Datacenter E h (ep_Datacenter ep))) (\<lambda>r.
             case r of
               Inl e \<Rightarrow> logout_fail E (wrapf (''datacenter '' @ go_quote (ep_Datacenter ep)) e)
             | Inr _ \<Rightarrow>
                 let name = NormalizeDatastore (ep_Datastore ep) in
                 if name \<noteq> '''' then
                   tryE (do_call E (CDatastore name) (\<lambda>h. ve_Datastore E h name)) (\<lambda>r. case r of
                       Inl e \<Rightarrow> logout_fail E (wrapf (''datastore '' @ go_quote name) e)
                     | Inr _ \<Rightarrow> cl_mod (\<lambda>c. c\<lparr>cl_ep := (cl_ep c)\<lparr>ep_Datastore := name\<rparr>,
                         cl_connected := True, cl_ds := Some name\<rparr>))
                 else cl_mod (\<lambda>c. c\<lparr>cl_connected := True, cl_ds := None\<rparr>)))))"

definition requireDatastore :: "unit vio" where
  "requireDatastore = bindE (cl_get (\<lambda>c. c)) (\<lambda>c.
     if cl_ds c = None \<or> NormalizeDatastore (ep_Datastore (cl_ep c)) = ''''
     then failE (errorf ''datastore not set (needed for ISO cache; folder/UUID ops do not require it)'')
     else retE ())"

definition client_Close :: "vsphere \<Rightarrow> unit vio" where
  "client_Close E = bindE (cl_get cl_connected) (\<lambda>connected. if \<not> connected then retE () else
     tryE (do_call E CLogout (ve_Logout E)) (\<lambda>r.
       thenE (cl_mod (\<lambda>c. c\<lparr>cl_connected := False, cl_ds := None\<rparr>))
         (case r of Inl e \<Rightarrow> failE e | Inr _ \<Rightarrow> retE ())))"

definition allow :: "endpoint \<Rightarrow> string \<Rightarrow> bool" where
  "allow ep name = (if ep_Allowlist ep = [] then True else list_ex (\<lambda>a. EqualFold a name) (ep_Allowlist ep))"

section \<open>System information\<close>

record system_info =
  si_UUID :: string
  si_Name :: string
  si_PowerState :: string
  si_MemoryMiB :: int
  si_CPUs :: int

fun mapPower :: "power \<Rightarrow> string" where
  "mapPower PoweredOn = ''On''"
| "mapPower PoweredOff = ''Off''"
| "mapPower Suspended = ''Paused''"
| "mapPower (OtherPower _) = ''Off''"

definition vm_Properties :: "vsphere \<Rightarrow> vm_obj \<Rightarrow> string list \<Rightarrow> vm_props vio" where
  "vm_Properties E vm ps = do_call E (CProperties (vm_ref vm) ps) (\<lambda>h. ve_Properties E h (vm_ref vm))"

definition infoFromVM :: "vsphere \<Rightarrow> vm_obj \<Rightarrow> system_info vio" where
  "infoFromVM E vm = bindE (vm_Properties E vm [''name'', ''config.uuid'', ''runtime.powerState'']) (\<lambda>m.
     let uuid = (case pr_Uuid m of Some u \<Rightarrow> u | None \<Rightarrow> '''');
         info = \<lparr>si_UUID = uuid, si_Name = pr_Name m, si_PowerState = mapPower (pr_Power m),
                 si_MemoryMiB = 0, si_CPUs = 0\<rparr>
     in tryE (do_call E (CProperties (vm_ref vm) [''config.hardware'']) (\<lambda>h. ve_Hardware E h (vm_ref vm))) (\<lambda>r.
          case r of Inr (Some hw) \<Rightarrow> retE (info\<lparr>si_MemoryMiB := hw_MemoryMB hw, si_CPUs := hw_NumCPU hw\<rparr>)
          | _ \<Rightarrow> retE info))"

section \<open>The UUID cache\<close>

definition uuidCacheTTL :: int where "uuidCacheTTL = 2 * 60 * second"

definition cached_entry :: "client \<Rightarrow> int \<Rightarrow> string \<Rightarrow> vm_obj option" where
  "cached_entry c now uuid = (if \<not> cl_connected c then None else case cl_uuidCache c of
       None \<Rightarrow> None
     | Some m \<Rightarrow> (case fmlookup m uuid of
           None \<Rightarrow> None
         | Some e \<Rightarrow> if uuidCacheTTL < now - ue_at e then None
             else Some \<lparr>vm_ref = ue_ref e, vm_path = ue_path e\<rparr>))"

definition cachedVM :: "string \<Rightarrow> vm_obj option vio" where
  "cachedVM uuid = bindE clock_get (\<lambda>now. cl_get (\<lambda>c. cached_entry c now uuid))"

definition remember_entry :: "string \<Rightarrow> vm_obj \<Rightarrow> int \<Rightarrow> client \<Rightarrow> client" where
  "remember_entry uuid vm now c =
     (let m = (case cl_uuidCache c of None \<Rightarrow> fmempty | Some m \<Rightarrow> m)
      in c\<lparr>cl_uuidCache := Some (fmupd uuid \<lparr>ue_ref = vm_ref vm, ue_path = vm_path vm, ue_at = now\<rparr> m)\<rparr>)"

definition rememberUUID :: "string \<Rightarrow> vm_obj \<Rightarrow> unit vio" where
  "rememberUUID uuid vm = bindE clock_get (\<lambda>now. cl_mod (remember_entry uuid vm now))"

section \<open>Search index and folder gate\<close>

definition findByUUIDSearchIndex :: "vsphere \<Rightarrow> string \<Rightarrow> vm_obj vio" where
  "findByUUIDSearchIndex E uuid = bindE (cl_get (\<lambda>c. ep_Datacenter (cl_ep c))) (\<lambda>dc.
     bindE (do_call E (CFindByUuid uuid) (\<lambda>h. ve_FindByUuid E h dc uuid)) (\<lambda>ref. case ref of
         None \<Rightarrow> failE (errorf (''vm uuid '' @ uuid @ '' not found''))
       | Some (ChildVM vm) \<Rightarrow> retE vm
       | Some _ \<Rightarrow> failE (errorf (''uuid '' @ uuid @ '' is not a VirtualMachine''))))"

lemma length_ReplaceAll_le: "length new \<le> length old \<Longrightarrow> length (ReplaceAll s old new) \<le> length s"
proof (induction s old new rule: ReplaceAll.induct)
  case (1 s old new)
  show ?case
  proof (cases "old = [] \<or> s = []")
    case True
    then show ?thesis by (subst ReplaceAll.simps) auto
  next
    case ne: False
    show ?thesis
    proof (cases "prefix old s")
      case True
      then have "length old \<le> length s" by (rule prefix_length_le)
      with ne True 1 show ?thesis by (subst ReplaceAll.simps) auto
    next
      case False
      with ne 1 show ?thesis by (subst ReplaceAll.simps) (cases s; auto)
    qed
  qed
qed

lemma length_ReplaceAll_less:
  assumes "length new < length old" "sublist old s"
  shows "length (ReplaceAll s old new) < length s"
  using assms
proof (induction s old new rule: ReplaceAll.induct)
  case (1 s old new)
  have ne: "old \<noteq> []" "s \<noteq> []" using "1.prems" by auto
  show ?case
  proof (cases "prefix old s")
    case True
    then have "length old \<le> length s" by (rule prefix_length_le)
    moreover have "length (ReplaceAll (drop (length old) s) old new) \<le> length s - length old"
      using length_ReplaceAll_le [of new old "drop (length old) s"] "1.prems" by simp
    ultimately show ?thesis using ne True "1.prems" by (subst ReplaceAll.simps) auto
  next
    case False
    then have "sublist old (tl s)" using "1.prems"(2) ne by (cases s) (auto simp: sublist_Cons_right)
    with ne False 1 show ?thesis by (subst ReplaceAll.simps) (cases s; auto)
  qed
qed

text \<open>\<open>for strings.Contains(p, "//") { p = strings.ReplaceAll(p, "//", "/") }\<close>.\<close>

function collapse_slashes :: "string \<Rightarrow> string" where
  "collapse_slashes p = (if Contains p ''//'' then collapse_slashes (ReplaceAll p ''//'' ''/'') else p)"
  by pat_completeness auto
termination
  by (relation "measure length") (auto simp: Contains_def intro: length_ReplaceAll_less)

declare collapse_slashes.simps [simp del]

definition normalizeInventoryPath :: "string \<Rightarrow> string" where
  "normalizeInventoryPath p =
     (let p = TrimSpace p; p = ReplaceAll p [CHR 0x5C] ''/''; p = collapse_slashes p
      in ToLower (TrimSuffix p ''/''))"

definition isPermissionDenied :: "verr \<Rightarrow> bool" where
  "isPermissionDenied e = (let msg = ToLower (err_text e) in Contains msg ''permission'' \<and> Contains msg ''denied'')"

definition in_folder :: "string \<Rightarrow> string \<Rightarrow> bool" where
  "in_folder folder pathName =
     (let want = normalizeInventoryPath folder; got = normalizeInventoryPath pathName
      in got = want \<or> HasPrefix got (want @ ''/''))"

text \<open>The em dash of the messages, in UTF-8.\<close>

definition dash :: string where "dash = [CHR 0xE2, CHR 0x80, CHR 0x94]"

text \<open>
  \<open>checkFolder\<close> may set the inventory path on the VM object it is given, so it returns the object.
\<close>

definition gate_path :: "vsphere \<Rightarrow> string \<Rightarrow> vm_obj \<Rightarrow> string \<Rightarrow> vm_obj vio" where
  "gate_path E folder vm pathName =
     (if in_folder folder pathName then retE vm
      else failE (errorf (''vm '' @ ve_VMName E vm @ '' path '' @ go_quote pathName
        @ '' is outside GOVC_FOLDER '' @ go_quote folder)))"

definition checkFolder :: "vsphere \<Rightarrow> vm_obj \<Rightarrow> vm_obj vio" where
  "checkFolder E vm = bindE (cl_get (\<lambda>c. TrimSpace (ep_Folder (cl_ep c)))) (\<lambda>folder.
     if folder = '''' then retE vm
     else if vm_path vm = '''' then
       tryE (do_call E (CInventoryPath (vm_ref vm)) (\<lambda>h. ve_InventoryPath E h (vm_ref vm))) (\<lambda>r. case r of
           Inl e \<Rightarrow>
             if isPermissionDenied e then
               thenE (act act_RunWarn ''folder-check'' (''InventoryPath denied '' @ dash @ '' skipping folder gate'')
                   [(''uuid'', AStr (vm_ref vm)), (''folder'', AStr folder), (''error'', AStr (err_text e))])
                 (retE vm)
             else failE (wrapf ''vm path'' e)
         | Inr p \<Rightarrow> gate_path E folder (vm\<lparr>vm_path := p\<rparr>) p)
     else gate_path E folder vm (vm_path vm))"

section \<open>Walking the folder\<close>

definition fpc_add :: "string \<Rightarrow> string list \<Rightarrow> string list" where
  "fpc_add p out = (let p = TrimSuffix (TrimSpace p) ''/'' in if p = '''' \<or> p \<in> set out then out else out @ [p])"

definition folderPathCandidates :: "string \<Rightarrow> string list" where
  "folderPathCandidates folder =
     (let folder = TrimSpace folder; folder = TrimSuffix folder ''/'';
          out = fpc_add folder [];
          out = fpc_add (ReplaceFirst folder ''/VMs/'' ''/vm/'') out;
          out = fpc_add (ReplaceFirst folder ''/vms/'' ''/vm/'') out
      in fpc_add (ReplaceFirst folder ''/vm/'' ''/VMs/'') out)"

text \<open>
  \<open>collectVMs(ctx, fol, depth)\<close> with \<open>n = 33 - depth\<close> levels left: it fails when \<open>depth > 32\<close>.
  \<open>collect_children\<close> is its loop over the children, given what a subfolder yields.
\<close>

fun collect_children :: "(string \<Rightarrow> vm_obj list vio) \<Rightarrow> vm_obj list \<Rightarrow> child list \<Rightarrow> vm_obj list vio" where
  "collect_children rec out [] = retE out"
| "collect_children rec out (ChildVM vm # chs) = collect_children rec (out @ [vm]) chs"
| "collect_children rec out (ChildFolder f # chs) = bindE (rec f) (\<lambda>sub. collect_children rec (out @ sub) chs)"
| "collect_children rec out (ChildOther _ # chs) = collect_children rec out chs"

primrec collectVMs :: "vsphere \<Rightarrow> nat \<Rightarrow> string \<Rightarrow> vm_obj list vio" where
  "collectVMs E 0 fol = failE (errorf ''folder depth exceeded'')"
| "collectVMs E (Suc n) fol = bindE (do_call E (CChildren fol) (\<lambda>h. ve_Children E h fol))
     (collect_children (collectVMs E n) [])"

definition walkFolderInventory :: "vsphere \<Rightarrow> string \<Rightarrow> vm_obj list vio" where
  "walkFolderInventory E folderPath =
     bindE (do_call E (CFindByInventoryPath folderPath) (\<lambda>h. ve_FindByInventoryPath E h folderPath)) (\<lambda>ref.
       case ref of
         None \<Rightarrow> failE (errorf (''inventory path '' @ go_quote folderPath @ '' not found''))
       | Some fol \<Rightarrow> collectVMs E 33 fol)"

text \<open>
  The two finder patterns of one candidate: the VMs found, or the \<open>lastErr\<close> to go on with.
\<close>

fun find_patterns :: "vsphere \<Rightarrow> verr option \<Rightarrow> string list \<Rightarrow> (verr option + vm_obj list) vio" where
  "find_patterns E lastErr [] = retE (Inl lastErr)"
| "find_patterns E lastErr (pattern # ps) =
     tryE (do_call E (CFinderList pattern) (\<lambda>h. ve_FinderList E h pattern)) (\<lambda>r. case r of
         Inr vms \<Rightarrow> thenE (act act_Run ''folder-scan'' ''finder match''
             [(''pattern'', AStr pattern), (''count'', AInt (int (length vms)))]) (retE (Inr vms))
       | Inl e \<Rightarrow>
           if err_kind e = EFinderNotFound then
             thenE (act act_Run ''folder-scan'' ''finder empty'' [(''pattern'', AStr pattern)]) (find_patterns E None ps)
           else
             thenE (act act_RunWarn ''folder-scan'' (''finder error: '' @ err_text e) [(''pattern'', AStr pattern)])
               (find_patterns E (Some e) ps))"

fun find_candidates :: "vsphere \<Rightarrow> verr option \<Rightarrow> string list \<Rightarrow> vm_obj list vio" where
  "find_candidates E lastErr [] = (case lastErr of Some e \<Rightarrow> failE e | None \<Rightarrow> retE [])"
| "find_candidates E lastErr (base # bs) =
     bindE (find_patterns E lastErr [TrimSuffix base ''/'' @ ''/...'', TrimSuffix base ''/'' @ ''/*'']) (\<lambda>r. case r of
         Inr vms \<Rightarrow> retE vms
       | Inl lastErr \<Rightarrow>
           tryE (walkFolderInventory E base) (\<lambda>r. case r of
               Inr vms \<Rightarrow> thenE (act act_Run ''folder-scan'' ''inventory walk match''
                   [(''path'', AStr base), (''count'', AInt (int (length vms)))]) (retE vms)
             | Inl e \<Rightarrow>
                 thenE (act act_RunWarn ''folder-scan'' (''inventory walk: '' @ err_text e) [(''path'', AStr base)])
                   (find_candidates E (case lastErr of None \<Rightarrow> Some e | Some le \<Rightarrow> Some le) bs)))"

definition findVMsUnderFolder :: "vsphere \<Rightarrow> string \<Rightarrow> vm_obj list vio" where
  "findVMsUnderFolder E folder =
     (let candidates = folderPathCandidates folder in
      thenE (act act_Run ''folder-scan'' ''trying path candidates'' [(''candidates'', AStrs candidates)])
        (find_candidates E None candidates))"

fun match_uuid :: "vsphere \<Rightarrow> endpoint \<Rightarrow> string \<Rightarrow> string \<Rightarrow> string \<Rightarrow> vm_obj list \<Rightarrow> vm_obj vio" where
  "match_uuid E ep uuid folder want [] =
     failE (errorf (''vm uuid '' @ uuid @ '' not found under folder '' @ go_quote folder))"
| "match_uuid E ep uuid folder want (vm # vms) =
     tryE (vm_Properties E vm [''config.uuid'', ''name'']) (\<lambda>r. case r of
         Inl _ \<Rightarrow> match_uuid E ep uuid folder want vms
       | Inr m \<Rightarrow>
           let got = (case pr_Uuid m of Some u \<Rightarrow> ToLower (TrimSpace u) | None \<Rightarrow> '''') in
           if got = '''' \<or> got \<noteq> want then match_uuid E ep uuid folder want vms
           else if \<not> allow ep (pr_Name m) then failE (errorf (''system '' @ uuid @ '' not allowed''))
           else retE vm)"

definition findByUUIDInFolder :: "vsphere \<Rightarrow> string \<Rightarrow> string \<Rightarrow> vm_obj vio" where
  "findByUUIDInFolder E uuid folder =
     bindE (findVMsUnderFolder E folder) (\<lambda>vms. bindE (cl_get cl_ep) (\<lambda>ep.
       match_uuid E ep uuid folder (ToLower (TrimSpace uuid)) vms))"

section \<open>findByUUID\<close>

text \<open>The part after the search index has failed with \<open>firstErr\<close>.\<close>

definition find_fallback :: "vsphere \<Rightarrow> string \<Rightarrow> verr \<Rightarrow> vm_obj vio" where
  "find_fallback E uuid firstErr = bindE (cl_get (\<lambda>c. TrimSpace (ep_Folder (cl_ep c)))) (\<lambda>folder.
     if folder \<noteq> '''' then
       tryE (findByUUIDInFolder E uuid folder) (\<lambda>r. case r of
           Inr vm \<Rightarrow>
             thenE (rememberUUID uuid vm)
             (thenE (act act_Run ''vm-lookup'' ''resolved via folder walk (FindByUuid unavailable)''
                 [(''uuid'', AStr uuid), (''path'', AStr (vm_path vm)), (''searchIndexErr'', AStr (err_text firstErr))])
               (retE vm))
         | Inl ferr \<Rightarrow>
             thenE (act act_RunWarn ''vm-lookup'' ''folder walk missed uuid''
                 [(''uuid'', AStr uuid), (''folder'', AStr folder), (''error'', AStr (err_text ferr)),
                  (''first'', AStr (err_text firstErr))])
               (failE ferr))
     else failE firstErr)"

definition findByUUID :: "vsphere \<Rightarrow> string \<Rightarrow> vm_obj vio" where
  "findByUUID E uuid = thenE (ensure E)
     (let uuid = ToLower (TrimSpace uuid) in
      bindE (cachedVM uuid) (\<lambda>cached. case cached of
        Some vm \<Rightarrow> retE vm
      | None \<Rightarrow>
          bindE (cl_get cl_searchDenied) (\<lambda>skipSearch.
            if \<not> skipSearch then
              tryE (findByUUIDSearchIndex E uuid) (\<lambda>r. case r of
                  Inr vm \<Rightarrow> bindE (checkFolder E vm) (\<lambda>vm. thenE (rememberUUID uuid vm) (retE vm))
                | Inl err \<Rightarrow>
                    thenE (if isPermissionDenied err then cl_mod (\<lambda>c. c\<lparr>cl_searchDenied := True\<rparr>) else retE ())
                      (find_fallback E uuid err))
            else find_fallback E uuid (errorf ''SearchIndex.FindByUuid previously denied''))))"

definition GetSystem :: "vsphere \<Rightarrow> string \<Rightarrow> system_info vio" where
  "GetSystem E uuid = bindE (findByUUID E uuid) (\<lambda>vm. bindE (infoFromVM E vm) (\<lambda>info.
     bindE (cl_get cl_ep) (\<lambda>ep.
       if \<not> allow ep (si_Name info) then failE (errorf (''system '' @ uuid @ '' not allowed''))
       else retE info)))"

section \<open>Listing the folder\<close>

datatype light = LightGreen | LightYellow | LightRed | LightBlue

record folder_vm =
  fv_UUID :: string
  fv_Name :: string
  fv_Path :: string
  fv_PowerState :: string
  fv_Light :: light

definition power_light :: "string \<Rightarrow> light" where
  "power_light p = (if p = ''On'' then LightGreen else if p = ''Off'' \<or> p = ''Paused'' then LightBlue else LightYellow)"

text \<open>The loop over the VMs: what is listed so far and how many had no UUID; \<open>seen\<close> is the UUIDs listed.\<close>

fun list_vms :: "vsphere \<Rightarrow> endpoint \<Rightarrow> folder_vm list \<Rightarrow> nat \<Rightarrow> vm_obj list \<Rightarrow> (folder_vm list \<times> nat) vio" where
  "list_vms E ep out skipped [] = retE (out, skipped)"
| "list_vms E ep out skipped (vm # vms) =
     tryE (vm_Properties E vm [''name'', ''config.uuid'', ''runtime.powerState'']) (\<lambda>r. case r of
         Inl e \<Rightarrow> thenE (act act_RunWarn ''folder-scan'' (''skip vm props: '' @ err_text e) [(''path'', AStr (vm_path vm))])
             (list_vms E ep out skipped vms)
       | Inr m \<Rightarrow>
           let uuid = (case pr_Uuid m of Some u \<Rightarrow> ToLower (TrimSpace u) | None \<Rightarrow> '''') in
           if uuid = '''' then list_vms E ep out (Suc skipped) vms
           else if \<not> allow ep (pr_Name m) then list_vms E ep out skipped vms
           else if uuid \<in> fv_UUID ` set out then list_vms E ep out skipped vms
           else
             let power = mapPower (pr_Power m) in
             list_vms E ep (out @ [\<lparr>fv_UUID = uuid, fv_Name = pr_Name m, fv_Path = vm_path vm,
               fv_PowerState = power, fv_Light = power_light power\<rparr>]) skipped vms)"

definition ListFolderVMs :: "vsphere \<Rightarrow> folder_vm list vio" where
  "ListFolderVMs E = bindE (cl_get cl_ep) (\<lambda>ep.
     let folder = TrimSpace (ep_Folder ep) in
     if folder = '''' then
       thenE (act act_RunWarn ''folder-scan'' ''folder not set'' []) (failE (errorf ''folder not set''))
     else
       thenE (act act_Run ''folder-scan'' ''starting''
           [(''folder'', AStr folder), (''datacenter'', AStr (ep_Datacenter ep)),
            (''datastore'', AStr (ep_Datastore ep)), (''vcenter'', AStr (ep_URL ep))])
       (tryE (ensure E) (\<lambda>r. case r of
           Inl e \<Rightarrow> thenE (act act_RunErr ''folder-scan'' (''ensure failed: '' @ err_text e) [(''folder'', AStr folder)]) (failE e)
         | Inr _ \<Rightarrow> tryE (findVMsUnderFolder E folder) (\<lambda>r. case r of
               Inl e \<Rightarrow> thenE (act act_RunErr ''folder-scan'' (''list failed: '' @ err_text e) [(''folder'', AStr folder)]) (failE e)
             | Inr vms \<Rightarrow> bindE (list_vms E ep [] 0 vms) (\<lambda>(out, skipped).
                 thenE (act act_Run ''folder-scan'' (''found '' @ show_int (int (length out)) @ '' VM(s)'')
                   [(''folder'', AStr folder), (''raw'', AInt (int (length vms))),
                    (''returned'', AInt (int (length out))), (''skippedNoUUID'', AInt (int skipped))])
                 (retE out))))))"

section \<open>Only reads\<close>

abbreviation read_only :: "'a vio \<Rightarrow> bool" where
  "read_only m \<equiv> keeps (calls_only (\<lambda>c. \<not> mutating c)) m"

named_theorems read_only_intro \<open>functions that never change anything in vSphere\<close>

lemma world_call_calls: "world_call E c f w = (r, w') \<Longrightarrow> w_calls w' = w_calls w @ [(c, outcome r)]"
  by (auto simp: world_call_def record_call_def Let_def)

lemma ensure_read_only [read_only_intro]: "read_only (ensure E)"
  unfolding ensure_def logout_fail_def by (intro keeps_intro) simp_all

lemma requireDatastore_read_only [read_only_intro]: "keeps (calls_only P) requireDatastore"
  unfolding requireDatastore_def by (intro keeps_intro)

lemma client_Close_read_only [read_only_intro]: "read_only (client_Close E)"
  unfolding client_Close_def by (intro keeps_intro) simp_all

lemma vm_Properties_read_only [read_only_intro]: "read_only (vm_Properties E vm ps)"
  unfolding vm_Properties_def by (intro keeps_intro) simp

lemma infoFromVM_read_only [read_only_intro]: "read_only (infoFromVM E vm)"
  unfolding infoFromVM_def by (intro keeps_intro read_only_intro) simp_all

lemma cachedVM_read_only [read_only_intro]: "keeps (calls_only P) (cachedVM uuid)"
  unfolding cachedVM_def by (intro keeps_intro)

lemma rememberUUID_read_only [read_only_intro]: "keeps (calls_only P) (rememberUUID uuid vm)"
  unfolding rememberUUID_def by (intro keeps_intro)

lemma keeps_case_child [keeps_intro]:
  "(\<And>x. keeps R (f x)) \<Longrightarrow> (\<And>x. keeps R (g x)) \<Longrightarrow> (\<And>x. keeps R (h x)) \<Longrightarrow>
     keeps R (case v of ChildVM x \<Rightarrow> f x | ChildFolder x \<Rightarrow> g x | ChildOther x \<Rightarrow> h x)"
  by (cases v) auto

lemma findByUUIDSearchIndex_read_only [read_only_intro]: "read_only (findByUUIDSearchIndex E uuid)"
  unfolding findByUUIDSearchIndex_def by (intro keeps_intro) simp_all

lemma checkFolder_read_only [read_only_intro]: "read_only (checkFolder E vm)"
  unfolding checkFolder_def gate_path_def by (intro keeps_intro) simp_all

lemma collect_children_read_only:
  "(\<And>f. read_only (rec f)) \<Longrightarrow> read_only (collect_children rec out chs)"
  by (induction rec out chs rule: collect_children.induct) (simp_all add: keeps_intro)

lemma collectVMs_read_only [read_only_intro]: "read_only (collectVMs E n fol)"
  by (induction n arbitrary: fol) (simp_all add: keeps_intro collect_children_read_only)

lemma walkFolderInventory_read_only [read_only_intro]: "read_only (walkFolderInventory E p)"
  unfolding walkFolderInventory_def by (intro keeps_intro read_only_intro) simp_all

lemma find_patterns_read_only [read_only_intro]: "read_only (find_patterns E e ps)"
  by (induction E e ps rule: find_patterns.induct) (simp_all add: keeps_intro)

lemma find_candidates_read_only [read_only_intro]: "read_only (find_candidates E e bs)"
  by (induction E e bs rule: find_candidates.induct) (simp_all add: keeps_intro read_only_intro)

lemma findVMsUnderFolder_read_only [read_only_intro]: "read_only (findVMsUnderFolder E folder)"
  unfolding findVMsUnderFolder_def by (intro keeps_intro read_only_intro)

lemma match_uuid_read_only [read_only_intro]: "read_only (match_uuid E ep uuid folder want vms)"
  by (induction vms) (simp_all add: keeps_intro read_only_intro Let_def)

lemma find_fallback_read_only [read_only_intro]: "read_only (find_fallback E uuid e)"
  unfolding find_fallback_def findByUUIDInFolder_def by (intro keeps_intro read_only_intro)

lemma findByUUID_read_only [read_only_intro]: "read_only (findByUUID E uuid)"
  unfolding findByUUID_def by (intro keeps_intro read_only_intro)

lemma GetSystem_read_only [read_only_intro]: "read_only (GetSystem E uuid)"
  unfolding GetSystem_def by (intro keeps_intro read_only_intro)

lemma list_vms_read_only [read_only_intro]: "read_only (list_vms E ep out n vms)"
  by (induction vms arbitrary: out n) (simp_all add: keeps_intro read_only_intro Let_def)

lemma ListFolderVMs_read_only [read_only_intro]: "read_only (ListFolderVMs E)"
  unfolding ListFolderVMs_def by (intro keeps_intro read_only_intro)

section \<open>What stays of the client\<close>

definition same_client :: "vstate \<Rightarrow> vstate \<Rightarrow> bool" where
  "same_client s t \<longleftrightarrow> v_cl t = v_cl s"

named_theorems same_client_intro \<open>functions that leave the client alone\<close>

lemma same_client_preorder [simp, keeps_intro]: "preorder_rel same_client"
  by (auto simp: preorder_rel_def same_client_def reflp_def transp_def)

lemma same_client_prims [same_client_intro]:
  "keeps same_client (do_call E c f)" "keeps same_client (cl_get g)" "keeps same_client clock_get"
  "keeps same_client (act h op m d)" "keeps same_client (sleep E t)"
  by (auto simp: keeps_def same_client_def do_call_def sleep_def io_simps Let_def split: option.split)

lemma same_clientD: "keeps same_client m \<Longrightarrow> m s = (r, t) \<Longrightarrow> v_cl t = v_cl s"
  by (auto simp: same_client_def dest: keepsD)

lemma findByUUIDSearchIndex_client [same_client_intro]: "keeps same_client (findByUUIDSearchIndex E uuid)"
  unfolding findByUUIDSearchIndex_def by (intro keeps_intro same_client_intro)

lemma checkFolder_client [same_client_intro]: "keeps same_client (checkFolder E vm)"
  unfolding checkFolder_def gate_path_def by (intro keeps_intro same_client_intro)

lemma collect_children_client:
  "(\<And>f. keeps same_client (rec f)) \<Longrightarrow> keeps same_client (collect_children rec out chs)"
  by (induction rec out chs rule: collect_children.induct) (simp_all add: keeps_intro)

lemma collectVMs_client [same_client_intro]: "keeps same_client (collectVMs E n fol)"
  by (induction n arbitrary: fol) (simp_all add: keeps_intro same_client_intro collect_children_client)

lemma walkFolderInventory_client [same_client_intro]: "keeps same_client (walkFolderInventory E p)"
  unfolding walkFolderInventory_def by (intro keeps_intro same_client_intro)

lemma find_patterns_client [same_client_intro]: "keeps same_client (find_patterns E e ps)"
  by (induction E e ps rule: find_patterns.induct) (simp_all add: keeps_intro same_client_intro)

lemma find_candidates_client [same_client_intro]: "keeps same_client (find_candidates E e bs)"
  by (induction E e bs rule: find_candidates.induct) (simp_all add: keeps_intro same_client_intro)

lemma vm_Properties_client [same_client_intro]: "keeps same_client (vm_Properties E vm ps)"
  unfolding vm_Properties_def by (intro same_client_intro)

lemma match_uuid_client [same_client_intro]: "keeps same_client (match_uuid E ep uuid folder want vms)"
  by (induction vms) (simp_all add: keeps_intro same_client_intro Let_def)

lemma findByUUIDInFolder_client [same_client_intro]: "keeps same_client (findByUUIDInFolder E uuid folder)"
  unfolding findByUUIDInFolder_def findVMsUnderFolder_def by (intro keeps_intro same_client_intro)

lemma infoFromVM_client [same_client_intro]: "keeps same_client (infoFromVM E vm)"
  unfolding infoFromVM_def by (intro keeps_intro same_client_intro)

lemma list_vms_client [same_client_intro]: "keeps same_client (list_vms E ep out n vms)"
  by (induction vms arbitrary: out n) (simp_all add: keeps_intro same_client_intro Let_def)

lemma run_prims:
  "cl_get f s = (Inr (f (v_cl s)), s)" "clock_get s = (Inr (w_clock (v_w s)), s)"
  "cl_mod g s = (Inr (), s\<lparr>v_cl := g (v_cl s)\<rparr>)" "retE x s = (Inr x, s)" "failE e s = (Inl e, s)"
  by (simp_all add: io_simps)

lemma bind_prims [simp]:
  "bindE (cl_get f) k s = k (f (v_cl s)) s" "bindE clock_get k' s = k' (w_clock (v_w s)) s"
  "bindE (retE x) k'' s = k'' x s" "bindE (failE e) k''' s = (Inl e, s)" "thenE (cl_mod g) m s = m (s\<lparr>v_cl := g (v_cl s)\<rparr>)"
  "thenE (retE x) m s = m s"
  by (simp_all add: io_simps)

lemma bind_getE [simp]: "bindE (getE f) k s = k (f s) s"
  by (simp add: io_simps)

lemma bindE_run: "m s = (Inr x, s1) \<Longrightarrow> bindE m f s = f x s1"
  by (simp add: bindE_def tryE_def)

lemma getE_run: "getE f s = (Inr (f s), s)"
  by (simp add: getE_def)

section \<open>Sessions are not leaked\<close>

lemma do_call_Inl:
  assumes "do_call E c f s = (Inl e, t)"
  shows "f (w_calls (v_w s)) = Inl e \<and> v_cl t = v_cl s \<and> w_calls (v_w t) = w_calls (v_w s) @ [(c, Some e)]"
  using assms by (auto simp: do_call_def record_call_def outcome_def Let_def)

lemma logout_fail_run:
  assumes "logout_fail E e s = (r, t)"
  shows "r = Inl e \<and> v_cl t = v_cl s \<and> (\<exists>o'. w_calls (v_w t) = w_calls (v_w s) @ [(CLogout, o')])"
  using assms by (auto simp: logout_fail_def io_simps do_call_def record_call_def Let_def)

lemma new_calls_append: "w_calls (v_w t) = w_calls (v_w s) @ l \<Longrightarrow> new_calls s t = l"
  by (simp add: new_calls_def)

lemma ensure_connected [simp]: "cl_connected (v_cl s) \<Longrightarrow> ensure E s = (Inr (), s)"
  by (simp add: ensure_def run_prims)

lemma ensure_Inr:
  assumes "ensure E s = (Inr x, t)"
  shows "cl_connected (v_cl t) \<and> cl_uuidCache (v_cl t) = cl_uuidCache (v_cl s)
    \<and> cl_searchDenied (v_cl t) = cl_searchDenied (v_cl s) \<and> cl_mediaISO (v_cl t) = cl_mediaISO (v_cl s)"
proof (cases "cl_connected (v_cl s)")
  case True
  with assms show ?thesis by simp
next
  case False
  with assms show ?thesis
    by (auto simp: ensure_def run_prims Let_def split: sum.splits if_splits
        elim!: thenE_InrE tryE_E dest!: wrapE_InrE logout_fail_run do_call_Inr)
qed

lemma ensure_Inl:
  assumes "ensure E s = (Inl e, t)"
  shows "v_cl t = v_cl s \<and> \<not> cl_connected (v_cl t)
    \<and> (\<forall>u. (CLogin u, None) \<in> set (new_calls s t) \<longrightarrow> fst (last (new_calls s t)) = CLogout)"
proof -
  have nc: "\<not> cl_connected (v_cl s)" using assms by (cases "cl_connected (v_cl s)") simp_all
  then show ?thesis
    using assms
    by (auto simp: ensure_def run_prims Let_def bindE_def thenE_def tryE_def wrapE_def new_calls_def
        split: sum.splits if_splits prod.splits dest!: do_call_Inr do_call_Inl logout_fail_run)
qed

subsection \<open>Properties\<close>

text \<open>
  A session that was opened is either kept for later calls or closed again. If \<open>ensure\<close> succeeds
  the client is connected; if it fails, the client is as before and a successful login among the calls
  it made is followed by a logout as its last call.
\<close>

theorem ensure_never_leaks_session:
  "case ensure E s of
     (Inr _, t) \<Rightarrow> cl_connected (v_cl t)
   | (Inl e, t) \<Rightarrow> v_cl t = v_cl s \<and>
       (\<forall>u. (CLogin u, None) \<in> set (new_calls s t) \<longrightarrow> fst (last (new_calls s t)) = CLogout)"
proof (cases "ensure E s")
  case (Pair r t)
  show ?thesis
  proof (cases r)
    case (Inr x)
    with Pair ensure_Inr show ?thesis by fastforce
  next
    case (Inl e)
    with Pair ensure_Inl [of E s e t] show ?thesis by simp
  qed
qed

theorem ensure_never_leaks_session_witness:
  "let E = demo_vs\<lparr>ve_Datacenter := \<lambda>_ _. Inl (errorf ''none'')\<rparr>; t = snd (ensure E demo_st) in
   (CLogin ''https://vc'', None) \<in> set (new_calls demo_st t) \<and> fst (last (new_calls demo_st t)) = CLogout"
proof -
  let ?E = "demo_vs\<lparr>ve_Datacenter := \<lambda>_ _. Inl (errorf ''none'')\<rparr>"
  obtain e t where r: "ensure ?E demo_st = (Inl e, t)" and l: "(CLogin ''https://vc'', None) \<in> set (new_calls demo_st t)"
    by (simp add: ensure_def logout_fail_def io_simps do_call_def record_call_def outcome_def new_calls_def demo_defs)
  from ensure_never_leaks_session [where E = ?E and s = demo_st] r l show ?thesis by (auto simp: Let_def)
qed

section \<open>The folder gate\<close>

lemma prefix_SplitChar:
  "prefix (SplitChar c a) (SplitChar c b) \<longleftrightarrow> a = b \<or> prefix (a @ [c]) b"
proof (induction a arbitrary: b)
  case Nil
  show ?case
  proof (cases b)
    case (Cons x xs)
    then show ?thesis by (cases "SplitChar c xs") auto
  qed simp
next
  case (Cons y a)
  show ?case
  proof (cases b)
    case Nil
    then show ?thesis by (cases "SplitChar c a") auto
  next
    case (Cons x xs)
    show ?thesis
    proof (cases "y = c")
      case True
      then show ?thesis using Cons Cons.IH [of xs] by (cases "SplitChar c xs") auto
    next
      case yc: False
      obtain p ps where a: "SplitChar c a = p # ps" by (cases "SplitChar c a") auto
      obtain q qs where b: "SplitChar c xs = q # qs" by (cases "SplitChar c xs") auto
      show ?thesis using Cons Cons.IH [of xs] a b yc by auto
    qed
  qed
qed

text \<open>The components of an inventory path, as the gate compares them.\<close>

definition path_parts :: "string \<Rightarrow> string list" where
  "path_parts p = SplitChar CHR ''/'' (normalizeInventoryPath p)"

lemma in_folder_parts: "in_folder folder p = prefix (path_parts folder) (path_parts p)"
  by (auto simp: in_folder_def path_parts_def prefix_SplitChar HasPrefix_def Let_def)

lemma gate_path_Inr: "(\<exists>vm'. fst (gate_path E folder vm p s) = Inr vm') = in_folder folder p"
  by (simp add: gate_path_def run_prims)

text \<open>
  C7: The GOVC_FOLDER gate compares whole path components. A VM found by the search index is accepted
  exactly when the components of its inventory path, up to case, back slashes and repeated slashes,
  begin with those of the folder (a sibling such as \<open>/DC/vm/LAB2\<close> does not pass for \<open>/DC/vm/LAB\<close>), or when
  the account may not read the path at all; any other error reading the path refuses the VM.
\<close>

theorem folder_gate_compares_components:
  assumes "TrimSpace (ep_Folder (cl_ep (v_cl s))) = folder" and "folder \<noteq> ''''"
  shows "(\<exists>vm'. fst (checkFolder E vm s) = Inr vm') \<longleftrightarrow>
    (case (if vm_path vm \<noteq> '''' then Inr (vm_path vm) else ve_InventoryPath E (w_calls (v_w s)) (vm_ref vm)) of
       Inl e \<Rightarrow> isPermissionDenied e
     | Inr p \<Rightarrow> prefix (path_parts folder) (path_parts p))"
proof (cases "vm_path vm = ''''")
  case True
  show ?thesis
  proof (cases "ve_InventoryPath E (w_calls (v_w s)) (vm_ref vm)")
    case (Inl e)
    then show ?thesis using assms True
      by (simp add: checkFolder_def tryE_def do_call_def act_def thenE_def modE_def bindE_def retE_def failE_def cl_get_def getE_def Let_def)
  next
    case (Inr p)
    then show ?thesis using assms True
      by (simp add: checkFolder_def tryE_def do_call_def gate_path_Inr in_folder_parts Let_def)
  qed
next
  case False
  then show ?thesis using assms by (simp add: checkFolder_def gate_path_Inr in_folder_parts)
qed

lemma demo_paths: "path_parts ''/DC/vm/LAB'' = ['''', ''dc'', ''vm'', ''lab'']"
    "path_parts ''/DC//VM/Lab2/node1'' = ['''', ''dc'', ''vm'', ''lab2'', ''node1'']"
  by code_simp+

theorem folder_gate_compares_components_witness:
  "\<not> (\<exists>vm'. fst (checkFolder demo_vs (demo_vm\<lparr>vm_path := ''/DC//VM/Lab2/node1''\<rparr>) demo_st) = Inr vm')"
proof -
  let ?vm = "demo_vm\<lparr>vm_path := ''/DC//VM/Lab2/node1''\<rparr>"
  have f: "TrimSpace (ep_Folder (cl_ep (v_cl demo_st))) = ''/DC/vm/LAB''" by (simp add: demo_defs go_str Let_def)
  have v: "vm_path ?vm = ''/DC//VM/Lab2/node1''" by simp
  show ?thesis
    by (subst folder_gate_compares_components [OF f]) (simp_all add: v demo_paths del: vm_obj.update_convs)
qed

section \<open>The cache\<close>

lemma remember_entry_lookup:
  assumes "cl_connected c"
  shows "cached_entry (remember_entry uuid vm now c) later uuid =
    (if uuidCacheTTL < later - now then None else Some \<lparr>vm_ref = vm_ref vm, vm_path = vm_path vm\<rparr>)"
  using assms by (simp add: cached_entry_def remember_entry_def Let_def split: option.split)

lemma vm_obj_eta [simp]: "\<lparr>vm_ref = vm_ref vm, vm_path = vm_path vm\<rparr> = (vm :: vm_obj)"
  by simp

lemma act_Inr: "act h op m d s = (Inr (), s\<lparr>v_w := (v_w s)\<lparr>w_bus := h (w_clock (v_w s)) op m d (w_bus (v_w s))\<rparr>\<rparr>)"
  by (simp add: io_simps)

text \<open>After a lookup that was not answered from the cache, the answer is in it, dated now.\<close>

definition just_cached :: "string \<Rightarrow> vm_obj \<Rightarrow> vstate \<Rightarrow> bool" where
  "just_cached uuid vm t \<longleftrightarrow> cl_connected (v_cl t) \<and>
     (\<exists>c. cl_connected c \<and> v_cl t = remember_entry uuid vm (w_clock (v_w t)) c)"

lemma just_cached_act [simp]:
  "just_cached uuid vm (s\<lparr>v_w := (v_w s)\<lparr>w_bus := b\<rparr>\<rparr>) = just_cached uuid vm s"
  by (simp add: just_cached_def)

lemma rememberUUID_Inr:
  assumes "rememberUUID uuid vm s = (x, t)" "cl_connected (v_cl s)"
  shows "just_cached uuid vm t \<and> x = Inr ()"
  using assms by (auto simp: rememberUUID_def run_prims just_cached_def remember_entry_def Let_def)

lemma find_fallback_Inr:
  assumes "find_fallback E uuid e s = (Inr vm, t)" "cl_connected (v_cl s)"
  shows "just_cached uuid vm t"
proof (cases "TrimSpace (ep_Folder (cl_ep (v_cl s))) = ''''")
  case True
  with assms(1) show ?thesis by (simp add: find_fallback_def run_prims)
next
  case False
  with assms(1) show ?thesis
    using assms(2) same_clientD [OF findByUUIDInFolder_client]
    by (auto simp: find_fallback_def run_prims act_Inr elim!: tryE_E thenE_InrE
        split: sum.splits dest!: rememberUUID_Inr)
qed

lemma findByUUID_cached:
  assumes "ensure E s = (Inr (), s1)" "cached_entry (v_cl s1) (w_clock (v_w s1)) (ToLower (TrimSpace uuid)) = Some vm"
  shows "findByUUID E uuid s = (Inr vm, s1)"
  using assms by (simp add: findByUUID_def cachedVM_def thenE_def bindE_def tryE_def clock_get_def cl_get_def getE_def retE_def Let_def)

lemma same_client_connected:
  "m s = (r, t) \<Longrightarrow> keeps same_client m \<Longrightarrow> cl_connected (v_cl s) \<Longrightarrow> cl_connected (v_cl t)"
  by (simp add: same_clientD)

lemma findByUUID_fresh:
  assumes "ensure E s = (Inr (), s1)" "cached_entry (v_cl s1) (w_clock (v_w s1)) (ToLower (TrimSpace uuid)) = None"
    and "findByUUID E uuid s = (Inr vm, t)"
  shows "just_cached (ToLower (TrimSpace uuid)) vm t"
proof -
  let ?u = "ToLower (TrimSpace uuid)"
  have c: "cl_connected (v_cl s1)" using ensure_Inr [OF assms(1)] by simp
  have run: "findByUUID E uuid s = (if \<not> cl_searchDenied (v_cl s1) then
      tryE (findByUUIDSearchIndex E ?u) (\<lambda>r. case r of
          Inr vm \<Rightarrow> bindE (checkFolder E vm) (\<lambda>vm. thenE (rememberUUID ?u vm) (retE vm))
        | Inl err \<Rightarrow> thenE (if isPermissionDenied err then cl_mod (\<lambda>c. c\<lparr>cl_searchDenied := True\<rparr>) else retE ())
              (find_fallback E ?u err))
    else find_fallback E ?u (errorf ''SearchIndex.FindByUuid previously denied'')) s1"
    using assms(1,2)
    by (simp add: findByUUID_def cachedVM_def thenE_def [of "ensure E"] bindE_def [of "ensure E"] tryE_def [of "ensure E"]
        bindE_def [of "bindE clock_get f" for f] tryE_def [of "bindE clock_get f" for f] run_prims Let_def)
  show ?thesis
  proof (cases "cl_searchDenied (v_cl s1)")
    case True
    with run assms(3) c show ?thesis by (auto intro: find_fallback_Inr)
  next
    case False
    let ?k = "\<lambda>r. case r of Inr vm \<Rightarrow> bindE (checkFolder E vm) (\<lambda>vm. thenE (rememberUUID ?u vm) (retE vm))
        | Inl err \<Rightarrow> thenE (if isPermissionDenied err then cl_mod (\<lambda>c. c\<lparr>cl_searchDenied := True\<rparr>) else retE ())
              (find_fallback E ?u err)"
    from False run assms(3) have "tryE (findByUUIDSearchIndex E ?u) ?k s1 = (Inr vm, t)" by simp
    then obtain r u where r: "findByUUIDSearchIndex E ?u s1 = (r, u)" and k: "?k r u = (Inr vm, t)" by (rule tryE_E)
    have cu: "cl_connected (v_cl u)" using r findByUUIDSearchIndex_client c by (rule same_client_connected)
    show ?thesis
    proof (cases r)
      case (Inl err)
      with k cu show ?thesis by (auto split: if_splits intro: find_fallback_Inr)
    next
      case (Inr vm0)
      with k obtain vm1 ua where f: "checkFolder E vm0 u = (Inr vm1, ua)"
          and k2: "thenE (rememberUUID ?u vm1) (retE vm1) ua = (Inr vm, t)"
        by (auto elim!: bindE_InrE)
      from f checkFolder_client cu have "cl_connected (v_cl ua)" by (rule same_client_connected)
      with k2 show ?thesis by (auto simp: run_prims elim!: thenE_InrE dest!: rememberUUID_Inr)
    qed
  qed
qed

text \<open>
  A VM found by UUID is served from the cache for two minutes and not longer. After a lookup that
  the cache did not answer, looking the same UUID up again, in any spelling, at a time within
  \<open>uuidCacheTTL\<close> of it returns the same VM without a single call to the vCenter; at a later time the
  entry no longer counts.
\<close>

theorem uuid_cache_lives_two_minutes:
  assumes "ensure E s = (Inr (), s1)"
    and "cached_entry (v_cl s1) (w_clock (v_w s1)) (ToLower (TrimSpace uuid)) = None"
    and "findByUUID E uuid s = (Inr vm, t)"
    and "ToLower (TrimSpace uuid') = ToLower (TrimSpace uuid)" and "v_cl s' = v_cl t"
  shows "(w_clock (v_w s') - w_clock (v_w t) \<le> 120 * second \<longrightarrow> findByUUID E uuid' s' = (Inr vm, s'))
    \<and> (120 * second < w_clock (v_w s') - w_clock (v_w t) \<longrightarrow>
        cached_entry (v_cl s') (w_clock (v_w s')) (ToLower (TrimSpace uuid')) = None)"
proof -
  let ?u = "ToLower (TrimSpace uuid)"
  obtain c where c: "cl_connected c" "cl_connected (v_cl t)" "v_cl t = remember_entry ?u vm (w_clock (v_w t)) c"
    using findByUUID_fresh [OF assms(1-3)] by (auto simp: just_cached_def)
  have look: "cached_entry (v_cl s') (w_clock (v_w s')) ?u =
      (if uuidCacheTTL < w_clock (v_w s') - w_clock (v_w t) then None else Some vm)"
    unfolding assms(5) c(3) by (subst remember_entry_lookup [OF c(1)]) simp
  have en: "ensure E s' = (Inr (), s')" using c(2) assms(5) by simp
  have "w_clock (v_w s') - w_clock (v_w t) \<le> 120 * second \<Longrightarrow> findByUUID E uuid' s' = (Inr vm, s')"
    by (rule findByUUID_cached [OF en]) (simp add: assms(4) look uuidCacheTTL_def)
  moreover have "120 * second < w_clock (v_w s') - w_clock (v_w t) \<Longrightarrow>
        cached_entry (v_cl s') (w_clock (v_w s')) (ToLower (TrimSpace uuid')) = None"
    by (simp add: assms(4) look uuidCacheTTL_def)
  ultimately show ?thesis by blast
qed

definition demo_found :: vstate where
  "demo_found = snd (findByUUID demo_vs ''AA-BB'' demo_st)"

lemma demo_find: "fst (findByUUID demo_vs ''AA-BB'' demo_st) = Inr \<lparr>vm_ref = ''vm-1'', vm_path = ''/DC/vm/LAB/node1''\<rparr>"
proof -
  have p: "in_folder ''/DC/vm/LAB'' ''/DC/vm/LAB/node1''" by code_simp
  have f: "TrimSpace ''/DC/vm/LAB'' = ''/DC/vm/LAB''" "NormalizeDatastore ''DS'' = ''DS''" by code_simp+
  show ?thesis
    by (simp add: findByUUID_def ensure_def cachedVM_def cached_entry_def findByUUIDSearchIndex_def checkFolder_def
        gate_path_def rememberUUID_def remember_entry_def io_simps do_call_def record_call_def demo_defs f p Let_def)
qed

theorem uuid_cache_lives_two_minutes_witness:
  "let s' = demo_found\<lparr>v_w := (v_w demo_found)\<lparr>w_clock := w_clock (v_w demo_found) + 100 * second\<rparr>\<rparr> in
   findByUUID demo_vs '' aa-bb'' s' = (Inr \<lparr>vm_ref = ''vm-1'', vm_path = ''/DC/vm/LAB/node1''\<rparr>, s')"
proof -
  let ?s = "demo_found\<lparr>v_w := (v_w demo_found)\<lparr>w_clock := w_clock (v_w demo_found) + 100 * second\<rparr>\<rparr>"
  obtain s1 where s1: "ensure demo_vs demo_st = (Inr (), s1)" "cl_uuidCache (v_cl s1) = None"
  proof -
    have f: "NormalizeDatastore ''DS'' = ''DS''" by code_simp
    have "fst (ensure demo_vs demo_st) = Inr () \<and> cl_uuidCache (v_cl (snd (ensure demo_vs demo_st))) = None"
      by (simp add: ensure_def io_simps do_call_def record_call_def demo_defs f Let_def)
    then show ?thesis by (intro that [of "snd (ensure demo_vs demo_st)"]) (simp_all add: prod_eq_iff)
  qed
  have f: "findByUUID demo_vs ''AA-BB'' demo_st = (Inr \<lparr>vm_ref = ''vm-1'', vm_path = ''/DC/vm/LAB/node1''\<rparr>, demo_found)"
    using demo_find by (simp add: demo_found_def prod_eq_iff)
  have n: "cached_entry (v_cl s1) (w_clock (v_w s1)) (ToLower (TrimSpace ''AA-BB'')) = None"
    using s1(2) by (simp add: cached_entry_def)
  have u: "ToLower (TrimSpace '' aa-bb'') = ToLower (TrimSpace ''AA-BB'')" by code_simp
  from uuid_cache_lives_two_minutes [OF s1(1) n f u, of ?s] show ?thesis
    by (simp add: Let_def second_def)
qed

section \<open>The folder walk on a static inventory\<close>

text \<open>An inventory below a folder, and the calls that describe it.\<close>

datatype inv_tree = TVM vm_obj | TOther string | TFolder string "inv_tree list"

fun node_of :: "inv_tree \<Rightarrow> child" where
  "node_of (TVM vm) = ChildVM vm"
| "node_of (TOther k) = ChildOther k"
| "node_of (TFolder f _) = ChildFolder f"

fun tree_vms :: "inv_tree \<Rightarrow> vm_obj list" where
  "tree_vms (TVM vm) = [vm]"
| "tree_vms (TOther _) = []"
| "tree_vms (TFolder _ ts) = concat (map tree_vms ts)"

fun folder_levels :: "inv_tree \<Rightarrow> nat" where
  "folder_levels (TFolder _ ts) = Suc (fold max (map folder_levels ts) 0)"
| "folder_levels _ = 0"

fun serves :: "vsphere \<Rightarrow> inv_tree \<Rightarrow> bool" where
  "serves E (TFolder f ts) = ((\<forall>h. ve_Children E h f = Inr (map node_of ts)) \<and> (\<forall>t \<in> set ts. serves E t))"
| "serves E _ = True"

lemma fold_max_le: "fold max (map f ts) (a :: nat) \<le> n \<longleftrightarrow> a \<le> n \<and> (\<forall>t \<in> set ts. f t \<le> n)"
  by (induction ts arbitrary: a) auto

lemma collect_children_static:
  assumes "\<And>f us s. TFolder f us \<in> set ts \<Longrightarrow> fst (rec f s) =
      (if folder_levels (TFolder f us) \<le> n then Inr (tree_vms (TFolder f us)) else Inl e)"
  shows "fst (collect_children rec out (map node_of ts) s) =
      (if \<forall>t \<in> set ts. folder_levels t \<le> n then Inr (out @ concat (map tree_vms ts)) else Inl e)"
  using assms
proof (induction ts arbitrary: out s)
  case Nil
  then show ?case by (simp add: run_prims)
next
  case (Cons t ts)
  have IH: "fst (collect_children rec out (map node_of ts) s) =
      (if \<forall>t \<in> set ts. folder_levels t \<le> n then Inr (out @ concat (map tree_vms ts)) else Inl e)" for out s
    by (rule Cons.IH) (use Cons.prems in auto)
  show ?case
  proof (cases t)
    case (TFolder f us)
    obtain r u where r: "rec f s = (r, u)" by fastforce
    have "r = (if folder_levels t \<le> n then Inr (tree_vms t) else Inl e)"
      using Cons.prems [of f us s] TFolder r by simp
    then show ?thesis using TFolder r IH by (auto simp: bindE_def tryE_def failE_def)
  qed (use IH in auto)
qed

lemma collectVMs_static:
  assumes "serves E (TFolder f ts)"
  shows "fst (collectVMs E n f s) = (if folder_levels (TFolder f ts) \<le> n then Inr (tree_vms (TFolder f ts))
     else Inl (errorf ''folder depth exceeded''))"
  using assms
proof (induction n arbitrary: f ts s)
  case 0
  then show ?case by (simp add: run_prims)
next
  case (Suc n)
  obtain u where u: "do_call E (CChildren f) (\<lambda>h. ve_Children E h f) s = (Inr (map node_of ts), u)"
    using Suc.prems by (simp add: do_call_def Let_def)
  have "fst (collectVMs E (Suc n) f s) = fst (collect_children (collectVMs E n) [] (map node_of ts) u)"
    by (simp add: bindE_def tryE_def u)
  also have "\<dots> = (if \<forall>t \<in> set ts. folder_levels t \<le> n then Inr ([] @ concat (map tree_vms ts))
      else Inl (errorf ''folder depth exceeded''))"
    by (rule collect_children_static) (rule Suc.IH, use Suc.prems in auto)
  also have "(\<forall>t \<in> set ts. folder_levels t \<le> n) = (folder_levels (TFolder f ts) \<le> Suc n)"
    by (simp add: fold_max_le)
  finally show ?case by simp
qed

text \<open>
  C39: The inventory walk finds every VM and always ends. When the vCenter's answers describe a folder
  tree, walking it returns exactly the VMs of the tree, in the order of a depth-first traversal, if
  folders nest at most 33 deep; otherwise it fails with "folder depth exceeded" and never returns
  a partial list.
\<close>

theorem folder_walk_is_complete:
  assumes "serves E (TFolder f ts)" and "\<forall>h. ve_FindByInventoryPath E h path = Inr (Some f)"
  shows "fst (walkFolderInventory E path s) =
    (if folder_levels (TFolder f ts) \<le> 33 then Inr (tree_vms (TFolder f ts))
     else Inl (errorf ''folder depth exceeded''))"
proof -
  obtain u where u: "do_call E (CFindByInventoryPath path) (\<lambda>h. ve_FindByInventoryPath E h path) s = (Inr (Some f), u)"
    using assms(2) by (simp add: do_call_def Let_def)
  then have "fst (walkFolderInventory E path s) = fst (collectVMs E 33 f u)"
    by (simp add: walkFolderInventory_def bindE_def tryE_def)
  then show ?thesis by (simp only: collectVMs_static [OF assms(1)])
qed

theorem folder_walk_is_complete_witness:
  "fst (walkFolderInventory (demo_vs\<lparr>ve_Children := (\<lambda>_ f. Inr (if f = ''group-v1'' then [ChildFolder ''lab'', ChildVM demo_vm]
      else [ChildVM (demo_vm\<lparr>vm_ref := ''vm-2''\<rparr>)]))\<rparr>) ''/DC/vm'' demo_st) = Inr [demo_vm\<lparr>vm_ref := ''vm-2''\<rparr>, demo_vm]"
proof -
  let ?ts = "[TFolder ''lab'' [TVM (demo_vm\<lparr>vm_ref := ''vm-2''\<rparr>)], TVM demo_vm]"
  let ?E = "demo_vs\<lparr>ve_Children := (\<lambda>_ f. Inr (if f = ''group-v1'' then [ChildFolder ''lab'', ChildVM demo_vm]
      else [ChildVM (demo_vm\<lparr>vm_ref := ''vm-2''\<rparr>)]))\<rparr>"
  have "serves ?E (TFolder ''group-v1'' ?ts)" "\<forall>h. ve_FindByInventoryPath ?E h ''/DC/vm'' = Inr (Some ''group-v1'')"
    by (simp_all add: demo_vs_def)
  from folder_walk_is_complete [OF this, of demo_st] show ?thesis by simp
qed

section \<open>Matching and listing\<close>

lemma match_uuid_Inr:
  assumes "match_uuid E ep uuid folder want vms s = (Inr vm, t)"
  shows "vm \<in> set vms \<and> (\<exists>h m. ve_Properties E h (vm_ref vm) = Inr m
      \<and> (\<exists>u. pr_Uuid m = Some u \<and> ToLower (TrimSpace u) = want) \<and> allow ep (pr_Name m))"
  using assms
proof (induction vms arbitrary: s)
  case Nil
  then show ?case by (simp add: run_prims)
next
  case (Cons v vms)
  from Cons.prems obtain r u where p: "vm_Properties E v [''config.uuid'', ''name''] s = (r, u)"
    by (auto elim!: tryE_E)
  show ?case
  proof (cases r)
    case (Inl e)
    with Cons p show ?thesis by (auto simp: tryE_def)
  next
    case (Inr m)
    have pr: "ve_Properties E (w_calls (v_w s)) (vm_ref v) = Inr m"
      using p Inr by (auto simp: vm_Properties_def dest: do_call_Inr)
    show ?thesis
      using Cons.prems p Inr pr Cons.IH [of u]
      by (auto simp: tryE_def run_prims Let_def split: if_splits option.splits)
  qed
qed

definition entry_of :: "vsphere \<Rightarrow> endpoint \<Rightarrow> folder_vm \<Rightarrow> vm_obj \<Rightarrow> bool" where
  "entry_of E ep f vm \<longleftrightarrow> fv_UUID f \<noteq> [] \<and> allow ep (fv_Name f) \<and>
     (\<exists>h m u. ve_Properties E h (vm_ref vm) = Inr m \<and> pr_Uuid m = Some u
        \<and> fv_UUID f = ToLower (TrimSpace u) \<and> fv_Name f = pr_Name m \<and> fv_PowerState f = mapPower (pr_Power m))"

lemma list_vms_Inr:
  assumes "list_vms E ep out n vms s = (Inr (out', k), t)" "distinct (map fv_UUID out)"
  shows "distinct (map fv_UUID out') \<and> (\<forall>f \<in> set out'. f \<in> set out \<or> (\<exists>vm \<in> set vms. entry_of E ep f vm))"
  using assms
proof (induction vms arbitrary: out n s)
  case Nil
  then show ?case by (simp add: run_prims)
next
  case (Cons v vms)
  from Cons.prems obtain r u where p: "vm_Properties E v [''name'', ''config.uuid'', ''runtime.powerState''] s = (r, u)"
    by (auto elim!: tryE_E)
  show ?case
  proof (cases r)
    case (Inl e)
    with Cons.prems p obtain u2 where "list_vms E ep out n vms u2 = (Inr (out', k), t)"
      by (auto simp: tryE_def act_Inr elim!: thenE_InrE)
    from Cons.IH [OF this Cons.prems(2)] show ?thesis by auto
  next
    case (Inr m)
    have pr: "ve_Properties E (w_calls (v_w s)) (vm_ref v) = Inr m"
      using p Inr by (auto simp: vm_Properties_def dest: do_call_Inr)
    let ?uuid = "case pr_Uuid m of Some u \<Rightarrow> ToLower (TrimSpace u) | None \<Rightarrow> []"
    let ?f = "\<lparr>fv_UUID = ?uuid, fv_Name = pr_Name m, fv_Path = vm_path v, fv_PowerState = mapPower (pr_Power m),
        fv_Light = power_light (mapPower (pr_Power m))\<rparr>"
    consider (skip) n' where "list_vms E ep out n' vms u = (Inr (out', k), t)"
      | (add) "list_vms E ep (out @ [?f]) n vms u = (Inr (out', k), t)" "?uuid \<noteq> []" "allow ep (pr_Name m)"
          "?uuid \<notin> fv_UUID ` set out"
      using Cons.prems(1) p Inr by (auto simp: tryE_def Let_def split: if_splits)
    then show ?thesis
    proof cases
      case skip
      from Cons.IH [OF this Cons.prems(2)] show ?thesis by auto
    next
      case add
      have "entry_of E ep ?f v" using add(2,3) pr by (auto simp: entry_of_def split: option.splits)
      moreover have "distinct (map fv_UUID (out @ [?f]))" using Cons.prems(2) add(4) by auto
      from Cons.IH [OF add(1) this]
      have "distinct (map fv_UUID out')" "\<forall>f \<in> set out'. f \<in> set (out @ [?f]) \<or> (\<exists>vm \<in> set vms. entry_of E ep f vm)"
        by blast+
      ultimately show ?thesis by auto
    qed
  qed
qed

text \<open>
  The folder listing shows each VM at most once and invents nothing: the UUIDs of the result are
  distinct, not empty, lower case and trimmed, and every entry carries the name, UUID and power state
  that the vCenter reported for some VM, one the allowlist admits.
\<close>

theorem folder_listing_is_sound:
  assumes "ListFolderVMs E s = (Inr out, t)"
  shows "distinct (map fv_UUID out) \<and> (\<forall>f \<in> set out. fv_UUID f \<noteq> '''' \<and> NormalizeUUID (fv_UUID f) = fv_UUID f
      \<and> allow (cl_ep (v_cl s)) (fv_Name f)
      \<and> (\<exists>h ref m u. ve_Properties E h ref = Inr m \<and> pr_Uuid m = Some u \<and> fv_UUID f = NormalizeUUID u
          \<and> fv_Name f = pr_Name m \<and> fv_PowerState f = mapPower (pr_Power m)))"
proof -
  from assms obtain vms k s1 t1 where "list_vms E (cl_ep (v_cl s)) [] 0 vms s1 = (Inr (out, k), t1)"
    by (auto simp: ListFolderVMs_def run_prims Let_def act_Inr split: if_splits sum.splits
        elim!: thenE_InrE tryE_E bindE_InrE)
  from list_vms_Inr [OF this] show ?thesis
    by (fastforce simp: NormalizeUUID_def ToLower_TrimSpace entry_of_def)
qed
theorem folder_listing_is_sound_witness:
  "\<exists>out t. ListFolderVMs demo_vs demo_st = (Inr out, t) \<and> map fv_UUID out = [''aa-bb'']
     \<and> NormalizeUUID ''aa-bb'' = ''aa-bb''"
proof -
  have f: "TrimSpace ''/DC/vm/LAB'' = ''/DC/vm/LAB''" "NormalizeDatastore ''DS'' = ''DS''"
      "TrimSpace ''aa-bb'' = ''aa-bb''" "ToLower ''aa-bb'' = ''aa-bb''" by code_simp+
  obtain b bs where c: "folderPathCandidates ''/DC/vm/LAB'' = b # bs"
  proof -
    have "folderPathCandidates ''/DC/vm/LAB'' = [''/DC/vm/LAB'', ''/DC/VMs/LAB'']" by code_simp
    then show ?thesis by (rule that)
  qed
  obtain out t where r: "ListFolderVMs demo_vs demo_st = (Inr out, t)" and u: "map fv_UUID out = [''aa-bb'']"
    by (simp add: ListFolderVMs_def ensure_def findVMsUnderFolder_def vm_Properties_def allow_def
        io_simps do_call_def record_call_def demo_defs f c Let_def)
  have "''aa-bb'' \<in> fv_UUID ` set out" using u by (metis list.set_intros(1) list.set_map)
  with folder_listing_is_sound [OF r] have "NormalizeUUID ''aa-bb'' = ''aa-bb''" by auto
  then show ?thesis using r u by (intro exI [of _ out] exI [of _ t] conjI)
qed

end
