(* ===== verification/Vsphere_Power.thy ===== *)
theory Vsphere_Power
  imports Vsphere_Lookup
begin

text \<open>
  Power and boot order (\<open>internal/vsphere/client.go\<close>): \<open>Reset\<close>, the hard and the soft power-off, waiting
  for a task while answering the VM's questions, and the boot order that virtual media needs.
\<close>

section \<open>Questions and tasks\<close>

text \<open>A choice is its \<open>(key, label)\<close>, or \<open>None\<close> when it has no element description.\<close>

fun first_yes :: "(string \<times> string) option list \<Rightarrow> string option" where
  "first_yes [] = None"
| "first_yes (None # cs) = first_yes cs"
| "first_yes (Some (key, lbl) # cs) =
     (let label = ToLower (TrimSpace lbl) in
      if label = ''yes'' \<or> HasPrefix label ''yes'' then Some key else first_yes cs)"

definition questionYesKey :: "question \<Rightarrow> string" where
  "questionYesKey q =
     (if q_Choices q = [] then ''0''
      else case first_yes (q_Choices q) of Some key \<Rightarrow> key
      | None \<Rightarrow>
          let idx = q_DefaultIndex q;
              idx = (if idx < 0 \<or> int (length (q_Choices q)) \<le> idx then 0 else idx)
          in case q_Choices q ! nat idx of
               Some (key, _) \<Rightarrow> if key \<noteq> '''' then key else ''0''
             | None \<Rightarrow> ''0'')"

definition answerPendingQuestions :: "vsphere \<Rightarrow> vm_obj \<Rightarrow> unit vio" where
  "answerPendingQuestions E vm =
     bindE (do_call E (CProperties (vm_ref vm) [''runtime.question'']) (\<lambda>h. ve_Question E h (vm_ref vm))) (\<lambda>q.
       case q of None \<Rightarrow> retE ()
       | Some q \<Rightarrow> let answer = questionYesKey q in
           do_call E (CAnswer (vm_ref vm) (q_Id q) answer) (\<lambda>h. ve_Answer E h (vm_ref vm) (q_Id q) answer))"

definition task_result :: "task_end \<Rightarrow> verr + unit" where
  "task_result e = (case e of TaskDone None \<Rightarrow> Inr () | TaskDone (Some e) \<Rightarrow> Inl e | TaskCancelled e \<Rightarrow> Inl e)"

text \<open>\<open>task.Wait(ctx)\<close>.\<close>

definition task_Wait :: "vsphere \<Rightarrow> string \<Rightarrow> unit vio" where
  "task_Wait E ref = do_call E (CWaitTask ref) (\<lambda>h. task_result (snd (ve_WaitTask E h ref)))"

definition ensureMsgAutoAnswer :: "vsphere \<Rightarrow> vm_obj \<Rightarrow> unit vio" where
  "ensureMsgAutoAnswer E vm =
     (let spec = ExtraConfig [(''msg.autoAnswer'', ''TRUE''), (''cdrom.showIsoLockWarning'', ''FALSE'')] in
      thenE (do_call E (CReconfigure (vm_ref vm) spec) (\<lambda>h. ve_Reconfigure E h (vm_ref vm) spec))
        (task_Wait E (vm_ref vm)))"

text \<open>
  The loop of \<open>waitTask\<close>: the environment says how often the ticker fires before the task ends or the
  context is cancelled. Each tick, and once more when the task has ended, pending questions are
  answered and the outcome of answering is dropped.
\<close>

definition tick :: "unit vio" where
  "tick = modE (\<lambda>s. s\<lparr>v_w := (v_w s)\<lparr>w_clock := w_clock (v_w s) + second div 2\<rparr>\<rparr>)"

primrec answer_ticks :: "vsphere \<Rightarrow> vm_obj \<Rightarrow> nat \<Rightarrow> unit vio" where
  "answer_ticks E vm 0 = retE ()"
| "answer_ticks E vm (Suc n) = thenE tick (ignoreE (answerPendingQuestions E vm) (answer_ticks E vm n))"

definition waitTask :: "vsphere \<Rightarrow> vm_obj \<Rightarrow> unit vio" where
  "waitTask E vm = bindE (getE (\<lambda>s. ve_WaitTask E (w_calls (v_w s)) (vm_ref vm))) (\<lambda>(n, e).
     thenE (answer_ticks E vm n) (case e of
         TaskCancelled err \<Rightarrow> failE err
       | TaskDone _ \<Rightarrow> tryE (do_call E (CWaitTask (vm_ref vm)) (\<lambda>_. task_result e)) (\<lambda>r.
           ignoreE (answerPendingQuestions E vm) (case r of Inl err \<Rightarrow> failE err | Inr _ \<Rightarrow> retE ()))))"

section \<open>Power\<close>

definition vm_PowerState :: "vsphere \<Rightarrow> vm_obj \<Rightarrow> power vio" where
  "vm_PowerState E vm = do_call E (CPowerState (vm_ref vm)) (\<lambda>h. ve_PowerState E h (vm_ref vm))"

definition powerOn :: "vsphere \<Rightarrow> vm_obj \<Rightarrow> unit vio" where
  "powerOn E vm = bindE (vm_PowerState E vm) (\<lambda>state. if state = PoweredOn then retE () else
     thenE (do_call E (CPowerOn (vm_ref vm)) (\<lambda>h. ve_PowerOn E h (vm_ref vm))) (waitTask E vm))"

definition powerOff :: "vsphere \<Rightarrow> vm_obj \<Rightarrow> unit vio" where
  "powerOff E vm = bindE (vm_PowerState E vm) (\<lambda>state. if state = PoweredOff then retE () else
     ignoreE (ensureMsgAutoAnswer E vm) (ignoreE (answerPendingQuestions E vm)
     (thenE (do_call E (CPowerOff (vm_ref vm)) (\<lambda>h. ve_PowerOff E h (vm_ref vm))) (waitTask E vm))))"

text \<open>The polling loop ends because every turn waits two seconds and the deadline does not move.\<close>

definition soft_timeout :: "int \<Rightarrow> verr" where
  "soft_timeout timeout = errorf (''guest shutdown timed out after '' @ show_int (timeout div second) @ ''s'')"

lemma vm_PowerState_clock: "vm_PowerState E vm s = (r, t) \<Longrightarrow> w_clock (v_w s) \<le> w_clock (v_w t)"
  by (auto simp: vm_PowerState_def do_call_def record_call_def Let_def)

lemma sleep_clock: "sleep E d s = (Inr x, t) \<Longrightarrow> 0 \<le> d \<Longrightarrow> w_clock (v_w t) = w_clock (v_w s) + d"
  by (auto simp: sleep_def split: option.splits)

function soft_loop :: "vsphere \<Rightarrow> vm_obj \<Rightarrow> int \<Rightarrow> int \<Rightarrow> unit vio" where
  "soft_loop E vm timeout deadline s = (case vm_PowerState E vm s of
       (Inl e, s1) \<Rightarrow> (Inl e, s1)
     | (Inr state, s1) \<Rightarrow>
         if state = PoweredOff then (Inr (), s1)
         else if deadline < w_clock (v_w s1) then (Inl (soft_timeout timeout), s1)
         else (case sleep E (2 * second) s1 of
             (Inl e, s2) \<Rightarrow> (Inl e, s2)
           | (Inr _, s2) \<Rightarrow> soft_loop E vm timeout deadline s2))"
  by pat_completeness auto

termination
  by (relation "measure (\<lambda>(E, vm, timeout, deadline, s). nat (deadline + 1 - w_clock (v_w s)))")
    (auto dest!: vm_PowerState_clock [OF sym] sleep_clock [OF sym] simp: second_def)

declare soft_loop.simps [simp del]

definition softPowerOff :: "vsphere \<Rightarrow> vm_obj \<Rightarrow> int \<Rightarrow> unit vio" where
  "softPowerOff E vm timeout = bindE (vm_PowerState E vm) (\<lambda>state. if state = PoweredOff then retE () else
     thenE (do_call E (CShutdownGuest (vm_ref vm)) (\<lambda>h. ve_ShutdownGuest E h (vm_ref vm)))
     (bindE clock_get (\<lambda>now. soft_loop E vm timeout (now + timeout))))"

text \<open>The \<open>switch\<close> of \<open>Reset\<close>, once the VM is found and allowed.\<close>

definition reset_switch :: "vsphere \<Rightarrow> vm_obj \<Rightarrow> string \<Rightarrow> unit vio" where
  "reset_switch E vm resetType =
     (let rt = ToLower resetType in
      if rt = ''on'' then powerOn E vm
      else if rt = ''forceoff'' \<or> rt = ''gracefulshutdown'' \<or> rt = ''nmi'' then powerOff E vm
      else if rt = ''forcerestart'' \<or> rt = ''gracefulrestart'' \<or> rt = ''powercycle'' then
        thenE (powerOff E vm) (powerOn E vm)
      else failE (errorf (''unsupported ResetType '' @ go_quote resetType)))"

definition Reset :: "vsphere \<Rightarrow> string \<Rightarrow> string \<Rightarrow> unit vio" where
  "Reset E uuid resetType = bindE (findByUUID E uuid) (\<lambda>vm. bindE (infoFromVM E vm) (\<lambda>info.
     bindE (cl_get cl_ep) (\<lambda>ep.
       if \<not> allow ep (si_Name info) then failE (errorf (''system '' @ uuid @ '' not allowed''))
       else reset_switch E vm resetType)))"

section \<open>Boot order\<close>

definition vm_Device :: "vsphere \<Rightarrow> vm_obj \<Rightarrow> device_list vio" where
  "vm_Device E vm = do_call E (CDevice (vm_ref vm)) (\<lambda>h. ve_Device E h (vm_ref vm))"

definition boot_order :: "device_list \<Rightarrow> string list \<Rightarrow> boot_dev list" where
  "boot_order devices prefer =
     (let order = dl_BootOrder devices prefer in
      if order = [] \<and> prefer \<noteq> [] \<and> hd prefer = ''cdrom'' then [BootCdrom] else order)"

definition setBootOrderVM :: "vsphere \<Rightarrow> vm_obj \<Rightarrow> string list \<Rightarrow> unit vio" where
  "setBootOrderVM E vm prefer = bindE (vm_Device E vm) (\<lambda>devices.
     let order = boot_order devices prefer in
     do_call E (CSetBootOptions (vm_ref vm) order) (\<lambda>h. ve_SetBootOptions E h (vm_ref vm) order))"

definition setBootDiskFirstVM :: "vsphere \<Rightarrow> vm_obj \<Rightarrow> unit vio" where
  "setBootDiskFirstVM E vm = setBootOrderVM E vm [''disk'']"

definition SetBootCDOnce :: "vsphere \<Rightarrow> string \<Rightarrow> unit vio" where
  "SetBootCDOnce E uuid = bindE (findByUUID E uuid) (\<lambda>vm. setBootOrderVM E vm [''cdrom'', ''disk''])"

definition SetBootDiskFirst :: "vsphere \<Rightarrow> string \<Rightarrow> unit vio" where
  "SetBootDiskFirst E uuid = bindE (findByUUID E uuid) (\<lambda>vm. setBootDiskFirstVM E vm)"

section \<open>What these functions call\<close>

lemma first_yes_Some:
  "first_yes cs = Some key \<Longrightarrow> \<exists>i lbl. i < length cs \<and> cs ! i = Some (key, lbl) \<and> HasPrefix (ToLower (TrimSpace lbl)) ''yes''
     \<and> (\<forall>j < i. \<forall>k l. cs ! j = Some (k, l) \<longrightarrow> \<not> HasPrefix (ToLower (TrimSpace l)) ''yes'')"
proof (induction cs rule: first_yes.induct)
  case 1
  then show ?case by simp
next
  case (2 cs)
  then obtain i lbl where "i < length cs" "cs ! i = Some (key, lbl)" "HasPrefix (ToLower (TrimSpace lbl)) ''yes''"
     "\<forall>j < i. \<forall>k l. cs ! j = Some (k, l) \<longrightarrow> \<not> HasPrefix (ToLower (TrimSpace l)) ''yes''" by auto
  then show ?case by (intro exI [of _ "Suc i"] exI [of _ lbl]) (auto simp: less_Suc_eq_0_disj)
next
  case (3 k0 l0 cs)
  show ?case
  proof (cases "HasPrefix (ToLower (TrimSpace l0)) ''yes''")
    case True
    then show ?thesis using 3 by (intro exI [of _ 0] exI [of _ l0]) (auto simp: Let_def HasPrefix_def)
  next
    case False
    then have ny: "ToLower (TrimSpace l0) \<noteq> ''yes''" by (auto simp: HasPrefix_def)
    with 3 False obtain i lbl where "i < length cs" "cs ! i = Some (key, lbl)" "HasPrefix (ToLower (TrimSpace lbl)) ''yes''"
     "\<forall>j < i. \<forall>k l. cs ! j = Some (k, l) \<longrightarrow> \<not> HasPrefix (ToLower (TrimSpace l)) ''yes''" by (auto simp: Let_def)
    then show ?thesis using False
      by (intro exI [of _ "Suc i"] exI [of _ lbl]) (auto simp: less_Suc_eq_0_disj)
  qed
qed

lemma first_yes_None:
  "first_yes cs = None \<longleftrightarrow> (\<forall>k l. Some (k, l) \<in> set cs \<longrightarrow> \<not> HasPrefix (ToLower (TrimSpace l)) ''yes'')"
  by (induction cs rule: first_yes.induct) (auto simp: Let_def HasPrefix_def)

fun question_call :: "vcall \<Rightarrow> bool" where
  "question_call (CProperties _ _) = True"
| "question_call (CAnswer _ _ _) = True"
| "question_call _ = False"

lemma answerPendingQuestions_calls [keeps_intro]: "keeps (calls_only question_call) (answerPendingQuestions E vm)"
  unfolding answerPendingQuestions_def by (intro keeps_intro) simp_all

lemma answerPendingQuestions_client [same_client_intro]: "keeps same_client (answerPendingQuestions E vm)"
  unfolding answerPendingQuestions_def by (intro keeps_intro same_client_intro)

lemma keeps_tick [keeps_intro]: "keeps (calls_only P) tick"
  by (auto simp: keeps_def tick_def modE_def calls_only_def second_def)

lemma tick_client [same_client_intro]: "keeps same_client tick"
  by (auto simp: keeps_def tick_def modE_def same_client_def)

lemma answer_ticks_calls [keeps_intro]: "keeps (calls_only question_call) (answer_ticks E vm n)"
  by (induction n) (simp_all add: keeps_intro)

lemma answer_ticks_client [same_client_intro]: "keeps same_client (answer_ticks E vm n)"
  by (induction n) (simp_all add: keeps_intro same_client_intro)

lemma task_Wait_client [same_client_intro]: "keeps same_client (task_Wait E ref)"
  unfolding task_Wait_def by (intro same_client_intro)

lemma ensureMsgAutoAnswer_client [same_client_intro]: "keeps same_client (ensureMsgAutoAnswer E vm)"
  unfolding ensureMsgAutoAnswer_def by (intro keeps_intro same_client_intro)

lemma keeps_case_task_end [keeps_intro]:
  "(\<And>x. keeps R (f x)) \<Longrightarrow> (\<And>x. keeps R (g x)) \<Longrightarrow> keeps R (case v of TaskDone x \<Rightarrow> f x | TaskCancelled x \<Rightarrow> g x)"
  by (cases v) auto

lemma keeps_getE_case_prod [keeps_intro]:
  "(\<And>x y. keeps R (f x y)) \<Longrightarrow> keeps R (case_prod f p)"
  by (cases p) auto

lemma waitTask_client [same_client_intro]: "keeps same_client (waitTask E vm)"
  unfolding waitTask_def by (intro keeps_intro same_client_intro)

lemma vm_PowerState_client [same_client_intro]: "keeps same_client (vm_PowerState E vm)"
  unfolding vm_PowerState_def by (intro same_client_intro)

lemma powerOn_client [same_client_intro]: "keeps same_client (powerOn E vm)"
  unfolding powerOn_def by (intro keeps_intro same_client_intro)

lemma powerOff_client [same_client_intro]: "keeps same_client (powerOff E vm)"
  unfolding powerOff_def by (intro keeps_intro same_client_intro)

lemma vm_Device_client [same_client_intro]: "keeps same_client (vm_Device E vm)"
  unfolding vm_Device_def by (intro same_client_intro)

lemma setBootOrderVM_client [same_client_intro]: "keeps same_client (setBootOrderVM E vm prefer)"
  unfolding setBootOrderVM_def by (intro keeps_intro same_client_intro)

text \<open>The calls a power or boot operation on one VM may make.\<close>

fun power_call :: "string \<Rightarrow> vcall \<Rightarrow> bool" where
  "power_call ref (CPowerState r) = (r = ref)"
| "power_call ref (CPowerOn r) = (r = ref)"
| "power_call ref (CPowerOff r) = (r = ref)"
| "power_call ref (CShutdownGuest r) = (r = ref)"
| "power_call ref (CReconfigure r (ExtraConfig _)) = (r = ref)"
| "power_call ref (CWaitTask r) = (r = ref)"
| "power_call ref (CProperties r _) = (r = ref)"
| "power_call ref (CAnswer r _ _) = (r = ref)"
| "power_call ref _ = False"

lemma answerPendingQuestions_power [keeps_intro]: "keeps (calls_only (power_call (vm_ref vm))) (answerPendingQuestions E vm)"
  unfolding answerPendingQuestions_def by (intro keeps_intro) simp_all

lemma answer_ticks_power [keeps_intro]: "keeps (calls_only (power_call (vm_ref vm))) (answer_ticks E vm n)"
  by (induction n) (simp_all add: keeps_intro)

lemma ensureMsgAutoAnswer_power [keeps_intro]: "keeps (calls_only (power_call (vm_ref vm))) (ensureMsgAutoAnswer E vm)"
  unfolding ensureMsgAutoAnswer_def task_Wait_def Let_def by (intro keeps_intro) simp_all

lemma waitTask_power [keeps_intro]: "keeps (calls_only (power_call (vm_ref vm))) (waitTask E vm)"
  unfolding waitTask_def by (intro keeps_intro) simp_all

lemma powerOn_power [keeps_intro]: "keeps (calls_only (power_call (vm_ref vm))) (powerOn E vm)"
  unfolding powerOn_def vm_PowerState_def by (intro keeps_intro) simp_all

lemma powerOff_power [keeps_intro]: "keeps (calls_only (power_call (vm_ref vm))) (powerOff E vm)"
  unfolding powerOff_def vm_PowerState_def by (intro keeps_intro) simp_all

section \<open>Soft power-off ends\<close>

abbreviation power_polls :: "string \<Rightarrow> hist \<Rightarrow> nat" where
  "power_polls ref l \<equiv> length (filter (\<lambda>(c, _). c = CPowerState ref) l)"

text \<open>How a run ends that reports the VM off: with a power state that says so.\<close>

definition saw_off :: "vsphere \<Rightarrow> string \<Rightarrow> hist \<Rightarrow> bool" where
  "saw_off E ref h \<longleftrightarrow> (\<exists>h'. h = h' @ [(CPowerState ref, None)] \<and> ve_PowerState E h' ref = Inr PoweredOff)"

lemma vm_PowerState_run:
  assumes "vm_PowerState E vm s = (r, t)"
  shows "w_calls (v_w t) = w_calls (v_w s) @ [(CPowerState (vm_ref vm), outcome r)] \<and> v_cl t = v_cl s
    \<and> w_clock (v_w s) \<le> w_clock (v_w t) \<and> r = ve_PowerState E (w_calls (v_w s)) (vm_ref vm)"
  using assms by (auto simp: vm_PowerState_def do_call_def record_call_def Let_def)

lemma saw_off_run: "vm_PowerState E vm s = (Inr PoweredOff, t) \<Longrightarrow> saw_off E (vm_ref vm) (w_calls (v_w t))"
  using vm_PowerState_run [of E vm s "Inr PoweredOff" t] by (auto simp: saw_off_def outcome_def)

lemma sleep_run: "sleep E d s = (r, t) \<Longrightarrow> w_calls (v_w t) = w_calls (v_w s) \<and> v_cl t = v_cl s
    \<and> (r = Inr () \<longrightarrow> w_clock (v_w t) = w_clock (v_w s) + max 0 d)"
  by (auto simp: sleep_def split: option.splits)

lemma soft_loop_run:
  assumes "soft_loop E vm timeout deadline s = (r, t)"
  shows "\<exists>l. w_calls (v_w t) = w_calls (v_w s) @ l \<and> list_all (\<lambda>(c, _). c = CPowerState (vm_ref vm)) l
    \<and> length l \<le> 1 + nat ((deadline - w_clock (v_w s)) div (2 * second) + 1)
    \<and> (r = Inr () \<longrightarrow> saw_off E (vm_ref vm) (w_calls (v_w t))) \<and> v_cl t = v_cl s"
  using assms
proof (induction E vm timeout deadline s arbitrary: r t rule: soft_loop.induct)
  case (1 E vm timeout deadline s)
  obtain r1 s1 where p: "vm_PowerState E vm s = (r1, s1)" by fastforce
  note p1 = vm_PowerState_run [OF p]
  show ?case
  proof (cases "\<exists>st. r1 = Inr st \<and> st \<noteq> PoweredOff \<and> \<not> deadline < w_clock (v_w s1)")
    case False
    then have "t = s1 \<and> (r = Inr () \<longrightarrow> r1 = Inr PoweredOff)"
      using "1.prems" p by (subst (asm) soft_loop.simps) (auto split: sum.splits if_splits)
    then show ?thesis using p1 p saw_off_run [of E vm s s1]
      by (intro exI [of _ "[(CPowerState (vm_ref vm), outcome r1)]"]) auto
  next
    case True
    then obtain st where st: "r1 = Inr st" "st \<noteq> PoweredOff" "w_clock (v_w s1) \<le> deadline" by auto
    obtain r2 s2 where q: "sleep E (2 * second) s1 = (r2, s2)" by fastforce
    note q1 = sleep_run [OF q]
    show ?thesis
    proof (cases r2)
      case (Inl e)
      then have "t = s2 \<and> r = Inl e"
        using "1.prems" p q st by (subst (asm) soft_loop.simps) auto
      then show ?thesis using p1 q1
        by (intro exI [of _ "[(CPowerState (vm_ref vm), outcome r1)]"]) auto
    next
      case (Inr u)
      have rec: "soft_loop E vm timeout deadline s2 = (r, t)"
        using "1.prems" p q st Inr by (subst (asm) soft_loop.simps) auto
      from "1.IH" [OF p [symmetric] st(1) st(2) _ q [symmetric] Inr rec] st(3)
      obtain l where l: "w_calls (v_w t) = w_calls (v_w s2) @ l" "list_all (\<lambda>(c, _). c = CPowerState (vm_ref vm)) l"
        "length l \<le> 1 + nat ((deadline - w_clock (v_w s2)) div (2 * second) + 1)"
        "r = Inr () \<longrightarrow> saw_off E (vm_ref vm) (w_calls (v_w t))" "v_cl t = v_cl s2" by auto
      have "w_clock (v_w s) + 2 * second \<le> w_clock (v_w s2)"
        using p1 q1 Inr by (simp add: second_def)
      then have "(deadline - w_clock (v_w s2)) div (2 * second) + 1 \<le> (deadline - w_clock (v_w s)) div (2 * second)"
        using p1 st(3) zdiv_mono1 [of "deadline - w_clock (v_w s2) + 2 * second" "deadline - w_clock (v_w s)" "2 * second"]
        by (simp add: second_def)
      moreover have "0 \<le> (deadline - w_clock (v_w s)) div (2 * second)"
        using p1 st(3) by (simp add: second_def pos_imp_zdiv_nonneg_iff)
      ultimately have "Suc (length l) \<le> 1 + nat ((deadline - w_clock (v_w s)) div (2 * second) + 1)"
        using l(3) by linarith
      then show ?thesis using p1 q1 l
        by (intro exI [of _ "(CPowerState (vm_ref vm), outcome r1) # l"]) auto
    qed
  qed
qed

text \<open>
  C38: The soft power-off of a VM ends: with the 45-second timeout the media handlers use it asks for
  the power state at most 25 times, whatever the guest does, and when it reports success the last
  answer was "powered off". It changes nothing but sending one guest shutdown.
\<close>

theorem soft_power_off_is_bounded:
  assumes "softPowerOff E vm (45 * second) s = (r, t)"
  shows "power_polls (vm_ref vm) (new_calls s t) \<le> 25
    \<and> (\<forall>(c, e) \<in> set (new_calls s t). c = CPowerState (vm_ref vm) \<or> c = CShutdownGuest (vm_ref vm))
    \<and> length (filter (\<lambda>(c, _). c = CShutdownGuest (vm_ref vm)) (new_calls s t)) \<le> 1
    \<and> (r = Inr () \<longrightarrow> saw_off E (vm_ref vm) (w_calls (v_w t)))"
proof -
  let ?ref = "vm_ref vm"
  obtain r1 s1 where p: "vm_PowerState E vm s = (r1, s1)" by fastforce
  note p1 = vm_PowerState_run [OF p]
  obtain r2 s2 where q: "do_call E (CShutdownGuest ?ref) (\<lambda>h. ve_ShutdownGuest E h ?ref) s1 = (r2, s2)" by fastforce
  have q1: "w_calls (v_w s2) = w_calls (v_w s1) @ [(CShutdownGuest ?ref, outcome r2)]"
    using q by (rule do_call_calls)
  consider (stop) "t = s1" "r = Inr () \<longrightarrow> r1 = Inr PoweredOff"
    | (refused) e where "t = s2" "r = Inl e"
    | (loop) "soft_loop E vm (45 * second) (w_clock (v_w s2) + 45 * second) s2 = (r, t)"
    using assms p q
    by (auto simp: softPowerOff_def bindE_def [of "vm_PowerState E vm"] tryE_def thenE_def failE_def retE_def
        bindE_def [of "do_call E c f" for c f] split: sum.splits if_splits prod.splits)
  then show ?thesis
  proof cases
    case stop
    then have "new_calls s t = [(CPowerState ?ref, outcome r1)]" using p1 by (simp add: new_calls_def)
    then show ?thesis using stop p saw_off_run [of E vm s s1] by auto
  next
    case refused
    then have "new_calls s t = [(CPowerState ?ref, outcome r1), (CShutdownGuest ?ref, outcome r2)]"
      using p1 q1 by (simp add: new_calls_def)
    then show ?thesis using refused by auto
  next
    case loop
    from soft_loop_run [OF loop] obtain l where l: "w_calls (v_w t) = w_calls (v_w s2) @ l"
      "list_all (\<lambda>(c, _). c = CPowerState ?ref) l" "length l \<le> 1 + nat ((45 * second) div (2 * second) + 1)"
      "r = Inr () \<longrightarrow> saw_off E ?ref (w_calls (v_w t))" by auto
    have n: "new_calls s t = (CPowerState ?ref, outcome r1) # (CShutdownGuest ?ref, outcome r2) # l"
      using p1 q1 l(1) by (simp add: new_calls_def)
    have "length l \<le> 24" using l(3) by (simp add: second_def)
    moreover have "length (filter (\<lambda>(c, _). c = CPowerState ?ref) l) \<le> length l" by (rule length_filter_le)
    moreover have "filter (\<lambda>(c, _). c = CShutdownGuest ?ref) l = []"
      using l(2) by (auto simp: filter_empty_conv list_all_iff)
    ultimately show ?thesis using l n by (auto simp: list_all_iff)
  qed
qed

theorem soft_power_off_is_bounded_witness:
  "\<exists>r t. softPowerOff demo_vs demo_vm (45 * second) demo_st = (r, t) \<and> power_polls ''vm-1'' (new_calls demo_st t) \<le> 25"
proof -
  obtain r t where "softPowerOff demo_vs demo_vm (45 * second) demo_st = (r, t)" by fastforce
  with soft_power_off_is_bounded [OF this] show ?thesis by (auto simp: demo_vm_def)
qed

section \<open>Reset reaches the power state it is asked for\<close>

text \<open>
  What the calls from \<open>h\<close> to \<open>t\<close> show of the VM's power: the last of them reported the state \<open>p\<close>, or the
  power operation \<open>call\<close> was accepted and its task ended well, with nothing but questions asked and
  answered in between and after it.
\<close>

definition switched :: "vsphere \<Rightarrow> string \<Rightarrow> vcall \<Rightarrow> power \<Rightarrow> hist \<Rightarrow> hist \<Rightarrow> bool" where
  "switched E ref call p h t \<longleftrightarrow> (\<exists>h'. prefix h h' \<and>
     (t = h' @ [(CPowerState ref, None)] \<and> ve_PowerState E h' ref = Inr p
    \<or> (\<exists>l1 l2. t = h' @ (call, None) # l1 @ (CWaitTask ref, None) # l2
         \<and> list_all (\<lambda>(c, _). question_call c) l1 \<and> list_all (\<lambda>(c, _). question_call c) l2)))"

lemma switched_widen: "switched E ref call p h t \<Longrightarrow> prefix h0 h \<Longrightarrow> switched E ref call p h0 t"
  unfolding switched_def by (elim ex_forward conj_forward) (auto intro: prefix_order.trans)

lemma answer_ticks_hist:
  assumes "answer_ticks E vm n s = (r, t)"
  shows "\<exists>l. w_calls (v_w t) = w_calls (v_w s) @ l \<and> list_all (\<lambda>(c, _). question_call c) l"
  using keepsD [OF answer_ticks_calls assms] by (simp add: calls_only_def)

lemma answerPendingQuestions_hist:
  assumes "answerPendingQuestions E vm s = (r, t)"
  shows "\<exists>l. w_calls (v_w t) = w_calls (v_w s) @ l \<and> list_all (\<lambda>(c, _). question_call c) l"
  using keepsD [OF answerPendingQuestions_calls assms] by (simp add: calls_only_def)



lemma waitTask_Inr:
  assumes "waitTask E vm s = (Inr u, t)"
  shows "\<exists>l1 l2. w_calls (v_w t) = w_calls (v_w s) @ l1 @ (CWaitTask (vm_ref vm), None) # l2
    \<and> list_all (\<lambda>(c, _). question_call c) l1 \<and> list_all (\<lambda>(c, _). question_call c) l2"
proof -
  obtain n e where ne: "ve_WaitTask E (w_calls (v_w s)) (vm_ref vm) = (n, e)" by fastforce
  from assms obtain x s1 where a: "answer_ticks E vm n s = (Inr x, s1)" and
    b: "(case e of TaskCancelled err \<Rightarrow> failE err
       | TaskDone _ \<Rightarrow> tryE (do_call E (CWaitTask (vm_ref vm)) (\<lambda>_. task_result e)) (\<lambda>r.
           ignoreE (answerPendingQuestions E vm) (case r of Inl err \<Rightarrow> failE err | Inr _ \<Rightarrow> retE ()))) s1 = (Inr u, t)"
    by (auto simp: waitTask_def ne elim!: thenE_InrE)
  from b obtain o' where e: "e = TaskDone o'" by (cases e) (auto simp: run_prims)
  from b e obtain r s2 s3 where c: "do_call E (CWaitTask (vm_ref vm)) (\<lambda>_. task_result e) s1 = (Inr r, s2)"
      "answerPendingQuestions E vm s2 = (s3, t)"
    by (auto elim!: tryE_E ignoreE_E simp: run_prims split: sum.splits)
  obtain l1 where l1: "w_calls (v_w s1) = w_calls (v_w s) @ l1" "list_all (\<lambda>(c, _). question_call c) l1"
    using answer_ticks_hist [OF a] by blast
  obtain l2 where l2: "w_calls (v_w t) = w_calls (v_w s2) @ l2" "list_all (\<lambda>(c, _). question_call c) l2"
    using answerPendingQuestions_hist [OF c(2)] by blast
  show ?thesis using do_call_Inr [OF c(1)] l1 l2 by (intro exI [of _ l1] exI [of _ l2]) simp
qed

lemma powerOn_switched:
  assumes "powerOn E vm s = (Inr u, t)"
  shows "switched E (vm_ref vm) (CPowerOn (vm_ref vm)) PoweredOn (w_calls (v_w s)) (w_calls (v_w t))"
proof -
  let ?ref = "vm_ref vm"
  from assms obtain st s1 where p: "vm_PowerState E vm s = (Inr st, s1)" and
    k: "(if st = PoweredOn then retE () else
     thenE (do_call E (CPowerOn ?ref) (\<lambda>h. ve_PowerOn E h ?ref)) (waitTask E vm)) s1 = (Inr u, t)"
    unfolding powerOn_def by (rule bindE_InrE)
  note p1 = vm_PowerState_run [OF p]
  have st: "ve_PowerState E (w_calls (v_w s)) ?ref = Inr st" using do_call_Inr [OF p [unfolded vm_PowerState_def]] by simp
  show ?thesis
  proof (cases "st = PoweredOn")
    case True
    with k p1 st show ?thesis unfolding switched_def
      by (intro exI [of _ "w_calls (v_w s)"]) (simp add: run_prims outcome_def)
  next
    case False
    with k obtain y s2 where c: "do_call E (CPowerOn ?ref) (\<lambda>h. ve_PowerOn E h ?ref) s1 = (Inr y, s2)"
      and w: "waitTask E vm s2 = (Inr u, t)" by (auto elim!: thenE_InrE)
    from waitTask_Inr [OF w] obtain l1 l2 where
      l: "w_calls (v_w t) = w_calls (v_w s2) @ l1 @ (CWaitTask ?ref, None) # l2"
      "list_all (\<lambda>(c, _). question_call c) l1" "list_all (\<lambda>(c, _). question_call c) l2" by blast
    have "w_calls (v_w t) = w_calls (v_w s1) @ (CPowerOn ?ref, None) # l1 @ (CWaitTask ?ref, None) # l2"
      using do_call_Inr [OF c] l(1) by simp
    moreover have "prefix (w_calls (v_w s)) (w_calls (v_w s1))" using p1 by simp
    ultimately show ?thesis using l(2,3) unfolding switched_def by blast
  qed
qed

lemma powerOff_switched:
  assumes "powerOff E vm s = (Inr u, t)"
  shows "switched E (vm_ref vm) (CPowerOff (vm_ref vm)) PoweredOff (w_calls (v_w s)) (w_calls (v_w t))"
proof -
  let ?ref = "vm_ref vm"
  from assms obtain st s1 where p: "vm_PowerState E vm s = (Inr st, s1)" and
    k: "(if st = PoweredOff then retE () else
     ignoreE (ensureMsgAutoAnswer E vm) (ignoreE (answerPendingQuestions E vm)
     (thenE (do_call E (CPowerOff ?ref) (\<lambda>h. ve_PowerOff E h ?ref)) (waitTask E vm)))) s1 = (Inr u, t)"
    unfolding powerOff_def by (rule bindE_InrE)
  note p1 = vm_PowerState_run [OF p]
  have st: "ve_PowerState E (w_calls (v_w s)) ?ref = Inr st" using do_call_Inr [OF p [unfolded vm_PowerState_def]] by simp
  show ?thesis
  proof (cases "st = PoweredOff")
    case True
    with k p1 st show ?thesis unfolding switched_def
      by (intro exI [of _ "w_calls (v_w s)"]) (simp add: run_prims outcome_def)
  next
    case False
    with k obtain r1 a1 r2 s3 y s2 where a: "ensureMsgAutoAnswer E vm s1 = (r1, a1)" "answerPendingQuestions E vm a1 = (r2, s3)"
      and c: "do_call E (CPowerOff ?ref) (\<lambda>h. ve_PowerOff E h ?ref) s3 = (Inr y, s2)"
      and w: "waitTask E vm s2 = (Inr u, t)" by (auto elim!: thenE_InrE ignoreE_E)
    have "prefix (w_calls (v_w s1)) (w_calls (v_w s3))"
      using keepsD [OF ensureMsgAutoAnswer_power a(1)] keepsD [OF answerPendingQuestions_power a(2)] by (auto simp: calls_only_def)
    moreover from waitTask_Inr [OF w] obtain l1 l2 where
      "list_all (\<lambda>(c, _). question_call c) l1" "list_all (\<lambda>(c, _). question_call c) l2" and
      l: "w_calls (v_w t) = w_calls (v_w s2) @ l1 @ (CWaitTask ?ref, None) # l2" by blast
    moreover from l have "w_calls (v_w t) = w_calls (v_w s3) @ (CPowerOff ?ref, None) # l1 @ (CWaitTask ?ref, None) # l2"
      using do_call_Inr [OF c] by simp
    moreover have "prefix (w_calls (v_w s)) (w_calls (v_w s1))" using p1 by simp
    ultimately show ?thesis unfolding switched_def by (meson prefix_order.trans)
  qed
qed

lemma findByUUID_grows: "findByUUID E uuid s = (r, t) \<Longrightarrow> prefix (w_calls (v_w s)) (w_calls (v_w t))"
  by (auto dest!: keepsD [OF findByUUID_read_only] simp: calls_only_def)

lemma calls_grow:
  assumes "keeps (calls_only P) m" "m s = (r, t)"
  shows "prefix (w_calls (v_w s)) (w_calls (v_w t))"
  using keepsD [OF assms] by (auto simp: calls_only_def)

text \<open>
  C6: A Reset that reports success has brought the VM to the power state its type asks for, by what vCenter
  itself answered in this run. For On, the VM was last reported on, or a power-on was accepted and its
  task ended well, with no other power call after it; for ForceOff, GracefulShutdown and Nmi the same
  with off; for the three restarts, first the off and after it the on. Other types do not succeed. And
  every changing call of the run is a power call, an answer or the auto-answer setting of that one VM.
\<close>

theorem reset_reaches_requested_power:
  assumes "findByUUID E uuid s = (Inr vm, s1)" and "Reset E uuid rt s = (Inr u, t)"
  shows "(ToLower rt = ''on'' \<and> switched E (vm_ref vm) (CPowerOn (vm_ref vm)) PoweredOn (w_calls (v_w s1)) (w_calls (v_w t))
     \<or> ToLower rt \<in> {''forceoff'', ''gracefulshutdown'', ''nmi''}
        \<and> switched E (vm_ref vm) (CPowerOff (vm_ref vm)) PoweredOff (w_calls (v_w s1)) (w_calls (v_w t))
     \<or> ToLower rt \<in> {''forcerestart'', ''gracefulrestart'', ''powercycle''}
        \<and> (\<exists>h. switched E (vm_ref vm) (CPowerOff (vm_ref vm)) PoweredOff (w_calls (v_w s1)) h
             \<and> switched E (vm_ref vm) (CPowerOn (vm_ref vm)) PoweredOn h (w_calls (v_w t))))
    \<and> (\<forall>(c, e) \<in> set (new_calls s1 t). mutating c \<longrightarrow> power_call (vm_ref vm) c)"
proof -
  let ?ref = "vm_ref vm" and ?P = "\<lambda>c. mutating c \<longrightarrow> power_call (vm_ref vm) c"
  have "bindE (infoFromVM E vm) (\<lambda>info. bindE (cl_get cl_ep) (\<lambda>ep.
       if \<not> allow ep (si_Name info) then failE (errorf (''system '' @ uuid @ '' not allowed''))
       else reset_switch E vm rt)) s1 = (Inr u, t)"
    using assms(2) by (simp add: Reset_def bindE_run assms(1))
  then obtain info s2 where i: "infoFromVM E vm s1 = (Inr info, s2)" and
    k: "(if \<not> allow (cl_ep (v_cl s2)) (si_Name info) then failE (errorf (''system '' @ uuid @ '' not allowed''))
       else reset_switch E vm rt) s2 = (Inr u, t)"
    by (rule bindE_InrE) simp
  have pre: "prefix (w_calls (v_w s1)) (w_calls (v_w s2))" by (rule calls_grow [OF infoFromVM_read_only i])
  have kon: "keeps (calls_only ?P) (powerOn E vm)" by (rule keeps_calls_mono [OF powerOn_power]) (rule impI)
  have koff: "keeps (calls_only ?P) (powerOff E vm)" by (rule keeps_calls_mono [OF powerOff_power]) (rule impI)
  have info: "calls_only ?P s1 s2" by (rule calls_only_mono [OF keepsD [OF infoFromVM_read_only i]]) (rule impI, erule notE)
  have new: "\<forall>(c, e) \<in> set (new_calls s1 t). ?P c" if "calls_only ?P s2 t"
    using new_calls_only [OF calls_only_trans [OF info that]] by blast
  consider (on) "ToLower rt = ''on''" "powerOn E vm s2 = (Inr u, t)"
    | (off) "ToLower rt \<in> {''forceoff'', ''gracefulshutdown'', ''nmi''}" "powerOff E vm s2 = (Inr u, t)"
    | (cycle) x s3 where "ToLower rt \<in> {''forcerestart'', ''gracefulrestart'', ''powercycle''}"
        "powerOff E vm s2 = (Inr x, s3)" "powerOn E vm s3 = (Inr u, t)"
    using k by (auto simp: reset_switch_def run_prims Let_def split: if_splits elim!: thenE_InrE)
  then show ?thesis
  proof cases
    case on
    with switched_widen [OF powerOn_switched [OF on(2)] pre] new [OF keepsD [OF kon on(2)]]
    show ?thesis by blast
  next
    case off
    with switched_widen [OF powerOff_switched [OF off(2)] pre] new [OF keepsD [OF koff off(2)]]
    show ?thesis by blast
  next
    case cycle
    from cycle switched_widen [OF powerOff_switched [OF cycle(2)] pre] powerOn_switched [OF cycle(3)]
      new [OF calls_only_trans [OF keepsD [OF koff cycle(2)] keepsD [OF kon cycle(3)]]]
    show ?thesis by blast
  qed
qed

definition demo_switch :: vsphere where
  "demo_switch = demo_vs\<lparr>ve_PowerState := (\<lambda>h ref. Inr (if (CPowerOff ref, None) \<in> set h then PoweredOff else PoweredOn))\<rparr>"

definition demo_at :: vm_obj where
  "demo_at = \<lparr>vm_ref = ''vm-1'', vm_path = ''/DC/vm/LAB/node1''\<rparr>"

text \<open>The state of \<open>demo_st\<close> after the first lookup of the VM.\<close>

definition demo_conn :: client where
  "demo_conn = demo_client\<lparr>cl_connected := True, cl_ds := Some ''DS'',
     cl_uuidCache := Some (fmupd ''aa-bb'' \<lparr>ue_ref = ''vm-1'', ue_path = ''/DC/vm/LAB/node1'', ue_at = 0\<rparr> fmempty)\<rparr>"

definition demo_ready :: vstate where
  "demo_ready = \<lparr>v_cl = demo_conn, v_w = demo_world\<rparr>"

lemma demo_ready_find: "findByUUID E ''AA-BB'' demo_ready = (Inr demo_at, demo_ready)"
proof -
  have "ToLower (TrimSpace ''AA-BB'') = ''aa-bb''" by code_simp
  then show ?thesis
    by (intro findByUUID_cached) (simp_all add: demo_ready_def demo_conn_def cached_entry_def demo_at_def
        demo_world_def uuidCacheTTL_def second_def)
qed

lemma demo_allow [simp]: "ep_Allowlist ep = [] \<Longrightarrow> allow ep n"
  by (simp add: allow_def)

theorem reset_reaches_requested_power_witness:
  "\<exists>t. Reset demo_switch ''AA-BB'' ''ForceRestart'' demo_ready = (Inr (), t)
     \<and> (\<exists>h. switched demo_switch ''vm-1'' (CPowerOff ''vm-1'') PoweredOff [] h
          \<and> switched demo_switch ''vm-1'' (CPowerOn ''vm-1'') PoweredOn h (w_calls (v_w t)))"
proof -
  have l: "ToLower ''ForceRestart'' = ''forcerestart''" by code_simp
  obtain t where r: "Reset demo_switch ''AA-BB'' ''ForceRestart'' demo_ready = (Inr (), t)"
  proof -
    have step: "Reset demo_switch ''AA-BB'' ''ForceRestart'' demo_ready =
      bindE (infoFromVM demo_switch demo_at) (\<lambda>info. bindE (cl_get cl_ep) (\<lambda>ep.
        if \<not> allow ep (si_Name info) then failE (errorf (''system '' @ ''AA-BB'' @ '' not allowed''))
        else reset_switch demo_switch demo_at ''ForceRestart'')) demo_ready"
      by (simp add: Reset_def bindE_run demo_ready_find)
    have "fst (Reset demo_switch ''AA-BB'' ''ForceRestart'' demo_ready) = Inr ()"
      unfolding step by (simp add: reset_switch_def l infoFromVM_def vm_Properties_def
          powerOff_def powerOn_def vm_PowerState_def ensureMsgAutoAnswer_def task_Wait_def task_result_def
          answerPendingQuestions_def waitTask_def io_simps do_call_def record_call_def outcome_def 
          demo_switch_def demo_vs_def demo_ready_def demo_conn_def demo_client_def demo_ep_def demo_world_def demo_at_def Let_def)
    then show ?thesis by (intro that [of "snd (Reset demo_switch ''AA-BB'' ''ForceRestart'' demo_ready)"]) (simp add: prod_eq_iff)
  qed
  have "vm_ref demo_at = ''vm-1''" "w_calls (v_w demo_ready) = []" by (simp_all add: demo_at_def demo_ready_def demo_world_def)
  with reset_reaches_requested_power [OF demo_ready_find r] r show ?thesis by (simp add: l)
qed

end
