(* ===== verification/Vsphere_Iso.thy ===== *)
theory Vsphere_Iso
  imports Vsphere_Lookup
begin

text \<open>
  Staging ISO images (\<open>internal/vsphere/iso.go\<close>, and \<open>downloadISO\<close> of \<open>client.go\<close>): file names from
  hashes, the download into the local cache, the tests and the directories on the datastore, the
  upload with its attempts and its confirmation, and the cache listing. Uploads of several goroutines at a
  time are in \<open>Upload_Flight\<close>.

  The local cache is the map \<open>w_files\<close> from paths to contents; \<open>ve_Os\<close> decides whether an operating
  system call fails. \<open>(true, err)\<close> and \<open>(false, err)\<close> of \<open>uploadISOIfNeeded\<close> are one outcome here: its only
  caller drops the boolean. Another upload of the same file that is in flight is seen through
  \<open>ve_InFlight\<close>: how it ends (or that the context ended first).
\<close>

section \<open>Names\<close>

definition ISOFileName :: "vsphere \<Rightarrow> string \<Rightarrow> string" where
  "ISOFileName E imageURL = hex_encode (take 8 (ve_sha256 E imageURL)) @ ''.iso''"

text \<open>\<open>c.ds.Path(p)\<close>; the datastore object is set wherever it is called.\<close>

definition ds_Path :: "vsphere \<Rightarrow> client \<Rightarrow> string \<Rightarrow> string" where
  "ds_Path E c p = ve_DSPath E (case cl_ds c of Some d \<Rightarrow> d | None \<Rightarrow> '''') p"

definition os_call :: "vsphere \<Rightarrow> string \<Rightarrow> string \<Rightarrow> unit vio" where
  "os_call E op p = do_call E (COs op p) (\<lambda>h. ve_Os E h op p)"

definition files_get :: "((string, string) fmap \<Rightarrow> 'a) \<Rightarrow> 'a vio" where
  "files_get f = getE (\<lambda>s. f (w_files (v_w s)))"

definition files_mod :: "((string, string) fmap \<Rightarrow> (string, string) fmap) \<Rightarrow> unit vio" where
  "files_mod f = modE (\<lambda>s. s\<lparr>v_w := (v_w s)\<lparr>w_files := f (w_files (v_w s))\<rparr>\<rparr>)"

definition no_such_file :: "string \<Rightarrow> string \<Rightarrow> verr" where
  "no_such_file op p = errorf (op @ '' '' @ p @ '': no such file or directory'')"

text \<open>Open a local file and read all of it.\<close>

definition read_file :: "vsphere \<Rightarrow> string \<Rightarrow> string vio" where
  "read_file E p = thenE (os_call E ''open'' p) (bindE (files_get (\<lambda>m. fmlookup m p)) (\<lambda>b. case b of
       None \<Rightarrow> failE (no_such_file ''open'' p)
     | Some bytes \<Rightarrow> thenE (os_call E ''read'' p) (retE bytes)))"

definition contentISOName :: "vsphere \<Rightarrow> string \<Rightarrow> string vio" where
  "contentISOName E localPath = bindE (read_file E localPath) (\<lambda>bytes.
     retE (hex_encode (take 8 (ve_sha256 E bytes)) @ ''.iso''))"

definition isoDSPath :: "endpoint \<Rightarrow> string \<Rightarrow> string" where
  "isoDSPath ep fileName = path_Join [TrimChar (ep_ISOFolder ep) CHR ''/'', fileName]"

fun fileInfoSize :: "file_info \<Rightarrow> int" where
  "fileInfoSize (FileInfo _ n) = n"
| "fileInfoSize (VmDiskFileInfo _ n) = n"
| "fileInfoSize (IsoImageFileInfo _ n) = n"
| "fileInfoSize (OtherFileInfo (Some (_, n))) = n"
| "fileInfoSize (OtherFileInfo None) = 0"

fun fileInfoName :: "file_info \<Rightarrow> string" where
  "fileInfoName (FileInfo p _) = path_Base p"
| "fileInfoName (VmDiskFileInfo p _) = path_Base p"
| "fileInfoName (IsoImageFileInfo p _) = path_Base p"
| "fileInfoName (OtherFileInfo (Some (p, _))) = path_Base p"
| "fileInfoName (OtherFileInfo None) = ''''"

section \<open>Download\<close>

definition os_Stat_size :: "vsphere \<Rightarrow> string \<Rightarrow> int vio" where
  "os_Stat_size E p = thenE (os_call E ''stat'' p) (bindE (files_get (\<lambda>m. fmlookup m p)) (\<lambda>b. case b of
       None \<Rightarrow> failE (no_such_file ''stat'' p)
     | Some bytes \<Rightarrow> retE (int (length bytes))))"

text \<open>
  The body goes to \<open>dest.partial\<close>; when the copy fails that file is removed (if the system lets it), and
  the file only gets its name after it is closed.
\<close>

definition store_body :: "vsphere \<Rightarrow> string \<Rightarrow> string \<Rightarrow> verr option \<Rightarrow> string vio" where
  "store_body E dest body copyErr =
     (let tmp = dest @ ''.partial'' in
      thenE (os_call E ''create'' tmp) (thenE (files_mod (fmupd tmp body)) (case copyErr of
          Some e \<Rightarrow> tryE (os_call E ''remove'' tmp) (\<lambda>r. thenE
              (case r of Inr _ \<Rightarrow> files_mod (fmdrop tmp) | Inl _ \<Rightarrow> retE ()) (failE e))
        | None \<Rightarrow>
            thenE (os_call E ''close'' tmp) (thenE (os_call E ''rename'' tmp)
            (thenE (files_mod (\<lambda>m. fmdrop tmp (fmupd dest body m))) (retE dest))))))"

definition fetchISO :: "vsphere \<Rightarrow> string \<Rightarrow> string \<Rightarrow> string vio" where
  "fetchISO E imageURL dest =
     bindE (do_call E (CHttpGet imageURL) (\<lambda>h. ve_HttpGet E h imageURL)) (\<lambda>(code, status, body, copyErr).
       if 300 \<le> code then failE (errorf (''GET '' @ imageURL @ '': '' @ status))
       else store_body E dest body copyErr)"

definition downloadISO :: "vsphere \<Rightarrow> string \<Rightarrow> string vio" where
  "downloadISO E imageURL = bindE (cl_get cl_ep) (\<lambda>ep.
     let name = ISOFileName E imageURL; dest = path_Join [ep_ISOCache ep, name] in
     tryE (os_Stat_size E dest) (\<lambda>st. case st of
         Inr sz \<Rightarrow> if 0 < sz then retE dest else fetchISO E imageURL dest
       | Inl _ \<Rightarrow> fetchISO E imageURL dest))"

section \<open>The datastore\<close>

definition says_missing :: "verr \<Rightarrow> bool" where
  "says_missing e = (let msg = ToLower (err_text e) in Contains msg ''not found'' \<or> Contains msg ''no such'')"

definition datastoreDirExists :: "vsphere \<Rightarrow> string \<Rightarrow> bool vio" where
  "datastoreDirExists E p =
     (let dsPath = TrimChar p CHR ''/'' in
      if dsPath = [] then retE True
      else thenE (do_call E CBrowser (ve_Browser E)) (bindE (cl_get (\<lambda>c. ds_Path E c dsPath)) (\<lambda>full.
        tryE (do_call E (CSearchDatastore full []) (\<lambda>h. ve_SearchDatastore E h full [])) (\<lambda>r. case r of
            Inl e \<Rightarrow> if says_missing e then retE False else failE e
          | Inr _ \<Rightarrow> retE True))))"

definition datastoreFileExists :: "vsphere \<Rightarrow> string \<Rightarrow> (bool \<times> int) vio" where
  "datastoreFileExists E dsPath = thenE (ensure E) (thenE requireDatastore
     (tryE (do_call E (CStat dsPath) (\<lambda>h. ve_Stat E h dsPath)) (\<lambda>r. case r of
         Inr info \<Rightarrow> let sz = fileInfoSize info in retE (0 < sz, sz)
       | Inl e \<Rightarrow>
           if err_kind e = ENoSuchFile then
             bindE (datastoreDirExists E dsPath) (\<lambda>okDir. retE (okDir, 0))
           else if err_kind e = ENoSuchDirectory then retE (False, 0)
           else if says_missing e then
             bindE (datastoreDirExists E dsPath) (\<lambda>okDir. retE (okDir, 0))
           else failE e)))"

fun mkdir_parts :: "vsphere \<Rightarrow> string \<Rightarrow> string list \<Rightarrow> unit vio" where
  "mkdir_parts E accum [] = retE ()"
| "mkdir_parts E accum (part # ps) =
     (if part = [] then mkdir_parts E accum ps
      else
        let accum = (if accum = [] then part else path_Join [accum, part]) in
        bindE (cl_get (\<lambda>c. ds_Path E c accum)) (\<lambda>dsPath.
          tryE (do_call E (CMakeDirectory dsPath) (\<lambda>h. ve_MakeDirectory E h dsPath)) (\<lambda>r. case r of
              Inr _ \<Rightarrow> mkdir_parts E accum ps
            | Inl e \<Rightarrow>
                let msg = ToLower (err_text e) in
                if Contains msg ''already exists'' \<or> Contains msg ''file already exists'' then mkdir_parts E accum ps
                else failE (wrapf (''mkdir '' @ dsPath) e))))"

definition ensureISOFolder :: "vsphere \<Rightarrow> unit vio" where
  "ensureISOFolder E = thenE (ensure E) (thenE requireDatastore (bindE (cl_get (\<lambda>c. c)) (\<lambda>c.
     let folder = TrimChar (ep_ISOFolder (cl_ep c)) CHR ''/'' in
     if folder = [] then retE ()
     else thenE (mkdir_parts E [] (SplitChar CHR ''/'' folder))
       (bindE (wrapE (wrapf (''verify iso folder '' @ ds_Path E c folder)) (datastoreDirExists E folder)) (\<lambda>ok.
         if \<not> ok then failE (errorf (''iso folder '' @ ds_Path E c folder @ '' missing after mkdir'')) else retE ())))))"

section \<open>Upload\<close>

text \<open>At most three hosts are tried; \<open>lastErr\<close> is the latest error.\<close>

fun host_uploads :: "vsphere \<Rightarrow> string \<Rightarrow> string list \<Rightarrow> verr \<Rightarrow> unit vio" where
  "host_uploads E dsPath [] lastErr = failE lastErr"
| "host_uploads E dsPath (h # hs) lastErr =
     tryE (do_call E (CUploadHost h dsPath) (\<lambda>hist. ve_UploadHost E hist h dsPath)) (\<lambda>r. case r of
         Inl e \<Rightarrow> host_uploads E dsPath hs e
       | Inr _ \<Rightarrow> retE ())"

definition putISOViaHost :: "vsphere \<Rightarrow> string \<Rightarrow> unit vio" where
  "putISOViaHost E dsPath = bindE (do_call E CAttachedHosts (ve_AttachedHosts E)) (\<lambda>hosts.
     if hosts = [] then failE (errorf ''no attached hosts for datastore'')
     else host_uploads E dsPath (take (if length hosts < 3 then length hosts else 3) hosts) (errorf []))"

definition putISOViaVC :: "vsphere \<Rightarrow> string \<Rightarrow> string \<Rightarrow> unit vio" where
  "putISOViaVC E localPath dsPath =
     thenE (wrapE (wrapf ''acquire upload ticket'') (do_call E (CTicket dsPath) (\<lambda>h. ve_Ticket E h dsPath)))
     (thenE (read_file E localPath)
       (do_call E (CUploadVC dsPath) (\<lambda>h. ve_UploadVC E h dsPath)))"

definition putISO :: "vsphere \<Rightarrow> string \<Rightarrow> string \<Rightarrow> unit vio" where
  "putISO E localPath dsPath = tryE (putISOViaHost E dsPath) (\<lambda>r. case r of
       Inr _ \<Rightarrow> retE () | Inl _ \<Rightarrow> putISOViaVC E localPath dsPath)"

text \<open>\<open>if lastErr == nil { ... }\<close>: the file must have landed.\<close>

definition confirm_upload :: "vsphere \<Rightarrow> string \<Rightarrow> bool vio" where
  "confirm_upload E dsPath =
     bindE (wrapE (wrapf ''upload ok but stat failed'') (datastoreFileExists E dsPath)) (\<lambda>(ok, got).
     bindE (cl_get (\<lambda>c. ds_Path E c dsPath)) (\<lambda>p.
       if \<not> ok \<or> got = 0 then failE (errorf (''upload reported ok but '' @ p @ '' still missing on datastore''))
       else retE True))"

definition retryable :: "verr \<Rightarrow> bool" where
  "retryable e = (let msg = ToLower (err_text e) in
     Contains msg ''503'' \<or> Contains msg ''502'' \<or> Contains msg ''unavailable'' \<or> Contains msg ''timeout''
     \<or> Contains msg ''404'')"

text \<open>The loop over \<open>attempt\<close> from 1 to 4; \<open>n\<close> is the attempts left, this one included: \<open>attempt = 5 - n\<close>.\<close>

primrec upload_attempts :: "vsphere \<Rightarrow> string \<Rightarrow> string \<Rightarrow> nat \<Rightarrow> bool vio" where
  "upload_attempts E localPath dsPath 0 = failE (errorf [])"
| "upload_attempts E localPath dsPath (Suc n) = tryE (putISO E localPath dsPath) (\<lambda>r. case r of
       Inr _ \<Rightarrow> confirm_upload E dsPath
     | Inl lastErr \<Rightarrow>
         let attempt = 4 - n in
         if \<not> retryable lastErr \<or> attempt = 4 then failE lastErr
         else thenE (sleep E (int attempt * 2 * second)) (upload_attempts E localPath dsPath n))"

text \<open>From taking the serial lock on.\<close>

definition upload_serial :: "vsphere \<Rightarrow> string \<Rightarrow> string \<Rightarrow> bool vio" where
  "upload_serial E localPath dsPath = bindE (datastoreFileExists E dsPath) (\<lambda>(exists, _).
     if exists then retE False
     else
       thenE (wrapE (wrapf ''ensure iso folder'') (ensureISOFolder E))
       (bindE (os_Stat_size E localPath) (\<lambda>sz.
         if sz < 1024 * 1024 then
           failE (errorf (''local iso '' @ localPath @ '' is only '' @ show_int sz
             @ '' bytes (not a real ISO; re-download)''))
         else
           bindE (getE (\<lambda>s. ve_DsPathsKnown E (w_calls (v_w s)))) (\<lambda>known.
           ignoreE (if known then retE () else do_call E CFindInventoryPath (ve_FindInventoryPath E))
             (upload_attempts E localPath dsPath 4)))))"

definition uploadISOIfNeeded :: "vsphere \<Rightarrow> string \<Rightarrow> string \<Rightarrow> bool vio" where
  "uploadISOIfNeeded E localPath dsPath = bindE (datastoreFileExists E dsPath) (\<lambda>(exists, _).
     if exists then retE False
     else bindE (getE (\<lambda>s. ve_InFlight E (w_calls (v_w s)) dsPath)) (\<lambda>call. case call of
         Some (Some e) \<Rightarrow> failE e
       | Some None \<Rightarrow> retE False
       | None \<Rightarrow> upload_serial E localPath dsPath))"

section \<open>The cache listing\<close>

record iso_entry =
  ie_Name :: string
  ie_DatastorePath :: string
  ie_OnDatastore :: bool
  ie_DatastoreSize :: int
  ie_LocalCached :: bool
  ie_LocalSize :: int
  ie_LocalPath :: string

record iso_status =
  is_Datastore :: string
  is_ISOFolder :: string
  is_LocalCache :: string
  is_Reachable :: bool
  is_Error :: string
  is_Files :: "iso_entry list"
  is_DatastoreCount :: nat
  is_LocalCacheCount :: nat

definition iso_entry_zero :: iso_entry where
  "iso_entry_zero = \<lparr>ie_Name = '''', ie_DatastorePath = '''', ie_OnDatastore = False, ie_DatastoreSize = 0,
     ie_LocalCached = False, ie_LocalSize = 0, ie_LocalPath = ''''\<rparr>"

text \<open>The local directory: \<open>localByName\<close> and the count.\<close>

fun local_isos :: "string \<Rightarrow> (string \<times> bool \<times> int option) list \<Rightarrow> (string, iso_entry) fmap \<times> nat
    \<Rightarrow> (string, iso_entry) fmap \<times> nat" where
  "local_isos dir [] acc = acc"
| "local_isos dir ((name, isDir, info) # es) (m, n) =
     (if isDir \<or> \<not> HasSuffix name ''.iso'' then local_isos dir es (m, n)
      else
        let sz = (case info of Some z \<Rightarrow> z | None \<Rightarrow> 0) in
        local_isos dir es (fmupd name (iso_entry_zero\<lparr>ie_Name := name, ie_LocalCached := 0 < sz, ie_LocalSize := sz,
          ie_LocalPath := path_Join [dir, name]\<rparr>) m, Suc n))"

definition rest_local :: "endpoint \<Rightarrow> string list \<Rightarrow> (string, iso_entry) fmap \<Rightarrow> iso_entry list" where
  "rest_local ep ord m = map (\<lambda>e. e\<lparr>ie_DatastorePath := path_Join [ep_ISOFolder ep, ie_Name e]\<rparr>) (go_range ord m)"

fun datastore_isos :: "endpoint \<Rightarrow> file_info list \<Rightarrow> (string, iso_entry) fmap \<times> iso_entry list \<times> nat
    \<Rightarrow> (string, iso_entry) fmap \<times> iso_entry list \<times> nat" where
  "datastore_isos ep [] acc = acc"
| "datastore_isos ep (f # fs) (m, files, n) =
     (let name = fileInfoName f; sz = fileInfoSize f in
      if name = '''' \<or> \<not> HasSuffix name ''.iso'' then datastore_isos ep fs (m, files, n)
      else
        let ent = (case fmlookup m name of Some e \<Rightarrow> e | None \<Rightarrow> iso_entry_zero);
            ent = ent\<lparr>ie_Name := name, ie_OnDatastore := 0 < sz, ie_DatastoreSize := sz,
              ie_DatastorePath := path_Join [ep_ISOFolder ep, name]\<rparr>
        in datastore_isos ep fs (fmdrop name m, files @ [ent], Suc n))"

text \<open>\<open>if !strings.Contains(strings.ToLower(msg), "not found") { out.Error = msg }\<close>.\<close>

definition search_error :: "verr \<Rightarrow> iso_status \<Rightarrow> iso_status" where
  "search_error e out = (if Contains (ToLower (err_text e)) ''not found'' then out else out\<lparr>is_Error := err_text e\<rparr>)"

definition iso_finish :: "endpoint \<Rightarrow> string list \<Rightarrow> iso_status \<Rightarrow> (string, iso_entry) fmap \<Rightarrow> iso_status vio" where
  "iso_finish ep ord out m = retE (out\<lparr>is_Files := is_Files out @ rest_local ep ord m\<rparr>)"

definition ISOCacheStatus :: "vsphere \<Rightarrow> string list \<Rightarrow> iso_status vio" where
  "ISOCacheStatus E ord = bindE (cl_get cl_ep) (\<lambda>ep.
     let out = \<lparr>is_Datastore = ep_Datastore ep, is_ISOFolder = ep_ISOFolder ep, is_LocalCache = ep_ISOCache ep,
                is_Reachable = False, is_Error = '''', is_Files = [], is_DatastoreCount = 0, is_LocalCacheCount = 0\<rparr> in
     tryE (do_call E (COs ''readdir'' (ep_ISOCache ep)) (\<lambda>h. ve_ReadDir E h (ep_ISOCache ep))) (\<lambda>d.
     let (m, n) = (case d of Inl _ \<Rightarrow> (fmempty, 0) | Inr es \<Rightarrow> local_isos (ep_ISOCache ep) es (fmempty, 0));
         out = out\<lparr>is_LocalCacheCount := n\<rparr> in
     tryE (ensure E) (\<lambda>r. bindE (cl_get cl_ep) (\<lambda>ep. case r of
         Inl e \<Rightarrow> retE (out\<lparr>is_Error := err_text e, is_Files := rest_local ep ord m\<rparr>)
       | Inr _ \<Rightarrow> tryE requireDatastore (\<lambda>r. case r of
             Inl e \<Rightarrow> retE (out\<lparr>is_Error := err_text e, is_Reachable := True, is_Files := rest_local ep ord m\<rparr>)
           | Inr _ \<Rightarrow>
               let out = out\<lparr>is_Reachable := True\<rparr> in tryE (do_call E CBrowser (ve_Browser E)) (\<lambda>b. case b of
                   Inl e \<Rightarrow> iso_finish ep ord (out\<lparr>is_Error := err_text e\<rparr>) m
                 | Inr _ \<Rightarrow> bindE (cl_get (\<lambda>c. ds_Path E c (ep_ISOFolder ep))) (\<lambda>dsPath.
                     tryE (do_call E (CSearchDatastore dsPath [''*.iso'']) (\<lambda>h. ve_SearchDatastore E h dsPath [''*.iso''])) (\<lambda>r.
                       case r of
                         Inl e \<Rightarrow> iso_finish ep ord (search_error e out) m
                       | Inr None \<Rightarrow> iso_finish ep ord out m
                       | Inr (Some fs) \<Rightarrow>
                           let (m, files, n) = datastore_isos ep fs (m, [], 0)
                           in iso_finish ep ord (out\<lparr>is_Files := files, is_DatastoreCount := n\<rparr>) m))))))))"

section \<open>What these functions call\<close>

lemma keeps_files_get [keeps_intro]: "keeps (calls_only P) (files_get f)"
  by (auto simp: keeps_def files_get_def getE_def)

lemma keeps_files_mod [keeps_intro]: "keeps (calls_only P) (files_mod f)"
  by (auto simp: keeps_def files_mod_def modE_def calls_only_def)

lemma files_client [same_client_intro]: "keeps same_client (files_get f)" "keeps same_client (files_mod g)"
  by (auto simp: keeps_def files_get_def getE_def files_mod_def modE_def same_client_def)

lemma os_call_read_only [read_only_intro]: "read_only (os_call E op p)"
  unfolding os_call_def by (intro keeps_intro) simp

lemma os_call_client [same_client_intro]: "keeps same_client (os_call E op p)"
  unfolding os_call_def by (intro same_client_intro)

lemma read_file_read_only [read_only_intro]: "read_only (read_file E p)"
  unfolding read_file_def by (intro keeps_intro read_only_intro)

lemma read_file_client [same_client_intro]: "keeps same_client (read_file E p)"
  unfolding read_file_def by (intro keeps_intro same_client_intro)

lemma contentISOName_read_only [read_only_intro]: "read_only (contentISOName E p)"
  unfolding contentISOName_def by (intro keeps_intro read_only_intro)

lemma downloadISO_read_only [read_only_intro]: "read_only (downloadISO E url)"
  unfolding downloadISO_def os_Stat_size_def fetchISO_def store_body_def
  by (intro keeps_intro read_only_intro) simp_all

lemma downloadISO_client [same_client_intro]: "keeps same_client (downloadISO E url)"
  unfolding downloadISO_def os_Stat_size_def fetchISO_def store_body_def
  by (intro keeps_intro same_client_intro)

lemma datastoreDirExists_read_only [read_only_intro]: "read_only (datastoreDirExists E p)"
  unfolding datastoreDirExists_def by (intro keeps_intro read_only_intro) simp_all

lemma datastoreFileExists_read_only [read_only_intro]: "read_only (datastoreFileExists E p)"
  unfolding datastoreFileExists_def by (intro keeps_intro read_only_intro) simp_all

lemma ISOCacheStatus_read_only [read_only_intro]: "read_only (ISOCacheStatus E ord)"
  unfolding ISOCacheStatus_def iso_finish_def by (intro keeps_intro read_only_intro) simp_all

text \<open>Calls that change the datastore but no VM.\<close>

fun datastore_call :: "vcall \<Rightarrow> bool" where
  "datastore_call (CMakeDirectory _) = True"
| "datastore_call (CUploadHost _ _) = True"
| "datastore_call (CUploadVC _) = True"
| "datastore_call c = (\<not> mutating c)"

lemma datastore_call_read: "\<not> mutating c \<Longrightarrow> datastore_call c"
  by (cases c) auto

lemma read_only_datastore: "read_only m \<Longrightarrow> keeps (calls_only datastore_call) m"
  by (erule keeps_calls_mono) (rule datastore_call_read)

lemma mkdir_parts_calls: "keeps (calls_only datastore_call) (mkdir_parts E a ps)"
  by (induction E a ps rule: mkdir_parts.induct) (simp_all add: keeps_intro Let_def)

lemma host_uploads_calls: "keeps (calls_only datastore_call) (host_uploads E p hs e)"
  by (induction hs arbitrary: e) (simp_all add: keeps_intro)

lemma ensureISOFolder_calls: "keeps (calls_only datastore_call) (ensureISOFolder E)"
  unfolding ensureISOFolder_def
  by (intro keeps_intro read_only_intro mkdir_parts_calls read_only_datastore)

lemma putISO_calls: "keeps (calls_only datastore_call) (putISO E l p)"
  unfolding putISO_def putISOViaHost_def putISOViaVC_def
  by (intro keeps_intro read_only_datastore [OF read_file_read_only] host_uploads_calls) simp_all

lemma upload_attempts_calls: "keeps (calls_only datastore_call) (upload_attempts E l p n)"
  by (induction n)
    (simp_all add: keeps_intro putISO_calls confirm_upload_def read_only_datastore [OF datastoreFileExists_read_only] Let_def)

lemma keeps_getE_any [keeps_intro]: "keeps same_client (getE f)"
  by (auto simp: keeps_def getE_def same_client_def)

lemma uploadISOIfNeeded_calls: "keeps (calls_only datastore_call) (uploadISOIfNeeded E l p)"
  unfolding uploadISOIfNeeded_def upload_serial_def os_Stat_size_def
  by (intro keeps_intro upload_attempts_calls ensureISOFolder_calls read_only_datastore [OF datastoreFileExists_read_only]
      read_only_datastore [OF os_call_read_only]) simp_all

section \<open>Uploads are few and confirmed\<close>

fun is_upload :: "vcall \<Rightarrow> bool" where
  "is_upload (CUploadHost _ _) = True"
| "is_upload (CUploadVC _) = True"
| "is_upload _ = False"

abbreviation uploads :: "hist \<Rightarrow> nat" where
  "uploads l \<equiv> length (filter (\<lambda>(c, _). is_upload c) l)"

text \<open>\<open>adds n m\<close>: \<open>m\<close> appends to the history, at most \<open>n\<close> uploads.\<close>

definition adds :: "nat \<Rightarrow> 'a vio \<Rightarrow> bool" where
  "adds n m \<longleftrightarrow> (\<forall>s. \<exists>l. w_calls (v_w (snd (m s))) = w_calls (v_w s) @ l \<and> uploads l \<le> n)"

lemma addsD: "adds n m \<Longrightarrow> m s = (r, t) \<Longrightarrow> \<exists>l. w_calls (v_w t) = w_calls (v_w s) @ l \<and> uploads l \<le> n"
  by (metis adds_def snd_conv)

lemma adds_mono: "adds n m \<Longrightarrow> n \<le> k \<Longrightarrow> adds k m"
  unfolding adds_def by (meson le_trans)

lemma adds_ret [simp]: "adds n (retE x)" "adds n (failE e)" "adds n (getE f)" "adds n (cl_get g)"
  by (auto simp: adds_def io_simps)

lemma adds_tryE:
  assumes "adds a m" "\<And>r. adds b (f r)"
  shows "adds (a + b) (tryE m f)"
  unfolding adds_def
proof
  fix s
  obtain r u where m: "m s = (r, u)" by fastforce
  obtain t x where f: "f r u = (x, t)" by fastforce
  from addsD [OF assms(1) m] addsD [OF assms(2) f]
  show "\<exists>l. w_calls (v_w (snd (tryE m f s))) = w_calls (v_w s) @ l \<and> uploads l \<le> a + b"
    using m f by (auto simp: tryE_def intro: add_mono)
qed

lemma adds_bindE: "adds a m \<Longrightarrow> (\<And>x. adds b (f x)) \<Longrightarrow> adds (a + b) (bindE m f)"
  unfolding bindE_def by (rule adds_tryE) (auto split: sum.split)

lemma adds_thenE: "adds a m \<Longrightarrow> adds b k \<Longrightarrow> adds (a + b) (thenE m k)"
  unfolding thenE_def by (rule adds_bindE)

lemma adds_read_only: "read_only m \<Longrightarrow> adds 0 m"
proof -
  assume ro: "read_only m"
  have "\<not> mutating c \<Longrightarrow> \<not> is_upload c" for c by (cases c) auto
  then show ?thesis
    using ro by (fastforce simp: adds_def keeps_def calls_only_def list_all_iff filter_empty_conv)
qed

lemma adds_call: "adds 1 (do_call E c f)"
  by (auto simp: adds_def do_call_def record_call_def Let_def)

lemma adds_host_uploads: "adds (length hs) (host_uploads E p hs e)"
proof (induction hs arbitrary: e)
  case (Cons h hs)
  have "adds (1 + length hs) (host_uploads E p (h # hs) e)"
    unfolding host_uploads.simps by (rule adds_tryE [OF adds_call]) (auto split: sum.split intro: Cons.IH)
  then show ?case by simp
qed simp

lemma adds_putISO: "adds 4 (putISO E lp dp)"
proof -
  have h: "adds (length (take n hs)) (host_uploads E dp (take n hs) e)" for n hs e by (rule adds_host_uploads)
  have "adds 3 (host_uploads E dp (take (if length hs < 3 then length hs else 3) hs) e)" for hs e
    by (rule adds_mono [OF h]) simp
  then have "adds (0 + 3) (putISOViaHost E dp)"
    unfolding putISOViaHost_def
    by (intro adds_bindE) (auto intro!: adds_read_only keeps_intro)
  moreover have "adds (0 + (0 + 1)) (putISOViaVC E lp dp)"
    unfolding putISOViaVC_def
    by (intro adds_thenE adds_call) (auto intro!: adds_read_only keeps_intro read_only_intro)
  ultimately have "adds (3 + 1) (putISO E lp dp)"
    unfolding putISO_def by (intro adds_tryE) (auto split: sum.split)
  then show ?thesis by simp
qed

lemma confirm_read_only: "read_only (confirm_upload E dp)"
  unfolding confirm_upload_def by (intro keeps_intro read_only_intro)

lemma adds_upload_attempts: "adds (4 * n) (upload_attempts E lp dp n)"
proof (induction n)
  case (Suc n)
  have "adds (0 + 4 * n) (thenE (sleep E d) (upload_attempts E lp dp n))" for d
    by (intro adds_thenE Suc.IH) (auto intro!: adds_read_only keeps_intro)
  then have s: "adds (4 * n) (thenE (sleep E d) (upload_attempts E lp dp n))" for d by simp
  have c: "adds (4 * n) (confirm_upload E dp)" by (rule adds_mono [OF adds_read_only [OF confirm_read_only]]) simp
  have "adds (4 + 4 * n) (upload_attempts E lp dp (Suc n))"
    unfolding upload_attempts.simps by (rule adds_tryE [OF adds_putISO]) (auto simp: Let_def s c split: sum.split)
  then show ?case by simp
qed simp

lemma mkdir_parts_adds: "adds 0 (mkdir_parts E a ps)"
proof -
  have "keeps (calls_only (\<lambda>c. \<not> is_upload c)) (mkdir_parts E a ps)"
    by (induction E a ps rule: mkdir_parts.induct) (simp_all add: keeps_intro Let_def)
  then show ?thesis
    by (fastforce simp: adds_def keeps_def calls_only_def list_all_iff filter_empty_conv)
qed

lemma adds_ensureISOFolder: "adds 0 (ensureISOFolder E)"
proof -
  have tl: "adds (0 + 0) (thenE (mkdir_parts E a ps) (bindE (wrapE g (datastoreDirExists E p)) (\<lambda>ok.
         if \<not> ok then failE e else retE ())))" for a ps g p e
    by (intro adds_thenE mkdir_parts_adds adds_read_only keeps_intro read_only_intro)
  have "adds (0 + (0 + (0 + 0))) (ensureISOFolder E)"
    unfolding ensureISOFolder_def Let_def
  proof (intro adds_thenE adds_bindE)
    show "adds 0 (if TrimChar (ep_ISOFolder (cl_ep c)) CHR ''/'' = [] then retE ()
       else thenE (mkdir_parts E [] (SplitChar CHR ''/'' (TrimChar (ep_ISOFolder (cl_ep c)) CHR ''/'')))
         (bindE (wrapE (wrapf (''verify iso folder '' @ ds_Path E c (TrimChar (ep_ISOFolder (cl_ep c)) CHR ''/'')))
           (datastoreDirExists E (TrimChar (ep_ISOFolder (cl_ep c)) CHR ''/''))) (\<lambda>ok.
         if \<not> ok then failE (errorf (''iso folder '' @ ds_Path E c (TrimChar (ep_ISOFolder (cl_ep c)) CHR ''/'')
           @ '' missing after mkdir'')) else retE ())))" for c
      using tl by simp
  qed (auto intro!: adds_read_only keeps_intro read_only_intro)
  then show ?thesis by simp
qed

lemma adds_upload_serial: "adds 16 (upload_serial E lp dp)"
proof -
  have "adds (0 + (0 + 16)) (bindE (getE f) (\<lambda>known.
        ignoreE (if known then retE () else do_call E CFindInventoryPath (ve_FindInventoryPath E)) (upload_attempts E lp dp 4)))" for f
    unfolding ignoreE_def
    by (intro adds_bindE adds_tryE adds_upload_attempts [of 4, simplified]) (auto intro!: adds_read_only keeps_intro)
  then have a: "adds 16 (bindE (getE f) (\<lambda>known.
        ignoreE (if known then retE () else do_call E CFindInventoryPath (ve_FindInventoryPath E)) (upload_attempts E lp dp 4)))" for f
    by simp
  have w: "adds 0 (wrapE g (ensureISOFolder E))" for g
    unfolding wrapE_def by (rule adds_tryE [of 0 _ 0, simplified]) (auto simp: adds_ensureISOFolder split: sum.split)
  have "adds (0 + (0 + (0 + 16))) (upload_serial E lp dp)"
    unfolding upload_serial_def os_Stat_size_def
    by (intro adds_bindE)
      (auto intro!: adds_read_only keeps_intro read_only_intro adds_thenE [of 0 _ 16, simplified] w
        adds_bindE [of 0 _ 16, simplified] a)
  then show ?thesis by simp
qed

lemma adds_uploadISOIfNeeded: "adds 16 (uploadISOIfNeeded E lp dp)"
proof -
  have "adds (0 + (0 + 16)) (uploadISOIfNeeded E lp dp)"
    unfolding uploadISOIfNeeded_def
    by (intro adds_bindE) (auto intro!: adds_read_only keeps_intro read_only_intro adds_bindE [of 0 _ 16, simplified] adds_upload_serial
        split: option.split)
  then show ?thesis by simp
qed

text \<open>A file that is there, by an answer within the calls of the run.\<close>

definition seen_on_datastore :: "vsphere \<Rightarrow> string \<Rightarrow> hist \<Rightarrow> hist \<Rightarrow> bool" where
  "seen_on_datastore E dp h t \<longleftrightarrow> (\<exists>h' info. prefix h h' \<and> prefix h' t \<and> ve_Stat E h' dp = Inr info \<and> 0 < fileInfoSize info)"

lemma seen_widen:
  "seen_on_datastore E dp h t \<Longrightarrow> prefix h0 h \<Longrightarrow> prefix t t' \<Longrightarrow> seen_on_datastore E dp h0 t'"
  unfolding seen_on_datastore_def by (meson prefix_order.trans)

lemma calls_prefix:
  assumes "adds n m" "m s = (r, t)"
  shows "prefix (w_calls (v_w s)) (w_calls (v_w t))"
  using addsD [OF assms] by auto

lemma read_prefix:
  assumes "read_only m" "m s = (r, t)"
  shows "prefix (w_calls (v_w s)) (w_calls (v_w t))"
  using keepsD [OF assms] by (auto simp: calls_only_def)

lemma requireDatastore_run: "requireDatastore s = (r, t) \<Longrightarrow> t = s"
  by (auto simp: requireDatastore_def run_prims split: if_splits)

lemma datastoreFileExists_size:
  assumes "datastoreFileExists E dp s = (Inr (ok, n), t)" "ok" "n \<noteq> 0"
  shows "seen_on_datastore E dp (w_calls (v_w s)) (w_calls (v_w t))"
proof -
  from assms(1) obtain x s1 y s2 where e: "ensure E s = (Inr x, s1)" "requireDatastore s1 = (Inr y, s2)"
    and k: "tryE (do_call E (CStat dp) (\<lambda>h. ve_Stat E h dp)) (\<lambda>r. case r of
         Inr info \<Rightarrow> let sz = fileInfoSize info in retE (0 < sz, sz)
       | Inl e \<Rightarrow>
           if err_kind e = ENoSuchFile then
             bindE (datastoreDirExists E dp) (\<lambda>okDir. retE (okDir, 0))
           else if err_kind e = ENoSuchDirectory then retE (False, 0)
           else if says_missing e then
             bindE (datastoreDirExists E dp) (\<lambda>okDir. retE (okDir, 0))
           else failE e) s2 = (Inr (ok, n), t)"
    unfolding datastoreFileExists_def by (elim thenE_InrE)
  from k assms(2,3) obtain info where c: "do_call E (CStat dp) (\<lambda>h. ve_Stat E h dp) s2 = (Inr info, t)" "0 < fileInfoSize info"
    by (auto elim!: tryE_E bindE_InrE simp: run_prims Let_def split: sum.splits if_splits)
  have "s2 = s1" using e(2) by (rule requireDatastore_run)
  with do_call_Inr [OF c(1)] c(2) read_prefix [OF ensure_read_only e(1)] show ?thesis
    unfolding seen_on_datastore_def by (intro exI [of _ "w_calls (v_w s2)"] exI [of _ info]) auto
qed

lemma confirm_upload_Inr:
  assumes "confirm_upload E dp s = (Inr b, t)"
  shows "b \<and> seen_on_datastore E dp (w_calls (v_w s)) (w_calls (v_w t))"
proof -
  from assms obtain ok got u where d: "datastoreFileExists E dp s = (Inr (ok, got), u)" and
    k: "bindE (cl_get (\<lambda>c. ds_Path E c dp)) (\<lambda>p.
       if \<not> ok \<or> got = 0 then failE (errorf (''upload reported ok but '' @ p @ '' still missing on datastore''))
       else retE True) u = (Inr b, t)"
    unfolding confirm_upload_def by (auto elim!: bindE_InrE dest!: wrapE_InrE simp: run_prims)
  from k have "ok" "got \<noteq> 0" "b" "t = u" by (auto simp: run_prims split: if_splits)
  with datastoreFileExists_size [OF d] show ?thesis by simp
qed

text \<open>An upload the vCenter or a host accepted, after the history \<open>h\<close>.\<close>

definition upload_accepted :: "hist \<Rightarrow> hist \<Rightarrow> bool" where
  "upload_accepted h t \<longleftrightarrow> (\<exists>h' c. prefix h h' \<and> prefix (h' @ [(c, None)]) t \<and> is_upload c)"

lemma accepted_widen: "upload_accepted h t \<Longrightarrow> prefix h0 h \<Longrightarrow> prefix t t' \<Longrightarrow> upload_accepted h0 t'"
  unfolding upload_accepted_def by (meson prefix_order.trans)

lemma host_uploads_Inr:
  "host_uploads E dp hs e s = (Inr x, t) \<Longrightarrow> upload_accepted (w_calls (v_w s)) (w_calls (v_w t))"
proof (induction hs arbitrary: e s)
  case Nil
  then show ?case by (simp add: run_prims)
next
  case (Cons h hs)
  from Cons.prems obtain r u where d: "do_call E (CUploadHost h dp) (\<lambda>hist. ve_UploadHost E hist h dp) s = (r, u)"
    and k: "(case r of Inl e \<Rightarrow> host_uploads E dp hs e | Inr _ \<Rightarrow> retE ()) u = (Inr x, t)"
    unfolding host_uploads.simps by (rule tryE_E)
  have p: "prefix (w_calls (v_w s)) (w_calls (v_w u))" using do_call_calls [OF d] by simp
  show ?case
  proof (cases r)
    case (Inl e)
    with k Cons.IH [of e u] p show ?thesis by (auto intro: accepted_widen)
  next
    case (Inr y)
    with k d show ?thesis
      by (auto simp: upload_accepted_def run_prims dest!: do_call_Inr intro!: exI [of _ "w_calls (v_w s)"]
          exI [of _ "CUploadHost h dp"])
  qed
qed

lemma putISO_Inr:
  assumes "putISO E lp dp s = (Inr x, t)"
  shows "upload_accepted (w_calls (v_w s)) (w_calls (v_w t))"
proof -
  from assms obtain r u where h: "putISOViaHost E dp s = (r, u)" and
    k: "(case r of Inr _ \<Rightarrow> retE () | Inl _ \<Rightarrow> putISOViaVC E lp dp) u = (Inr x, t)"
    by (auto simp: putISO_def elim!: tryE_E)
  show ?thesis
  proof (cases r)
    case (Inr y)
    with k have "t = u" by (simp add: run_prims)
    moreover from h Inr have "upload_accepted (w_calls (v_w s)) (w_calls (v_w u))"
      by (auto simp: putISOViaHost_def run_prims elim!: bindE_InrE split: if_splits
          dest!: host_uploads_Inr do_call_Inr intro: accepted_widen)
    ultimately show ?thesis by simp
  next
    case (Inl e)
    with k have "putISOViaVC E lp dp u = (Inr x, t)" by simp
    then obtain a1 u1 a2 u2 where c: "do_call E (CTicket dp) (\<lambda>h. ve_Ticket E h dp) u = (Inr a1, u1)"
        "read_file E lp u1 = (Inr a2, u2)" "do_call E (CUploadVC dp) (\<lambda>h. ve_UploadVC E h dp) u2 = (Inr x, t)"
      by (auto simp: putISOViaVC_def elim!: thenE_InrE dest!: wrapE_InrE)
    have "keeps (calls_only datastore_call) (putISOViaHost E dp)"
      unfolding putISOViaHost_def by (intro keeps_intro host_uploads_calls) simp
    from keepsD [OF this h] have "prefix (w_calls (v_w s)) (w_calls (v_w u))" by (auto simp: calls_only_def)
    moreover have "prefix (w_calls (v_w u)) (w_calls (v_w u2))"
      using do_call_Inr [OF c(1)] read_prefix [OF read_file_read_only c(2)] by (auto dest: append_prefixD)
    ultimately have "prefix (w_calls (v_w s)) (w_calls (v_w u2))" by (rule prefix_order.trans)
    with do_call_Inr [OF c(3)] show ?thesis
      by (auto simp: upload_accepted_def intro!: exI [of _ "w_calls (v_w u2)"] exI [of _ "CUploadVC dp"])
  qed
qed

lemma upload_attempts_Inr:
  assumes "upload_attempts E lp dp n s = (Inr b, t)"
  shows "b \<and> (\<exists>h. upload_accepted (w_calls (v_w s)) h \<and> seen_on_datastore E dp h (w_calls (v_w t)))"
  using assms
proof (induction n arbitrary: s)
  case 0
  then show ?case by (simp add: run_prims)
next
  case (Suc n)
  from Suc.prems obtain r u where p: "putISO E lp dp s = (r, u)" and
    k: "(case r of Inr _ \<Rightarrow> confirm_upload E dp
     | Inl lastErr \<Rightarrow>
         let attempt = 4 - n in
         if \<not> retryable lastErr \<or> attempt = 4 then failE lastErr
         else thenE (sleep E (int attempt * 2 * second)) (upload_attempts E lp dp n)) u = (Inr b, t)"
    by (auto elim!: tryE_E)
  have pre: "prefix (w_calls (v_w s)) (w_calls (v_w u))" using adds_putISO p by (rule calls_prefix)
  show ?case
  proof (cases r)
    case (Inr y)
    with p k show ?thesis by (auto dest!: putISO_Inr confirm_upload_Inr)
  next
    case (Inl e)
    with k obtain d y u2 where sl: "sleep E d u = (Inr y, u2)" and rec: "upload_attempts E lp dp n u2 = (Inr b, t)"
      by (auto simp: run_prims Let_def split: if_splits elim!: thenE_InrE)
    have "w_calls (v_w u2) = w_calls (v_w u)" using sl by (auto simp: sleep_def split: option.splits)
    with Suc.IH [OF rec] pre show ?thesis by (auto intro: accepted_widen)
  qed
qed

lemma upload_serial_Inr:
  assumes up: "upload_serial E lp dp u1 = (Inr True, t)"
  shows "\<exists>h. upload_accepted (w_calls (v_w u1)) h \<and> seen_on_datastore E dp h (w_calls (v_w t))"
proof -
  from up obtain ex2 n2 u2 u3 y u4 z u5 where s: "datastoreFileExists E dp u1 = (Inr (ex2, n2), u2)"
    "ensureISOFolder E u2 = (Inr y, u3)" "os_Stat_size E lp u3 = (Inr z, u4)"
    "upload_attempts E lp dp 4 u5 = (Inr True, t)"
    and u5: "prefix (w_calls (v_w u4)) (w_calls (v_w u5))"
    by (auto simp: upload_serial_def run_prims getE_run elim!: bindE_InrE thenE_InrE ignoreE_E split: if_splits
        dest!: wrapE_InrE do_call_calls)
  have ro: "read_only (os_Stat_size E lp)" unfolding os_Stat_size_def by (intro keeps_intro read_only_intro)
  have "prefix (w_calls (v_w u1)) (w_calls (v_w u5))"
    using read_prefix [OF datastoreFileExists_read_only s(1)]
      calls_prefix [OF adds_ensureISOFolder s(2)] read_prefix [OF ro s(3)] u5
    by (meson prefix_order.trans)
  with upload_attempts_Inr [OF s(4)] show ?thesis by (auto intro: accepted_widen)
qed

text \<open>
  C8: An upload that reports success is on the datastore. When \<open>uploadISOIfNeeded\<close> says it uploaded the
  file, a host or the vCenter accepted the data and afterwards the datastore reported the file with a
  positive size; and whatever happens, one call starts at most 16 transfers (four attempts, each with
  up to three hosts and then the vCenter).
\<close>

theorem upload_is_confirmed_and_bounded:
  assumes "uploadISOIfNeeded E localPath dsPath s = (r, t)"
  shows "uploads (new_calls s t) \<le> 16
    \<and> (r = Inr True \<longrightarrow> (\<exists>h. upload_accepted (w_calls (v_w s)) h \<and> seen_on_datastore E dsPath h (w_calls (v_w t))))"
proof
  show "uploads (new_calls s t) \<le> 16"
    using addsD [OF adds_uploadISOIfNeeded assms] by (auto simp: new_calls_def)
  show "r = Inr True \<longrightarrow> (\<exists>h. upload_accepted (w_calls (v_w s)) h \<and> seen_on_datastore E dsPath h (w_calls (v_w t)))"
  proof
    assume "r = Inr True"
    with assms obtain ex n u1 where d: "datastoreFileExists E dsPath s = (Inr (ex, n), u1)"
      and up: "upload_serial E localPath dsPath u1 = (Inr True, t)"
      by (auto simp: uploadISOIfNeeded_def run_prims getE_run elim!: bindE_InrE split: if_splits option.splits)
    with upload_serial_Inr [OF up] read_prefix [OF datastoreFileExists_read_only d]
    show "\<exists>h. upload_accepted (w_calls (v_w s)) h \<and> seen_on_datastore E dsPath h (w_calls (v_w t))"
      by (auto intro: accepted_widen)
  qed
qed

definition demo_upload_vs :: vsphere where
  "demo_upload_vs = demo_vs\<lparr>
     ve_Stat := (\<lambda>h p. if list_ex (\<lambda>(c, _). is_upload c) h then Inr (IsoImageFileInfo p 2097152)
       else Inl (VErr ENoSuchFile ''gone'')),
     ve_SearchDatastore := (\<lambda>_ p _. if p = ''[DS] iso'' then Inr (Some []) else Inl (errorf ''not found''))\<rparr>"

definition demo_upload_st :: vstate where
  "demo_upload_st = \<lparr>v_cl = demo_client\<lparr>cl_ep := demo_ep\<lparr>ep_ISOFolder := ''iso''\<rparr>, cl_connected := True, cl_ds := Some ''DS''\<rparr>,
     v_w = demo_world\<lparr>w_files := fmupd ''/l'' (replicate 1048576 CHR ''x'') fmempty\<rparr>\<rparr>"

theorem upload_is_confirmed_and_bounded_witness:
  "\<exists>t. uploadISOIfNeeded demo_upload_vs ''/l'' ''iso/a'' demo_upload_st = (Inr True, t)
     \<and> (\<exists>h. upload_accepted [] h \<and> seen_on_datastore demo_upload_vs ''iso/a'' h (w_calls (v_w t)))"
proof -
  have f: "NormalizeDatastore ''DS'' = ''DS''" "TrimChar ''iso'' CHR ''/'' = ''iso''" "TrimChar ''iso/a'' CHR ''/'' = ''iso/a''"
      "SplitChar CHR ''/'' ''iso'' = [''iso'']" "says_missing (errorf ''not found'')"
    by code_simp+
  have p: "datastoreFileExists demo_upload_vs ''iso/a'' s =
      (if list_ex (\<lambda>(c, _). is_upload c) (w_calls (v_w s))
       then (Inr (True, 2097152), s\<lparr>v_w := record_call demo_upload_vs (CStat ''iso/a'') None (v_w s)\<rparr>)
       else (Inr (False, 0), s\<lparr>v_w := record_call demo_upload_vs (CSearchDatastore ''[DS] iso/a'' []) (Some (errorf ''not found''))
         (record_call demo_upload_vs CBrowser None
          (record_call demo_upload_vs (CStat ''iso/a'') (Some (VErr ENoSuchFile ''gone'')) (v_w s)))\<rparr>))"
    if "v_cl s = v_cl demo_upload_st" for s
    using that by (simp add: datastoreFileExists_def requireDatastore_def datastoreDirExists_def ds_Path_def io_simps do_call_def
        demo_upload_vs_def demo_upload_st_def f outcome_def Let_def demo_defs)
  have m: "ensureISOFolder demo_upload_vs s = (Inr (), s\<lparr>v_w := record_call demo_upload_vs (CSearchDatastore ''[DS] iso'' []) None
      (record_call demo_upload_vs CBrowser None (record_call demo_upload_vs (CMakeDirectory ''[DS] iso'') None (v_w s)))\<rparr>)"
    if "v_cl s = v_cl demo_upload_st" for s
    using that by (simp add: ensureISOFolder_def requireDatastore_def datastoreDirExists_def ds_Path_def io_simps do_call_def
        demo_upload_vs_def demo_upload_st_def f outcome_def Let_def demo_defs)
  have four: "(4 :: nat) = Suc 3" by simp
  have fields: "ve_InFlight demo_upload_vs h x = None" "ve_DsPathsKnown demo_upload_vs h" "ve_Os demo_upload_vs h a b = Inr ()"
      "ve_AttachedHosts demo_upload_vs h = Inr [''esx1'']" "ve_UploadHost demo_upload_vs h a b = Inr ()"
      "ve_latency demo_upload_vs h = 0" for h x a b
    by (simp_all add: demo_upload_vs_def demo_vs_def)
  have st: "w_calls (v_w demo_upload_st) = []" "w_files (v_w demo_upload_st) = fmupd ''/l'' (replicate 1048576 CHR ''x'') fmempty"
    by (simp_all add: demo_upload_st_def demo_world_def)
  have "fst (uploadISOIfNeeded demo_upload_vs ''/l'' ''iso/a'' demo_upload_st) = Inr True"
    unfolding uploadISOIfNeeded_def upload_serial_def os_Stat_size_def os_call_def files_get_def confirm_upload_def
      putISO_def putISOViaHost_def four upload_attempts.simps
    by (simp add: io_simps p m do_call_def record_call_def outcome_def fields st del: replicate_Suc)
  then obtain t where t: "uploadISOIfNeeded demo_upload_vs ''/l'' ''iso/a'' demo_upload_st = (Inr True, t)"
    by (metis prod.collapse)
  with upload_is_confirmed_and_bounded [OF t] show ?thesis by (auto simp: demo_upload_st_def demo_world_def)
qed

section \<open>The local cache never holds half a file\<close>

abbreviation files :: "vstate \<Rightarrow> (string, string) fmap" where
  "files s \<equiv> w_files (v_w s)"

lemma os_call_files: "os_call E op p s = (r, t) \<Longrightarrow> files t = files s"
  by (auto simp: os_call_def do_call_def record_call_def Let_def)

lemma files_mod_run: "files_mod f s = (Inr (), s\<lparr>v_w := (v_w s)\<lparr>w_files := f (files s)\<rparr>\<rparr>)"
  by (simp add: files_mod_def modE_def)

lemma files_get_run: "files_get f s = (Inr (f (files s)), s)"
  by (simp add: files_get_def getE_def)

lemma partial_not_dest [simp]: "dest @ ''.partial'' \<noteq> dest" "dest \<noteq> dest @ ''.partial''"
  by simp_all

lemma thenE_E:
  assumes "thenE m k s = (r, t)"
  obtains (Inl) e where "m s = (Inl e, t)" "r = Inl e"
    | (Inr) x u where "m s = (Inr x, u)" "k u = (r, t)"
  using assms by (auto simp: thenE_def bindE_def tryE_def failE_def split: prod.splits sum.splits)

lemma store_body_files:
  assumes "store_body E dest body ce s = (r, t)"
  shows "(fmlookup (files t) dest = fmlookup (files s) dest \<or> ce = None \<and> fmlookup (files t) dest = Some body)
    \<and> (\<forall>p. p \<noteq> dest \<and> p \<noteq> dest @ ''.partial'' \<longrightarrow> fmlookup (files t) p = fmlookup (files s) p)
    \<and> (\<forall>p. r = Inr p \<longrightarrow> p = dest \<and> ce = None \<and> fmlookup (files t) dest = Some body)"
proof -
  obtain tmp where tmp: "tmp = dest @ ''.partial''" "tmp \<noteq> dest" by simp
  have "thenE (os_call E ''create'' tmp) (thenE (files_mod (fmupd tmp body)) (case ce of
          Some e \<Rightarrow> tryE (os_call E ''remove'' tmp) (\<lambda>r. thenE
              (case r of Inr _ \<Rightarrow> files_mod (fmdrop tmp) | Inl _ \<Rightarrow> retE ()) (failE e))
        | None \<Rightarrow>
            thenE (os_call E ''close'' tmp) (thenE (os_call E ''rename'' tmp)
            (thenE (files_mod (\<lambda>m. fmdrop tmp (fmupd dest body m))) (retE dest))))) s = (r, t)"
    using assms unfolding store_body_def Let_def tmp(1) .
  then have "(fmlookup (files t) dest = fmlookup (files s) dest \<or> ce = None \<and> fmlookup (files t) dest = Some body)
    \<and> (\<forall>p. p \<noteq> dest \<and> p \<noteq> tmp \<longrightarrow> fmlookup (files t) p = fmlookup (files s) p)
    \<and> (\<forall>p. r = Inr p \<longrightarrow> p = dest \<and> ce = None \<and> fmlookup (files t) dest = Some body)" (is ?Q)
  proof (cases rule: thenE_E)
    case (Inl e)
    then show ?Q by (auto dest: os_call_files)
  next
    case (Inr x u)
    have fu: "files u = files s" using Inr(1) by (rule os_call_files)
    obtain u' where u': "files u' = fmupd tmp body (files s)" and k: "(case ce of
          Some e \<Rightarrow> tryE (os_call E ''remove'' tmp) (\<lambda>r. thenE
              (case r of Inr _ \<Rightarrow> files_mod (fmdrop tmp) | Inl _ \<Rightarrow> retE ()) (failE e))
        | None \<Rightarrow>
            thenE (os_call E ''close'' tmp) (thenE (os_call E ''rename'' tmp)
            (thenE (files_mod (\<lambda>m. fmdrop tmp (fmupd dest body m))) (retE dest)))) u' = (r, t)"
      using Inr(2) fu
      by (intro that [of "u\<lparr>v_w := (v_w u)\<lparr>w_files := fmupd tmp body (files u)\<rparr>\<rparr>"])
        (simp_all add: files_mod_run thenE_def [of "files_mod f" for f] bindE_run)
    show ?Q
    proof (cases ce)
      case (Some e)
      with k obtain a v where v: "os_call E ''remove'' tmp u' = (a, v)" and
        k2: "thenE (case a of Inr _ \<Rightarrow> files_mod (fmdrop tmp) | Inl _ \<Rightarrow> retE ()) (failE e) v = (r, t)"
        by (auto elim!: tryE_E)
      have "files v = fmupd tmp body (files s)" using os_call_files [OF v] u' by simp
      with k2 tmp(2) Some show ?Q
        by (cases a) (auto simp: files_mod_run run_prims elim!: thenE_E)
    next
      case None
      with k u' tmp(2) show ?Q
        by (auto simp: files_mod_run run_prims elim!: thenE_E dest!: os_call_files)
    qed
  qed
  then show ?thesis unfolding tmp(1) .
qed

lemma os_Stat_size_files:
  assumes "os_Stat_size E p s = (r, t)"
  shows "files t = files s \<and> (\<forall>n. r = Inr n \<longrightarrow> (\<exists>b. fmlookup (files s) p = Some b \<and> n = int (length b)))"
  using assms
  by (auto simp: os_Stat_size_def thenE_def bindE_def tryE_def failE_def retE_def files_get_run
      split: prod.splits sum.splits option.splits dest!: os_call_files)

lemma fetchISO_files:
  assumes "fetchISO E url dest s = (r, t)"
  shows "(fmlookup (files t) dest = fmlookup (files s) dest \<or>
      (\<exists>h code st body. ve_HttpGet E h url = Inr (code, st, body, None) \<and> code < 300 \<and> fmlookup (files t) dest = Some body))
    \<and> (\<forall>p. p \<noteq> dest \<and> p \<noteq> dest @ ''.partial'' \<longrightarrow> fmlookup (files t) p = fmlookup (files s) p)
    \<and> (\<forall>p. r = Inr p \<longrightarrow> p = dest \<and> (\<exists>h code st body. ve_HttpGet E h url = Inr (code, st, body, None) \<and> code < 300
        \<and> fmlookup (files t) dest = Some body))"
proof -
  let ?g = "do_call E (CHttpGet url) (\<lambda>h. ve_HttpGet E h url)"
  obtain a u where g: "?g s = (a, u)" by fastforce
  have fu: "files u = files s" using g by (auto simp: do_call_def record_call_def Let_def)
  have a: "a = ve_HttpGet E (w_calls (v_w s)) url" using g by (auto simp: do_call_def Let_def)
  show ?thesis
  proof (cases a)
    case (Inl e)
    then have "r = Inl e" "t = u" using assms g by (auto simp: fetchISO_def bindE_def tryE_def failE_def)
    with fu show ?thesis by simp
  next
    case (Inr x)
    obtain code st body ce where x: "x = (code, st, body, ce)" by (cases x) auto
    have k: "(if 300 \<le> code then failE (errorf (''GET '' @ url @ '': '' @ st)) else store_body E dest body ce) u = (r, t)"
      using assms g Inr x by (simp add: fetchISO_def bindE_def tryE_def)
    show ?thesis
    proof (cases "300 \<le> code")
      case True
      with k fu show ?thesis by (auto simp: failE_def)
    next
      case False
      with k have "store_body E dest body ce u = (r, t)" by simp
      from store_body_files [OF this] False Inr x a fu show ?thesis
        by (metis not_less)
    qed
  qed
qed

text \<open>
  C37: The local ISO cache never serves half a download. After \<open>downloadISO\<close>, whatever failed on the
  way, the file of that URL is as it was before or holds the whole body of an answer below 300 whose
  transfer ended without an error; no other file but its \<open>.partial\<close> has changed; and the path that a
  successful call returns is that file, which exists.
\<close>

theorem download_never_leaves_half_a_file:
  assumes "downloadISO E url s = (r, t)"
    and "dest = path_Join [ep_ISOCache (cl_ep (v_cl s)), ISOFileName E url]"
  shows "(fmlookup (files t) dest = fmlookup (files s) dest \<or>
      (\<exists>h code st body. ve_HttpGet E h url = Inr (code, st, body, None) \<and> code < 300 \<and> fmlookup (files t) dest = Some body))
    \<and> (\<forall>p. p \<noteq> dest \<and> p \<noteq> dest @ ''.partial'' \<longrightarrow> fmlookup (files t) p = fmlookup (files s) p)
    \<and> (\<forall>p. r = Inr p \<longrightarrow> p = dest \<and> fmlookup (files t) dest \<noteq> None)"
proof -
  obtain a u where st: "os_Stat_size E dest s = (a, u)" by fastforce
  note f = os_Stat_size_files [OF st]
  have k: "(case a of Inr sz \<Rightarrow> if 0 < sz then retE dest else fetchISO E url dest | Inl _ \<Rightarrow> fetchISO E url dest) u = (r, t)"
    using assms(1) st unfolding assms(2) by (simp add: downloadISO_def tryE_def Let_def)
  show ?thesis
  proof (cases "\<exists>sz. a = Inr sz \<and> 0 < sz")
    case True
    with k f show ?thesis by (auto simp: retE_def)
  next
    case False
    with k have "fetchISO E url dest u = (r, t)" by (auto split: sum.splits if_splits)
    from fetchISO_files [OF this] f show ?thesis by auto
  qed
qed

theorem download_never_leaves_half_a_file_witness:
  "\<exists>r t. downloadISO (demo_vs\<lparr>ve_HttpGet := (\<lambda>_ _. Inr (200, ''200 OK'', ''half'', Some (errorf ''reset''))),
       ve_Os := (\<lambda>_ op _. if op = ''remove'' then Inl (errorf ''busy'') else Inr ())\<rparr>) ''https://img'' demo_st = (r, t)
     \<and> fmlookup (files t) (path_Join [''/var/tmp/rf2vc'', ISOFileName demo_vs ''https://img'']) = None"
proof -
  let ?E = "demo_vs\<lparr>ve_HttpGet := (\<lambda>_ _. Inr (200, ''200 OK'', ''half'', Some (errorf ''reset''))),
       ve_Os := (\<lambda>_ op _. if op = ''remove'' then Inl (errorf ''busy'') else Inr ())\<rparr>"
  obtain r t where d: "downloadISO ?E ''https://img'' demo_st = (r, t)" by fastforce
  have n: "ISOFileName ?E u = ISOFileName demo_vs u" for u by (simp add: ISOFileName_def demo_vs_def)
  have c: "ep_ISOCache (cl_ep (v_cl demo_st)) = ''/var/tmp/rf2vc''" "files demo_st = fmempty" by (simp_all add: demo_defs)
  have "\<not> (\<exists>h code st body. ve_HttpGet ?E h ''https://img'' = Inr (code, st, body, None))" by simp
  with download_never_leaves_half_a_file [OF d refl] show ?thesis using d unfolding n c by auto
qed

section \<open>Open sessions\<close>

text \<open>What stays of an open session: nothing here closes it or changes its endpoint or datastore.\<close>

definition same_session :: "vstate \<Rightarrow> vstate \<Rightarrow> bool" where
  "same_session s t \<longleftrightarrow> (cl_connected (v_cl s) \<longrightarrow> cl_connected (v_cl t) \<and> cl_ds (v_cl t) = cl_ds (v_cl s) \<and> cl_ep (v_cl t) = cl_ep (v_cl s))"

named_theorems same_session_intro \<open>functions that keep an open session\<close>

lemma same_session_preorder [simp, keeps_intro]: "preorder_rel same_session"
  by (auto simp: preorder_rel_def same_session_def reflp_def transp_def)

lemma same_client_session: "keeps same_client m \<Longrightarrow> keeps same_session m"
  by (simp add: keeps_def same_client_def same_session_def)

lemma ensure_session [same_session_intro]: "keeps same_session (ensure E)"
  by (simp add: keeps_def same_session_def)

lemma cl_mod_session:
  assumes "\<And>c. cl_connected (g c) = cl_connected c \<and> cl_ds (g c) = cl_ds c \<and> cl_ep (g c) = cl_ep c"
  shows "keeps same_session (cl_mod g)"
  using assms by (simp add: keeps_def same_session_def run_prims)

lemma rememberUUID_session [same_session_intro]: "keeps same_session (rememberUUID uuid vm)"
proof -
  have "keeps same_session clock_get" by (rule same_client_session) (rule same_client_intro)
  moreover have "keeps same_session (cl_mod (remember_entry uuid vm now))" for now
    by (rule cl_mod_session) (simp add: remember_entry_def Let_def)
  ultimately show ?thesis unfolding rememberUUID_def by (intro keeps_intro)
qed

lemma session_prims [same_session_intro]:
  "keeps same_session (cl_get f)" "keeps same_session (act h op m d)" "keeps same_session (do_call E c g)"
  "keeps same_session (cachedVM uuid)"
  unfolding cachedVM_def by (intro same_client_session same_client_intro keeps_intro)+

lemma findByUUID_session [same_session_intro]: "keeps same_session (findByUUID E uuid)"
proof -
  have "keeps same_session (find_fallback E uuid e)" for uuid e
    unfolding find_fallback_def
    by (intro keeps_intro same_session_intro same_client_session [OF findByUUIDInFolder_client])
  then show ?thesis
    unfolding findByUUID_def
    by (intro keeps_intro same_session_intro cl_mod_session same_client_session [OF findByUUIDSearchIndex_client]
        same_client_session [OF checkFolder_client]) simp_all
qed

lemma datastoreFileExists_session [same_session_intro]: "keeps same_session (datastoreFileExists E p)"
  unfolding datastoreFileExists_def datastoreDirExists_def requireDatastore_def by (intro keeps_intro same_session_intro)

lemma mkdir_parts_session: "keeps same_session (mkdir_parts E a ps)"
  by (induction E a ps rule: mkdir_parts.induct) (simp_all add: keeps_intro same_session_intro Let_def)

lemma host_uploads_session: "keeps same_session (host_uploads E p hs e)"
  by (induction hs arbitrary: e) (simp_all add: keeps_intro same_session_intro)

lemma putISO_session: "keeps same_session (putISO E l p)"
  unfolding putISO_def putISOViaHost_def putISOViaVC_def
  by (intro keeps_intro same_session_intro host_uploads_session same_client_session [OF read_file_client])

lemma upload_attempts_session: "keeps same_session (upload_attempts E l p n)"
proof (induction n)
  case (Suc n)
  have "keeps same_session (sleep E d)" for d by (rule same_client_session) (rule same_client_intro)
  with Suc show ?case
    by (simp add: keeps_intro putISO_session confirm_upload_def same_session_intro Let_def)
qed (simp add: keeps_intro)

lemma uploadISOIfNeeded_session: "keeps same_session (uploadISOIfNeeded E l p)"
proof -
  have "keeps same_session (getE f)" for f by (rule same_client_session) (rule keeps_getE_any)
  moreover have "keeps same_session (os_Stat_size E q)" for q
    unfolding os_Stat_size_def by (rule same_client_session) (intro keeps_intro same_client_intro)
  moreover have "keeps same_session (ensureISOFolder E)"
    unfolding ensureISOFolder_def datastoreDirExists_def requireDatastore_def
    by (intro keeps_intro same_session_intro mkdir_parts_session)
  ultimately show ?thesis
    unfolding uploadISOIfNeeded_def upload_serial_def
    by (intro keeps_intro same_session_intro upload_attempts_session)
qed

end
