(* ===== verification/Upload_Flight.thy ===== *)
theory Upload_Flight
  imports Vsphere_Iso
begin

text \<open>
  Concurrent uploads on one client: \<open>uploadISOIfNeeded\<close> of \<open>internal/vsphere/iso.go\<close> as the goroutines of several
  requests run it. A goroutine that finds the file missing either registers a call for its path in
  \<open>uploadInFlight\<close> and leads the upload, or finds one registered and waits for its outcome; leaders take
  turns on \<open>uploadSerial\<close>. Each definition below is one stretch of the code between two points where goroutines
  meet (\<open>uploadMu\<close>, \<open>uploadSerial\<close>, the channel \<open>done\<close>); \<open>thread_step\<close> picks the one a goroutine is at, and
  \<open>flight_step\<close> interleaves them, with new requests, cancelled contexts and whatever else happens to the client.

  The vCenter calls of one stretch run without another stretch's calls between them; what other requests do
  to the client between two stretches is arbitrary, but the calls made are never forgotten.
\<close>

section \<open>Fair turns\<close>

text \<open>\<open>run_turns move is s\<close> gives the turns \<open>is\<close> one after the other; a turn of a blocked goroutine passes.\<close>

fun run_turns :: "(nat \<Rightarrow> 's \<Rightarrow> 's option) \<Rightarrow> nat list \<Rightarrow> 's \<Rightarrow> 's" where
  "run_turns move [] s = s"
| "run_turns move (i # is) s = run_turns move is (case move i s of Some t \<Rightarrow> t | None \<Rightarrow> s)"

lemma run_turns_append: "run_turns move (is @ js) s = run_turns move js (run_turns move is s)"
  by (induction "is" arbitrary: s) simp_all

text \<open>
  A system of goroutines in which some goroutine can move as long as work is left, and every move does some
  of the work: any schedule that goes round often enough finishes.
\<close>

locale fair_turns =
  fixes move :: "nat \<Rightarrow> 's \<Rightarrow> 's option"
    and inv :: "'s \<Rightarrow> bool"
    and work :: "'s \<Rightarrow> nat"
    and members :: "'s \<Rightarrow> nat"
  assumes move_inv: "inv s \<Longrightarrow> move i s = Some t \<Longrightarrow> inv t"
    and move_works: "inv s \<Longrightarrow> move i s = Some t \<Longrightarrow> work t < work s"
    and move_members: "move i s = Some t \<Longrightarrow> members t = members s"
    and can_move: "inv s \<Longrightarrow> 0 < work s \<Longrightarrow> \<exists>i < members s. move i s \<noteq> None"
begin

lemma turns_keep:
  "inv s \<Longrightarrow> inv (run_turns move is s) \<and> members (run_turns move is s) = members s \<and> work (run_turns move is s) \<le> work s"
proof (induction "is" arbitrary: s)
  case (Cons i "is")
  show ?case
  proof (cases "move i s")
    case (Some t)
    with Cons.prems Cons.IH [of t] move_inv move_works move_members show ?thesis by fastforce
  qed (simp add: Cons)
qed simp

lemma round_works:
  assumes "inv s" "{..<members s} \<subseteq> set r" "0 < work s"
  shows "work (run_turns move r s) < work s"
proof -
  have "\<exists>i \<in> set r. move i s \<noteq> None" using can_move [OF assms(1,3)] assms(2) by auto
  then show ?thesis using assms(1)
  proof (induction r arbitrary: s)
    case (Cons i r)
    show ?case
    proof (cases "move i s")
      case (Some t)
      with Cons.prems(2) have "work t < work s" "work (run_turns move r t) \<le> work t"
        using move_works move_inv turns_keep by blast+
      with Some show ?thesis by simp
    qed (use Cons in auto)
  qed simp
qed

lemma rounds_finish:
  assumes "inv s" "\<forall>r \<in> set rs. {..<members s} \<subseteq> set r" "work s \<le> length rs"
  shows "work (run_turns move (concat rs) s) = 0"
  using assms
proof (induction rs arbitrary: s)
  case (Cons r rs)
  let ?t = "run_turns move r s"
  have t: "inv ?t" "members ?t = members s" "work ?t \<le> work s" using turns_keep [OF Cons.prems(1)] by auto
  have "work ?t \<le> length rs"
  proof (cases "0 < work s")
    case True
    with round_works [OF Cons.prems(1)] Cons.prems(2,3) show ?thesis by fastforce
  qed (use t in simp)
  with Cons.IH [OF t(1)] Cons.prems(2) t(2) show ?case by (simp add: run_turns_append)
qed simp

end

section \<open>Goroutines and the calls they share\<close>

record upload_call =
  uc_done :: bool
  uc_err :: "verr option"

text \<open>
  Where a goroutine is: before the first look at the datastore; before \<open>uploadMu\<close>; in the \<open>select\<close>; before
  \<open>uploadSerial\<close>; holding it; in the deferred function before \<open>close(call.done)\<close>; before \<open>delete\<close>; returned.
  A call is its index among the calls made so far.
\<close>

datatype upload_pc =
    UStat
  | UJoin
  | UWait nat
  | USerial nat
  | UUpload nat
  | UPublish nat "verr + bool"
  | UDrop nat "verr + bool"
  | UReturn "verr + bool"

text \<open>
  The variable \<open>call\<close> of a goroutine, and whether it made it. \<open>ut_hist\<close>, the vCenter calls made before the
  goroutine started, is not in the code: theorems refer to it.
\<close>

datatype upload_role = Alone | Leader nat | Follower nat

record upload_thread =
  ut_localPath :: string
  ut_dsPath :: string
  ut_role :: upload_role
  ut_pc :: upload_pc
  ut_hist :: hist

record flight =
  fl_st :: vstate
  fl_inFlight :: "(string, nat) fmap"
  fl_calls :: "upload_call list"
  fl_serial :: "nat option"
  fl_threads :: "upload_thread list"

abbreviation thread :: "flight \<Rightarrow> nat \<Rightarrow> upload_thread" where
  "thread s i \<equiv> fl_threads s ! i"

definition set_thread :: "nat \<Rightarrow> (upload_thread \<Rightarrow> upload_thread) \<Rightarrow> flight \<Rightarrow> flight" where
  "set_thread i f s = s\<lparr>fl_threads := (fl_threads s)[i := f (thread s i)]\<rparr>"

definition err_of :: "verr + bool \<Rightarrow> verr option" where
  "err_of r = (case r of Inl e \<Rightarrow> Some e | Inr _ \<Rightarrow> None)"

section \<open>The stretches\<close>

text \<open>The first \<open>datastoreFileExists\<close>.\<close>

definition uf_stat :: "vsphere \<Rightarrow> nat \<Rightarrow> flight \<Rightarrow> flight" where
  "uf_stat E i s = (let (r, u) = datastoreFileExists E (ut_dsPath (thread s i)) (fl_st s) in
     set_thread i (\<lambda>th. th\<lparr>ut_pc := (case r of
         Inl e \<Rightarrow> UReturn (Inl e)
       | Inr (exists, _) \<Rightarrow> if exists then UReturn (Inr False) else UJoin)\<rparr>) (s\<lparr>fl_st := u\<rparr>))"

text \<open>Under \<open>uploadMu\<close>: the registered call, or a new one. A nil map is made before it is read.\<close>

definition uf_join :: "nat \<Rightarrow> flight \<Rightarrow> flight" where
  "uf_join i s = (let p = ut_dsPath (thread s i) in case fmlookup (fl_inFlight s) p of
       Some c \<Rightarrow> set_thread i (\<lambda>th. th\<lparr>ut_role := Follower c, ut_pc := UWait c\<rparr>) s
     | None \<Rightarrow>
         let c = length (fl_calls s) in
         set_thread i (\<lambda>th. th\<lparr>ut_role := Leader c, ut_pc := USerial c\<rparr>)
           (s\<lparr>fl_calls := fl_calls s @ [\<lparr>uc_done = False, uc_err = None\<rparr>], fl_inFlight := fmupd p c (fl_inFlight s)\<rparr>))"

text \<open>The two arms of the \<open>select\<close>. The arm on \<open>call.done\<close> is blocked until the channel is closed.\<close>

definition follower_result :: "upload_call \<Rightarrow> verr + bool" where
  "follower_result call = (case uc_err call of Some e \<Rightarrow> Inl e | None \<Rightarrow> Inr False)"

definition uf_wake :: "nat \<Rightarrow> nat \<Rightarrow> flight \<Rightarrow> flight option" where
  "uf_wake i c s = (let call = fl_calls s ! c in
     if uc_done call then Some (set_thread i (\<lambda>th. th\<lparr>ut_pc := UReturn (follower_result call)\<rparr>) s) else None)"

definition ctx_errors :: "verr list" where
  "ctx_errors = [errorf ''context canceled'', errorf ''context deadline exceeded'']"

definition uf_cancel :: "nat \<Rightarrow> verr \<Rightarrow> flight \<Rightarrow> flight" where
  "uf_cancel i e s = set_thread i (\<lambda>th. th\<lparr>ut_pc := UReturn (Inl e)\<rparr>) s"

text \<open>\<open>c.uploadSerial.Lock()\<close>, blocked while another goroutine holds it.\<close>

definition uf_lock :: "nat \<Rightarrow> nat \<Rightarrow> flight \<Rightarrow> flight option" where
  "uf_lock i c s = (if fl_serial s = None
     then Some (set_thread i (\<lambda>th. th\<lparr>ut_pc := UUpload c\<rparr>) (s\<lparr>fl_serial := Some i\<rparr>)) else None)"

text \<open>The body under the lock, up to the deferred unlock, which runs before the other deferred function.\<close>

definition uf_upload :: "vsphere \<Rightarrow> nat \<Rightarrow> nat \<Rightarrow> flight \<Rightarrow> flight" where
  "uf_upload E i c s = (let (r, u) = upload_serial E (ut_localPath (thread s i)) (ut_dsPath (thread s i)) (fl_st s) in
     set_thread i (\<lambda>th. th\<lparr>ut_pc := UPublish c r\<rparr>) (s\<lparr>fl_st := u, fl_serial := None\<rparr>))"

text \<open>\<open>call.err = err; close(call.done)\<close>, then the entry goes.\<close>

definition uf_publish :: "nat \<Rightarrow> nat \<Rightarrow> verr + bool \<Rightarrow> flight \<Rightarrow> flight" where
  "uf_publish i c r s = set_thread i (\<lambda>th. th\<lparr>ut_pc := UDrop c r\<rparr>)
     (s\<lparr>fl_calls := (fl_calls s)[c := \<lparr>uc_done = True, uc_err = err_of r\<rparr>]\<rparr>)"

definition uf_drop :: "nat \<Rightarrow> verr + bool \<Rightarrow> flight \<Rightarrow> flight" where
  "uf_drop i r s = set_thread i (\<lambda>th. th\<lparr>ut_pc := UReturn r\<rparr>)
     (s\<lparr>fl_inFlight := fmdrop (ut_dsPath (thread s i)) (fl_inFlight s)\<rparr>)"

text \<open>What goroutine \<open>i\<close> does when it gets its turn; \<open>None\<close> when it is blocked or has returned.\<close>

definition thread_step :: "vsphere \<Rightarrow> nat \<Rightarrow> flight \<Rightarrow> flight option" where
  "thread_step E i s = (if i < length (fl_threads s) then (case ut_pc (thread s i) of
       UStat \<Rightarrow> Some (uf_stat E i s)
     | UJoin \<Rightarrow> Some (uf_join i s)
     | UWait c \<Rightarrow> uf_wake i c s
     | USerial c \<Rightarrow> uf_lock i c s
     | UUpload c \<Rightarrow> Some (uf_upload E i c s)
     | UPublish c r \<Rightarrow> Some (uf_publish i c r s)
     | UDrop c r \<Rightarrow> Some (uf_drop i r s)
     | UReturn _ \<Rightarrow> None) else None)"

definition new_thread :: "string \<Rightarrow> string \<Rightarrow> hist \<Rightarrow> upload_thread" where
  "new_thread localPath dsPath h =
     \<lparr>ut_localPath = localPath, ut_dsPath = dsPath, ut_role = Alone, ut_pc = UStat, ut_hist = h\<rparr>"

abbreviation calls_of :: "flight \<Rightarrow> hist" where
  "calls_of s \<equiv> w_calls (v_w (fl_st s))"

definition arrive :: "string \<Rightarrow> string \<Rightarrow> flight \<Rightarrow> flight" where
  "arrive localPath dsPath s = s\<lparr>fl_threads := fl_threads s @ [new_thread localPath dsPath (calls_of s)]\<rparr>"

definition flight_start :: "vstate \<Rightarrow> flight" where
  "flight_start u = \<lparr>fl_st = u, fl_inFlight = fmempty, fl_calls = [], fl_serial = None, fl_threads = []\<rparr>"

inductive flight_step :: "vsphere \<Rightarrow> flight \<Rightarrow> flight \<Rightarrow> bool" for E :: vsphere where
  turn: "thread_step E i s = Some t \<Longrightarrow> flight_step E s t"
| cancel: "i < length (fl_threads s) \<Longrightarrow> ut_pc (thread s i) = UWait c \<Longrightarrow> e \<in> set ctx_errors \<Longrightarrow>
     flight_step E s (uf_cancel i e s)"
| arrive: "flight_step E s (arrive localPath dsPath s)"
| other: "prefix (calls_of s) (w_calls (v_w u)) \<Longrightarrow> flight_step E s (s\<lparr>fl_st := u\<rparr>)"

inductive flight_reach :: "vsphere \<Rightarrow> flight \<Rightarrow> bool" for E :: vsphere where
  start: "flight_reach E (flight_start u)"
| step: "flight_reach E s \<Longrightarrow> flight_step E s t \<Longrightarrow> flight_reach E t"

inductive_cases flight_stepE: "flight_step E s t"

section \<open>Invariant\<close>

fun returned :: "upload_pc \<Rightarrow> bool" where
  "returned (UReturn _) = True"
| "returned _ = False"

fun uploading :: "upload_pc \<Rightarrow> bool" where
  "uploading (UUpload _) = True"
| "uploading _ = False"

definition open_call :: "upload_call list \<Rightarrow> nat \<Rightarrow> bool" where
  "open_call cs c \<longleftrightarrow> c < length cs \<and> \<not> uc_done (cs ! c)"

definition closed_call :: "upload_call list \<Rightarrow> nat \<Rightarrow> verr option \<Rightarrow> bool" where
  "closed_call cs c e \<longleftrightarrow> c < length cs \<and> cs ! c = \<lparr>uc_done = True, uc_err = e\<rparr>"

text \<open>A goroutine's position, its call and that call's state fit together.\<close>

definition pc_ok :: "upload_call list \<Rightarrow> upload_thread \<Rightarrow> bool" where
  "pc_ok cs th = (case ut_pc th of
     UStat \<Rightarrow> ut_role th = Alone
   | UJoin \<Rightarrow> ut_role th = Alone
   | UWait c \<Rightarrow> ut_role th = Follower c \<and> c < length cs
   | USerial c \<Rightarrow> ut_role th = Leader c \<and> open_call cs c
   | UUpload c \<Rightarrow> ut_role th = Leader c \<and> open_call cs c
   | UPublish c r \<Rightarrow> ut_role th = Leader c \<and> open_call cs c
   | UDrop c r \<Rightarrow> ut_role th = Leader c \<and> closed_call cs c (err_of r)
   | UReturn r \<Rightarrow> (case ut_role th of
         Alone \<Rightarrow> True
       | Leader c \<Rightarrow> closed_call cs c (err_of r)
       | Follower c \<Rightarrow> c < length cs \<and>
           (r \<in> Inl ` set ctx_errors \<or> uc_done (cs ! c) \<and> r = follower_result (cs ! c))))"

text \<open>Every call has exactly one leader, and its followers want the same file.\<close>

definition roles_ok :: "nat \<Rightarrow> upload_thread list \<Rightarrow> bool" where
  "roles_ok n ths \<longleftrightarrow>
     (\<forall>i < length ths. \<forall>j < length ths. \<forall>c. ut_role (ths ! i) = Leader c \<longrightarrow> ut_role (ths ! j) = Leader c \<longrightarrow> i = j) \<and>
     (\<forall>c < n. \<exists>i < length ths. ut_role (ths ! i) = Leader c) \<and>
     (\<forall>i < length ths. \<forall>j < length ths. \<forall>c. ut_role (ths ! i) = Follower c \<longrightarrow> ut_role (ths ! j) = Leader c \<longrightarrow>
        ut_dsPath (ths ! i) = ut_dsPath (ths ! j))"

text \<open>\<open>uploadInFlight\<close> lists the calls whose leader has not returned; \<open>uploadSerial\<close> is held by who uploads.\<close>

definition table_ok :: "(string, nat) fmap \<Rightarrow> upload_thread list \<Rightarrow> bool" where
  "table_ok m ths \<longleftrightarrow> (\<forall>p c. fmlookup m p = Some c \<longleftrightarrow>
     (\<exists>i < length ths. ut_dsPath (ths ! i) = p \<and> ut_role (ths ! i) = Leader c \<and> \<not> returned (ut_pc (ths ! i))))"

definition serial_ok :: "nat option \<Rightarrow> upload_thread list \<Rightarrow> bool" where
  "serial_ok h ths \<longleftrightarrow> (\<forall>i < length ths. h = Some i \<longleftrightarrow> uploading (ut_pc (ths ! i))) \<and> (\<forall>i. h = Some i \<longrightarrow> i < length ths)"

definition flight_inv :: "flight \<Rightarrow> bool" where
  "flight_inv s \<longleftrightarrow> (\<forall>i < length (fl_threads s). pc_ok (fl_calls s) (thread s i)) \<and>
     roles_ok (length (fl_calls s)) (fl_threads s) \<and> table_ok (fl_inFlight s) (fl_threads s) \<and> serial_ok (fl_serial s) (fl_threads s)"

lemma flight_inv_start: "flight_inv (flight_start u)"
  by (simp add: flight_inv_def flight_start_def roles_ok_def table_ok_def serial_ok_def)

text \<open>A step that leaves path and role of a goroutine alone.\<close>

lemma roles_ok_same:
  assumes "i < length ths" "roles_ok n ths" "ut_role th = ut_role (ths ! i)" "ut_dsPath th = ut_dsPath (ths ! i)"
  shows "roles_ok n (ths[i := th])"
proof -
  have r: "ut_role (ths[i := th] ! j) = ut_role (ths ! j)" "ut_dsPath (ths[i := th] ! j) = ut_dsPath (ths ! j)" for j
    using assms(1,3,4) by (cases "i = j"; simp)+
  from assms(2) show ?thesis by (simp add: roles_ok_def r)
qed

lemma table_ok_same:
  assumes "i < length ths" "table_ok m ths" "ut_role th = ut_role (ths ! i)" "ut_dsPath th = ut_dsPath (ths ! i)"
    "returned (ut_pc th) = returned (ut_pc (ths ! i)) \<or> (\<forall>c. ut_role th \<noteq> Leader c)"
  shows "table_ok m (ths[i := th])"
proof -
  have r: "ut_role (ths[i := th] ! j) = ut_role (ths ! j)" "ut_dsPath (ths[i := th] ! j) = ut_dsPath (ths ! j)" for j
    using assms(1,3,4) by (cases "i = j"; simp)+
  have "(ut_role (ths ! j) = Leader c \<and> \<not> returned (ut_pc (ths[i := th] ! j)))
      = (ut_role (ths ! j) = Leader c \<and> \<not> returned (ut_pc (ths ! j)))" for j c
    using assms(1,3,5) by (cases "i = j") auto
  with assms(2) show ?thesis by (simp add: table_ok_def r)
qed

lemma serial_ok_same:
  assumes "i < length ths" "serial_ok h ths" "uploading (ut_pc th) = uploading (ut_pc (ths ! i))"
  shows "serial_ok h (ths[i := th])"
proof -
  have "uploading (ut_pc (ths[i := th] ! j)) = uploading (ut_pc (ths ! j))" for j
    using assms(1,3) by (cases "i = j") simp_all
  with assms(2) show ?thesis by (simp add: serial_ok_def)
qed

lemma pc_ok_update:
  assumes "i < length ths" "\<forall>j < length ths. j \<noteq> i \<longrightarrow> pc_ok cs (ths ! j)" "pc_ok cs th"
  shows "\<forall>j < length (ths[i := th]). pc_ok cs (ths[i := th] ! j)"
  using assms by (simp add: nth_list_update)

text \<open>A step that changes only the position of a goroutine.\<close>

lemma flight_inv_move:
  assumes "flight_inv s" "i < length (fl_threads s)"
    and "pc_ok (fl_calls s) (thread s i\<lparr>ut_pc := pc\<rparr>)"
    and "uploading pc = uploading (ut_pc (thread s i))"
    and "returned pc = returned (ut_pc (thread s i)) \<or> (\<forall>c. ut_role (thread s i) \<noteq> Leader c)"
  shows "flight_inv (set_thread i (\<lambda>th. th\<lparr>ut_pc := pc\<rparr>) s)"
  using assms unfolding flight_inv_def set_thread_def
  by (simp del: length_list_update add: pc_ok_update roles_ok_same table_ok_same serial_ok_same)

lemma flight_inv_st [simp]: "flight_inv (s\<lparr>fl_st := u\<rparr>) = flight_inv s"
  by (simp add: flight_inv_def)

lemma pc_okI: "flight_inv s \<Longrightarrow> i < length (fl_threads s) \<Longrightarrow> pc_ok (fl_calls s) (thread s i)"
  by (simp add: flight_inv_def)

lemma inv_stat:
  assumes "flight_inv s" "i < length (fl_threads s)" "ut_pc (thread s i) = UStat"
  shows "flight_inv (uf_stat E i s)"
  using assms pc_okI [OF assms(1,2)]
  by (auto simp: uf_stat_def Let_def pc_ok_def split: prod.split sum.split intro!: flight_inv_move)

lemma inv_wake:
  assumes "flight_inv s" "i < length (fl_threads s)" "ut_pc (thread s i) = UWait c" "uf_wake i c s = Some t"
  shows "flight_inv t"
  using assms pc_okI [OF assms(1,2)]
  by (auto simp: uf_wake_def Let_def pc_ok_def split: if_splits intro!: flight_inv_move)

lemma inv_cancel:
  assumes "flight_inv s" "i < length (fl_threads s)" "ut_pc (thread s i) = UWait c" "e \<in> set ctx_errors"
  shows "flight_inv (uf_cancel i e s)"
  using assms pc_okI [OF assms(1,2)]
  by (auto simp: uf_cancel_def pc_ok_def intro!: flight_inv_move)

lemma inv_lock:
  assumes "flight_inv s" "i < length (fl_threads s)" "ut_pc (thread s i) = USerial c" "uf_lock i c s = Some t"
  shows "flight_inv t"
proof -
  have n: "fl_serial s = None" and t: "t = set_thread i (\<lambda>th. th\<lparr>ut_pc := UUpload c\<rparr>) (s\<lparr>fl_serial := Some i\<rparr>)"
    using assms(4) by (auto simp: uf_lock_def split: if_splits)
  have "serial_ok (Some i) ((fl_threads s)[i := thread s i\<lparr>ut_pc := UUpload c\<rparr>])"
    using assms(1,2) n by (auto simp: flight_inv_def serial_ok_def nth_list_update)
  moreover have "pc_ok (fl_calls s) (thread s i\<lparr>ut_pc := UUpload c\<rparr>)"
    using pc_okI [OF assms(1,2)] assms(3) by (simp add: pc_ok_def)
  ultimately show ?thesis
    using assms(1-3) unfolding t flight_inv_def set_thread_def
    by (simp del: length_list_update add: pc_ok_update roles_ok_same table_ok_same)
qed

lemma inv_upload:
  assumes "flight_inv s" "i < length (fl_threads s)" "ut_pc (thread s i) = UUpload c"
  shows "flight_inv (uf_upload E i c s)"
proof -
  obtain r u where u: "upload_serial E (ut_localPath (thread s i)) (ut_dsPath (thread s i)) (fl_st s) = (r, u)"
    by fastforce
  have "fl_serial s = Some i"
    using assms by (auto simp: flight_inv_def serial_ok_def)
  then have "serial_ok None ((fl_threads s)[i := thread s i\<lparr>ut_pc := UPublish c r\<rparr>])"
    using assms(1,2) by (auto simp: flight_inv_def serial_ok_def nth_list_update)
  moreover have "pc_ok (fl_calls s) (thread s i\<lparr>ut_pc := UPublish c r\<rparr>)"
    using pc_okI [OF assms(1,2)] assms(3) by (simp add: pc_ok_def)
  ultimately show ?thesis
    using assms u unfolding uf_upload_def flight_inv_def set_thread_def
    by (simp del: length_list_update add: pc_ok_update roles_ok_same table_ok_same)
qed

lemma pc_ok_publish:
  "pc_ok cs th \<Longrightarrow> open_call cs c \<Longrightarrow> ut_role th \<noteq> Leader c \<Longrightarrow> pc_ok (cs[c := call]) th"
  by (auto simp: pc_ok_def open_call_def closed_call_def nth_list_update split: upload_pc.splits upload_role.splits)

lemma pc_ok_call_new: "pc_ok cs th \<Longrightarrow> pc_ok (cs @ [call]) th"
  by (auto simp: pc_ok_def open_call_def closed_call_def nth_append split: upload_pc.splits upload_role.splits)

lemma inv_publish:
  assumes inv: "flight_inv s" and i: "i < length (fl_threads s)" and pc: "ut_pc (thread s i) = UPublish c r"
  shows "flight_inv (uf_publish i c r s)"
proof -
  let ?cs = "(fl_calls s)[c := \<lparr>uc_done = True, uc_err = err_of r\<rparr>]"
  have c: "ut_role (thread s i) = Leader c" "open_call (fl_calls s) c"
    using pc_okI [OF inv i] pc by (simp_all add: pc_ok_def)
  have "pc_ok ?cs (thread s i\<lparr>ut_pc := UDrop c r\<rparr>)"
    using c by (simp add: pc_ok_def open_call_def closed_call_def)
  moreover have "pc_ok ?cs (thread s j)" if "j < length (fl_threads s)" "j \<noteq> i" for j
  proof -
    have "ut_role (thread s j) \<noteq> Leader c"
      using inv that i c(1) by (auto simp: flight_inv_def roles_ok_def)
    with pc_okI [OF inv that(1)] c(2) show ?thesis by (rule pc_ok_publish)
  qed
  ultimately show ?thesis
    using inv i pc unfolding uf_publish_def flight_inv_def set_thread_def
    by (simp del: length_list_update [where xs = "fl_threads s"] add: pc_ok_update roles_ok_same table_ok_same serial_ok_same)
qed

lemma inv_drop:
  assumes inv: "flight_inv s" and i: "i < length (fl_threads s)" and pc: "ut_pc (thread s i) = UDrop c r"
  shows "flight_inv (uf_drop i r s)"
proof -
  let ?ths = "(fl_threads s)[i := thread s i\<lparr>ut_pc := UReturn r\<rparr>]"
  let ?p = "ut_dsPath (thread s i)"
  have c: "ut_role (thread s i) = Leader c" and ok: "pc_ok (fl_calls s) (thread s i\<lparr>ut_pc := UReturn r\<rparr>)"
    using pc_okI [OF inv i] pc by (simp_all add: pc_ok_def)
  have tab: "fmlookup (fl_inFlight s) q = Some d \<longleftrightarrow> (\<exists>j < length (fl_threads s). ut_dsPath (thread s j) = q \<and>
      ut_role (thread s j) = Leader d \<and> \<not> returned (ut_pc (thread s j)))" for q d
    using inv by (simp add: flight_inv_def table_ok_def)
  have mine: "fmlookup (fl_inFlight s) ?p = Some c"
    using i c pc by (auto simp: tab)
  have only: "j = i" if "j < length (fl_threads s)" "ut_dsPath (thread s j) = ?p" "ut_role (thread s j) = Leader d"
    "\<not> returned (ut_pc (thread s j))" for j d
  proof -
    have "fmlookup (fl_inFlight s) ?p = Some d" using that by (auto simp: tab)
    with mine that(3) have "ut_role (thread s j) = Leader c" by simp
    with inv that(1) i c show ?thesis by (auto simp: flight_inv_def roles_ok_def)
  qed
  have "table_ok (fmdrop ?p (fl_inFlight s)) ?ths"
    unfolding table_ok_def
  proof (intro allI)
    fix q d
    show "fmlookup (fmdrop ?p (fl_inFlight s)) q = Some d \<longleftrightarrow> (\<exists>j < length ?ths. ut_dsPath (?ths ! j) = q \<and>
      ut_role (?ths ! j) = Leader d \<and> \<not> returned (ut_pc (?ths ! j)))"
    proof (cases "q = ?p")
      case True
      have "\<not> (ut_dsPath (?ths ! j) = ?p \<and> ut_role (?ths ! j) = Leader d \<and> \<not> returned (ut_pc (?ths ! j)))"
        if "j < length (fl_threads s)" for j
        using only [OF that] i by (cases "j = i") auto
      with True show ?thesis by auto
    next
      case False
      then show ?thesis using i by (auto simp: nth_list_update tab)
    qed
  qed
  with ok show ?thesis
    using inv i pc unfolding uf_drop_def flight_inv_def set_thread_def
    by (simp del: length_list_update add: pc_ok_update roles_ok_same serial_ok_same)
qed

lemma inv_arrive:
  assumes "flight_inv s"
  shows "flight_inv (arrive l p s)"
proof -
  define h where "h = calls_of s"
  have new: "ut_role (new_thread l p h) = Alone" "ut_pc (new_thread l p h) = UStat"
    by (simp_all add: new_thread_def)
  then have fresh: "pc_ok cs (new_thread l p h)" for cs by (simp add: pc_ok_def)
  let ?ths = "fl_threads s @ [new_thread l p h]"
  have old: "j < length (fl_threads s) \<and> ?ths ! j = thread s j \<or> ?ths ! j = new_thread l p h"
    if "j < length ?ths" for j
    using that by (auto simp: nth_append less_Suc_eq)
  have old_roles: "j < length (fl_threads s) \<and> ?ths ! j = thread s j"
    if "j < length ?ths" "ut_role (?ths ! j) \<noteq> Alone" for j
    using old [OF that(1)] that(2) new by auto
  have keep: "j < length ?ths" "?ths ! j = thread s j" if "j < length (fl_threads s)" for j
    using that by (simp_all add: nth_append)
  have "roles_ok (length (fl_calls s)) ?ths"
    unfolding roles_ok_def
  proof (intro conjI allI impI)
    fix c assume "c < length (fl_calls s)"
    then obtain j where "j < length (fl_threads s)" "ut_role (thread s j) = Leader c"
      using assms by (auto simp: flight_inv_def roles_ok_def)
    with keep [of j] show "\<exists>j < length ?ths. ut_role (?ths ! j) = Leader c" by metis
  next
    fix i j c
    assume "i < length ?ths" "j < length ?ths" "ut_role (?ths ! i) = Leader c" "ut_role (?ths ! j) = Leader c"
    with old_roles [of i] old_roles [of j] assms show "i = j" by (auto simp: flight_inv_def roles_ok_def)
  next
    fix i j c
    assume "i < length ?ths" "j < length ?ths" "ut_role (?ths ! i) = Follower c" "ut_role (?ths ! j) = Leader c"
    with old_roles [of i] old_roles [of j] assms show "ut_dsPath (?ths ! i) = ut_dsPath (?ths ! j)"
      by (auto simp: flight_inv_def roles_ok_def)
  qed
  moreover have "table_ok (fl_inFlight s) ?ths"
  proof -
    have "(\<exists>j < length ?ths. ut_dsPath (?ths ! j) = q \<and> ut_role (?ths ! j) = Leader c \<and> \<not> returned (ut_pc (?ths ! j)))
      \<longleftrightarrow> (\<exists>j < length (fl_threads s). ut_dsPath (thread s j) = q \<and> ut_role (thread s j) = Leader c \<and>
        \<not> returned (ut_pc (thread s j)))" for q c
      using old_roles keep by (metis upload_role.distinct(1))
    then show ?thesis using assms by (simp add: flight_inv_def table_ok_def)
  qed
  moreover have "serial_ok (fl_serial s) ?ths"
    unfolding serial_ok_def
  proof (intro conjI allI impI)
    fix j assume "j < length ?ths"
    then consider "j < length (fl_threads s)" | "j = length (fl_threads s)" by fastforce
    then show "(fl_serial s = Some j) = uploading (ut_pc (?ths ! j))"
      using assms new by cases (auto simp: flight_inv_def serial_ok_def nth_append)
  next
    fix j assume "fl_serial s = Some j"
    with assms show "j < length ?ths" by (auto simp: flight_inv_def serial_ok_def)
  qed
  moreover have "pc_ok (fl_calls s) (?ths ! j)" if "j < length ?ths" for j
    using old [OF that] pc_okI [OF assms, of j] fresh by auto
  ultimately show ?thesis by (simp add: flight_inv_def arrive_def h_def)
qed

text \<open>A goroutine that had no call takes one.\<close>

lemma inv_follow:
  assumes inv: "flight_inv s" and i: "i < length (fl_threads s)" and pc: "ut_pc (thread s i) = UJoin"
    and c: "fmlookup (fl_inFlight s) (ut_dsPath (thread s i)) = Some c"
  shows "flight_inv (set_thread i (\<lambda>th. th\<lparr>ut_role := Follower c, ut_pc := UWait c\<rparr>) s)"
proof -
  let ?th = "thread s i\<lparr>ut_role := Follower c, ut_pc := UWait c\<rparr>"
  let ?ths = "(fl_threads s)[i := ?th]"
  have alone: "ut_role (thread s i) = Alone"
    using pc_okI [OF inv i] pc by (simp add: pc_ok_def)
  obtain k where k: "k < length (fl_threads s)" "ut_dsPath (thread s k) = ut_dsPath (thread s i)"
    "ut_role (thread s k) = Leader c" "\<not> returned (ut_pc (thread s k))"
    using inv c by (auto simp: flight_inv_def table_ok_def)
  have "c < length (fl_calls s)"
    using pc_okI [OF inv k(1)] k(3,4)
    by (auto simp: pc_ok_def open_call_def closed_call_def split: upload_pc.splits)
  then have "pc_ok (fl_calls s) ?th" by (simp add: pc_ok_def)
  moreover have "roles_ok (length (fl_calls s)) ?ths"
  proof -
    have lead: "ut_role (?ths ! j) = Leader d \<longleftrightarrow> ut_role (thread s j) = Leader d" if "j < length (fl_threads s)" for j d
      using alone i that by (cases "j = i") simp_all
    have fol: "ut_role (?ths ! j) = Follower d \<longleftrightarrow> ut_role (thread s j) = Follower d \<or> j = i \<and> d = c"
      if "j < length (fl_threads s)" for j d
      using alone i that by (cases "j = i") auto
    have path: "ut_dsPath (?ths ! j) = ut_dsPath (thread s j)" for j
      using i by (cases "j = i") simp_all
    have "ut_dsPath (thread s i) = ut_dsPath (thread s j)"
      if "j < length (fl_threads s)" "ut_role (thread s j) = Leader c" for j
      using inv that k by (auto simp: flight_inv_def roles_ok_def)
    then show ?thesis
      using inv unfolding flight_inv_def roles_ok_def by (simp add: lead fol path cong: conj_cong)
  qed
  moreover have "table_ok (fl_inFlight s) ?ths"
  proof -
    have "(ut_dsPath (?ths ! j) = q \<and> ut_role (?ths ! j) = Leader d \<and> \<not> returned (ut_pc (?ths ! j))) \<longleftrightarrow>
      (ut_dsPath (thread s j) = q \<and> ut_role (thread s j) = Leader d \<and> \<not> returned (ut_pc (thread s j)))" for j q d
      using alone i by (cases "j = i") auto
    then show ?thesis using inv by (simp add: flight_inv_def table_ok_def)
  qed
  ultimately show ?thesis
    using inv i pc unfolding flight_inv_def set_thread_def
    by (simp del: length_list_update add: pc_ok_update serial_ok_same)
qed

lemma inv_lead:
  assumes inv: "flight_inv s" and i: "i < length (fl_threads s)" and pc: "ut_pc (thread s i) = UJoin"
    and free: "fmlookup (fl_inFlight s) (ut_dsPath (thread s i)) = None" and n: "n = length (fl_calls s)"
  shows "flight_inv (set_thread i (\<lambda>th. th\<lparr>ut_role := Leader n, ut_pc := USerial n\<rparr>)
    (s\<lparr>fl_calls := fl_calls s @ [\<lparr>uc_done = False, uc_err = None\<rparr>],
       fl_inFlight := fmupd (ut_dsPath (thread s i)) n (fl_inFlight s)\<rparr>))"
proof -
  let ?th = "thread s i\<lparr>ut_role := Leader n, ut_pc := USerial n\<rparr>"
  let ?ths = "(fl_threads s)[i := ?th]"
  let ?p = "ut_dsPath (thread s i)"
  let ?cs = "fl_calls s @ [\<lparr>uc_done = False, uc_err = None\<rparr>]"
  have alone: "ut_role (thread s i) = Alone"
    using pc_okI [OF inv i] pc by (simp add: pc_ok_def)
  have fresh: "ut_role (thread s j) \<noteq> Leader n" "ut_role (thread s j) \<noteq> Follower n" if "j < length (fl_threads s)" for j
    using pc_okI [OF inv that] n
    by (auto simp: pc_ok_def open_call_def closed_call_def split: upload_pc.splits)
  have lead: "ut_role (?ths ! j) = Leader d \<longleftrightarrow> ut_role (thread s j) = Leader d \<or> j = i \<and> d = n" for j d
    using alone i by (cases "j = i") auto
  have fol: "ut_role (?ths ! j) = Follower d \<longleftrightarrow> ut_role (thread s j) = Follower d" for j d
    using alone i by (cases "j = i") auto
  have path: "ut_dsPath (?ths ! j) = ut_dsPath (thread s j)" for j
    using i by (cases "j = i") simp_all
  have "roles_ok (length ?cs) ?ths"
    unfolding roles_ok_def
  proof (intro conjI allI impI)
    fix d assume "d < length ?cs"
    then consider "d < length (fl_calls s)" | "d = n" using n by fastforce
    then show "\<exists>j < length ?ths. ut_role (?ths ! j) = Leader d"
      using inv i by cases (auto simp: flight_inv_def roles_ok_def lead)
  next
    fix j k d
    assume "j < length ?ths" "k < length ?ths" "ut_role (?ths ! j) = Leader d" "ut_role (?ths ! k) = Leader d"
    with inv fresh show "j = k" by (auto simp: flight_inv_def roles_ok_def lead)
  next
    fix j k d
    assume "j < length ?ths" "k < length ?ths" "ut_role (?ths ! j) = Follower d" "ut_role (?ths ! k) = Leader d"
    with inv fresh show "ut_dsPath (?ths ! j) = ut_dsPath (?ths ! k)"
      by (auto simp: flight_inv_def roles_ok_def lead fol path)
  qed
  moreover have "table_ok (fmupd ?p n (fl_inFlight s)) ?ths"
  proof -
    have tab: "fmlookup (fl_inFlight s) q = Some d \<longleftrightarrow> (\<exists>j < length (fl_threads s). ut_dsPath (thread s j) = q \<and>
        ut_role (thread s j) = Leader d \<and> \<not> returned (ut_pc (thread s j)))" for q d
      using inv by (simp add: flight_inv_def table_ok_def)
    have here: "(ut_dsPath (?ths ! j) = q \<and> ut_role (?ths ! j) = Leader d \<and> \<not> returned (ut_pc (?ths ! j))) \<longleftrightarrow>
        (if j = i then ?p = q \<and> d = n
         else ut_dsPath (thread s j) = q \<and> ut_role (thread s j) = Leader d \<and> \<not> returned (ut_pc (thread s j)))" for j q d
      using i by (cases "j = i") auto
    have none: "\<not> (ut_dsPath (thread s j) = ?p \<and> ut_role (thread s j) = Leader d \<and> \<not> returned (ut_pc (thread s j)))"
      if "j < length (fl_threads s)" for j d
      using free tab [of ?p d] that by auto
    show ?thesis
      unfolding table_ok_def here
    proof (intro allI)
      fix q d
      show "(fmlookup (fmupd ?p n (fl_inFlight s)) q = Some d) \<longleftrightarrow> (\<exists>j < length ?ths. if j = i then ?p = q \<and> d = n
         else ut_dsPath (thread s j) = q \<and> ut_role (thread s j) = Leader d \<and> \<not> returned (ut_pc (thread s j)))"
      proof (cases "q = ?p")
        case True
        with none i show ?thesis by auto
      next
        case False
        with alone show ?thesis by (auto simp: tab)
      qed
    qed
  qed
  moreover have "\<forall>j < length (fl_threads s). pc_ok ?cs (thread s j)"
    using inv by (simp add: flight_inv_def pc_ok_call_new)
  moreover have "pc_ok ?cs ?th"
    using n by (simp add: pc_ok_def open_call_def)
  ultimately show ?thesis
    using inv i pc unfolding flight_inv_def set_thread_def
    by (simp del: length_list_update length_append add: pc_ok_update serial_ok_same)
qed

lemma inv_join:
  assumes "flight_inv s" "i < length (fl_threads s)" "ut_pc (thread s i) = UJoin"
  shows "flight_inv (uf_join i s)"
  using assms inv_follow inv_lead by (auto simp: uf_join_def Let_def split: option.split)

lemma thread_step_inv:
  assumes "flight_inv s" "thread_step E i s = Some t"
  shows "flight_inv t"
  using assms
  by (auto simp: thread_step_def split: if_splits upload_pc.splits
      intro: inv_stat inv_join inv_wake inv_lock inv_upload inv_publish inv_drop)

lemma flight_step_inv: "flight_step E s t \<Longrightarrow> flight_inv s \<Longrightarrow> flight_inv t"
  by (erule flight_stepE) (auto intro: thread_step_inv inv_cancel inv_arrive)

lemma flight_reach_inv: "flight_reach E s \<Longrightarrow> flight_inv s"
  by (induction rule: flight_reach.induct) (auto intro: flight_inv_start flight_step_inv)

section \<open>Every goroutine returns\<close>

text \<open>How many turns a goroutine still needs at most.\<close>

fun turns_left :: "upload_pc \<Rightarrow> nat" where
  "turns_left UStat = 6"
| "turns_left UJoin = 5"
| "turns_left (UWait _) = 1"
| "turns_left (USerial _) = 4"
| "turns_left (UUpload _) = 3"
| "turns_left (UPublish _ _) = 2"
| "turns_left (UDrop _ _) = 1"
| "turns_left (UReturn _) = 0"

definition flight_work :: "flight \<Rightarrow> nat" where
  "flight_work s = (\<Sum>th \<leftarrow> fl_threads s. turns_left (ut_pc th))"

lemma turns_left_0 [simp]: "turns_left pc = 0 \<longleftrightarrow> returned pc"
  by (cases pc) auto

lemma turns_left_le: "turns_left pc \<le> 6"
  by (cases pc) auto

lemma work_le: "flight_work s \<le> 6 * length (fl_threads s)"
proof -
  have "(\<Sum>th \<leftarrow> ths. turns_left (ut_pc th)) \<le> 6 * length ths" for ths
    by (induction ths) (simp_all add: add_mono turns_left_le)
  then show ?thesis by (simp add: flight_work_def)
qed

lemma work_0: "flight_work s = 0 \<longleftrightarrow> (\<forall>i < length (fl_threads s). returned (ut_pc (thread s i)))"
  by (auto simp: flight_work_def sum_list_eq_0_iff all_set_conv_all_nth)

lemma work_set_thread:
  assumes "i < length (fl_threads s)" "fl_threads t = fl_threads s"
    "turns_left (ut_pc (f (thread s i))) < turns_left (ut_pc (thread s i))"
  shows "flight_work (set_thread i f t) < flight_work s"
proof -
  have "sum_list (xs[i := x]) < sum_list xs" if "i < length xs" "x < xs ! i" for x and xs :: "nat list"
    using that by (induction xs arbitrary: i) (auto simp: nth_Cons split: nat.splits)
  from this [of "map (\<lambda>th. turns_left (ut_pc th)) (fl_threads s)"] assms show ?thesis
    by (simp add: flight_work_def set_thread_def map_update)
qed

lemma thread_step_work: "thread_step E i s = Some t \<Longrightarrow> flight_work t < flight_work s"
  by (auto simp: thread_step_def uf_stat_def uf_join_def uf_wake_def uf_lock_def uf_upload_def uf_publish_def uf_drop_def
      Let_def split: if_splits upload_pc.splits prod.splits sum.splits option.splits intro!: work_set_thread)

lemma thread_step_members: "thread_step E i s = Some t \<Longrightarrow> length (fl_threads t) = length (fl_threads s)"
  by (auto simp: thread_step_def uf_stat_def uf_join_def uf_wake_def uf_lock_def uf_upload_def uf_publish_def uf_drop_def
      set_thread_def Let_def split: if_splits upload_pc.splits prod.splits option.splits)

text \<open>Nobody waits for nobody: as long as some goroutine has not returned, one that has not can move.\<close>

lemma some_thread_moves:
  assumes inv: "flight_inv s" and left: "0 < flight_work s"
  shows "\<exists>i < length (fl_threads s). thread_step E i s \<noteq> None"
proof (rule ccontr)
  assume "\<not> ?thesis"
  then have stuck: "thread_step E i s = None" if "i < length (fl_threads s)" for i using that by auto
  have free: "fl_serial s = None"
  proof (rule ccontr)
    assume "fl_serial s \<noteq> None"
    then obtain i where "i < length (fl_threads s)" "uploading (ut_pc (thread s i))"
      using inv by (auto simp: flight_inv_def serial_ok_def)
    with stuck [of i] show False by (cases "ut_pc (thread s i)") (auto simp: thread_step_def)
  qed
  have pos: "(\<exists>c. ut_pc (thread s i) = UWait c) \<or> returned (ut_pc (thread s i))" if "i < length (fl_threads s)" for i
    using stuck [OF that] that free
    by (cases "ut_pc (thread s i)") (auto simp: thread_step_def uf_lock_def)
  obtain i c where i: "i < length (fl_threads s)" "ut_pc (thread s i) = UWait c"
    using left pos work_0 [of s] by (metis gr_implies_not0)
  then have "c < length (fl_calls s)" using pc_okI [OF inv i(1)] by (simp add: pc_ok_def)
  then obtain j where j: "j < length (fl_threads s)" "ut_role (thread s j) = Leader c"
    using inv by (auto simp: flight_inv_def roles_ok_def)
  have "uc_done (fl_calls s ! c)"
    using pos [OF j(1)] pc_okI [OF inv j(1)] j(2)
    by (auto simp: pc_ok_def closed_call_def split: upload_pc.splits)
  with stuck [OF i(1)] i show False by (simp add: thread_step_def uf_wake_def Let_def)
qed

interpretation uploads: fair_turns "thread_step E" flight_inv flight_work "\<lambda>s. length (fl_threads s)" for E
  by unfold_locales (erule (1) thread_step_inv, erule thread_step_work, erule thread_step_members, erule (1) some_thread_moves)

section \<open>Success means the file is there\<close>

text \<open>
  What \<open>datastoreFileExists\<close> takes for the file, seen after the history \<open>h\<close>: a file with a positive size, or a
  folder of that name.
\<close>

definition present_on_datastore :: "vsphere \<Rightarrow> string \<Rightarrow> hist \<Rightarrow> hist \<Rightarrow> bool" where
  "present_on_datastore E dp h t \<longleftrightarrow> seen_on_datastore E dp h t \<or> TrimChar dp CHR ''/'' = [] \<or>
     (\<exists>h' c r. prefix h h' \<and> prefix h' t \<and> ve_SearchDatastore E h' (ds_Path E c (TrimChar dp CHR ''/'')) [] = Inr r)"

lemma present_widen:
  "present_on_datastore E dp h t \<Longrightarrow> prefix h0 h \<Longrightarrow> prefix t t' \<Longrightarrow> present_on_datastore E dp h0 t'"
  unfolding present_on_datastore_def by (meson prefix_order.trans seen_widen)

lemma datastoreDirExists_True:
  assumes "datastoreDirExists E dp s = (Inr True, t)"
  shows "present_on_datastore E dp (w_calls (v_w s)) (w_calls (v_w t))"
proof (cases "TrimChar dp CHR ''/'' = []")
  case False
  with assms obtain x u c r where b: "do_call E CBrowser (ve_Browser E) s = (Inr x, u)" and
    c: "do_call E (CSearchDatastore (ds_Path E c (TrimChar dp CHR ''/'')) [])
      (\<lambda>h. ve_SearchDatastore E h (ds_Path E c (TrimChar dp CHR ''/'')) []) u = (Inr r, t)"
    by (auto simp: datastoreDirExists_def run_prims Let_def elim!: thenE_InrE bindE_InrE tryE_E split: sum.splits if_splits)
  then show ?thesis
    using do_call_Inr [OF b] do_call_Inr [OF c] unfolding present_on_datastore_def
    by (intro disjI2 exI [of _ "w_calls (v_w u)"] exI [of _ c] exI [of _ r]) auto
qed (simp add: present_on_datastore_def)

lemma datastoreFileExists_True:
  assumes "datastoreFileExists E dp s = (Inr (True, n), t)"
  shows "present_on_datastore E dp (w_calls (v_w s)) (w_calls (v_w t))"
proof (cases "n = 0")
  case True
  from assms obtain x s1 y s2 where e: "ensure E s = (Inr x, s1)" "requireDatastore s1 = (Inr y, s2)"
    and k: "tryE (do_call E (CStat dp) (\<lambda>h. ve_Stat E h dp)) (\<lambda>r. case r of
         Inr info \<Rightarrow> let sz = fileInfoSize info in retE (0 < sz, sz)
       | Inl e \<Rightarrow>
           if err_kind e = ENoSuchFile then
             bindE (datastoreDirExists E dp) (\<lambda>okDir. retE (okDir, 0))
           else if err_kind e = ENoSuchDirectory then retE (False, 0)
           else if says_missing e then
             bindE (datastoreDirExists E dp) (\<lambda>okDir. retE (okDir, 0))
           else failE e) s2 = (Inr (True, n), t)"
    unfolding datastoreFileExists_def by (elim thenE_InrE)
  from k True obtain r u where st: "do_call E (CStat dp) (\<lambda>h. ve_Stat E h dp) s2 = (r, u)"
    and d: "datastoreDirExists E dp u = (Inr True, t)"
    by (auto elim!: tryE_E bindE_InrE simp: run_prims Let_def split: sum.splits if_splits)
  have "s2 = s1" using e(2) by (rule requireDatastore_run)
  with do_call_calls [OF st] read_prefix [OF ensure_read_only e(1)]
  have "prefix (w_calls (v_w s)) (w_calls (v_w u))" by auto
  with datastoreDirExists_True [OF d] show ?thesis by (auto intro: present_widen)
qed (use datastoreFileExists_size [OF assms] in \<open>simp add: present_on_datastore_def\<close>)

lemma upload_serial_present:
  assumes "upload_serial E lp dp s = (Inr b, t)"
  shows "present_on_datastore E dp (w_calls (v_w s)) (w_calls (v_w t))"
proof (cases b)
  case True
  with upload_serial_Inr [of E lp dp s t] assms show ?thesis
    unfolding present_on_datastore_def by (auto simp: upload_accepted_def intro: seen_widen)
next
  case False
  from assms have "(\<exists>n. datastoreFileExists E dp s = (Inr (True, n), t)) \<or> (\<exists>u5. upload_attempts E lp dp 4 u5 = (Inr b, t))"
    by (auto simp: upload_serial_def run_prims getE_run elim!: bindE_InrE thenE_InrE ignoreE_E split: if_splits)
  with False show ?thesis by (auto dest: upload_attempts_Inr intro: datastoreFileExists_True)
qed

fun outcome_of :: "upload_pc \<Rightarrow> (verr + bool) option" where
  "outcome_of (UPublish _ r) = Some r"
| "outcome_of (UDrop _ r) = Some r"
| "outcome_of (UReturn r) = Some r"
| "outcome_of _ = None"

definition backed :: "vsphere \<Rightarrow> hist \<Rightarrow> upload_thread \<Rightarrow> bool" where
  "backed E h th \<longleftrightarrow> prefix (ut_hist th) h \<and>
     (\<forall>b. (\<forall>c. ut_role th \<noteq> Follower c) \<longrightarrow> outcome_of (ut_pc th) = Some (Inr b) \<longrightarrow>
        present_on_datastore E (ut_dsPath th) (ut_hist th) h)"

definition all_backed :: "vsphere \<Rightarrow> flight \<Rightarrow> bool" where
  "all_backed E s \<longleftrightarrow> (\<forall>th \<in> set (fl_threads s). backed E (calls_of s) th)"

lemma backed_later: "backed E h th \<Longrightarrow> prefix h h' \<Longrightarrow> backed E h' th"
  unfolding backed_def by (meson prefix_order.trans prefix_order.order_refl present_widen)

lemma all_backed_set:
  assumes "all_backed E s" "prefix (calls_of s) (calls_of t)" "fl_threads t = fl_threads s"
    "backed E (calls_of t) (f (thread s i))"
  shows "all_backed E (set_thread i f t)"
proof -
  have "backed E (calls_of t) th" if "th \<in> set (fl_threads s)" for th
    using assms(1,2) that by (auto simp: all_backed_def intro: backed_later)
  with assms(3,4) show ?thesis
    by (auto simp: all_backed_def set_thread_def dest!: set_update_subset_insert [THEN subsetD])
qed

lemma backed_thread: "all_backed E s \<Longrightarrow> i < length (fl_threads s) \<Longrightarrow> backed E (calls_of s) (thread s i)"
  by (simp add: all_backed_def)

lemma thread_step_backed:
  assumes all: "all_backed E s" and inv: "flight_inv s" and step: "thread_step E i s = Some t"
  shows "all_backed E t"
proof -
  have i: "i < length (fl_threads s)" using step by (auto simp: thread_step_def split: if_splits)
  note th = backed_thread [OF all i]
  then have since: "prefix (ut_hist (thread s i)) (calls_of s)" by (simp add: backed_def)
  show ?thesis
  proof (cases "ut_pc (thread s i)")
    case UStat
    obtain r u where d: "datastoreFileExists E (ut_dsPath (thread s i)) (fl_st s) = (r, u)" by fastforce
    then have pre: "prefix (calls_of s) (w_calls (v_w u))" by (rule read_prefix [OF datastoreFileExists_read_only])
    with th have "prefix (ut_hist (thread s i)) (w_calls (v_w u))" by (auto simp: backed_def intro: prefix_order.trans)
    moreover have "present_on_datastore E (ut_dsPath (thread s i)) (ut_hist (thread s i)) (w_calls (v_w u))"
      if "r = Inr (True, n)" for n
      by (rule present_widen [OF datastoreFileExists_True [OF d [unfolded that]] since prefix_order.order_refl])
    ultimately show ?thesis
      using UStat step i d pre
      by (auto simp: thread_step_def uf_stat_def intro!: all_backed_set [OF all])
        (auto simp: backed_def split: sum.splits if_splits)
  next
    case UJoin
    with step i th show ?thesis
      by (auto simp: thread_step_def uf_join_def Let_def backed_def split: option.splits intro!: all_backed_set [OF all])
  next
    case (UWait c)
    with pc_okI [OF inv i] have "ut_role (thread s i) = Follower c" by (simp add: pc_ok_def)
    with UWait step i th show ?thesis
      by (auto simp: thread_step_def uf_wake_def Let_def backed_def split: if_splits intro!: all_backed_set [OF all])
  next
    case (USerial c)
    with step i th show ?thesis
      by (auto simp: thread_step_def uf_lock_def backed_def split: if_splits intro!: all_backed_set [OF all])
  next
    case (UUpload c)
    obtain r u where d: "upload_serial E (ut_localPath (thread s i)) (ut_dsPath (thread s i)) (fl_st s) = (r, u)"
      by fastforce
    then have pre: "prefix (calls_of s) (w_calls (v_w u))" by (rule calls_prefix [OF adds_upload_serial])
    with th have "prefix (ut_hist (thread s i)) (w_calls (v_w u))" by (auto simp: backed_def intro: prefix_order.trans)
    moreover have "present_on_datastore E (ut_dsPath (thread s i)) (ut_hist (thread s i)) (w_calls (v_w u))"
      if "r = Inr b" for b
      by (rule present_widen [OF upload_serial_present [OF d [unfolded that]] since prefix_order.order_refl])
    ultimately show ?thesis
      using UUpload step i d pre
      by (auto simp: thread_step_def uf_upload_def backed_def intro!: all_backed_set [OF all])
  next
    case (UPublish c r)
    with step i th show ?thesis
      by (auto simp: thread_step_def uf_publish_def backed_def intro!: all_backed_set [OF all])
  next
    case (UDrop c r)
    with step i th show ?thesis
      by (auto simp: thread_step_def uf_drop_def backed_def intro!: all_backed_set [OF all])
  next
    case (UReturn r)
    with step i show ?thesis by (simp add: thread_step_def)
  qed
qed

lemma flight_step_backed:
  assumes "flight_step E s t" "flight_inv s" "all_backed E s"
  shows "all_backed E t"
  using assms(1)
proof cases
  case (turn i)
  then show ?thesis using assms by (auto intro: thread_step_backed)
next
  case (cancel i c e)
  with backed_thread [OF assms(3)] assms(3) show ?thesis
    by (auto simp: uf_cancel_def backed_def intro!: all_backed_set)
next
  case (arrive l p)
  with assms(3) show ?thesis by (auto simp: all_backed_def arrive_def new_thread_def backed_def)
next
  case (other u)
  with assms(3) show ?thesis by (auto simp: all_backed_def intro: backed_later)
qed

lemma flight_reach_backed: "flight_reach E s \<Longrightarrow> all_backed E s"
proof (induction rule: flight_reach.induct)
  case (start u)
  show ?case by (simp add: all_backed_def flight_start_def)
next
  case (step s t)
  then show ?case using flight_step_backed flight_reach_inv by blast
qed

section \<open>What a follower returns\<close>

lemma follower_outcome:
  assumes inv: "flight_inv s" and i: "i < length (fl_threads s)" "ut_role (thread s i) = Follower c"
    "ut_pc (thread s i) = UReturn r" and own: "r \<notin> Inl ` set ctx_errors"
  obtains j r' where "j < length (fl_threads s)" "ut_role (thread s j) = Leader c"
    "ut_dsPath (thread s j) = ut_dsPath (thread s i)" "ut_pc (thread s j) \<in> {UDrop c r', UReturn r'}"
    "r = (case r' of Inl e \<Rightarrow> Inl e | Inr _ \<Rightarrow> Inr False)"
proof -
  have c: "c < length (fl_calls s)" "uc_done (fl_calls s ! c)" "r = follower_result (fl_calls s ! c)"
    using pc_okI [OF inv i(1)] i(2,3) own by (auto simp: pc_ok_def)
  then obtain j where j: "j < length (fl_threads s)" "ut_role (thread s j) = Leader c"
    using inv by (auto simp: flight_inv_def roles_ok_def)
  moreover have "ut_dsPath (thread s j) = ut_dsPath (thread s i)"
    using inv i j unfolding flight_inv_def roles_ok_def by metis
  moreover obtain r' where "ut_pc (thread s j) \<in> {UDrop c r', UReturn r'}" "closed_call (fl_calls s) c (err_of r')"
    using pc_okI [OF inv j(1)] j(2) c(2) by (auto simp: pc_ok_def open_call_def split: upload_pc.splits)
  moreover from this(2) c(3) have "r = (case r' of Inl e \<Rightarrow> Inl e | Inr _ \<Rightarrow> Inr False)"
    by (auto simp: closed_call_def follower_result_def err_of_def split: sum.splits)
  ultimately show thesis using that by blast
qed

section \<open>The sequential model\<close>

text \<open>Only \<open>uploadISOIfNeeded\<close> itself asks whether an upload is in flight.\<close>

lemmas inflight_cong = sum.case_cong option.case_cong if_cong

lemma inflight_world [simp]:
  "do_call (E\<lparr>ve_InFlight := f\<rparr>) = do_call E" "sleep (E\<lparr>ve_InFlight := f\<rparr>) = sleep E"
  "ds_Path (E\<lparr>ve_InFlight := f\<rparr>) = ds_Path E" "os_call (E\<lparr>ve_InFlight := f\<rparr>) = os_call E"
  by (simp_all add: fun_eq_iff do_call_def record_call_def sleep_def ds_Path_def os_call_def Let_def)

lemma inflight_ensure [simp]: "ensure (E\<lparr>ve_InFlight := f\<rparr>) = ensure E"
  by (simp add: ensure_def logout_fail_def Let_def cong: inflight_cong)

lemma inflight_dir [simp]: "datastoreDirExists (E\<lparr>ve_InFlight := f\<rparr>) = datastoreDirExists E"
  by (simp add: fun_eq_iff datastoreDirExists_def Let_def cong: inflight_cong)

lemma inflight_exists [simp]: "datastoreFileExists (E\<lparr>ve_InFlight := f\<rparr>) = datastoreFileExists E"
  by (simp add: fun_eq_iff datastoreFileExists_def cong: inflight_cong)

lemma inflight_files [simp]:
  "read_file (E\<lparr>ve_InFlight := f\<rparr>) = read_file E" "os_Stat_size (E\<lparr>ve_InFlight := f\<rparr>) = os_Stat_size E"
  by (simp_all add: fun_eq_iff read_file_def os_Stat_size_def cong: inflight_cong)

lemma inflight_mkdir [simp]: "mkdir_parts (E\<lparr>ve_InFlight := f\<rparr>) a ps = mkdir_parts E a ps"
  by (induction E a ps rule: mkdir_parts.induct) (simp_all add: Let_def cong: inflight_cong)

lemma inflight_folder [simp]: "ensureISOFolder (E\<lparr>ve_InFlight := f\<rparr>) = ensureISOFolder E"
  by (simp add: fun_eq_iff ensureISOFolder_def Let_def cong: inflight_cong)

lemma inflight_hosts [simp]: "host_uploads (E\<lparr>ve_InFlight := f\<rparr>) p hs e = host_uploads E p hs e"
proof (induction hs arbitrary: e)
  case (Cons h hs)
  then have "host_uploads (E\<lparr>ve_InFlight := f\<rparr>) p hs = host_uploads E p hs" by (rule ext)
  then show ?case by simp
qed simp

lemma inflight_put [simp]: "putISO (E\<lparr>ve_InFlight := f\<rparr>) = putISO E"
  by (simp add: fun_eq_iff putISO_def putISOViaHost_def putISOViaVC_def cong: inflight_cong)

lemma inflight_attempts [simp]: "upload_attempts (E\<lparr>ve_InFlight := f\<rparr>) l p n = upload_attempts E l p n"
  by (induction n) (simp_all add: confirm_upload_def Let_def cong: inflight_cong)

lemma inflight_serial [simp]: "upload_serial (E\<lparr>ve_InFlight := f\<rparr>) = upload_serial E"
  by (simp add: fun_eq_iff upload_serial_def cong: inflight_cong)

text \<open>A goroutine that joins a call gets what \<open>uploadISOIfNeeded\<close> returns when \<open>ve_InFlight\<close> tells how the call ends.\<close>

lemma joined_is_in_flight:
  assumes "datastoreFileExists E p s = (Inr (False, n), u)"
  shows "uploadISOIfNeeded (E\<lparr>ve_InFlight := \<lambda>_ _. Some (uc_err call)\<rparr>) l p s = (follower_result call, u)"
  using assms by (simp add: uploadISOIfNeeded_def follower_result_def io_simps split: option.split)

section \<open>Properties\<close>

text \<open>
  C11: Uploads are serialised and never doubled. However requests on a client arrive, interleave and are cancelled:
  at most one goroutine is uploading at any time, and for each datastore path at most one goroutine that has
  not returned leads an upload.
\<close>

theorem one_upload_at_a_time:
  assumes "flight_reach E s" "i < length (fl_threads s)" "j < length (fl_threads s)" "i \<noteq> j"
  shows "\<not> (uploading (ut_pc (thread s i)) \<and> uploading (ut_pc (thread s j))) \<and>
    \<not> (\<exists>c d. ut_role (thread s i) = Leader c \<and> ut_role (thread s j) = Leader d \<and> ut_dsPath (thread s i) = ut_dsPath (thread s j)
      \<and> \<not> returned (ut_pc (thread s i)) \<and> \<not> returned (ut_pc (thread s j)))"
proof -
  have inv: "flight_inv s" using assms(1) by (rule flight_reach_inv)
  then have serial: "fl_serial s = Some k" if "k < length (fl_threads s)" "uploading (ut_pc (thread s k))" for k
    using that by (auto simp: flight_inv_def serial_ok_def)
  have table: "fmlookup (fl_inFlight s) (ut_dsPath (thread s k)) = Some c"
    if "k < length (fl_threads s)" "ut_role (thread s k) = Leader c" "\<not> returned (ut_pc (thread s k))" for k c
    using inv that by (auto simp: flight_inv_def table_ok_def)
  have unique: "ut_role (thread s i) = Leader c \<Longrightarrow> ut_role (thread s j) \<noteq> Leader c" for c
    using inv assms by (auto simp: flight_inv_def roles_ok_def)
  show ?thesis
    using serial [of i] serial [of j] table [of i] table [of j] unique assms(2-4) by fastforce
qed

text \<open>
  C12: Who waits for another's upload gets that upload's outcome. A goroutine that found an upload of its file in
  flight and has returned either gave up because its own context ended, or returned what the one leader of that
  call, which asked for the same file, got: the leader's error, or success (without having uploaded).
\<close>

theorem followers_share_the_outcome:
  assumes "flight_reach E s" "i < length (fl_threads s)"
    "ut_role (thread s i) = Follower c" "ut_pc (thread s i) = UReturn r"
  shows "r \<in> Inl ` set ctx_errors \<or>
    (\<exists>j r'. j < length (fl_threads s) \<and> ut_role (thread s j) = Leader c \<and> ut_dsPath (thread s j) = ut_dsPath (thread s i) \<and>
      ut_pc (thread s j) \<in> {UDrop c r', UReturn r'} \<and> r = (case r' of Inl e \<Rightarrow> Inl e | Inr _ \<Rightarrow> Inr False))"
proof (cases "r \<in> Inl ` set ctx_errors")
  case False
  from follower_outcome [OF flight_reach_inv [OF assms(1)] assms(2-4) False] show ?thesis by blast
qed simp

text \<open>
  C9: However uploads interleave, success means the file is there. If a goroutine returned success, then after the
  goroutine itself had started, or after the leader had whose outcome it took, the datastore reported the very
  path it was asked for: a file with a positive size, or (as \<open>datastoreFileExists\<close> also accepts) a folder.
\<close>

theorem concurrent_success_is_present:
  assumes "flight_reach E s" "i < length (fl_threads s)" "ut_pc (thread s i) = UReturn (Inr b)"
  shows "\<exists>j < length (fl_threads s).
    (j = i \<or> (\<exists>c. ut_role (thread s i) = Follower c \<and> ut_role (thread s j) = Leader c)) \<and>
    present_on_datastore E (ut_dsPath (thread s i)) (ut_hist (thread s j)) (calls_of s)"
proof (cases "\<exists>c. ut_role (thread s i) = Follower c")
  case True
  then obtain c where c: "ut_role (thread s i) = Follower c" ..
  obtain j r' where j: "j < length (fl_threads s)" "ut_role (thread s j) = Leader c"
    "ut_dsPath (thread s j) = ut_dsPath (thread s i)" "ut_pc (thread s j) \<in> {UDrop c r', UReturn r'}"
    "Inr b = (case r' of Inl e \<Rightarrow> Inl e | Inr _ \<Rightarrow> Inr False)"
    using follower_outcome [OF flight_reach_inv [OF assms(1)] assms(2) c assms(3)] by blast
  then obtain b' where "outcome_of (ut_pc (thread s j)) = Some (Inr b')" by (auto split: sum.splits)
  with j(1-3) have "present_on_datastore E (ut_dsPath (thread s i)) (ut_hist (thread s j)) (calls_of s)"
    using backed_thread [OF flight_reach_backed [OF assms(1)] j(1)] by (simp add: backed_def)
  with j(1,2) c show ?thesis by blast
next
  case False
  with assms backed_thread [OF flight_reach_backed [OF assms(1)] assms(2)] show ?thesis
    by (auto simp: backed_def)
qed

text \<open>
  C10: Concurrent uploads never deadlock and all return. From every reachable state, any schedule that gives each of
  the \<open>n\<close> goroutines a turn in each of \<open>6 * n\<close> rounds, in whatever order, ends with all of them returned.
\<close>

theorem concurrent_uploads_return:
  assumes "flight_reach E s" "\<forall>r \<in> set rs. {..<length (fl_threads s)} \<subseteq> set r" "6 * length (fl_threads s) \<le> length rs"
  shows "\<forall>i < length (fl_threads s). returned (ut_pc (thread (run_turns (thread_step E) (concat rs) s) i))"
proof -
  note inv = flight_reach_inv [OF assms(1)]
  have "flight_work (run_turns (thread_step E) (concat rs) s) = 0"
    using inv assms(2,3) work_le [of s] by (intro uploads.rounds_finish) auto
  then show ?thesis using uploads.turns_keep [OF inv, of E "concat rs"] by (simp add: work_0)
qed

text \<open>
  C13: Without company the concurrent upload is the sequential one. A goroutine that is alone on a client without
  uploads in flight returns after six turns exactly what \<open>uploadISOIfNeeded\<close> returns, leaves the client and the world
  as it does, and leaves nothing behind: the table is empty and the lock is free.
\<close>

theorem lone_upload_is_sequential:
  "case uploadISOIfNeeded (E\<lparr>ve_InFlight := \<lambda>_ _. None\<rparr>) localPath dsPath u of (r, v) \<Rightarrow>
     (let t = run_turns (thread_step E) (replicate 6 0) (arrive localPath dsPath (flight_start u)) in
       ut_pc (thread t 0) = UReturn r \<and> fl_st t = v \<and> fl_inFlight t = fmempty \<and> fl_serial t = None)"
proof -
  define F where "F = (\<lambda>st table calls lock role pc. \<lparr>fl_st = st, fl_inFlight = table, fl_calls = calls, fl_serial = lock,
    fl_threads = [\<lparr>ut_localPath = localPath, ut_dsPath = dsPath, ut_role = role, ut_pc = pc, ut_hist = w_calls (v_w u)\<rparr>]\<rparr>)"
  note steps = F_def thread_step_def uf_stat_def uf_join_def uf_wake_def uf_lock_def uf_upload_def uf_publish_def uf_drop_def
    set_thread_def
  have start: "arrive localPath dsPath (flight_start u) = F u fmempty [] None Alone UStat"
    by (simp add: F_def arrive_def flight_start_def new_thread_def)
  have idle: "run_turns (thread_step E) (replicate n 0) (F st m cs h role (UReturn r)) = F st m cs h role (UReturn r)"
    for n st m cs h role r
    by (induction n) (simp_all add: F_def thread_step_def)
  have six: "replicate 6 0 = 0 # replicate 5 (0::nat)" "replicate 5 (0::nat) = [0, 0, 0, 0, 0]"
    by (simp_all add: numeral_eq_Suc)
  obtain r u1 where d: "datastoreFileExists E dsPath u = (r, u1)" by fastforce
  show ?thesis
  proof (cases "\<exists>n. r = Inr (False, n)")
    case True
    then obtain n where r: "r = Inr (False, n)" ..
    obtain r2 v where up: "upload_serial E localPath dsPath u1 = (r2, v)" by fastforce
    let ?m = "fmupd dsPath 0 fmempty" and ?c = "[\<lparr>uc_done = False, uc_err = None\<rparr>]"
      and ?d = "[\<lparr>uc_done = True, uc_err = err_of r2\<rparr>]"
    have "thread_step E 0 (F u fmempty [] None Alone UStat) = Some (F u1 fmempty [] None Alone UJoin)"
      by (simp add: steps d r)
    moreover have "thread_step E 0 (F u1 fmempty [] None Alone UJoin) = Some (F u1 ?m ?c None (Leader 0) (USerial 0))"
      by (simp add: steps)
    moreover have "thread_step E 0 (F u1 ?m ?c None (Leader 0) (USerial 0)) = Some (F u1 ?m ?c (Some 0) (Leader 0) (UUpload 0))"
      by (simp add: steps)
    moreover have "thread_step E 0 (F u1 ?m ?c (Some 0) (Leader 0) (UUpload 0)) = Some (F v ?m ?c None (Leader 0) (UPublish 0 r2))"
      by (simp add: steps up)
    moreover have "thread_step E 0 (F v ?m ?c None (Leader 0) (UPublish 0 r2)) = Some (F v ?m ?d None (Leader 0) (UDrop 0 r2))"
      by (simp add: steps)
    moreover have "thread_step E 0 (F v ?m ?d None (Leader 0) (UDrop 0 r2)) = Some (F v fmempty ?d None (Leader 0) (UReturn r2))"
      by (simp add: steps fmdrop_fmupd)
    ultimately have "run_turns (thread_step E) (replicate 6 0) (F u fmempty [] None Alone UStat) =
        F v fmempty ?d None (Leader 0) (UReturn r2)"
      by (simp add: six)
    moreover have "uploadISOIfNeeded (E\<lparr>ve_InFlight := \<lambda>_ _. None\<rparr>) localPath dsPath u = (r2, v)"
      by (simp add: uploadISOIfNeeded_def io_simps d r up)
    ultimately show ?thesis by (simp add: start F_def)
  next
    case False
    define q :: "verr + bool" where "q = (case r of Inl e \<Rightarrow> Inl e | Inr _ \<Rightarrow> Inr False)"
    have "thread_step E 0 (F u fmempty [] None Alone UStat) = Some (F u1 fmempty [] None Alone (UReturn q))"
      using False by (auto simp: steps d q_def split: sum.split)
    then have "run_turns (thread_step E) (replicate 6 0) (F u fmempty [] None Alone UStat) = F u1 fmempty [] None Alone (UReturn q)"
      by (simp add: six(1) idle)
    moreover have "uploadISOIfNeeded (E\<lparr>ve_InFlight := \<lambda>_ _. None\<rparr>) localPath dsPath u = (q, u1)"
      using False by (auto simp: uploadISOIfNeeded_def io_simps d q_def split: sum.split)
    ultimately show ?thesis by (simp add: start F_def)
  qed
qed

section \<open>Two requests for one image\<close>

text \<open>
  Both see the file missing, the first leads and is about to upload, the second waits (\<open>both_in\<close>); then the first
  finishes with \<open>r\<close> and the second wakes up.
\<close>

definition two_requests :: "string \<Rightarrow> string \<Rightarrow> vstate \<Rightarrow> flight" where
  "two_requests l p u = arrive l p (arrive l p (flight_start u))"

definition both_in :: "string \<Rightarrow> string \<Rightarrow> hist \<Rightarrow> vstate \<Rightarrow> flight" where
  "both_in l p h v = \<lparr>fl_st = v, fl_inFlight = fmupd p 0 fmempty, fl_calls = [\<lparr>uc_done = False, uc_err = None\<rparr>],
     fl_serial = Some 0, fl_threads = [
       \<lparr>ut_localPath = l, ut_dsPath = p, ut_role = Leader 0, ut_pc = UUpload 0, ut_hist = h\<rparr>,
       \<lparr>ut_localPath = l, ut_dsPath = p, ut_role = Follower 0, ut_pc = UWait 0, ut_hist = h\<rparr>]\<rparr>"

definition both_out :: "string \<Rightarrow> string \<Rightarrow> hist \<Rightarrow> vstate \<Rightarrow> verr + bool \<Rightarrow> flight" where
  "both_out l p h v r = \<lparr>fl_st = v, fl_inFlight = fmempty, fl_calls = [\<lparr>uc_done = True, uc_err = err_of r\<rparr>],
     fl_serial = None, fl_threads = [
       \<lparr>ut_localPath = l, ut_dsPath = p, ut_role = Leader 0, ut_pc = UReturn r, ut_hist = h\<rparr>,
       \<lparr>ut_localPath = l, ut_dsPath = p, ut_role = Follower 0,
         ut_pc = UReturn (follower_result \<lparr>uc_done = True, uc_err = err_of r\<rparr>), ut_hist = h\<rparr>]\<rparr>"

lemmas stretch_defs = thread_step_def uf_stat_def uf_join_def uf_wake_def uf_lock_def uf_upload_def uf_publish_def uf_drop_def
  set_thread_def

lemma two_requests_join:
  assumes "datastoreFileExists E p u = (Inr (False, m), u1)" "datastoreFileExists E p u1 = (Inr (False, n), u2)"
  shows "run_turns (thread_step E) [0, 1, 0, 1, 0] (two_requests l p u) = both_in l p (w_calls (v_w u)) u2"
  using assms by (simp add: stretch_defs two_requests_def arrive_def flight_start_def new_thread_def both_in_def)

lemma two_requests_finish:
  assumes "upload_serial E l p v = (r, w)"
  shows "run_turns (thread_step E) [0, 0, 0, 1] (both_in l p h v) = both_out l p h w r"
  using assms by (simp add: stretch_defs both_in_def both_out_def fmdrop_fmupd Let_def)

lemma reach_turns: "flight_reach E s \<Longrightarrow> flight_reach E (run_turns (thread_step E) is s)"
  by (induction "is" arbitrary: s) (auto split: option.split dest: flight_reach.step [OF _ flight_step.turn])

lemma reach_two_requests: "flight_reach E (two_requests l p u)"
  unfolding two_requests_def by (intro flight_reach.step [OF _ flight_step.arrive] flight_reach.start)

text \<open>The file is missing for the first two looks, then another host has finished it.\<close>

definition demo_flight_vs :: vsphere where
  "demo_flight_vs = demo_upload_vs\<lparr>ve_Stat := (\<lambda>h p. if 6 \<le> length h then Inr (IsoImageFileInfo p 2097152)
     else Inl (VErr ENoSuchFile ''gone''))\<rparr>"

lemma demo_flight_look:
  assumes "v_cl s = v_cl demo_upload_st"
  shows "length (w_calls (v_w s)) < 6 \<Longrightarrow> \<exists>t. datastoreFileExists demo_flight_vs ''iso/a'' s = (Inr (False, 0), t) \<and>
      v_cl t = v_cl s \<and> length (w_calls (v_w t)) = length (w_calls (v_w s)) + 3"
    and "6 \<le> length (w_calls (v_w s)) \<Longrightarrow> \<exists>n t. datastoreFileExists demo_flight_vs ''iso/a'' s = (Inr (True, n), t)"
proof -
  have f: "NormalizeDatastore ''DS'' = ''DS''" "TrimChar ''iso/a'' CHR ''/'' = ''iso/a''"
      "says_missing (errorf ''not found'')"
    by code_simp+
  note d = datastoreFileExists_def requireDatastore_def datastoreDirExists_def ds_Path_def io_simps do_call_def
        demo_flight_vs_def demo_upload_vs_def demo_upload_st_def f outcome_def record_call_def Let_def demo_defs
  show "\<exists>t. datastoreFileExists demo_flight_vs ''iso/a'' s = (Inr (False, 0), t) \<and>
      v_cl t = v_cl s \<and> length (w_calls (v_w t)) = length (w_calls (v_w s)) + 3" if "length (w_calls (v_w s)) < 6"
    using assms that by (simp add: d)
  show "\<exists>n t. datastoreFileExists demo_flight_vs ''iso/a'' s = (Inr (True, n), t)" if "6 \<le> length (w_calls (v_w s))"
    using assms that by (simp add: d)
qed

lemma demo_flight_runs:
  "\<exists>v w. flight_reach demo_flight_vs (both_in ''/l'' ''iso/a'' [] v) \<and>
     flight_reach demo_flight_vs (both_out ''/l'' ''iso/a'' [] w (Inr False))"
proof -
  have h: "w_calls (v_w demo_upload_st) = []" by (simp add: demo_upload_st_def demo_world_def)
  obtain u1 where u1: "datastoreFileExists demo_flight_vs ''iso/a'' demo_upload_st = (Inr (False, 0), u1)"
    "v_cl u1 = v_cl demo_upload_st" "length (w_calls (v_w u1)) = 3"
    using demo_flight_look(1) [of demo_upload_st] h by auto
  obtain u2 where u2: "datastoreFileExists demo_flight_vs ''iso/a'' u1 = (Inr (False, 0), u2)"
    "v_cl u2 = v_cl demo_upload_st" "length (w_calls (v_w u2)) = 6"
    using demo_flight_look(1) [OF u1(2)] u1(2,3) by auto
  obtain n u3 where "datastoreFileExists demo_flight_vs ''iso/a'' u2 = (Inr (True, n), u3)"
    using demo_flight_look(2) [OF u2(2)] u2(3) by auto
  then have up: "upload_serial demo_flight_vs ''/l'' ''iso/a'' u2 = (Inr False, u3)"
    by (simp add: upload_serial_def io_simps)
  have a: "flight_reach demo_flight_vs (both_in ''/l'' ''iso/a'' [] u2)"
    using reach_turns [OF reach_two_requests] two_requests_join [OF u1(1) u2(1)] h by metis
  then have "flight_reach demo_flight_vs (both_out ''/l'' ''iso/a'' [] u3 (Inr False))"
    using reach_turns two_requests_finish [OF up] by metis
  with a show ?thesis by blast
qed

theorem one_upload_at_a_time_witness:
  "\<exists>v. let s = both_in ''/l'' ''iso/a'' [] v in uploading (ut_pc (thread s 0)) \<and> \<not> uploading (ut_pc (thread s 1))"
proof -
  obtain v where v: "flight_reach demo_flight_vs (both_in ''/l'' ''iso/a'' [] v)" using demo_flight_runs by blast
  have up: "uploading (ut_pc (thread (both_in ''/l'' ''iso/a'' [] v) 0))" by (simp add: both_in_def)
  have "\<not> uploading (ut_pc (thread (both_in ''/l'' ''iso/a'' [] v) 1))"
    using one_upload_at_a_time [OF v, of 0 1] up by (simp add: both_in_def)
  with up show ?thesis by (auto simp: Let_def)
qed

theorem followers_share_the_outcome_witness:
  "\<exists>w r'. ut_pc (thread (both_out ''/l'' ''iso/a'' [] w (Inr False)) 0) = UReturn r' \<and>
     Inr False = (case r' of Inl e \<Rightarrow> Inl e | Inr _ \<Rightarrow> Inr False)"
proof -
  obtain w where w: "flight_reach demo_flight_vs (both_out ''/l'' ''iso/a'' [] w (Inr False))" using demo_flight_runs by blast
  have "ut_role (thread (both_out ''/l'' ''iso/a'' [] w (Inr False)) 1) = Follower 0"
    "ut_pc (thread (both_out ''/l'' ''iso/a'' [] w (Inr False)) 1) = UReturn (Inr False)"
    by (simp_all add: both_out_def follower_result_def err_of_def)
  from followers_share_the_outcome [OF w _ this] show ?thesis
    by (auto simp: both_out_def less_Suc_eq)
qed

theorem concurrent_success_is_present_witness:
  "\<exists>w :: vstate. present_on_datastore demo_flight_vs ''iso/a'' [] (w_calls (v_w w))"
proof -
  obtain w where w: "flight_reach demo_flight_vs (both_out ''/l'' ''iso/a'' [] w (Inr False))" using demo_flight_runs by blast
  have "ut_pc (thread (both_out ''/l'' ''iso/a'' [] w (Inr False)) 1) = UReturn (Inr False)"
    by (simp add: both_out_def follower_result_def err_of_def)
  from concurrent_success_is_present [OF w _ this] show ?thesis
    by (auto simp: both_out_def less_Suc_eq)
qed

theorem concurrent_uploads_return_witness:
  "let t = run_turns (thread_step demo_flight_vs) (concat (replicate 12 [1, 0])) (two_requests ''/l'' ''iso/a'' demo_upload_st)
   in returned (ut_pc (thread t 0)) \<and> returned (ut_pc (thread t 1))"
proof -
  have n: "length (fl_threads (two_requests ''/l'' ''iso/a'' demo_upload_st)) = 2"
    by (simp add: two_requests_def arrive_def flight_start_def)
  have "{..<2::nat} \<subseteq> set [1, 0]" by auto
  then show ?thesis
    using concurrent_uploads_return [OF reach_two_requests, of "replicate 12 [1, 0]" "''/l''" "''iso/a''" demo_upload_st demo_flight_vs]
    by (simp add: n Let_def numeral_2_eq_2 All_less_Suc)
qed

text \<open>
  A leader's context is everybody's: when the request that leads goes away (here its directory call fails with
  \<open>context canceled\<close>), the other request fails with it, although its own context never ended: all the goroutines do
  here is take turns. The image would not be uploaded for it either.
\<close>

definition demo_gone_vs :: vsphere where
  "demo_gone_vs = demo_flight_vs\<lparr>ve_Stat := (\<lambda>_ _. Inl (VErr ENoSuchFile ''gone'')),
     ve_MakeDirectory := (\<lambda>_ _. Inl (errorf ''context canceled''))\<rparr>"

theorem leaders_context_fails_the_others:
  "let t = run_turns (thread_step demo_gone_vs) [0, 1, 0, 1, 0, 0, 0, 0, 1] (two_requests ''/l'' ''iso/a'' demo_upload_st) in
     ut_role (thread t 1) = Follower 0 \<and>
     ut_pc (thread t 1) = UReturn (Inl (errorf ''ensure iso folder: mkdir [DS] iso: context canceled''))"
proof -
  have f: "NormalizeDatastore ''DS'' = ''DS''" "TrimChar ''iso/a'' CHR ''/'' = ''iso/a''" "TrimChar ''iso'' CHR ''/'' = ''iso''"
      "SplitChar CHR ''/'' ''iso'' = [''iso'']" "says_missing (errorf ''not found'')"
      "\<not> Contains (ToLower ''context canceled'') ''already exists''" "\<not> Contains (ToLower ''context canceled'') ''file already exists''"
    by code_simp+
  note d = datastoreFileExists_def requireDatastore_def datastoreDirExists_def ds_Path_def io_simps do_call_def
        demo_gone_vs_def demo_flight_vs_def demo_upload_vs_def demo_upload_st_def f outcome_def record_call_def Let_def demo_defs
  have look: "\<exists>t. datastoreFileExists demo_gone_vs ''iso/a'' s = (Inr (False, 0), t) \<and> v_cl t = v_cl s"
    if "v_cl s = v_cl demo_upload_st" for s
    using that by (simp add: d)
  have mk: "\<exists>t. ensureISOFolder demo_gone_vs s = (Inl (errorf ''mkdir [DS] iso: context canceled''), t)"
    if "v_cl s = v_cl demo_upload_st" for s
    using that by (simp add: ensureISOFolder_def d wrapf_def errorf_def)
  obtain u1 where u1: "datastoreFileExists demo_gone_vs ''iso/a'' demo_upload_st = (Inr (False, 0), u1)" "v_cl u1 = v_cl demo_upload_st"
    using look by auto
  obtain u2 where u2: "datastoreFileExists demo_gone_vs ''iso/a'' u1 = (Inr (False, 0), u2)" "v_cl u2 = v_cl demo_upload_st"
    using look [OF u1(2)] u1(2) by auto
  obtain u3 where u3: "datastoreFileExists demo_gone_vs ''iso/a'' u2 = (Inr (False, 0), u3)" "v_cl u3 = v_cl demo_upload_st"
    using look [OF u2(2)] u2(2) by auto
  obtain u4 where "ensureISOFolder demo_gone_vs u3 = (Inl (errorf ''mkdir [DS] iso: context canceled''), u4)"
    using mk [OF u3(2)] by auto
  with u3 have up: "upload_serial demo_gone_vs ''/l'' ''iso/a'' u2 =
      (Inl (errorf ''ensure iso folder: mkdir [DS] iso: context canceled''), u4)"
    by (simp add: upload_serial_def io_simps wrapf_def errorf_def)
  have "run_turns (thread_step demo_gone_vs) ([0, 1, 0, 1, 0] @ [0, 0, 0, 1]) (two_requests ''/l'' ''iso/a'' demo_upload_st) =
      both_out ''/l'' ''iso/a'' (w_calls (v_w demo_upload_st)) u4 (Inl (errorf ''ensure iso folder: mkdir [DS] iso: context canceled''))"
    by (simp only: run_turns_append two_requests_join [OF u1(1) u2(1)] two_requests_finish [OF up])
  then show ?thesis by (simp add: both_out_def follower_result_def err_of_def Let_def)
qed

end
