(* ===== verification/Vsphere_Media.thy ===== *)
theory Vsphere_Media
  imports Vsphere_Power Vsphere_Iso
begin

text \<open>
  Virtual media (\<open>internal/vsphere/client.go\<close>): \<open>MediaStatus\<close>, \<open>InsertMedia\<close> (download, stage, power off,
  disconnect, attach, boot from CD, power on) and \<open>EjectMedia\<close> (detach with its escalation to unlocking
  and to a power-off, boot from disk, power restored).
\<close>

section \<open>CD-ROM state\<close>

record media_status =
  ms_Inserted :: bool
  ms_Image :: string

definition MediaStatus :: "string \<Rightarrow> client \<Rightarrow> media_status" where
  "MediaStatus uuid c = (case fmlookup (cl_mediaISO c) (ToLower uuid) of
       Some img \<Rightarrow> \<lparr>ms_Inserted = (img \<noteq> ''''), ms_Image = img\<rparr>
     | None \<Rightarrow> \<lparr>ms_Inserted = False, ms_Image = ''''\<rparr>)"

definition conn_Connected :: "cdrom \<Rightarrow> bool" where
  "conn_Connected cd = (case cd_Connectable cd of Some c \<Rightarrow> cn_Connected c | None \<Rightarrow> False)"

definition cdromState :: "device_list \<Rightarrow> string \<times> bool" where
  "cdromState devices = (case dl_cdroms devices of
       [] \<Rightarrow> ('''', False)
     | cd # _ \<Rightarrow> (case cd_Backing cd of IsoBacking f \<Rightarrow> f | _ \<Rightarrow> '''', conn_Connected cd))"

text \<open>\<open>strings.Join(strings.Fields(s), "")\<close> drops the white space.\<close>

definition normISOPath :: "string \<Rightarrow> string" where
  "normISOPath s = (let s = ToLower (TrimSpace s) in filter (\<lambda>c. \<not> is_space c) s)"

definition isoPathsEqual :: "string \<Rightarrow> string \<Rightarrow> bool" where
  "isoPathsEqual a b = (let na = normISOPath a; nb = normISOPath b in na \<noteq> '''' \<and> na = nb)"

definition isCDROMConnectionLocked :: "verr \<Rightarrow> bool" where
  "isCDROMConnectionLocked e = (let s = err_text e in
     Contains s ''Connection control operation failed'' \<or> Contains s ''device is locked'' \<or>
     Contains s ''being used by the guest'')"

section \<open>Reconfiguring the CD-ROM\<close>

definition reconfigure_wait :: "vsphere \<Rightarrow> vm_obj \<Rightarrow> reconfig \<Rightarrow> unit vio" where
  "reconfigure_wait E vm spec =
     thenE (do_call E (CReconfigure (vm_ref vm) spec) (\<lambda>h. ve_Reconfigure E h (vm_ref vm) spec)) (waitTask E vm)"

definition connected_iso :: "string \<Rightarrow> cdrom \<Rightarrow> cdrom" where
  "connected_iso path cd = cd\<lparr>cd_Backing := IsoBacking path,
     cd_Connectable := Some \<lparr>cn_Connected = True, cn_StartConnected = True, cn_AllowGuestControl = True\<rparr>\<rparr>"

definition attachCDROM :: "vsphere \<Rightarrow> vm_obj \<Rightarrow> string \<Rightarrow> unit vio" where
  "attachCDROM E vm dsISOPath =
     ignoreE (ensureMsgAutoAnswer E vm) (ignoreE (answerPendingQuestions E vm)
     (bindE (vm_Device E vm) (\<lambda>devices. bindE (cl_get (\<lambda>c. ds_Path E c dsISOPath)) (\<lambda>iso.
       case dl_cdroms devices of
         [] \<Rightarrow> (case dl_FindIDE devices of
             Inl e \<Rightarrow> failE (wrapf ''find IDE controller for cdrom'' e)
           | Inr controller \<Rightarrow> (case dl_CreateCdrom devices controller of
               Inl e \<Rightarrow> failE e
             | Inr cd \<Rightarrow> reconfigure_wait E vm (DeviceAdd (connected_iso iso cd))))
       | cd # _ \<Rightarrow> reconfigure_wait E vm (DeviceEdit (connected_iso iso cd))))))"

definition disconnected :: "cdrom \<Rightarrow> cdrom" where
  "disconnected cd = cd\<lparr>cd_Connectable :=
     Some \<lparr>cn_Connected = False, cn_StartConnected = False, cn_AllowGuestControl = True\<rparr>\<rparr>"

definition is_disconnected :: "cdrom \<Rightarrow> bool" where
  "is_disconnected cd = (case cd_Connectable cd of None \<Rightarrow> True | Some c \<Rightarrow> \<not> cn_Connected c \<and> \<not> cn_StartConnected c)"

definition disconnectCDROM :: "vsphere \<Rightarrow> vm_obj \<Rightarrow> unit vio" where
  "disconnectCDROM E vm =
     ignoreE (ensureMsgAutoAnswer E vm) (ignoreE (answerPendingQuestions E vm)
     (bindE (vm_Device E vm) (\<lambda>devices. case dl_cdroms devices of
         [] \<Rightarrow> retE ()
       | cd # _ \<Rightarrow> if is_disconnected cd then retE () else reconfigure_wait E vm (DeviceEdit (disconnected cd)))))"

definition detachCDROM :: "vsphere \<Rightarrow> vm_obj \<Rightarrow> unit vio" where
  "detachCDROM E vm =
     ignoreE (ensureMsgAutoAnswer E vm) (ignoreE (answerPendingQuestions E vm)
     (bindE (vm_Device E vm) (\<lambda>devices. case dl_cdroms devices of
         [] \<Rightarrow> retE ()
       | cd # _ \<Rightarrow> reconfigure_wait E vm (DeviceEdit (disconnected (cd\<lparr>cd_Backing := RemotePassthrough []\<rparr>))))))"

section \<open>Insert and eject\<close>

definition media_timeout :: int where "media_timeout = 45 * second"

definition powerOffForMedia :: "vsphere \<Rightarrow> vm_obj \<Rightarrow> unit vio" where
  "powerOffForMedia E vm = tryE (softPowerOff E vm media_timeout) (\<lambda>r. case r of
       Inr _ \<Rightarrow> retE ()
     | Inl softErr \<Rightarrow> tryE (powerOff E vm) (\<lambda>r. case r of
           Inr _ \<Rightarrow> retE ()
         | Inl offErr \<Rightarrow> failE (VErr (err_kind offErr) (''power-off for CD swap: '' @ err_text offErr
             @ '' (soft: '' @ err_text softErr @ '')''))))"

text \<open>\<open>wasOn := false; if st, err := vm.PowerState(ctx); err == nil { wasOn = st == poweredOn }\<close>.\<close>

definition was_on :: "vsphere \<Rightarrow> vm_obj \<Rightarrow> bool vio" where
  "was_on E vm = tryE (vm_PowerState E vm) (\<lambda>r. retE (r = Inr PoweredOn))"

definition set_media :: "string \<Rightarrow> string \<Rightarrow> unit vio" where
  "set_media uuid img = cl_mod (\<lambda>c. c\<lparr>cl_mediaISO := fmupd (ToLower uuid) img (cl_mediaISO c)\<rparr>)"

text \<open>Disconnecting for an insert; the outcome is the new value of \<open>wasOn\<close>.\<close>

definition disconnect_for_insert :: "vsphere \<Rightarrow> vm_obj \<Rightarrow> bool \<Rightarrow> bool vio" where
  "disconnect_for_insert E vm wasOn = tryE (disconnectCDROM E vm) (\<lambda>r. case r of
       Inr _ \<Rightarrow> retE wasOn
     | Inl err \<Rightarrow>
         if \<not> isCDROMConnectionLocked err then failE (wrapf ''disconnect cdrom'' err)
         else thenE (powerOffForMedia E vm)
           (thenE (wrapE (wrapf ''disconnect cdrom after power-off'') (disconnectCDROM E vm)) (retE True)))"

definition swap_media :: "vsphere \<Rightarrow> string \<Rightarrow> vm_obj \<Rightarrow> string \<Rightarrow> unit vio" where
  "swap_media E uuid vm dsPath = bindE (was_on E vm) (\<lambda>wasOn.
     thenE (if wasOn then powerOffForMedia E vm else retE ())
     (bindE (disconnect_for_insert E vm wasOn) (\<lambda>wasOn.
       thenE (wrapE (wrapf ''attach cdrom'') (attachCDROM E vm dsPath))
       (thenE (wrapE (wrapf ''set boot cd'') (SetBootCDOnce E uuid))
         (if wasOn then wrapE (wrapf ''power on after insert'') (powerOn E vm) else retE ())))))"

text \<open>The part of \<open>InsertMedia\<close> after the image is staged at \<open>dsPath\<close>.\<close>

definition insert_staged :: "vsphere \<Rightarrow> string \<Rightarrow> string \<Rightarrow> vm_obj \<Rightarrow> string \<Rightarrow> unit vio" where
  "insert_staged E uuid imageURL vm dsPath =
     bindE (cl_get (\<lambda>c. if cl_ds c \<noteq> None then ds_Path E c dsPath else [])) (\<lambda>want.
     bindE (vm_Device E vm) (\<lambda>devices.
       let (prev, connected) = cdromState devices in
       if connected \<and> isoPathsEqual prev want then set_media uuid imageURL
       else thenE (swap_media E uuid vm dsPath) (set_media uuid imageURL)))"

definition InsertMedia :: "vsphere \<Rightarrow> string \<Rightarrow> string \<Rightarrow> unit vio" where
  "InsertMedia E uuid imageURL = bindE (findByUUID E uuid) (\<lambda>vm. bindE (infoFromVM E vm) (\<lambda>info.
     bindE (cl_get cl_ep) (\<lambda>ep.
       if \<not> allow ep (si_Name info) then failE (errorf (''system '' @ uuid @ '' not allowed''))
       else
         bindE (wrapE (wrapf ''download iso'') (downloadISO E imageURL)) (\<lambda>local.
         bindE (wrapE (wrapf ''hash iso'') (contentISOName E local)) (\<lambda>contentName.
         let dsPath = isoDSPath ep contentName in
         bindE (wrapE (wrapf ''upload iso'') (uploadISOIfNeeded E local dsPath)) (\<lambda>_.
         insert_staged E uuid imageURL vm dsPath))))))"

text \<open>
  The escalation when detaching fails: unlock and retry, then power off and detach again.
\<close>

definition eject_power_off :: "vsphere \<Rightarrow> vm_obj \<Rightarrow> verr \<Rightarrow> unit vio" where
  "eject_power_off E vm retryErr = tryE (softPowerOff E vm media_timeout) (\<lambda>r. case r of
       Inr _ \<Rightarrow> retE ()
     | Inl softErr \<Rightarrow> tryE (powerOff E vm) (\<lambda>r. case r of
           Inr _ \<Rightarrow> retE ()
         | Inl offErr \<Rightarrow> failE (VErr (err_kind offErr) (''eject (power-off for CD unlock): '' @ err_text offErr
             @ '' (detach: '' @ err_text retryErr @ ''; soft: '' @ err_text softErr @ '')''))))"

definition eject_detach :: "vsphere \<Rightarrow> vm_obj \<Rightarrow> unit vio" where
  "eject_detach E vm = tryE (detachCDROM E vm) (\<lambda>r. case r of
       Inr _ \<Rightarrow> retE ()
     | Inl err \<Rightarrow>
         if \<not> isCDROMConnectionLocked err then failE err
         else ignoreE (ensureMsgAutoAnswer E vm) (ignoreE (answerPendingQuestions E vm)
           (tryE (detachCDROM E vm) (\<lambda>r. case r of
               Inr _ \<Rightarrow> retE ()
             | Inl retryErr \<Rightarrow>
                 if \<not> isCDROMConnectionLocked retryErr then failE retryErr
                 else thenE (eject_power_off E vm retryErr)
                   (wrapE (wrapf ''eject after power-off'') (detachCDROM E vm))))))"

definition EjectMedia :: "vsphere \<Rightarrow> string \<Rightarrow> unit vio" where
  "EjectMedia E uuid = bindE (findByUUID E uuid) (\<lambda>vm. bindE (was_on E vm) (\<lambda>wasOn.
     thenE (eject_detach E vm)
     (thenE (wrapE (wrapf ''restore disk boot after eject'') (setBootDiskFirstVM E vm))
     (thenE (cl_mod (\<lambda>c. c\<lparr>cl_mediaISO := fmdrop (ToLower uuid) (cl_mediaISO c)\<rparr>))
       (if wasOn then wrapE (wrapf ''restore power after eject'') (powerOn E vm) else retE ())))))"

section \<open>Evidence in the history\<close>

text \<open>
  \<open>reconfigured ref spec h t\<close>: between the histories \<open>h\<close> and \<open>t\<close> a reconfiguration of the VM was
  accepted and its task ended well, with only questions asked in between.
\<close>

definition reconfigured :: "string \<Rightarrow> reconfig \<Rightarrow> hist \<Rightarrow> hist \<Rightarrow> bool" where
  "reconfigured ref spec h t \<longleftrightarrow> (\<exists>h1 l. prefix h h1 \<and> list_all (\<lambda>(c, _). question_call c) l \<and>
     prefix (h1 @ (CReconfigure ref spec, None) # l @ [(CWaitTask ref, None)]) t)"

text \<open>The VM was seen with no CD-ROM, or its first CD-ROM was disconnected from any ISO.\<close>

definition cd_released :: "vsphere \<Rightarrow> string \<Rightarrow> hist \<Rightarrow> hist \<Rightarrow> bool" where
  "cd_released E ref h t \<longleftrightarrow> (\<exists>h' d. prefix h h' \<and> prefix (h' @ [(CDevice ref, None)]) t \<and> ve_Device E h' ref = Inr d \<and>
     (case dl_cdroms d of [] \<Rightarrow> True
      | cd # _ \<Rightarrow> reconfigured ref (DeviceEdit (disconnected (cd\<lparr>cd_Backing := RemotePassthrough []\<rparr>)))
          (h' @ [(CDevice ref, None)]) t))"

definition boots_from :: "vsphere \<Rightarrow> string \<Rightarrow> string list \<Rightarrow> hist \<Rightarrow> hist \<Rightarrow> bool" where
  "boots_from E ref prefer h t \<longleftrightarrow> (\<exists>h' d. prefix h h' \<and> ve_Device E h' ref = Inr d \<and>
     prefix (h' @ [(CDevice ref, None), (CSetBootOptions ref (boot_order d prefer), None)]) t)"

text \<open>The last thing known of the VM is that it is on: reported so, or a power-on that was carried out.\<close>

definition left_on :: "vsphere \<Rightarrow> string \<Rightarrow> hist \<Rightarrow> bool" where
  "left_on E ref t \<longleftrightarrow> (\<exists>h. t = h @ [(CPowerState ref, None)] \<and> ve_PowerState E h ref = Inr PoweredOn)
     \<or> (\<exists>h l1 l2. t = h @ (CPowerOn ref, None) # l1 @ (CWaitTask ref, None) # l2 \<and>
          list_all (\<lambda>(c, _). question_call c) l1 \<and> list_all (\<lambda>(c, _). question_call c) l2)"

lemma reconfigured_widen:
  "reconfigured ref spec h t \<Longrightarrow> prefix h0 h \<Longrightarrow> prefix t t' \<Longrightarrow> reconfigured ref spec h0 t'"
  unfolding reconfigured_def by (meson prefix_order.trans)

lemma cd_released_widen:
  assumes "cd_released E ref h t" "prefix h0 h" "prefix t t'"
  shows "cd_released E ref h0 t'"
proof -
  from assms(1) obtain h' d where 1: "prefix h h'" "prefix (h' @ [(CDevice ref, None)]) t" "ve_Device E h' ref = Inr d"
    and 2: "case dl_cdroms d of [] \<Rightarrow> True
      | cd # _ \<Rightarrow> reconfigured ref (DeviceEdit (disconnected (cd\<lparr>cd_Backing := RemotePassthrough []\<rparr>)))
          (h' @ [(CDevice ref, None)]) t"
    unfolding cd_released_def by blast
  from 2 assms(3) have "case dl_cdroms d of [] \<Rightarrow> True
      | cd # _ \<Rightarrow> reconfigured ref (DeviceEdit (disconnected (cd\<lparr>cd_Backing := RemotePassthrough []\<rparr>)))
          (h' @ [(CDevice ref, None)]) t'"
    by (auto split: list.splits intro: reconfigured_widen)
  with 1 assms(2,3) show ?thesis unfolding cd_released_def by (meson prefix_order.trans)
qed

lemma boots_from_widen:
  "boots_from E ref p h t \<Longrightarrow> prefix h0 h \<Longrightarrow> prefix t t' \<Longrightarrow> boots_from E ref p h0 t'"
  unfolding boots_from_def by (meson prefix_order.trans)

lemma reconfigure_wait_Inr:
  assumes "reconfigure_wait E vm spec s = (Inr u, t)"
  shows "reconfigured (vm_ref vm) spec (w_calls (v_w s)) (w_calls (v_w t))"
proof -
  from assms obtain x s1 where c: "do_call E (CReconfigure (vm_ref vm) spec) (\<lambda>h. ve_Reconfigure E h (vm_ref vm) spec) s = (Inr x, s1)"
    and w: "waitTask E vm s1 = (Inr u, t)"
    unfolding reconfigure_wait_def by (elim thenE_InrE)
  from waitTask_Inr [OF w] obtain l1 l2 where
    "w_calls (v_w t) = w_calls (v_w s1) @ l1 @ (CWaitTask (vm_ref vm), None) # l2"
    "list_all (\<lambda>(c, _). question_call c) l1" by blast
  with do_call_Inr [OF c] show ?thesis
    unfolding reconfigured_def by (intro exI [of _ "w_calls (v_w s)"] exI [of _ l1]) auto
qed

text \<open>Every function here only lengthens the history.\<close>

abbreviation grows :: "'a vio \<Rightarrow> bool" where
  "grows m \<equiv> keeps (calls_only (\<lambda>_. True)) m"

lemma grows_prefix: "grows m \<Longrightarrow> m s = (r, t) \<Longrightarrow> prefix (w_calls (v_w s)) (w_calls (v_w t))"
  by (drule (1) keepsD) (auto simp: calls_only_def)

lemma grows_clock: "grows m \<Longrightarrow> m s = (r, t) \<Longrightarrow> w_clock (v_w s) \<le> w_clock (v_w t)"
  by (drule (1) keepsD) (auto simp: calls_only_def)

lemma keeps_grows: "keeps (calls_only P) m \<Longrightarrow> grows m"
  by (erule keeps_calls_mono) simp

lemma grows_power [keeps_intro]:
  "grows (answerPendingQuestions E vm)" "grows (ensureMsgAutoAnswer E vm)" "grows (waitTask E vm)"
  "grows (powerOn E vm)" "grows (powerOff E vm)"
  by (rule keeps_grows, rule keeps_intro)+

lemma grows_read: "read_only m \<Longrightarrow> grows m"
  by (rule keeps_grows)

lemma soft_loop_calls:
  assumes "P (CPowerState (vm_ref vm))"
  shows "keeps (calls_only P) (soft_loop E vm timeout d)"
proof -
  show ?thesis
    unfolding keeps_def
  proof
    fix s
    obtain r t where r: "soft_loop E vm timeout d s = (r, t)" by fastforce
    from soft_loop_run [OF r] assms obtain l where "w_calls (v_w t) = w_calls (v_w s) @ l" "list_all (\<lambda>(c, _). P c) l"
      by (force simp: list_all_iff)
    moreover have "w_clock (v_w s) \<le> w_clock (v_w t)" using r
    proof (induction E vm timeout d s arbitrary: r t rule: soft_loop.induct)
      case (1 E vm timeout d s)
      obtain r1 s1 where p: "vm_PowerState E vm s = (r1, s1)" by fastforce
      have c: "w_clock (v_w s) \<le> w_clock (v_w s1)" using p by (rule vm_PowerState_clock)
      obtain r2 s2 where q: "sleep E (2 * second) s1 = (r2, s2)" by fastforce
      have c2: "w_clock (v_w s1) \<le> w_clock (v_w s2)" using q by (auto simp: sleep_def split: option.splits)
      show ?case
      proof (cases "(\<exists>st. r1 = Inr st \<and> st \<noteq> PoweredOff \<and> \<not> d < w_clock (v_w s1)) \<and> r2 = Inr ()")
        case True
        then obtain st where st: "r1 = Inr st" "st \<noteq> PoweredOff" "\<not> d < w_clock (v_w s1)" "r2 = Inr ()" by auto
        have rec: "soft_loop E vm timeout d s2 = (r, t)"
          using "1.prems" p q st by (subst (asm) soft_loop.simps) auto
        from "1.IH" [OF p [symmetric] st(1-3) q [symmetric] st(4) rec] c c2 show ?thesis by simp
      next
        case False
        then have "t = s1 \<or> t = s2"
          using "1.prems" p q by (subst (asm) soft_loop.simps) (auto split: sum.splits if_splits)
        with c c2 show ?thesis by auto
      qed
    qed
    ultimately show "calls_only P s (snd (soft_loop E vm timeout d s))"
      by (simp add: calls_only_def r)
  qed
qed

lemma softPowerOff_power [keeps_intro]: "keeps (calls_only (power_call (vm_ref vm))) (softPowerOff E vm timeout)"
  unfolding softPowerOff_def vm_PowerState_def by (intro keeps_intro soft_loop_calls) simp_all

lemma softPowerOff_grows [keeps_intro]: "grows (softPowerOff E vm timeout)"
  by (rule keeps_grows [OF softPowerOff_power])

lemma softPowerOff_client [same_client_intro]: "keeps same_client (softPowerOff E vm timeout)"
proof -
  have "keeps same_client (soft_loop E vm timeout d)" for d
    unfolding keeps_def same_client_def by (metis prod.collapse soft_loop_run)
  then show ?thesis unfolding softPowerOff_def by (intro keeps_intro same_client_intro)
qed

section \<open>Eject\<close>

lemma cd_functions_power:
  "grows (attachCDROM E vm p)" "grows (disconnectCDROM E vm)" "grows (detachCDROM E vm)"
  unfolding attachCDROM_def disconnectCDROM_def detachCDROM_def reconfigure_wait_def vm_Device_def
  by (intro keeps_intro; simp)+

lemma cd_functions_client [same_client_intro]:
  "keeps same_client (attachCDROM E vm p)" "keeps same_client (disconnectCDROM E vm)" "keeps same_client (detachCDROM E vm)"
  "keeps same_client (was_on E vm)"
  unfolding attachCDROM_def disconnectCDROM_def detachCDROM_def reconfigure_wait_def was_on_def
  by (intro keeps_intro same_client_intro)+

lemma eject_detach_client [same_client_intro]: "keeps same_client (eject_detach E vm)"
  unfolding eject_detach_def eject_power_off_def by (intro keeps_intro same_client_intro)

lemma setBootOrderVM_Inr:
  assumes "setBootOrderVM E vm prefer s = (Inr u, t)"
  shows "boots_from E (vm_ref vm) prefer (w_calls (v_w s)) (w_calls (v_w t))"
proof -
  from assms obtain d s1 where c: "vm_Device E vm s = (Inr d, s1)" and
    b: "do_call E (CSetBootOptions (vm_ref vm) (boot_order d prefer))
      (\<lambda>h. ve_SetBootOptions E h (vm_ref vm) (boot_order d prefer)) s1 = (Inr u, t)"
    unfolding setBootOrderVM_def Let_def by (rule bindE_InrE)
  from do_call_Inr [OF c [unfolded vm_Device_def]] do_call_Inr [OF b] show ?thesis
    unfolding boots_from_def by (intro exI [of _ "w_calls (v_w s)"] exI [of _ d]) simp
qed

lemma detachCDROM_Inr:
  assumes "detachCDROM E vm s = (Inr u, t)"
  shows "cd_released E (vm_ref vm) (w_calls (v_w s)) (w_calls (v_w t))"
proof -
  from assms obtain r1 s1 r2 s2 d s3 where a: "ensureMsgAutoAnswer E vm s = (r1, s1)"
      "answerPendingQuestions E vm s1 = (r2, s2)" and c: "vm_Device E vm s2 = (Inr d, s3)" and
    k: "(case dl_cdroms d of [] \<Rightarrow> retE ()
       | cd # _ \<Rightarrow> reconfigure_wait E vm (DeviceEdit (disconnected (cd\<lparr>cd_Backing := RemotePassthrough []\<rparr>)))) s3 = (Inr u, t)"
    unfolding detachCDROM_def by (elim ignoreE_E bindE_InrE)
  have p: "prefix (w_calls (v_w s)) (w_calls (v_w s2))"
    using grows_prefix [OF grows_power(2) a(1)] grows_prefix [OF grows_power(1) a(2)] by (rule prefix_order.trans)
  note c1 = do_call_Inr [OF c [unfolded vm_Device_def]]
  show ?thesis
  proof (cases "dl_cdroms d")
    case Nil
    with k c1 p show ?thesis
      unfolding cd_released_def by (intro exI [of _ "w_calls (v_w s2)"] exI [of _ d]) (simp add: run_prims)
  next
    case (Cons cd cds)
    with k have "reconfigure_wait E vm (DeviceEdit (disconnected (cd\<lparr>cd_Backing := RemotePassthrough []\<rparr>))) s3 = (Inr u, t)"
      by simp
    from reconfigure_wait_Inr [OF this] c1 p Cons
      grows_prefix [OF cd_functions_power(3) assms]
    have "reconfigured (vm_ref vm) (DeviceEdit (disconnected (cd\<lparr>cd_Backing := RemotePassthrough []\<rparr>)))
        (w_calls (v_w s2) @ [(CDevice (vm_ref vm), None)]) (w_calls (v_w t))"
      "prefix (w_calls (v_w s2) @ [(CDevice (vm_ref vm), None)]) (w_calls (v_w t))"
      by (auto simp: reconfigured_def dest: append_prefixD)
    with c1 p Cons show ?thesis
      unfolding cd_released_def by (intro exI [of _ "w_calls (v_w s2)"] exI [of _ d]) simp
  qed
qed

lemma eject_power_off_grows: "grows (eject_power_off E vm e)"
  unfolding eject_power_off_def by (intro keeps_intro)

lemma eject_detach_Inr:
  assumes "eject_detach E vm s = (Inr u, t)"
  shows "cd_released E (vm_ref vm) (w_calls (v_w s)) (w_calls (v_w t))"
proof -
  let ?esc = "\<lambda>err. if \<not> isCDROMConnectionLocked err then failE err
         else ignoreE (ensureMsgAutoAnswer E vm) (ignoreE (answerPendingQuestions E vm)
           (tryE (detachCDROM E vm) (\<lambda>r. case r of
               Inr _ \<Rightarrow> retE ()
             | Inl retryErr \<Rightarrow>
                 if \<not> isCDROMConnectionLocked retryErr then failE retryErr
                 else thenE (eject_power_off E vm retryErr)
                   (wrapE (wrapf ''eject after power-off'') (detachCDROM E vm)))))"
  from assms obtain r s1 where d: "detachCDROM E vm s = (r, s1)" and
    k: "(case r of Inr _ \<Rightarrow> retE () | Inl err \<Rightarrow> ?esc err) s1 = (Inr u, t)"
    unfolding eject_detach_def by (rule tryE_E)
  have p1: "prefix (w_calls (v_w s)) (w_calls (v_w s1))" by (rule grows_prefix [OF cd_functions_power(3) d])
  show ?thesis
  proof (cases r)
    case (Inr y)
    with k d show ?thesis by (auto simp: run_prims dest: detachCDROM_Inr)
  next
    case (Inl err)
    have locked: "isCDROMConnectionLocked err"
      by (rule ccontr) (use k Inl in \<open>simp add: run_prims\<close>)
    let ?k2 = "\<lambda>r. case r of Inr _ \<Rightarrow> retE () | Inl retryErr \<Rightarrow>
                 if \<not> isCDROMConnectionLocked retryErr then failE retryErr
                 else thenE (eject_power_off E vm retryErr)
                   (wrapE (wrapf ''eject after power-off'') (detachCDROM E vm))"
    have "ignoreE (ensureMsgAutoAnswer E vm) (ignoreE (answerPendingQuestions E vm) (tryE (detachCDROM E vm) ?k2)) s1 = (Inr u, t)"
      using k by (simp only: Inl sum.case locked not_True_eq_False if_False)
    then obtain a2 s2 a3 s3 r4 s4 where e: "ensureMsgAutoAnswer E vm s1 = (a2, s2)"
      "answerPendingQuestions E vm s2 = (a3, s3)" and d2: "detachCDROM E vm s3 = (r4, s4)" and k2: "?k2 r4 s4 = (Inr u, t)"
      by (elim ignoreE_E tryE_E)
    have p3: "prefix (w_calls (v_w s)) (w_calls (v_w s3))"
      using p1 grows_prefix [OF grows_power(2) e(1)] grows_prefix [OF grows_power(1) e(2)] by (meson prefix_order.trans)
    show ?thesis
    proof (cases r4)
      case (Inr y)
      with k2 d2 p3 show ?thesis by (auto simp: run_prims dest!: detachCDROM_Inr intro: cd_released_widen)
    next
      case (Inl retryErr)
      with k2 obtain y s5 where o': "eject_power_off E vm retryErr s4 = (Inr y, s5)" and d3: "detachCDROM E vm s5 = (Inr u, t)"
        by (auto simp: run_prims split: if_splits elim!: thenE_InrE dest!: wrapE_InrE)
      have "prefix (w_calls (v_w s)) (w_calls (v_w s5))"
        using p3 grows_prefix [OF cd_functions_power(3) d2] grows_prefix [OF eject_power_off_grows o'] by (meson prefix_order.trans)
      with detachCDROM_Inr [OF d3] show ?thesis by (auto intro: cd_released_widen)
    qed
  qed
qed

lemma powerOn_left_on:
  assumes "powerOn E vm s = (Inr u, t)"
  shows "left_on E (vm_ref vm) (w_calls (v_w t))"
proof -
  from assms obtain st s1 where p: "vm_PowerState E vm s = (Inr st, s1)" and
    k: "(if st = PoweredOn then retE () else
     thenE (do_call E (CPowerOn (vm_ref vm)) (\<lambda>h. ve_PowerOn E h (vm_ref vm))) (waitTask E vm)) s1 = (Inr u, t)"
    unfolding powerOn_def by (rule bindE_InrE)
  note p1 = vm_PowerState_run [OF p]
  show ?thesis
  proof (cases "st = PoweredOn")
    case True
    with k p1 show ?thesis unfolding left_on_def
      by (intro disjI1 exI [of _ "w_calls (v_w s)"]) (auto simp: run_prims outcome_def)
  next
    case False
    with k obtain x s2 where c: "do_call E (CPowerOn (vm_ref vm)) (\<lambda>h. ve_PowerOn E h (vm_ref vm)) s1 = (Inr x, s2)"
      and w: "waitTask E vm s2 = (Inr u, t)" by (auto elim!: thenE_InrE)
    from waitTask_Inr [OF w] obtain l1 l2 where
      l: "w_calls (v_w t) = w_calls (v_w s2) @ l1 @ (CWaitTask (vm_ref vm), None) # l2"
      "list_all (\<lambda>(c, _). question_call c) l1" "list_all (\<lambda>(c, _). question_call c) l2" by blast
    with do_call_Inr [OF c] show ?thesis unfolding left_on_def
      by (intro disjI2 exI [of _ "w_calls (v_w s1)"] exI [of _ l1] exI [of _ l2]) auto
  qed
qed

lemma was_on_run:
  assumes "was_on E vm s = (r, t)"
  shows "r = Inr (ve_PowerState E (w_calls (v_w s)) (vm_ref vm) = Inr PoweredOn) \<and> v_cl t = v_cl s
    \<and> prefix (w_calls (v_w s)) (w_calls (v_w t))"
proof -
  obtain a u where p: "vm_PowerState E vm s = (a, u)" by fastforce
  from vm_PowerState_run [OF p] assms p show ?thesis by (auto simp: was_on_def tryE_def retE_def)
qed

text \<open>
  C3: Ejecting media that reports success has ejected it. The VM was seen without a CD-ROM drive, or
  its drive was switched to an empty remote device and disconnected; after that its boot order was set
  to disk first; the image is forgotten, so \<open>MediaStatus\<close> says nothing is inserted; and a VM that was
  reported on when the eject began is left on.
\<close>

theorem eject_success_means_ejected:
  assumes "findByUUID E uuid s = (Inr vm, s1)" and "EjectMedia E uuid s = (Inr u, t)"
  shows "(\<exists>h. cd_released E (vm_ref vm) (w_calls (v_w s1)) h \<and> boots_from E (vm_ref vm) [''disk''] h (w_calls (v_w t)))
    \<and> \<not> ms_Inserted (MediaStatus uuid (v_cl t))
    \<and> (ve_PowerState E (w_calls (v_w s1)) (vm_ref vm) = Inr PoweredOn \<longrightarrow> left_on E (vm_ref vm) (w_calls (v_w t)))"
proof -
  let ?ref = "vm_ref vm"
  have "bindE (was_on E vm) (\<lambda>wasOn. thenE (eject_detach E vm)
     (thenE (wrapE (wrapf ''restore disk boot after eject'') (setBootDiskFirstVM E vm))
     (thenE (cl_mod (\<lambda>c. c\<lparr>cl_mediaISO := fmdrop (ToLower uuid) (cl_mediaISO c)\<rparr>))
       (if wasOn then wrapE (wrapf ''restore power after eject'') (powerOn E vm) else retE ())))) s1 = (Inr u, t)"
    using assms by (simp add: EjectMedia_def bindE_run)
  then obtain wasOn s2 x s3 y s4 where w: "was_on E vm s1 = (Inr wasOn, s2)" and d: "eject_detach E vm s2 = (Inr x, s3)"
    and b: "setBootOrderVM E vm [''disk''] s3 = (Inr y, s4)"
    and k: "(if wasOn then wrapE (wrapf ''restore power after eject'') (powerOn E vm) else retE ())
      (s4\<lparr>v_cl := (v_cl s4)\<lparr>cl_mediaISO := fmdrop (ToLower uuid) (cl_mediaISO (v_cl s4))\<rparr>\<rparr>) = (Inr u, t)"
    by (auto simp: setBootDiskFirstVM_def run_prims elim!: bindE_InrE thenE_InrE dest!: wrapE_InrE)
  let ?s5 = "s4\<lparr>v_cl := (v_cl s4)\<lparr>cl_mediaISO := fmdrop (ToLower uuid) (cl_mediaISO (v_cl s4))\<rparr>\<rparr>"
  have p: "prefix (w_calls (v_w s4)) (w_calls (v_w t)) \<and> v_cl t = v_cl ?s5 \<and> (wasOn \<longrightarrow> left_on E ?ref (w_calls (v_w t)))"
  proof (cases wasOn)
    case True
    with k have on: "powerOn E vm ?s5 = (Inr u, t)" by (auto dest!: wrapE_InrE)
    from grows_prefix [OF grows_power(4) on] same_clientD [OF powerOn_client on] powerOn_left_on [OF on]
    show ?thesis by simp
  next
    case False
    with k show ?thesis by (auto simp: run_prims)
  qed
  have "cd_released E ?ref (w_calls (v_w s1)) (w_calls (v_w s3))"
    using eject_detach_Inr [OF d] was_on_run [OF w] by (auto intro: cd_released_widen)
  moreover have "boots_from E ?ref [''disk''] (w_calls (v_w s3)) (w_calls (v_w t))"
    using setBootOrderVM_Inr [OF b] p by (auto intro: boots_from_widen)
  moreover have "\<not> ms_Inserted (MediaStatus uuid (v_cl t))"
    using p by (simp add: MediaStatus_def)
  ultimately show ?thesis using p was_on_run [OF w] by auto
qed
lemma demo_eject: "fst (EjectMedia demo_vs ''AA-BB'' demo_ready) = Inr ()"
proof -
  have step: "EjectMedia demo_vs ''AA-BB'' demo_ready =
    bindE (was_on demo_vs demo_at) (\<lambda>wasOn.
     thenE (eject_detach demo_vs demo_at)
     (thenE (wrapE (wrapf ''restore disk boot after eject'') (setBootDiskFirstVM demo_vs demo_at))
     (thenE (cl_mod (\<lambda>c. c\<lparr>cl_mediaISO := fmdrop (ToLower ''AA-BB'') (cl_mediaISO c)\<rparr>))
       (if wasOn then wrapE (wrapf ''restore power after eject'') (powerOn demo_vs demo_at) else retE ())))) demo_ready"
    by (simp add: EjectMedia_def bindE_run demo_ready_find)
  show ?thesis
    unfolding step was_on_def eject_detach_def detachCDROM_def setBootDiskFirstVM_def setBootOrderVM_def powerOn_def
      vm_PowerState_def vm_Device_def ensureMsgAutoAnswer_def task_Wait_def task_result_def answerPendingQuestions_def
      waitTask_def reconfigure_wait_def
    by (simp add: io_simps do_call_def record_call_def outcome_def boot_order_def demo_vs_def demo_devices_def demo_cd_def
        demo_at_def Let_def)
qed

theorem eject_success_means_ejected_witness:
  "\<exists>h t. EjectMedia demo_vs ''AA-BB'' demo_ready = (Inr (), t) \<and> cd_released demo_vs ''vm-1'' [] h
     \<and> boots_from demo_vs ''vm-1'' [''disk''] h (w_calls (v_w t)) \<and> left_on demo_vs ''vm-1'' (w_calls (v_w t))"
proof -
  obtain t where e: "EjectMedia demo_vs ''AA-BB'' demo_ready = (Inr (), t)"
    using demo_eject by (metis prod.collapse)
  have "vm_ref demo_at = ''vm-1''" "w_calls (v_w demo_ready) = []" "ve_PowerState demo_vs [] ''vm-1'' = Inr PoweredOn"
    by (simp_all add: demo_at_def demo_ready_def demo_world_def demo_vs_def)
  with eject_success_means_ejected [OF demo_ready_find e] e show ?thesis by auto
qed

section \<open>Insert\<close>

text \<open>The CD-ROM, if there is one, was seen disconnected or was disconnected.\<close>

definition cd_free :: "vsphere \<Rightarrow> string \<Rightarrow> hist \<Rightarrow> hist \<Rightarrow> bool" where
  "cd_free E ref h t \<longleftrightarrow> (\<exists>h' d. prefix h h' \<and> prefix (h' @ [(CDevice ref, None)]) t \<and> ve_Device E h' ref = Inr d \<and>
     (case dl_cdroms d of [] \<Rightarrow> True
      | cd # _ \<Rightarrow> is_disconnected cd \<or> reconfigured ref (DeviceEdit (disconnected cd)) (h' @ [(CDevice ref, None)]) t))"

text \<open>A CD-ROM, an added one where there was none, was connected with the ISO \<open>path\<close>.\<close>

definition iso_attached :: "vsphere \<Rightarrow> string \<Rightarrow> string \<Rightarrow> hist \<Rightarrow> hist \<Rightarrow> bool" where
  "iso_attached E ref path h t \<longleftrightarrow> (\<exists>h' d. prefix h h' \<and> ve_Device E h' ref = Inr d \<and>
     (case dl_cdroms d of
        [] \<Rightarrow> \<exists>ctl cd. dl_FindIDE d = Inr ctl \<and> dl_CreateCdrom d ctl = Inr cd \<and>
          reconfigured ref (DeviceAdd (connected_iso path cd)) (h' @ [(CDevice ref, None)]) t
      | cd # _ \<Rightarrow> reconfigured ref (DeviceEdit (connected_iso path cd)) (h' @ [(CDevice ref, None)]) t))"

lemma cd_free_widen:
  assumes "cd_free E ref h t" "prefix h0 h" "prefix t t'"
  shows "cd_free E ref h0 t'"
proof -
  from assms(1) obtain h' d where 1: "prefix h h'" "prefix (h' @ [(CDevice ref, None)]) t" "ve_Device E h' ref = Inr d"
    and 2: "case dl_cdroms d of [] \<Rightarrow> True
      | cd # _ \<Rightarrow> is_disconnected cd \<or> reconfigured ref (DeviceEdit (disconnected cd)) (h' @ [(CDevice ref, None)]) t"
    unfolding cd_free_def by blast
  from 2 assms(3) have "case dl_cdroms d of [] \<Rightarrow> True
      | cd # _ \<Rightarrow> is_disconnected cd \<or> reconfigured ref (DeviceEdit (disconnected cd)) (h' @ [(CDevice ref, None)]) t'"
    by (auto split: list.splits intro: reconfigured_widen)
  with 1 assms(2,3) show ?thesis unfolding cd_free_def by (meson prefix_order.trans)
qed

lemma prelude_device:
  assumes "ignoreE (ensureMsgAutoAnswer E vm) (ignoreE (answerPendingQuestions E vm) (bindE (vm_Device E vm) k)) s = (Inr u, t)"
  obtains h d s3 where "prefix (w_calls (v_w s)) h" "ve_Device E h (vm_ref vm) = Inr d" "k d s3 = (Inr u, t)"
    "w_calls (v_w s3) = h @ [(CDevice (vm_ref vm), None)]" "v_cl s3 = v_cl s"
proof -
  from assms obtain r1 s1 r2 s2 d s3 where a: "ensureMsgAutoAnswer E vm s = (r1, s1)"
      "answerPendingQuestions E vm s1 = (r2, s2)" and c: "vm_Device E vm s2 = (Inr d, s3)" and k: "k d s3 = (Inr u, t)"
    by (elim ignoreE_E bindE_InrE)
  have "prefix (w_calls (v_w s)) (w_calls (v_w s2))"
    using grows_prefix [OF grows_power(2) a(1)] grows_prefix [OF grows_power(1) a(2)] by (rule prefix_order.trans)
  moreover have "v_cl s2 = v_cl s"
    using same_clientD [OF ensureMsgAutoAnswer_client a(1)] same_clientD [OF answerPendingQuestions_client a(2)] by simp
  ultimately show ?thesis
    using that do_call_Inr [OF c [unfolded vm_Device_def]] k by metis
qed

lemma disconnectCDROM_Inr:
  assumes "disconnectCDROM E vm s = (Inr u, t)"
  shows "cd_free E (vm_ref vm) (w_calls (v_w s)) (w_calls (v_w t))"
proof -
  from assms obtain h d s3 where p: "prefix (w_calls (v_w s)) h" "ve_Device E h (vm_ref vm) = Inr d"
    "w_calls (v_w s3) = h @ [(CDevice (vm_ref vm), None)]" and
    k: "(case dl_cdroms d of [] \<Rightarrow> retE ()
       | cd # _ \<Rightarrow> if is_disconnected cd then retE () else reconfigure_wait E vm (DeviceEdit (disconnected cd))) s3 = (Inr u, t)"
    unfolding disconnectCDROM_def by (rule prelude_device)
  have g: "prefix (w_calls (v_w s3)) (w_calls (v_w t))"
  proof -
    have "grows (case dl_cdroms d of [] \<Rightarrow> retE ()
       | cd # _ \<Rightarrow> if is_disconnected cd then retE () else reconfigure_wait E vm (DeviceEdit (disconnected cd)))"
      unfolding reconfigure_wait_def by (intro keeps_intro) simp
    from grows_prefix [OF this k] show ?thesis .
  qed
  have "case dl_cdroms d of [] \<Rightarrow> True
      | cd # _ \<Rightarrow> is_disconnected cd \<or> reconfigured (vm_ref vm) (DeviceEdit (disconnected cd)) (h @ [(CDevice (vm_ref vm), None)]) (w_calls (v_w t))"
    using k p(3) by (auto split: list.splits if_splits dest: reconfigure_wait_Inr)
  with p g show ?thesis unfolding cd_free_def by auto
qed

lemma attachCDROM_Inr:
  assumes "attachCDROM E vm dsPath s = (Inr u, t)"
  shows "iso_attached E (vm_ref vm) (ds_Path E (v_cl s) dsPath) (w_calls (v_w s)) (w_calls (v_w t))"
proof -
  let ?iso = "ds_Path E (v_cl s) dsPath"
  from assms obtain h d s3 where p: "prefix (w_calls (v_w s)) h" "ve_Device E h (vm_ref vm) = Inr d"
    "w_calls (v_w s3) = h @ [(CDevice (vm_ref vm), None)]" "v_cl s3 = v_cl s" and
    k: "bindE (cl_get (\<lambda>c. ds_Path E c dsPath)) (\<lambda>iso.
       case dl_cdroms d of
         [] \<Rightarrow> (case dl_FindIDE d of
             Inl e \<Rightarrow> failE (wrapf ''find IDE controller for cdrom'' e)
           | Inr controller \<Rightarrow> (case dl_CreateCdrom d controller of
               Inl e \<Rightarrow> failE e
             | Inr cd \<Rightarrow> reconfigure_wait E vm (DeviceAdd (connected_iso iso cd))))
       | cd # _ \<Rightarrow> reconfigure_wait E vm (DeviceEdit (connected_iso iso cd))) s3 = (Inr u, t)"
    unfolding attachCDROM_def by (rule prelude_device) blast
  have "case dl_cdroms d of
        [] \<Rightarrow> \<exists>ctl cd. dl_FindIDE d = Inr ctl \<and> dl_CreateCdrom d ctl = Inr cd \<and>
          reconfigured (vm_ref vm) (DeviceAdd (connected_iso ?iso cd)) (h @ [(CDevice (vm_ref vm), None)]) (w_calls (v_w t))
      | cd # _ \<Rightarrow> reconfigured (vm_ref vm) (DeviceEdit (connected_iso ?iso cd)) (h @ [(CDevice (vm_ref vm), None)]) (w_calls (v_w t))"
    using k p(3,4) by (auto simp: run_prims split: list.splits sum.splits dest: reconfigure_wait_Inr)
  with p show ?thesis unfolding iso_attached_def by blast
qed

lemma powerOffForMedia_grows: "grows (powerOffForMedia E vm)"
  unfolding powerOffForMedia_def by (intro keeps_intro)

lemma powerOffForMedia_client [same_client_intro]: "keeps same_client (powerOffForMedia E vm)"
  unfolding powerOffForMedia_def by (intro keeps_intro same_client_intro)

lemma disconnect_for_insert_client [same_client_intro]: "keeps same_client (disconnect_for_insert E vm b)"
  unfolding disconnect_for_insert_def by (intro keeps_intro same_client_intro)

lemma disconnect_for_insert_Inr:
  assumes "disconnect_for_insert E vm b s = (Inr b', t)"
  shows "cd_free E (vm_ref vm) (w_calls (v_w s)) (w_calls (v_w t)) \<and> (b \<longrightarrow> b')"
proof -
  let ?k = "\<lambda>r. case r of Inr _ \<Rightarrow> retE b
     | Inl err \<Rightarrow>
         if \<not> isCDROMConnectionLocked err then failE (wrapf ''disconnect cdrom'' err)
         else thenE (powerOffForMedia E vm)
           (thenE (wrapE (wrapf ''disconnect cdrom after power-off'') (disconnectCDROM E vm)) (retE True))"
  from assms obtain r u where d: "disconnectCDROM E vm s = (r, u)" and k: "?k r u = (Inr b', t)"
    unfolding disconnect_for_insert_def by (rule tryE_E)
  show ?thesis
  proof (cases r)
    case (Inr x)
    with d k show ?thesis by (auto simp: run_prims dest: disconnectCDROM_Inr)
  next
    case (Inl e)
    with k obtain x u1 y u2 where o': "powerOffForMedia E vm u = (Inr x, u1)" "disconnectCDROM E vm u1 = (Inr y, t)" "b'"
      by (auto simp: run_prims split: if_splits elim!: thenE_InrE dest!: wrapE_InrE)
    have "prefix (w_calls (v_w s)) (w_calls (v_w u1))"
      using grows_prefix [OF cd_functions_power(2) d] grows_prefix [OF powerOffForMedia_grows o'(1)] by (rule prefix_order.trans)
    with disconnectCDROM_Inr [OF o'(2)] o'(3) show ?thesis by (auto intro: cd_free_widen)
  qed
qed

lemma disconnect_for_insert_grows: "grows (disconnect_for_insert E vm b)"
  unfolding disconnect_for_insert_def by (intro keeps_intro cd_functions_power powerOffForMedia_grows)

text \<open>
  What a swap that reports success has done, in this order, with the client \<open>c\<close>, between the times \<open>now\<close> and
  \<open>now'\<close>. The boot order is that of the VM which looking the UUID up again finds, at that point of the run and
  with that client: the same VM as long as the client remembers it.
\<close>

definition media_swapped :: "vsphere \<Rightarrow> string \<Rightarrow> string \<Rightarrow> string \<Rightarrow> client \<Rightarrow> int \<Rightarrow> int \<Rightarrow> hist \<Rightarrow> hist \<Rightarrow> bool" where
  "media_swapped E uuid ref path c now now' h t \<longleftrightarrow> (\<exists>hp h1 h2.
     prefix h hp \<and> (ve_PowerState E hp ref = Inr PoweredOn \<longrightarrow> left_on E ref t) \<and>
     cd_free E ref hp h1 \<and> iso_attached E ref path h1 h2 \<and>
     (\<exists>vm2 s2 s3. v_cl s2 = c \<and> w_calls (v_w s2) = h2 \<and> now \<le> w_clock (v_w s2) \<and> w_clock (v_w s2) \<le> now'
       \<and> findByUUID E uuid s2 = (Inr vm2, s3)
       \<and> (cached_entry c (w_clock (v_w s2)) (ToLower (TrimSpace uuid)) \<noteq> None \<longrightarrow> vm_ref vm2 = ref)
       \<and> boots_from E (vm_ref vm2) [''cdrom'', ''disk''] (w_calls (v_w s3)) t))"

lemma media_swapped_widen:
  "media_swapped E uuid ref path c now now' h t \<Longrightarrow> prefix h0 h \<Longrightarrow> now0 \<le> now \<Longrightarrow> now' \<le> now1 \<Longrightarrow>
     media_swapped E uuid ref path c now0 now1 h0 t"
  unfolding media_swapped_def by (elim ex_forward conj_forward) (auto intro: prefix_order.trans)

text \<open>What a client remembers of a UUID it has just looked up is the VM the lookup returned.\<close>

definition remembers :: "string \<Rightarrow> string \<Rightarrow> client \<Rightarrow> bool" where
  "remembers uuid ref c \<longleftrightarrow> (\<forall>now v. cached_entry c now (ToLower (TrimSpace uuid)) = Some v \<longrightarrow> vm_ref v = ref)"

lemma findByUUID_remembers:
  assumes "findByUUID E uuid s = (Inr vm, t)"
  shows "remembers uuid (vm_ref vm) (v_cl t)"
proof -
  from assms obtain x s1 where "ensure E s = (Inr x, s1)"
    unfolding findByUUID_def by (elim thenE_InrE)
  then have e: "ensure E s = (Inr (), s1)" by simp
  show ?thesis
  proof (cases "cached_entry (v_cl s1) (w_clock (v_w s1)) (ToLower (TrimSpace uuid))")
    case None
    from findByUUID_fresh [OF e None assms] show ?thesis
      by (auto simp: just_cached_def remembers_def remember_entry_lookup split: if_splits)
  next
    case (Some v)
    with findByUUID_cached [OF e Some] assms show ?thesis
      by (auto simp: remembers_def cached_entry_def split: if_splits option.splits)
  qed
qed

lemma findByUUID_same:
  assumes "remembers uuid ref (v_cl s)" "findByUUID E uuid s = (Inr vm, t)"
  shows "cached_entry (v_cl s) (w_clock (v_w s)) (ToLower (TrimSpace uuid)) \<noteq> None \<longrightarrow> vm_ref vm = ref"
proof
  assume "cached_entry (v_cl s) (w_clock (v_w s)) (ToLower (TrimSpace uuid)) \<noteq> None"
  then obtain v where v: "cached_entry (v_cl s) (w_clock (v_w s)) (ToLower (TrimSpace uuid)) = Some v" by auto
  then have "ensure E s = (Inr (), s)" by (simp add: cached_entry_def split: if_splits)
  from findByUUID_cached [OF this v] assms v show "vm_ref vm = ref" by (simp add: remembers_def)
qed

lemma swap_media_Inr:
  assumes "swap_media E uuid vm dsPath s = (Inr u, t)" "remembers uuid (vm_ref vm) (v_cl s)"
  shows "media_swapped E uuid (vm_ref vm) (ds_Path E (v_cl s) dsPath) (v_cl s) (w_clock (v_w s)) (w_clock (v_w t)) (w_calls (v_w s)) (w_calls (v_w t))"
proof -
  let ?ref = "vm_ref vm"
  obtain b s1 x s2 b' s3 y s4 z s5 where w: "was_on E vm s = (Inr b, s1)"
    and o': "(if b then powerOffForMedia E vm else retE ()) s1 = (Inr x, s2)"
    and d: "disconnect_for_insert E vm b s2 = (Inr b', s3)"
    and a: "wrapE (wrapf ''attach cdrom'') (attachCDROM E vm dsPath) s3 = (Inr y, s4)"
    and c: "wrapE (wrapf ''set boot cd'') (SetBootCDOnce E uuid) s4 = (Inr z, s5)"
    and k: "(if b' then wrapE (wrapf ''power on after insert'') (powerOn E vm) else retE ()) s5 = (Inr u, t)"
    using assms(1) unfolding swap_media_def by (elim bindE_InrE thenE_InrE)
  note w1 = was_on_run [OF w]
  have g2: "prefix (w_calls (v_w s1)) (w_calls (v_w s2)) \<and> v_cl s2 = v_cl s1"
    using o' by (cases b) (auto simp: run_prims dest: grows_prefix [OF powerOffForMedia_grows] same_clientD [OF powerOffForMedia_client])
  note d1 = disconnect_for_insert_Inr [OF d]
  have cl3: "v_cl s3 = v_cl s"
    using w1 g2 same_clientD [OF disconnect_for_insert_client d] by simp
  have a1: "iso_attached E ?ref (ds_Path E (v_cl s) dsPath) (w_calls (v_w s3)) (w_calls (v_w s4))"
    using attachCDROM_Inr [OF wrapE_InrE [OF a]] cl3 by simp
  from c obtain vm2 s6 where f: "findByUUID E uuid s4 = (Inr vm2, s6)" and bo: "setBootOrderVM E vm2 [''cdrom'', ''disk''] s6 = (Inr z, s5)"
    by (auto simp: SetBootCDOnce_def elim!: bindE_InrE dest!: wrapE_InrE)
  have t: "prefix (w_calls (v_w s5)) (w_calls (v_w t)) \<and> (b' \<longrightarrow> left_on E ?ref (w_calls (v_w t)))"
  proof (cases b')
    case True
    with k have on: "powerOn E vm s5 = (Inr u, t)" by (auto dest!: wrapE_InrE)
    from grows_prefix [OF grows_power(4) on] powerOn_left_on [OF on] show ?thesis by simp
  next
    case False
    with k show ?thesis by (auto simp: run_prims)
  qed
  have cl4: "v_cl s4 = v_cl s" using same_clientD [OF cd_functions_client(1) wrapE_InrE [OF a]] cl3 by simp
  have "boots_from E (vm_ref vm2) [''cdrom'', ''disk''] (w_calls (v_w s6)) (w_calls (v_w t))"
    using setBootOrderVM_Inr [OF bo] t by (auto intro: boots_from_widen)
  moreover have time: "w_clock (v_w s) \<le> w_clock (v_w s4) \<and> w_clock (v_w s4) \<le> w_clock (v_w t)"
  proof -
    have on: "grows (was_on E vm)" unfolding was_on_def vm_PowerState_def by (intro keeps_intro; simp)
    have boot: "grows (SetBootCDOnce E uuid)"
      unfolding SetBootCDOnce_def setBootOrderVM_def vm_Device_def by (intro keeps_intro grows_read [OF findByUUID_read_only]; simp)
    have "grows (if b then powerOffForMedia E vm else retE ())" "grows (if b' then wrapE (wrapf ''power on after insert'') (powerOn E vm) else retE ())"
      by (intro keeps_intro powerOffForMedia_grows; simp)+
    from grows_clock [OF on w] grows_clock [OF this(1) o'] grows_clock [OF disconnect_for_insert_grows d] grows_clock [OF cd_functions_power(1) wrapE_InrE [OF a]]
      grows_clock [OF boot wrapE_InrE [OF c]] grows_clock [OF this(2) k] show ?thesis by linarith
  qed
  moreover have "cached_entry (v_cl s) (w_clock (v_w s4)) (ToLower (TrimSpace uuid)) \<noteq> None \<longrightarrow> vm_ref vm2 = ?ref"
    using findByUUID_same [OF _ f] assms(2) cl4 by simp
  moreover have "cd_free E ?ref (w_calls (v_w s)) (w_calls (v_w s3))"
    using d1 w1 g2 by (auto intro: cd_free_widen prefix_order.trans)
  moreover have "ve_PowerState E (w_calls (v_w s)) ?ref = Inr PoweredOn \<longrightarrow> left_on E ?ref (w_calls (v_w t))"
    using w1 d1 t by auto
  ultimately show ?thesis
    unfolding media_swapped_def using a1 f cl4 time by blast
qed

lemma findByUUID_connected:
  assumes "findByUUID E uuid s = (Inr vm, t)"
  shows "cl_connected (v_cl t)"
proof -
  from assms obtain x s1 where e: "ensure E s = (Inr x, s1)"
    unfolding findByUUID_def by (elim thenE_InrE)
  have e': "ensure E s = (Inr (), s1)" using e by simp
  note c = ensure_Inr [OF e]
  show ?thesis
  proof (cases "cached_entry (v_cl s1) (w_clock (v_w s1)) (ToLower (TrimSpace uuid))")
    case None
    from findByUUID_fresh [OF e' None assms] show ?thesis by (simp add: just_cached_def)
  next
    case (Some v)
    from findByUUID_cached [OF e' Some] assms c show ?thesis by simp
  qed
qed

text \<open>Nothing here touches a client that is connected.\<close>

definition settled :: "vstate \<Rightarrow> vstate \<Rightarrow> bool" where
  "settled s t \<longleftrightarrow> (cl_connected (v_cl s) \<longrightarrow> v_cl t = v_cl s)"

named_theorems settled_intro \<open>functions that leave a connected client alone\<close>

lemma settled_preorder [simp, keeps_intro]: "preorder_rel settled"
  by (auto simp: preorder_rel_def settled_def reflp_def transp_def)

lemma same_client_settled: "keeps same_client m \<Longrightarrow> keeps settled m"
  by (simp add: keeps_def same_client_def settled_def)

lemma settled_prims [settled_intro]:
  "keeps settled (cl_get f)" "keeps settled (do_call E c g)" "keeps settled (sleep E d)" "keeps settled (getE k)"
  "keeps settled (read_file E l)" "keeps settled (os_Stat_size E l)" "keeps settled requireDatastore"
  unfolding os_Stat_size_def requireDatastore_def
  by (rule same_client_settled, intro same_client_intro keeps_intro)+

lemma ensure_settled [settled_intro]: "keeps settled (ensure E)"
  by (simp add: keeps_def settled_def)

lemma datastore_settled [settled_intro]: "keeps settled (datastoreDirExists E p)" "keeps settled (datastoreFileExists E p)"
  unfolding datastoreFileExists_def datastoreDirExists_def by (intro keeps_intro settled_intro)+

lemma uploads_settled [settled_intro]:
  "keeps settled (mkdir_parts E a ps)" "keeps settled (host_uploads E p hs e)" "keeps settled (upload_attempts E l p n)"
proof -
  show "keeps settled (mkdir_parts E a ps)"
    by (induction E a ps rule: mkdir_parts.induct) (simp_all add: keeps_intro settled_intro Let_def)
  show h: "keeps settled (host_uploads E p hs e)" for hs e
    by (induction hs arbitrary: e) (simp_all add: keeps_intro settled_intro)
  have "keeps settled (putISO E l p)"
    unfolding putISO_def putISOViaHost_def putISOViaVC_def by (intro keeps_intro settled_intro h)
  then show "keeps settled (upload_attempts E l p n)"
    by (induction n) (simp_all add: keeps_intro confirm_upload_def settled_intro Let_def)
qed

lemma uploadISOIfNeeded_settled: "keeps settled (uploadISOIfNeeded E l p)"
proof -
  have "keeps settled (ensureISOFolder E)" unfolding ensureISOFolder_def by (intro keeps_intro settled_intro)
  then show ?thesis
    unfolding uploadISOIfNeeded_def upload_serial_def by (intro keeps_intro settled_intro)
qed

section \<open>The image that is inserted\<close>

text \<open>
  \<open>image_bytes\<close>: the bytes of the requested URL, as the cache file held them before or as the whole body
  of a GET of that URL made in this run. \<open>on_datastore\<close>: the datastore file was seen, with a positive size;
  or a directory of its name (which counts as the file); or another upload of it ended well.
\<close>

definition image_bytes :: "vsphere \<Rightarrow> string \<Rightarrow> string option \<Rightarrow> string \<Rightarrow> hist \<Rightarrow> hist \<Rightarrow> bool" where
  "image_bytes E url cached bytes h t \<longleftrightarrow> prefix h t \<and> (cached = Some bytes \<and> bytes \<noteq> []
     \<or> (\<exists>h' code st. prefix h h' \<and> prefix (h' @ [(CHttpGet url, None)]) t \<and>
          ve_HttpGet E h' url = Inr (code, st, bytes, None) \<and> code < 300))"

definition on_datastore :: "vsphere \<Rightarrow> client \<Rightarrow> string \<Rightarrow> hist \<Rightarrow> hist \<Rightarrow> bool" where
  "on_datastore E c dp h t \<longleftrightarrow> prefix h t \<and> (seen_on_datastore E dp h t
     \<or> (let p = TrimChar dp CHR ''/'' in p = [] \<or> (\<exists>h'. prefix h h' \<and> prefix (h' @ [(CSearchDatastore (ds_Path E c p) [], None)]) t))
     \<or> (\<exists>h'. prefix h h' \<and> prefix h' t \<and> ve_InFlight E h' dp = Some None))"

lemma infoFromVM_files: "infoFromVM E vm s = (r, t) \<Longrightarrow> files t = files s"
  by (auto simp: infoFromVM_def vm_Properties_def do_call_def record_call_def bindE_def tryE_def retE_def failE_def Let_def
      split: prod.splits sum.splits option.splits)

lemma downloadISO_Inr:
  assumes "downloadISO E url s = (Inr p, t)"
  shows "p = path_Join [ep_ISOCache (cl_ep (v_cl s)), ISOFileName E url] \<and> (\<exists>bytes. fmlookup (files t) p = Some bytes
    \<and> image_bytes E url (fmlookup (files s) p) bytes (w_calls (v_w s)) (w_calls (v_w t)))"
proof -
  let ?dest = "path_Join [ep_ISOCache (cl_ep (v_cl s)), ISOFileName E url]"
  obtain a u where st: "os_Stat_size E ?dest s = (a, u)" by fastforce
  have k: "(case a of Inr sz \<Rightarrow> if 0 < sz then retE ?dest else fetchISO E url ?dest | Inl _ \<Rightarrow> fetchISO E url ?dest) u = (Inr p, t)"
    using assms st by (simp add: downloadISO_def tryE_def Let_def)
  have ro: "read_only (os_Stat_size E ?dest)" unfolding os_Stat_size_def by (intro keeps_intro read_only_intro)
  note f = os_Stat_size_files [OF st] and g = read_prefix [OF ro st]
  show ?thesis
  proof (cases "\<exists>sz. a = Inr sz \<and> 0 < sz")
    case True
    with k f g show ?thesis by (auto simp: retE_def image_bytes_def)
  next
    case False
    with k have "fetchISO E url ?dest u = (Inr p, t)" by (auto split: sum.splits if_splits)
    then obtain code status body ce v where get: "do_call E (CHttpGet url) (\<lambda>h. ve_HttpGet E h url) u = (Inr (code, status, body, ce), v)"
      and sb: "(if 300 \<le> code then failE (errorf (''GET '' @ url @ '': '' @ status)) else store_body E ?dest body ce) v = (Inr p, t)"
      unfolding fetchISO_def by (auto elim!: bindE_InrE)
    then have code: "code < 300" and sb: "store_body E ?dest body ce v = (Inr p, t)" by (auto simp: failE_def split: if_splits)
    have "read_only (store_body E ?dest body ce)" unfolding store_body_def Let_def by (intro keeps_intro read_only_intro)
    from read_prefix [OF this sb] do_call_Inr [OF get]
    have pre: "prefix (w_calls (v_w u) @ [(CHttpGet url, None)]) (w_calls (v_w t))"
      and ans: "ve_HttpGet E (w_calls (v_w u)) url = Inr (code, status, body, ce)" by simp_all
    from pre g have pt: "prefix (w_calls (v_w s)) (w_calls (v_w t))" by (meson append_prefixD prefix_order.trans)
    from store_body_files [OF sb] have sf: "p = ?dest" "ce = None" "fmlookup (files t) ?dest = Some body" by simp_all
    have "image_bytes E url x body (w_calls (v_w s)) (w_calls (v_w t))" for x
      unfolding image_bytes_def using pt pre g ans [unfolded sf(2)] code by blast
    with sf show ?thesis by simp
  qed
qed

lemma contentISOName_Inr:
  assumes "contentISOName E p s = (Inr name, t)" "fmlookup (files s) p = Some bytes"
  shows "name = hex_encode (take 8 (ve_sha256 E bytes)) @ ''.iso''"
proof -
  from assms(1) obtain b s1 where r: "read_file E p s = (Inr b, s1)" and n: "name = hex_encode (take 8 (ve_sha256 E b)) @ ''.iso''"
    unfolding contentISOName_def by (auto simp: retE_def elim!: bindE_InrE)
  from r obtain x u where o': "os_call E ''open'' p s = (Inr x, u)"
    and k: "bindE (files_get (\<lambda>m. fmlookup m p)) (\<lambda>b. case b of
       None \<Rightarrow> failE (no_such_file ''open'' p) | Some bytes \<Rightarrow> thenE (os_call E ''read'' p) (retE bytes)) u = (Inr b, s1)"
    unfolding read_file_def by (rule thenE_InrE)
  have "fmlookup (files u) p = Some bytes" using os_call_files [OF o'] assms(2) by simp
  with k have "thenE (os_call E ''read'' p) (retE bytes) u = (Inr b, s1)" by (simp add: files_get_def)
  then have "b = bytes" by (rule thenE_InrE) (simp add: retE_def)
  with n show ?thesis by simp
qed

lemma datastoreFileExists_there:
  assumes "datastoreFileExists E dp s = (Inr (True, n), t)" "cl_connected (v_cl s)"
  shows "on_datastore E (v_cl s) dp (w_calls (v_w s)) (w_calls (v_w t))"
proof -
  let ?k = "\<lambda>r. case r of
         Inr info \<Rightarrow> let sz = fileInfoSize info in retE (0 < sz, sz)
       | Inl e \<Rightarrow>
           if err_kind e = ENoSuchFile then bindE (datastoreDirExists E dp) (\<lambda>okDir. retE (okDir, 0))
           else if err_kind e = ENoSuchDirectory then retE (False, 0)
           else if says_missing e then bindE (datastoreDirExists E dp) (\<lambda>okDir. retE (okDir, 0))
           else failE e"
  from assms(1) obtain x s1 y s2 where e: "ensure E s = (Inr x, s1)" "requireDatastore s1 = (Inr y, s2)"
    and tr: "tryE (do_call E (CStat dp) (\<lambda>h. ve_Stat E h dp)) ?k s2 = (Inr (True, n), t)"
    unfolding datastoreFileExists_def by (elim thenE_InrE)
  have "s2 = s" using e assms(2) requireDatastore_run by fastforce
  with tr obtain r u where c: "do_call E (CStat dp) (\<lambda>h. ve_Stat E h dp) s = (r, u)" and k: "?k r u = (Inr (True, n), t)"
    by (auto elim: tryE_E)
  show ?thesis
  proof (cases r)
    case (Inr info)
    with k do_call_Inr [OF c [unfolded Inr]] show ?thesis
      by (auto simp: on_datastore_def seen_on_datastore_def run_prims Let_def intro!: exI [of _ "w_calls (v_w s)"])
  next
    case (Inl e)
    with k have d: "datastoreDirExists E dp u = (Inr True, t)" by (auto simp: run_prims split: if_splits elim!: bindE_InrE)
    note c1 = do_call_Inl [OF c [unfolded Inl]]
    have pre: "prefix (w_calls (v_w s)) (w_calls (v_w t))" using c1 read_prefix [OF datastoreDirExists_read_only d] by (auto dest: append_prefixD)
    let ?p = "TrimChar dp CHR ''/''"
    show ?thesis
    proof (cases "?p = []")
      case True
      with pre show ?thesis by (simp add: on_datastore_def)
    next
      case False
      with d obtain y u1 r u2 where b: "do_call E CBrowser (ve_Browser E) u = (Inr y, u1)"
        and sd: "do_call E (CSearchDatastore (ds_Path E (v_cl u1) ?p) []) (\<lambda>h. ve_SearchDatastore E h (ds_Path E (v_cl u1) ?p) []) u1 = (r, u2)"
        and k2: "(case r of Inl e \<Rightarrow> if says_missing e then retE False else failE e | Inr _ \<Rightarrow> retE True) u2 = (Inr True, t)"
        by (auto simp: datastoreDirExists_def elim!: thenE_InrE tryE_E)
      from k2 obtain z where "r = Inr z" "t = u2" by (auto simp: run_prims split: sum.splits if_splits)
      with do_call_Inr [OF b] do_call_Inr [of E _ _ u1 z u2] sd c1
      have "v_cl u1 = v_cl s" "w_calls (v_w t) = w_calls (v_w u1) @ [(CSearchDatastore (ds_Path E (v_cl u1) ?p) [], None)]"
        "prefix (w_calls (v_w s)) (w_calls (v_w u1))" by auto
      with False pre show ?thesis unfolding on_datastore_def Let_def by (metis prefix_order.refl)
    qed
  qed
qed

lemma uploadISOIfNeeded_Inr:
  assumes "uploadISOIfNeeded E l dp s = (Inr b, t)" "cl_connected (v_cl s)"
  shows "on_datastore E (v_cl s) dp (w_calls (v_w s)) (w_calls (v_w t))"
proof -
  have pre: "prefix (w_calls (v_w s)) (w_calls (v_w t))" using assms(1) by (rule calls_prefix [OF adds_uploadISOIfNeeded])
  from assms(1) obtain ex n u1 where d: "datastoreFileExists E dp s = (Inr (ex, n), u1)"
    and k: "(if ex then retE False else bindE (getE (\<lambda>s. ve_InFlight E (w_calls (v_w s)) dp)) (\<lambda>call. case call of
         Some (Some e) \<Rightarrow> failE e | Some None \<Rightarrow> retE False | None \<Rightarrow> upload_serial E l dp)) u1 = (Inr b, t)"
    unfolding uploadISOIfNeeded_def by (auto elim!: bindE_InrE)
  note p1 = read_prefix [OF datastoreFileExists_read_only d]
  have con: "v_cl u1 = v_cl s" using keepsD [OF datastore_settled(2) d] assms(2) by (simp add: settled_def)
  show ?thesis
  proof (cases ex)
    case True
    with d k datastoreFileExists_there [of E dp s n u1] assms(2) show ?thesis by (simp add: run_prims)
  next
    case False
    with k consider "ve_InFlight E (w_calls (v_w u1)) dp = Some None" "t = u1" | "upload_serial E l dp u1 = (Inr b, t)"
      by (auto simp: run_prims split: option.splits)
    then show ?thesis
    proof cases
      case 1
      with p1 show ?thesis by (auto simp: on_datastore_def)
    next
      case 2
      show ?thesis
      proof (cases b)
        case True
        with 2 have "upload_serial E l dp u1 = (Inr True, t)" by simp
        from upload_serial_Inr [OF this] obtain h where "upload_accepted (w_calls (v_w u1)) h" "seen_on_datastore E dp h (w_calls (v_w t))" by blast
        moreover from this(1) have "prefix (w_calls (v_w u1)) h"
          unfolding upload_accepted_def by (meson append_prefixD prefix_order.trans)
        ultimately have "seen_on_datastore E dp (w_calls (v_w s)) (w_calls (v_w t))"
          using p1 by (meson seen_widen prefix_order.trans prefix_order.refl)
        with pre show ?thesis by (simp add: on_datastore_def)
      next
        case False
        with 2 obtain n2 where "datastoreFileExists E dp u1 = (Inr (True, n2), t)"
          by (auto simp: upload_serial_def run_prims getE_run ignoreE_def elim!: bindE_InrE thenE_InrE tryE_E split: if_splits
              dest!: upload_attempts_Inr)
        from datastoreFileExists_there [OF this] assms(2) con p1 show ?thesis
          by (auto simp: on_datastore_def Let_def intro: seen_widen prefix_order.trans)
      qed
    qed
  qed
qed

lemma uploadISOIfNeeded_grows: "grows (uploadISOIfNeeded E l p)"
  by (rule keeps_grows [OF uploadISOIfNeeded_calls])

text \<open>The drive was seen connected to the file (compared without case and blanks).\<close>

definition already_inserted :: "vsphere \<Rightarrow> string \<Rightarrow> client \<Rightarrow> string \<Rightarrow> hist \<Rightarrow> hist \<Rightarrow> bool" where
  "already_inserted E ref c path h t \<longleftrightarrow> (\<exists>d. prefix (h @ [(CDevice ref, None)]) t \<and> ve_Device E h ref = Inr d \<and>
     snd (cdromState d) \<and> cl_ds c \<noteq> None \<and> isoPathsEqual (fst (cdromState d)) path)"

lemma insert_staged_Inr:
  assumes "insert_staged E uuid url vm dsPath s = (Inr u, t)" "remembers uuid (vm_ref vm) (v_cl s)"
  shows "ms_Image (MediaStatus uuid (v_cl t)) = url
    \<and> (already_inserted E (vm_ref vm) (v_cl s) (ds_Path E (v_cl s) dsPath) (w_calls (v_w s)) (w_calls (v_w t))
      \<or> media_swapped E uuid (vm_ref vm) (ds_Path E (v_cl s) dsPath) (v_cl s) (w_clock (v_w s)) (w_clock (v_w t)) (w_calls (v_w s)) (w_calls (v_w t)))"
proof -
  let ?path = "ds_Path E (v_cl s) dsPath" and ?want = "if cl_ds (v_cl s) \<noteq> None then ds_Path E (v_cl s) dsPath else []"
  from assms(1) obtain d s6 where dv: "vm_Device E vm s = (Inr d, s6)" and
    k: "(let (prev, connected) = cdromState d in
           if connected \<and> isoPathsEqual prev ?want then set_media uuid url
           else thenE (swap_media E uuid vm dsPath) (set_media uuid url)) s6 = (Inr u, t)"
    unfolding insert_staged_def bind_prims by (rule bindE_InrE)
  note dv1 = do_call_Inr [OF dv [unfolded vm_Device_def]]
  show ?thesis
  proof (cases "snd (cdromState d) \<and> isoPathsEqual (fst (cdromState d)) ?want")
    case True
    with k have "set_media uuid url s6 = (Inr u, t)" by (simp add: case_prod_beta Let_def)
    then have "ms_Image (MediaStatus uuid (v_cl t)) = url" "w_calls (v_w t) = w_calls (v_w s6)"
      by (auto simp: set_media_def run_prims MediaStatus_def)
    moreover have "\<not> isoPathsEqual x []" for x
    proof -
      have "normISOPath [] = []" by code_simp
      then show ?thesis by (simp add: isoPathsEqual_def Let_def)
    qed
    ultimately show ?thesis using True dv1 by (auto simp: already_inserted_def split: if_splits)
  next
    case False
    have "thenE (swap_media E uuid vm dsPath) (set_media uuid url) s6 = (Inr u, t)"
      using k False by (simp add: case_prod_beta Let_def split: if_splits)
    then obtain x s7 where sw: "swap_media E uuid vm dsPath s6 = (Inr x, s7)" and sm: "set_media uuid url s7 = (Inr u, t)"
      by (rule thenE_InrE)
    have "w_calls (v_w t) = w_calls (v_w s7)" "w_clock (v_w t) = w_clock (v_w s7)" "ms_Image (MediaStatus uuid (v_cl t)) = url"
      using sm by (auto simp: set_media_def run_prims MediaStatus_def)
    moreover have "media_swapped E uuid (vm_ref vm) ?path (v_cl s) (w_clock (v_w s6)) (w_clock (v_w s7)) (w_calls (v_w s6)) (w_calls (v_w s7))"
      using swap_media_Inr [OF sw] dv1 assms(2) by simp
    moreover have "w_clock (v_w s) \<le> w_clock (v_w s6)"
    proof -
      have "grows (vm_Device E vm)" unfolding vm_Device_def by (intro keeps_intro; simp)
      then show ?thesis using dv by (rule grows_clock)
    qed
    ultimately show ?thesis using dv1 by (auto intro: media_swapped_widen)
  qed
qed

lemma InsertMedia_staged:
  assumes "findByUUID E uuid s = (Inr vm, s1)" and "InsertMedia E uuid url s = (Inr u, t)"
  obtains bytes dsPath s4 s5 where "insert_staged E uuid url vm dsPath s5 = (Inr u, t)"
    and "dsPath = isoDSPath (cl_ep (v_cl s1)) (hex_encode (take 8 (ve_sha256 E bytes)) @ ''.iso'')"
    and "image_bytes E url (fmlookup (files s1) (path_Join [ep_ISOCache (cl_ep (v_cl s1)), ISOFileName E url])) bytes
      (w_calls (v_w s1)) (w_calls (v_w (s4 :: vstate)))"
    and "on_datastore E (v_cl s1) dsPath (w_calls (v_w s4)) (w_calls (v_w s5))" and "v_cl s5 = v_cl s1"
    and "w_clock (v_w s1) \<le> w_clock (v_w s5)"
proof -
  have con1: "cl_connected (v_cl s1)" using assms(1) by (rule findByUUID_connected)
  have "bindE (infoFromVM E vm) (\<lambda>info. bindE (cl_get cl_ep) (\<lambda>ep.
       if \<not> allow ep (si_Name info) then failE (errorf (''system '' @ uuid @ '' not allowed''))
       else
         bindE (wrapE (wrapf ''download iso'') (downloadISO E url)) (\<lambda>local.
         bindE (wrapE (wrapf ''hash iso'') (contentISOName E local)) (\<lambda>contentName.
         let dsPath = isoDSPath ep contentName in
         bindE (wrapE (wrapf ''upload iso'') (uploadISOIfNeeded E local dsPath)) (\<lambda>_.
         insert_staged E uuid url vm dsPath))))) s1 = (Inr u, t)"
    using assms by (simp add: InsertMedia_def bindE_run)
  then obtain info s2 local s3 name s4 up s5 where i: "infoFromVM E vm s1 = (Inr info, s2)"
    and dl: "downloadISO E url s2 = (Inr local, s3)"
    and cn: "contentISOName E local s3 = (Inr name, s4)"
    and uq: "uploadISOIfNeeded E local (isoDSPath (cl_ep (v_cl s2)) name) s4 = (Inr up, s5)"
    and k: "insert_staged E uuid url vm (isoDSPath (cl_ep (v_cl s2)) name) s5 = (Inr u, t)"
    by (auto simp: run_prims Let_def split: if_splits elim!: bindE_InrE dest!: wrapE_InrE)
  have cl2: "v_cl s2 = v_cl s1" using i by (rule same_clientD [OF infoFromVM_client])
  have cl3: "v_cl s3 = v_cl s1" using same_clientD [OF downloadISO_client dl] cl2 by simp
  have "keeps same_client (contentISOName E local)" unfolding contentISOName_def by (intro keeps_intro same_client_intro)
  from same_clientD [OF this cn] have cl4: "v_cl s4 = v_cl s1" using cl3 by simp
  have cl5: "v_cl s5 = v_cl s1" using keepsD [OF uploadISOIfNeeded_settled uq] con1 cl4 by (simp add: settled_def)
  let ?file = "path_Join [ep_ISOCache (cl_ep (v_cl s1)), ISOFileName E url]"
  from downloadISO_Inr [OF dl] cl2 infoFromVM_files [OF i] obtain bytes where "local = ?file" "fmlookup (files s3) local = Some bytes"
    "image_bytes E url (fmlookup (files s1) ?file) bytes (w_calls (v_w s2)) (w_calls (v_w s3))" by auto
  moreover from this(2) have "name = hex_encode (take 8 (ve_sha256 E bytes)) @ ''.iso''" by (rule contentISOName_Inr [OF cn])
  moreover have "image_bytes E url (fmlookup (files s1) ?file) bytes (w_calls (v_w s1)) (w_calls (v_w s4))"
    using calculation(3) read_prefix [OF infoFromVM_read_only i] read_prefix [OF contentISOName_read_only cn]
    unfolding image_bytes_def by (meson prefix_order.trans)
  moreover have "on_datastore E (v_cl s1) (isoDSPath (cl_ep (v_cl s2)) name) (w_calls (v_w s4)) (w_calls (v_w s5))"
    using uploadISOIfNeeded_Inr [OF uq] con1 cl4 by simp
  moreover have "w_clock (v_w s1) \<le> w_clock (v_w s5)"
    using grows_clock [OF grows_read [OF infoFromVM_read_only] i] grows_clock [OF grows_read [OF downloadISO_read_only] dl]
      grows_clock [OF grows_read [OF contentISOName_read_only] cn] grows_clock [OF uploadISOIfNeeded_grows uq] by linarith
  ultimately show thesis
    using k cl2 cl5 by (intro that [of "isoDSPath (cl_ep (v_cl s2)) name" s5 bytes s4]) simp_all
qed


definition demo_nocd :: vsphere where
  "demo_nocd = demo_vs\<lparr>ve_Device := (\<lambda>_ _. Inr (demo_devices\<lparr>dl_cdroms := []\<rparr>)), ve_PowerState := (\<lambda>_ _. Inr PoweredOff)\<rparr>"

lemma demo_insert: "fst (InsertMedia demo_nocd ''AA-BB'' ''https://img'' demo_ready) = Inr ()"
proof -
  have f: "NormalizeDatastore ''DS'' = ''DS''" by code_simp
  have ds: "datastoreFileExists demo_nocd p s = (Inr (True, 2097152), s\<lparr>v_w := record_call demo_nocd (CStat p) None (v_w s)\<rparr>)"
    if "v_cl s = demo_conn" for p s
    using that by (simp add: datastoreFileExists_def requireDatastore_def io_simps do_call_def outcome_def demo_nocd_def f
        demo_conn_def demo_defs Let_def)
  have fb: "SetBootCDOnce demo_nocd ''AA-BB'' s = setBootOrderVM demo_nocd demo_at [''cdrom'', ''disk''] s"
    if "v_cl s = demo_conn" "w_clock (v_w s) = 0" for s
  proof -
    have "ToLower (TrimSpace ''AA-BB'') = ''aa-bb''" by code_simp
    then have "findByUUID demo_nocd ''AA-BB'' s = (Inr demo_at, s)" using that
      by (intro findByUUID_cached) (simp_all add: demo_conn_def cached_entry_def demo_at_def uuidCacheTTL_def second_def)
    then show ?thesis by (simp add: SetBootCDOnce_def bindE_run)
  qed
  have fields: "ve_latency demo_nocd h = 0" "ve_Os demo_nocd h a b = Inr ()" "ve_HttpGet demo_nocd h a = Inr (200, ''200 OK'', ''iso'', None)"
      "ve_Device demo_nocd h a = Inr (demo_devices\<lparr>dl_cdroms := []\<rparr>)" "ve_PowerState demo_nocd h a = Inr PoweredOff"
      "ve_Reconfigure demo_nocd h a c = Inr ()" "ve_WaitTask demo_nocd h a = (0, TaskDone None)" "ve_Question demo_nocd h a = Inr None"
      "ve_SetBootOptions demo_nocd h a ds = Inr ()" "ve_Hardware demo_nocd h a = Inr (Some \<lparr>hw_MemoryMB = 4096, hw_NumCPU = 2\<rparr>)"
      "ve_Properties demo_nocd h a = Inr \<lparr>pr_Name = ''node1'', pr_Uuid = Some ''aa-bb'', pr_Power = PoweredOn\<rparr>"
      for h a b c ds
    by (simp_all add: demo_nocd_def demo_vs_def)
  have al: "allow demo_ep n" "cl_ep demo_conn = demo_ep" "cl_ds demo_conn = Some ''DS''" for n by (simp_all add: demo_conn_def demo_defs)
  have rdy: "v_cl demo_ready = demo_conn" "w_clock (v_w demo_ready) = 0" "w_calls (v_w demo_ready) = []" "w_files (v_w demo_ready) = fmempty"
    by (simp_all add: demo_ready_def demo_world_def)
  have dd: "dl_FindIDE demo_devices = Inr ''ide0''"
    "dl_CreateCdrom demo_devices x = Inr (demo_cd\<lparr>cd_Backing := Atapi, cd_Connectable := None\<rparr>)" for x
    by (simp_all add: demo_devices_def)
  show ?thesis
    unfolding InsertMedia_def
    by (simp add: bindE_run demo_ready_find infoFromVM_def vm_Properties_def downloadISO_def os_Stat_size_def os_call_def files_get_def fetchISO_def
        store_body_def files_mod_def contentISOName_def read_file_def uploadISOIfNeeded_def ds
        insert_staged_def vm_Device_def cdromState_def swap_media_def was_on_def vm_PowerState_def disconnect_for_insert_def
        disconnectCDROM_def ensureMsgAutoAnswer_def task_Wait_def task_result_def answerPendingQuestions_def attachCDROM_def
        reconfigure_wait_def waitTask_def fb setBootOrderVM_def set_media_def
        io_simps do_call_def record_call_def outcome_def fields al rdy dd Let_def)
qed


definition demo_stuck :: vsphere where
  "demo_stuck = demo_vs\<lparr>
     ve_PowerState := (\<lambda>h ref. Inr (if (CShutdownGuest ref, None) \<in> set h then PoweredOff else PoweredOn)),
     ve_Reconfigure := (\<lambda>h ref spec. case spec of ExtraConfig _ \<Rightarrow> Inr ()
       | _ \<Rightarrow> Inl (errorf (if (CShutdownGuest ref, None) \<in> set h then ''bus error'' else ''device is locked'')))\<rparr>"

text \<open>
  A failing eject can leave the VM off. The power state is restored only at the end of a successful
  eject: with a drive that is locked while the VM runs and fails for another reason once it is off, the
  VM that was on is shut down, the eject returns the error, and no power-on is ever sent.
\<close>

theorem failed_eject_leaves_vm_off:
  "let (r, t) = EjectMedia demo_stuck ''AA-BB'' demo_ready in
   (\<exists>e. r = Inl e) \<and> ve_PowerState demo_stuck (w_calls (v_w demo_ready)) ''vm-1'' = Inr PoweredOn
   \<and> ve_PowerState demo_stuck (w_calls (v_w t)) ''vm-1'' = Inr PoweredOff
   \<and> CPowerOn ''vm-1'' \<notin> fst ` set (w_calls (v_w t))"
proof -
  have lk: "isCDROMConnectionLocked (errorf ''device is locked'')" "\<not> isCDROMConnectionLocked (errorf ''bus error'')"
    by code_simp+
  have step: "EjectMedia demo_stuck ''AA-BB'' demo_ready =
    bindE (was_on demo_stuck demo_at) (\<lambda>wasOn.
     thenE (eject_detach demo_stuck demo_at)
     (thenE (wrapE (wrapf ''restore disk boot after eject'') (setBootDiskFirstVM demo_stuck demo_at))
     (thenE (cl_mod (\<lambda>c. c\<lparr>cl_mediaISO := fmdrop (ToLower ''AA-BB'') (cl_mediaISO c)\<rparr>))
       (if wasOn then wrapE (wrapf ''restore power after eject'') (powerOn demo_stuck demo_at) else retE ())))) demo_ready"
    by (simp add: EjectMedia_def bindE_run demo_ready_find)
  have fields: "ve_latency demo_stuck h = 0" "ve_cancelled demo_stuck h = None" "ve_Question demo_stuck h a = Inr None"
      "ve_PowerState demo_stuck h ref = Inr (if (CShutdownGuest ref, None) \<in> set h then PoweredOff else PoweredOn)"
      "ve_Reconfigure demo_stuck h ref (ExtraConfig xs) = Inr ()"
      "ve_Reconfigure demo_stuck h ref (DeviceEdit cd) = Inl (errorf (if (CShutdownGuest ref, None) \<in> set h then ''bus error'' else ''device is locked''))"
      "ve_WaitTask demo_stuck h a = (0, TaskDone None)" "ve_Device demo_stuck h a = Inr demo_devices" "ve_ShutdownGuest demo_stuck h a = Inr ()"
      for h a ref xs cd
    by (simp_all add: demo_stuck_def demo_vs_def)
  have dd: "dl_cdroms demo_devices = [demo_cd]" by (simp add: demo_devices_def)
  have rdy: "w_calls (v_w demo_ready) = []" "vm_ref demo_at = ''vm-1''" "w_clock (v_w demo_ready) = 0"
    by (simp_all add: demo_ready_def demo_world_def demo_at_def)
  show ?thesis
    unfolding step was_on_def eject_detach_def detachCDROM_def eject_power_off_def softPowerOff_def
      vm_PowerState_def vm_Device_def ensureMsgAutoAnswer_def task_Wait_def task_result_def answerPendingQuestions_def
      waitTask_def reconfigure_wait_def
    by (simp add: io_simps do_call_def record_call_def outcome_def soft_loop.simps vm_PowerState_def fields dd lk rdy Let_def)
qed

end
