(* ===== verification/Vsphere_Probe.thy ===== *)
theory Vsphere_Probe
  imports Vsphere_Iso Vsphere_Power
begin

text \<open>
  Status for the admin UI (\<open>internal/vsphere/probe.go\<close>): the health probe of a vCenter, the live status of
  a mapped VM, and the connection test with its list of checks. \<open>ProbeHealth\<close> and \<open>RunConnectionTest\<close>
  open a client of their own and close it; they run on the process state. \<open>url.Parse\<close> is seen through
  \<open>ve_URLOk\<close>, the host of a URL through \<open>ve_URLHost\<close>.
\<close>

section \<open>Health\<close>

record health_probe =
  hp_Connection :: light
  hp_ConnDetail :: string
  hp_ISOCache :: light
  hp_ISODetail :: string
  hp_FolderOK :: bool
  hp_FolderPath :: string
  hp_OK :: bool

text \<open>The middle dot of the messages, in UTF-8.\<close>

definition mdot :: string where "mdot = [CHR '' '', CHR 0xC2, CHR 0xB7, CHR '' '']"

definition isNetErr :: "verr \<Rightarrow> bool" where
  "isNetErr e = (let msg = ToLower (err_text e) in
     Contains msg ''no such host'' \<or> Contains msg ''connection refused'' \<or> Contains msg ''i/o timeout''
     \<or> Contains msg ''dial tcp'' \<or> Contains msg ''network is unreachable'')"

definition verifyFolderExists :: "vsphere \<Rightarrow> string \<Rightarrow> unit vio" where
  "verifyFolderExists E folder =
     (let folder = TrimSpace folder in
      if folder = [] then retE ()
      else bindE (do_call E (CFindByInventoryPath folder) (\<lambda>h. ve_FindByInventoryPath E h folder)) (\<lambda>ref.
        let alt = ReplaceFirst (ReplaceFirst folder ''/VMs/'' ''/vm/'') ''/vms/'' ''/vm/'' in
        bindE (if ref = None \<and> alt \<noteq> folder
               then do_call E (CFindByInventoryPath alt) (\<lambda>h. ve_FindByInventoryPath E h alt)
               else retE ref) (\<lambda>ref.
          if ref = None then failE (errorf (go_quote folder @ '' not found'')) else retE ())))"

definition probeISOFolder :: "vsphere \<Rightarrow> unit vio" where
  "probeISOFolder E = bindE (cl_get cl_ep) (\<lambda>ep.
     let folder = TrimChar (ep_ISOFolder ep) CHR ''/'' in
     if folder = [] then retE ()
     else bindE (datastoreDirExists E folder) (\<lambda>ok.
       if \<not> ok then failE (errorf (''ISO folder '' @ go_quote folder @ '' not found on datastore (created on first upload)''))
       else retE ()))"

text \<open>The classification of a failed login.\<close>

definition probe_login_failed :: "verr \<Rightarrow> health_probe \<Rightarrow> health_probe" where
  "probe_login_failed e out =
     (let msg = err_text e; out = out\<lparr>hp_ConnDetail := msg, hp_ISODetail := msg\<rparr>; lower = ToLower msg in
      if Contains lower ''login'' \<or> Contains lower ''datacenter'' \<or> Contains lower ''datastore''
         \<or> Contains lower ''password'' \<or> Contains lower ''unauthorized''
      then out\<lparr>hp_Connection := LightYellow, hp_ISOCache := LightYellow\<rparr>
      else if isNetErr e then out\<lparr>hp_Connection := LightRed, hp_ISOCache := LightRed\<rparr>
      else out\<lparr>hp_Connection := LightYellow, hp_ISOCache := LightYellow\<rparr>)"

definition probe_folder :: "vsphere \<Rightarrow> endpoint \<Rightarrow> health_probe \<Rightarrow> health_probe vio" where
  "probe_folder E ep out =
     (let folder = TrimSpace (ep_Folder ep) in
      if folder \<noteq> [] then
        tryE (verifyFolderExists E folder) (\<lambda>r. case r of
            Inl e \<Rightarrow> retE (out\<lparr>hp_Connection := LightYellow,
                hp_ConnDetail := ''connected, but folder: '' @ err_text e, hp_FolderOK := False\<rparr>)
          | Inr _ \<Rightarrow> retE (out\<lparr>hp_FolderOK := True,
                hp_ConnDetail := (if ep_Datastore ep \<noteq> []
                  then ''connected'' @ mdot @ ''datacenter, datastore, and folder OK''
                  else ''connected'' @ mdot @ ''datacenter and folder OK'' @ mdot @ ''datastore not set'')\<rparr>))
      else retE (out\<lparr>hp_FolderOK := True\<rparr>))"

definition probe_iso :: "vsphere \<Rightarrow> endpoint \<Rightarrow> health_probe \<Rightarrow> health_probe vio" where
  "probe_iso E ep out = tryE (datastoreFileExists E (TrimChar (ep_ISOFolder ep) CHR ''/'')) (\<lambda>r. retE (case r of
       Inl e \<Rightarrow>
         if says_missing e
         then out\<lparr>hp_ISOCache := LightYellow,
           hp_ISODetail := ''datastore OK; ISO folder '' @ go_quote (ep_ISOFolder ep) @ '' not found yet''\<rparr>
         else out\<lparr>hp_ISOCache := LightRed, hp_ISODetail := err_text e\<rparr>
     | Inr (exists, _) \<Rightarrow>
         if exists
         then out\<lparr>hp_ISOCache := LightGreen,
           hp_ISODetail := ''datastore '' @ ep_Datastore ep @ mdot @ ''folder '' @ ep_ISOFolder ep\<rparr>
         else out\<lparr>hp_ISOCache := LightYellow,
           hp_ISODetail := ''datastore OK; ISO folder '' @ go_quote (ep_ISOFolder ep) @ '' missing (will be created on upload)''\<rparr>))"

definition probe_iso_folder :: "vsphere \<Rightarrow> endpoint \<Rightarrow> health_probe \<Rightarrow> health_probe vio" where
  "probe_iso_folder E ep out =
     (if hp_ISOCache out = LightRed then retE out
      else tryE (probeISOFolder E) (\<lambda>r. retE (case r of
          Inl e \<Rightarrow> out\<lparr>hp_ISOCache := LightYellow, hp_ISODetail := err_text e\<rparr>
        | Inr _ \<Rightarrow> out\<lparr>hp_ISOCache := LightGreen,
            hp_ISODetail := ''datastore '' @ ep_Datastore ep @ mdot @ ''folder '' @ ep_ISOFolder ep @ '' reachable''\<rparr>)))"

text \<open>What follows a login and a datacenter that are fine.\<close>

definition probe_connected :: "vsphere \<Rightarrow> endpoint \<Rightarrow> health_probe \<Rightarrow> health_probe vio" where
  "probe_connected E ep out =
     (let out = out\<lparr>hp_Connection := LightGreen,
            hp_ConnDetail := (if ep_Datastore ep \<noteq> [] then ''connected'' @ mdot @ ''datacenter and datastore OK''
              else ''connected'' @ mdot @ ''datacenter OK'' @ mdot @ ''datastore not set'')\<rparr> in
      bindE (probe_folder E ep out) (\<lambda>out.
        if ep_Datastore ep = [] then
          retE (out\<lparr>hp_ISOCache := LightYellow,
            hp_ISODetail := ''datastore not set (ISO staging unavailable until you set a real datastore name)'',
            hp_OK := (hp_Connection out = LightGreen \<or> hp_Connection out = LightYellow)\<rparr>)
        else bindE (probe_iso E ep out) (\<lambda>out. bindE (probe_iso_folder E ep out) (\<lambda>out.
          retE (out\<lparr>hp_OK := ((hp_Connection out = LightGreen \<or> hp_Connection out = LightYellow)
            \<and> (hp_ISOCache out = LightGreen \<or> hp_ISOCache out = LightYellow))\<rparr>)))))"

definition probe_session :: "vsphere \<Rightarrow> endpoint \<Rightarrow> health_probe \<Rightarrow> health_probe vio" where
  "probe_session E ep out = tryE (ensure E) (\<lambda>r. case r of
       Inl e \<Rightarrow> retE (probe_login_failed e out)
     | Inr _ \<Rightarrow> probe_connected E ep out)"

text \<open>\<open>defer func() { _ = c.Close(ctx) }()\<close> around what is done with a new client.\<close>

definition with_client :: "vsphere \<Rightarrow> client \<Rightarrow> 'a vio \<Rightarrow> world \<Rightarrow> (verr + 'a) \<times> world" where
  "with_client E c m w = (case m \<lparr>v_cl = c, v_w = w\<rparr> of (r, s) \<Rightarrow> (r, v_w (snd (client_Close E s))))"

definition ProbeHealth :: "vsphere \<Rightarrow> endpoint \<Rightarrow> world \<Rightarrow> health_probe \<times> world" where
  "ProbeHealth E ep w =
     (let out = \<lparr>hp_Connection = LightRed, hp_ConnDetail = [], hp_ISOCache = LightRed, hp_ISODetail = [],
                 hp_FolderOK = False, hp_FolderPath = ep_Folder ep, hp_OK = False\<rparr>;
          ep = ep\<lparr>ep_Datastore := NormalizeDatastore (ep_Datastore ep)\<rparr>
      in if \<not> ve_URLOk E (ep_URL ep) \<or> ep_URL ep = [] then
           (out\<lparr>hp_ConnDetail := ''invalid URL'', hp_ISODetail := ''skipped''\<rparr>, w)
         else case NewClient E ep w of
           (Inl e, w) \<Rightarrow> (out\<lparr>hp_ConnDetail := err_text e, hp_ISODetail := ''skipped''\<rparr>, w)
         | (Inr c, w) \<Rightarrow> (case with_client E c (probe_session E ep out) w of
               (Inr out, w) \<Rightarrow> (out, w)
             | (Inl _, w) \<Rightarrow> (out, w)))"

section \<open>Status of a mapping\<close>

record mapping_status =
  mst_UUID :: string
  mst_Found :: bool
  mst_Light :: light
  mst_PowerState :: string
  mst_Name :: string
  mst_Path :: string
  mst_CDROMISO :: string
  mst_Error :: string

definition cd_conn_state :: "cdrom \<Rightarrow> bool" where
  "cd_conn_state cd = (case cd_Connectable cd of Some c \<Rightarrow> cn_Connected c | None \<Rightarrow> False)"

definition cdromISOPathProps :: "vsphere \<Rightarrow> vm_obj \<Rightarrow> (string \<times> bool) vio" where
  "cdromISOPathProps E vm =
     bindE (do_call E (CProperties (vm_ref vm) [''config.hardware.device'']) (\<lambda>h. ve_PropDevices E h (vm_ref vm))) (\<lambda>m.
       retE (case m of None \<Rightarrow> ([], False) | Some [] \<Rightarrow> ([], False)
         | Some (cd # _) \<Rightarrow> (case cd_Backing cd of IsoBacking f \<Rightarrow> f | _ \<Rightarrow> [], cd_conn_state cd)))"

definition cdromStatus :: "vsphere \<Rightarrow> vm_obj \<Rightarrow> (string \<times> bool) vio" where
  "cdromStatus E vm = tryE (vm_Device E vm) (\<lambda>r. case r of
       Inl _ \<Rightarrow> cdromISOPathProps E vm
     | Inr devices \<Rightarrow> retE (case dl_cdroms devices of [] \<Rightarrow> ([], False)
         | cd # _ \<Rightarrow> (case cd_Backing cd of IsoBacking f \<Rightarrow> f | _ \<Rightarrow> [], cd_conn_state cd)))"

definition cdromISOPath :: "vsphere \<Rightarrow> vm_obj \<Rightarrow> string vio" where
  "cdromISOPath E vm = bindE (cdromStatus E vm) (\<lambda>(f, _).
     if f = [] then failE (errorf ''no cdrom'') else retE f)"

definition status_found :: "vsphere \<Rightarrow> vm_obj \<Rightarrow> mapping_status \<Rightarrow> mapping_status vio" where
  "status_found E vm out = tryE (infoFromVM E vm) (\<lambda>r. case r of
       Inl e \<Rightarrow> retE (out\<lparr>mst_Light := LightYellow, mst_Error := err_text e\<rparr>)
     | Inr info \<Rightarrow>
         let out = out\<lparr>mst_Name := si_Name info, mst_PowerState := si_PowerState info,
               mst_Light := power_light (si_PowerState info)\<rparr> in
         tryE (cdromStatus E vm) (\<lambda>r. case r of
             Inl e \<Rightarrow> retE (if mst_Error out = [] then out\<lparr>mst_Error := ''cdrom: '' @ err_text e\<rparr> else out)
           | Inr (f, connected) \<Rightarrow> retE (out\<lparr>mst_CDROMISO := (if f = [] \<and> \<not> connected then [] else f)\<rparr>)))"

definition MappingStatus :: "vsphere \<Rightarrow> string \<Rightarrow> mapping_status vio" where
  "MappingStatus E uuid =
     (let out = \<lparr>mst_UUID = uuid, mst_Found = False, mst_Light = LightRed, mst_PowerState = [], mst_Name = [],
                 mst_Path = [], mst_CDROMISO = [], mst_Error = []\<rparr> in
      tryE (findByUUID E uuid) (\<lambda>r. case r of
          Inl e \<Rightarrow>
            let lower = ToLower (err_text e); out = out\<lparr>mst_Error := err_text e\<rparr> in
            retE (if Contains lower ''not found'' \<or> Contains lower ''outside govc_folder''
              then out\<lparr>mst_Light := LightRed, mst_Found := False\<rparr>
              else out\<lparr>mst_Light := LightYellow, mst_Found := False\<rparr>)
        | Inr vm \<Rightarrow>
            let out = out\<lparr>mst_Found := True\<rparr>;
                out = (if vm_path vm \<noteq> [] then out\<lparr>mst_Path := vm_path vm\<rparr> else out)
            in status_found E vm out))"

section \<open>Connection test\<close>

record check_result =
  cr_Name :: string
  cr_OK :: bool
  cr_Skip :: bool
  cr_Detail :: string

record connection_test =
  ct_OK :: bool
  ct_Error :: string
  ct_Checks :: "check_result list"

definition appendCheck :: "string \<Rightarrow> bool \<Rightarrow> bool \<Rightarrow> string \<Rightarrow> connection_test \<Rightarrow> connection_test" where
  "appendCheck name ok skip detail out =
     out\<lparr>ct_Checks := ct_Checks out @ [\<lparr>cr_Name = name, cr_OK = ok, cr_Skip = skip, cr_Detail = detail\<rparr>]\<rparr>"

definition probeEndpoint :: "vsphere \<Rightarrow> endpoint \<Rightarrow> (world, verr, string) eio" where
  "probeEndpoint E ep = (case ve_ParseURL E (ep_URL ep) of
       Inl e \<Rightarrow> failE (wrapf ''parse vsphere url'' e)
     | Inr u \<Rightarrow> bindE (world_call E (CProbe u) (\<lambda>h. ve_Probe E h u (ep_Insecure ep))) (\<lambda>name.
         retE (ve_URLHost E u @ '' reachable'' @ mdot @ name)))"

definition endpointCheck :: string where "endpointCheck = ''vCenter endpoint''"
definition loginCheck :: string where "loginCheck = ''Login (credentials)''"

text \<open>The checks that a failed login leaves.\<close>

definition test_login_failed :: "endpoint \<Rightarrow> verr \<Rightarrow> connection_test \<Rightarrow> connection_test" where
  "test_login_failed ep e out =
     (let msg = err_text e; out = out\<lparr>ct_Error := msg\<rparr>; lower = ToLower msg;
          authed = ''authenticated as '' @ ep_Username ep in
      if Contains lower ''datacenter'' then
        appendCheck ''Datacenter'' False False msg (appendCheck loginCheck True False authed out)
      else if Contains lower ''datastore'' then
        appendCheck ''Datastore'' False False msg (appendCheck ''Datacenter'' True False (ep_Datacenter ep)
          (appendCheck loginCheck True False authed out))
      else appendCheck loginCheck False False msg out)"

definition test_folder :: "vsphere \<Rightarrow> endpoint \<Rightarrow> connection_test \<Rightarrow> connection_test vio" where
  "test_folder E ep out =
     (let folder = TrimSpace (ep_Folder ep) in
      if folder = [] then retE (appendCheck ''Folder'' False True (''not set '' @ dash @ '' set GOVC_FOLDER to discover VMs'') out)
      else tryE (verifyFolderExists E folder) (\<lambda>r. retE (case r of
          Inl e \<Rightarrow> appendCheck ''Folder'' False False (err_text e) (out\<lparr>ct_Error := err_text e\<rparr>)
        | Inr _ \<Rightarrow> appendCheck ''Folder'' True False folder out)))"

definition test_iso_folder :: "vsphere \<Rightarrow> endpoint \<Rightarrow> connection_test \<Rightarrow> connection_test vio" where
  "test_iso_folder E ep out =
     (if ep_Datastore ep = [] then retE (appendCheck ''ISO folder'' False True ''skipped (no datastore)'' out)
      else tryE (probeISOFolder E) (\<lambda>r. retE (case r of
          Inl e \<Rightarrow>
            let msg = err_text e in
            if Contains (ToLower msg) ''not found''
            then appendCheck ''ISO folder'' True False (ep_ISOFolder ep @ '' (will be created on upload)'') out
            else
              let out = appendCheck ''ISO folder'' False False msg out in
              if ct_Error out = [] then out\<lparr>ct_Error := msg\<rparr> else out
        | Inr _ \<Rightarrow> appendCheck ''ISO folder'' True False (ep_ISOFolder ep @ '' on '' @ ep_Datastore ep) out)))"

definition test_result :: "connection_test \<Rightarrow> connection_test" where
  "test_result out =
     (let out = out\<lparr>ct_OK := list_all (\<lambda>ch. cr_Skip ch \<or> cr_OK ch) (ct_Checks out)\<rparr>
      in if ct_OK out then out\<lparr>ct_Error := []\<rparr> else out)"

definition test_connected :: "vsphere \<Rightarrow> endpoint \<Rightarrow> connection_test \<Rightarrow> connection_test vio" where
  "test_connected E ep out =
     (let authed = ''authenticated as '' @ ep_Username ep;
          out = appendCheck loginCheck True False authed out;
          out = appendCheck ''Datacenter'' True False (ep_Datacenter ep) out;
          out = (if ep_Datastore ep = []
            then appendCheck ''Datastore'' False True (''not set '' @ dash @ '' ISO staging unavailable; folder/UUID still work'') out
            else appendCheck ''Datastore'' True False (ep_Datastore ep) out)
      in bindE (test_folder E ep out) (\<lambda>out. bindE (test_iso_folder E ep out) (\<lambda>out. retE (test_result out))))"

definition test_session :: "vsphere \<Rightarrow> endpoint \<Rightarrow> connection_test \<Rightarrow> connection_test vio" where
  "test_session E ep out = tryE (ensure E) (\<lambda>r. case r of
       Inl e \<Rightarrow> retE (test_login_failed ep e out)
     | Inr _ \<Rightarrow> test_connected E ep out)"

definition RunConnectionTest :: "vsphere \<Rightarrow> endpoint \<Rightarrow> world \<Rightarrow> connection_test \<times> world" where
  "RunConnectionTest E ep w =
     (let ep = ep\<lparr>ep_Datastore := NormalizeDatastore (ep_Datastore ep)\<rparr>;
          out = \<lparr>ct_OK = False, ct_Error = [], ct_Checks = []\<rparr>
      in if ep_URL ep = [] \<or> ep_Username ep = [] \<or> ep_Password ep = [] \<or> ep_Datacenter ep = [] then
           let out = out\<lparr>ct_Error := ''url, username, password, and datacenter are required to test''\<rparr>
           in (appendCheck ''Settings'' False False (ct_Error out) out, w)
         else case probeEndpoint E ep w of
           (Inl e, w) \<Rightarrow>
             (appendCheck loginCheck False True (''not tried '' @ dash @ '' endpoint unreachable'')
               (appendCheck endpointCheck False False (err_text e) (out\<lparr>ct_Error := err_text e\<rparr>)), w)
         | (Inr reach, w) \<Rightarrow>
             let out = appendCheck endpointCheck True False reach out in
             (case NewClient E ep w of
               (Inl e, w) \<Rightarrow> (appendCheck loginCheck False False (err_text e) (out\<lparr>ct_Error := err_text e\<rparr>), w)
             | (Inr c, w) \<Rightarrow> (case with_client E c (test_session E ep out) w of
                   (Inr out, w) \<Rightarrow> (out, w)
                 | (Inl _, w) \<Rightarrow> (out, w))))"

definition TestConnection :: "vsphere \<Rightarrow> endpoint \<Rightarrow> world \<Rightarrow> verr option \<times> world" where
  "TestConnection E ep w = (case RunConnectionTest E ep w of (res, w) \<Rightarrow>
     (if ct_OK res then None
      else if ct_Error res \<noteq> [] then Some (errorf (ct_Error res))
      else Some (errorf ''connection test failed''), w))"

section \<open>Probes only read\<close>

lemma vm_Device_read_only [read_only_intro]: "read_only (vm_Device E vm)"
  unfolding vm_Device_def by (intro keeps_intro) simp

lemma MappingStatus_read_only [read_only_intro]: "read_only (MappingStatus E uuid)"
  unfolding MappingStatus_def status_found_def cdromStatus_def cdromISOPathProps_def
  by (intro keeps_intro read_only_intro) simp_all

lemma verifyFolderExists_read_only [read_only_intro]: "read_only (verifyFolderExists E f)"
  unfolding verifyFolderExists_def by (intro keeps_intro) simp_all

lemma probeISOFolder_read_only [read_only_intro]: "read_only (probeISOFolder E)"
  unfolding probeISOFolder_def by (intro keeps_intro read_only_intro)

lemma probe_connected_read_only [read_only_intro]: "read_only (probe_connected E ep out)"
  unfolding probe_connected_def probe_folder_def probe_iso_def probe_iso_folder_def
  by (intro keeps_intro read_only_intro)

lemma test_connected_read_only [read_only_intro]: "read_only (test_connected E ep out)"
  unfolding test_connected_def test_folder_def test_iso_folder_def
  by (intro keeps_intro read_only_intro)

lemma probe_session_read_only: "read_only (probe_session E ep out)"
  unfolding probe_session_def probe_folder_def probe_iso_def probe_iso_folder_def
  by (intro keeps_intro read_only_intro)

lemma test_session_read_only: "read_only (test_session E ep out)"
  unfolding test_session_def test_folder_def test_iso_folder_def
  by (intro keeps_intro read_only_intro)

text \<open>The same for what runs on the process state: only reading calls, and time has not gone back.\<close>

definition world_reads :: "world \<Rightarrow> world \<Rightarrow> bool" where
  "world_reads w w' \<longleftrightarrow> w_clock w \<le> w_clock w' \<and> (\<exists>l. w_calls w' = w_calls w @ l \<and> list_all (\<lambda>(c, _). \<not> mutating c) l)"

lemma world_reads_refl [simp]: "world_reads w w"
  by (simp add: world_reads_def)

lemma world_reads_trans: "world_reads a b \<Longrightarrow> world_reads b c \<Longrightarrow> world_reads a c"
  by (auto simp: world_reads_def)

lemma world_reads_run:
  assumes "read_only m" "m s = (r, t)"
  shows "world_reads (v_w s) (v_w t)"
  using keepsD [OF assms] by (auto simp: calls_only_def world_reads_def)

lemma world_call_reads: "world_call E c f w = (r, w') \<Longrightarrow> \<not> mutating c \<Longrightarrow> world_reads w w'"
  by (auto simp: world_reads_def world_call_def record_call_def Let_def)

lemma NewClient_reads:
  assumes "NewClient E ep w = (r, w')"
  shows "world_reads w w'"
proof (cases "ep_Password ep = []")
  case True
  with assms show ?thesis by (auto simp: NewClient_def failE_def)
next
  case False
  with assms show ?thesis
    by (auto simp: NewClient_def thenE_def bindE_def tryE_def retE_def failE_def Let_def split: prod.splits sum.splits
        dest!: world_call_reads)
qed

lemma with_client_reads:
  assumes "read_only m" "with_client E c m w = (r, w')"
  shows "world_reads w w'"
proof -
  obtain r1 s1 where m: "m \<lparr>v_cl = c, v_w = w\<rparr> = (r1, s1)" by fastforce
  obtain r2 s2 where cl: "client_Close E s1 = (r2, s2)" by fastforce
  from assms(2) m cl have "w' = v_w s2" by (simp add: with_client_def)
  with world_reads_run [OF assms(1) m] world_reads_run [OF client_Close_read_only cl] show ?thesis
    by (auto intro: world_reads_trans)
qed

lemma ProbeHealth_reads: "ProbeHealth E ep w = (out, w') \<Longrightarrow> world_reads w w'"
  by (auto simp: ProbeHealth_def Let_def split: if_splits prod.splits sum.splits
      dest!: NewClient_reads with_client_reads [OF probe_session_read_only] intro: world_reads_trans)

lemma probeEndpoint_reads: "probeEndpoint E ep w = (r, w') \<Longrightarrow> world_reads w w'"
  by (auto simp: probeEndpoint_def failE_def retE_def bindE_def tryE_def split: sum.splits prod.splits dest!: world_call_reads)

lemma RunConnectionTest_reads: "RunConnectionTest E ep w = (out, w') \<Longrightarrow> world_reads w w'"
  by (auto simp: RunConnectionTest_def Let_def split: if_splits prod.splits sum.splits
      dest!: NewClient_reads with_client_reads [OF test_session_read_only] probeEndpoint_reads intro: world_reads_trans)

text \<open>
  Looking never changes anything. The calls made by reading a system, listing the folder, the status
  of a mapping, the ISO cache listing, the health probe and the connection test contain none that
  changes a VM, the boot order or the datastore, whatever the vCenter answers.
\<close>

theorem looking_changes_nothing:
  "world_reads (v_w s) (v_w (snd (GetSystem E uuid s)))
   \<and> world_reads (v_w s) (v_w (snd (ListFolderVMs E s)))
   \<and> world_reads (v_w s) (v_w (snd (MappingStatus E uuid s)))
   \<and> world_reads (v_w s) (v_w (snd (ISOCacheStatus E ord s)))
   \<and> world_reads w (snd (ProbeHealth E ep w))
   \<and> world_reads w (snd (RunConnectionTest E ep w))"
  by (metis GetSystem_read_only ListFolderVMs_read_only MappingStatus_read_only ISOCacheStatus_read_only
      ProbeHealth_reads RunConnectionTest_reads world_reads_run prod.collapse)

section \<open>Probes close their session\<close>

definition world_new :: "world \<Rightarrow> world \<Rightarrow> hist" where
  "world_new w w' = drop (length (w_calls w)) (w_calls w')"

definition session_closed :: "hist \<Rightarrow> bool" where
  "session_closed l \<longleftrightarrow> (\<exists>u. (CLogin u, None) \<in> set l) \<longrightarrow> l \<noteq> [] \<and> fst (last l) = CLogout"

lemma client_Close_run:
  assumes "client_Close E s = (r, t)"
  shows "if cl_connected (v_cl s) then \<exists>x. w_calls (v_w t) = w_calls (v_w s) @ [(CLogout, x)] else t = s"
  using assms by (auto simp: client_Close_def io_simps do_call_def record_call_def Let_def split: sum.splits)

lemma with_client_closed:
  assumes run: "with_client E c (tryE (ensure E) k) w = (r, w')"
    and k: "\<And>e. \<exists>x. k (Inl e) = retE x"
    and sess: "\<And>r. keeps same_session (k r)" and ro: "\<And>r. read_only (k r)"
  shows "session_closed (world_new w w')"
proof -
  let ?s0 = "\<lparr>v_cl = c, v_w = w\<rparr>"
  obtain re s where e: "ensure E ?s0 = (re, s)" by fastforce
  obtain r1 s1 where k1: "k re s = (r1, s1)" by fastforce
  obtain r2 s2 where cl: "client_Close E s1 = (r2, s2)" by fastforce
  have w': "w' = v_w s2" using run e k1 cl by (simp add: with_client_def tryE_def)
  show ?thesis
  proof (cases re)
    case (Inl err)
    from k [of err] k1 Inl have "s1 = s" by (auto simp: run_prims)
    with ensure_Inl [of E ?s0 err s] e Inl client_Close_run [OF cl] have "s2 = s"
      and "\<forall>u. (CLogin u, None) \<in> set (new_calls ?s0 s) \<longrightarrow> fst (last (new_calls ?s0 s)) = CLogout"
      by auto
    then show ?thesis by (auto simp: session_closed_def world_new_def new_calls_def w')
  next
    case (Inr x)
    have c1: "cl_connected (v_cl s)" using ensure_Inr e Inr by blast
    have "cl_connected (v_cl s1)" using keepsD [OF sess k1] c1 by (simp add: same_session_def)
    with client_Close_run [OF cl] obtain x where x: "w_calls w' = w_calls (v_w s1) @ [(CLogout, x)]" by (auto simp: w')
    have "prefix (w_calls w) (w_calls (v_w s1))"
      using read_prefix [OF ensure_read_only e] read_prefix [OF ro k1] by (auto intro: prefix_order.trans)
    with x show ?thesis by (auto simp: session_closed_def world_new_def prefix_def)
  qed
qed

lemma world_new_chain:
  assumes "world_reads a b" "\<forall>u. (CLogin u, None) \<notin> set (world_new a b)" "session_closed (world_new b c)" "world_reads b c"
  shows "session_closed (world_new a c)"
proof -
  from assms(1,4) obtain l1 l2 where "w_calls b = w_calls a @ l1" "w_calls c = w_calls b @ l2" by (auto simp: world_reads_def)
  with assms(2,3) show ?thesis by (auto simp: session_closed_def world_new_def)
qed

lemma NewClient_no_login: "NewClient E ep w = (r, w') \<Longrightarrow> \<forall>u. (CLogin u, None) \<notin> set (world_new w w')"
proof (cases "ep_Password ep = []")
  case True
  assume "NewClient E ep w = (r, w')"
  with True show ?thesis by (auto simp: NewClient_def failE_def world_new_def)
next
  case False
  assume "NewClient E ep w = (r, w')"
  with False show ?thesis
    by (auto simp: NewClient_def thenE_def bindE_def tryE_def retE_def failE_def world_new_def Let_def split: prod.splits sum.splits
        dest!: world_call_calls)
qed

lemma probeEndpoint_no_login: "probeEndpoint E ep w = (r, w') \<Longrightarrow> \<forall>u. (CLogin u, None) \<notin> set (world_new w w')"
  by (auto simp: probeEndpoint_def failE_def retE_def bindE_def tryE_def world_new_def split: sum.splits prod.splits
      dest!: world_call_calls)

lemma session_closed_no_login: "\<forall>u. (CLogin u, None) \<notin> set l \<Longrightarrow> session_closed l"
  by (simp add: session_closed_def)

lemma session_prims2: "keeps same_session (verifyFolderExists E f)" "keeps same_session (probeISOFolder E)"
  unfolding verifyFolderExists_def probeISOFolder_def datastoreDirExists_def by (intro keeps_intro same_session_intro)+

lemma connected_sessions [same_session_intro]:
  "keeps same_session (probe_connected E ep out)" "keeps same_session (test_connected E ep out')"
  unfolding probe_connected_def probe_folder_def probe_iso_def probe_iso_folder_def
    test_connected_def test_folder_def test_iso_folder_def
  by (intro keeps_intro same_session_intro session_prims2)+

lemma probe_session_closed: "with_client E c (probe_session E ep out) w = (r, w') \<Longrightarrow> session_closed (world_new w w')"
  unfolding probe_session_def
  by (erule with_client_closed) (auto split: sum.split intro: keeps_intro same_session_intro read_only_intro)

lemma test_session_closed: "with_client E c (test_session E ep out) w = (r, w') \<Longrightarrow> session_closed (world_new w w')"
  unfolding test_session_def
  by (erule with_client_closed) (auto split: sum.split intro: keeps_intro same_session_intro read_only_intro)

lemma ProbeHealth_closes: "session_closed (world_new w (snd (ProbeHealth E ep w)))"
proof -
  have z: "session_closed (world_new w w)" by (simp add: session_closed_def world_new_def)
  let ?ep = "ep\<lparr>ep_Datastore := NormalizeDatastore (ep_Datastore ep)\<rparr>"
  obtain r1 w1 where n: "NewClient E ?ep w = (r1, w1)" by fastforce
  have nl: "session_closed (world_new w w1)" using NewClient_no_login [OF n] by (rule session_closed_no_login)
  show "session_closed (world_new w (snd (ProbeHealth E ep w)))"
  proof (cases "\<exists>c. ve_URLOk E (ep_URL ep) \<and> ep_URL ep \<noteq> [] \<and> r1 = Inr c")
    case True
    then obtain c where c: "ve_URLOk E (ep_URL ep)" "ep_URL ep \<noteq> []" "r1 = Inr c" by blast
    define out0 where "out0 = \<lparr>hp_Connection = LightRed, hp_ConnDetail = [], hp_ISOCache = LightRed, hp_ISODetail = [],
                 hp_FolderOK = False, hp_FolderPath = ep_Folder ep, hp_OK = False\<rparr>"
    obtain r2 w2 where p: "with_client E c (probe_session E ?ep out0) w1 = (r2, w2)" by fastforce
    have "snd (ProbeHealth E ep w) = w2" using c n p by (auto simp: ProbeHealth_def out0_def split: sum.split)
    with world_new_chain [OF NewClient_reads [OF n] NewClient_no_login [OF n] probe_session_closed [OF p]
        with_client_reads [OF probe_session_read_only p]] show ?thesis by simp
  next
    case False
    then show ?thesis using z nl n by (cases r1) (auto simp: ProbeHealth_def Let_def)
  qed
qed

lemma RunConnectionTest_closes: "session_closed (world_new w (snd (RunConnectionTest E ep w)))"
proof -
  have z: "session_closed (world_new w w)" by (simp add: session_closed_def world_new_def)
  let ?ep = "ep\<lparr>ep_Datastore := NormalizeDatastore (ep_Datastore ep)\<rparr>"
  show ?thesis
  proof (cases "ep_URL ep = [] \<or> ep_Username ep = [] \<or> ep_Password ep = [] \<or> ep_Datacenter ep = []")
    case True
    then show ?thesis using z by (simp add: RunConnectionTest_def Let_def)
  next
    case set': False
    obtain r0 w0 where e: "probeEndpoint E ?ep w = (r0, w0)" by fastforce
    note e1 = probeEndpoint_no_login [OF e] probeEndpoint_reads [OF e]
    show ?thesis
    proof (cases r0)
      case (Inl err)
      with set' e session_closed_no_login [OF e1(1)] show ?thesis by (simp add: RunConnectionTest_def Let_def)
    next
      case (Inr reach)
      obtain r1 w1 where n: "NewClient E ?ep w0 = (r1, w1)" by fastforce
      have c01: "session_closed (world_new w w1)"
        by (rule world_new_chain [OF e1(2,1) session_closed_no_login [OF NewClient_no_login [OF n]] NewClient_reads [OF n]])
      show ?thesis
      proof (cases r1)
        case (Inl err)
        with set' e Inr n c01 show ?thesis by (simp add: RunConnectionTest_def Let_def)
      next
        case c: (Inr c)
        define out where "out = appendCheck endpointCheck True False reach \<lparr>ct_OK = False, ct_Error = [], ct_Checks = []\<rparr>"
        obtain r2 w2 where p: "with_client E c (test_session E ?ep out) w1 = (r2, w2)" by fastforce
        have "snd (RunConnectionTest E ep w) = w2"
          using set' e Inr n c p by (auto simp: RunConnectionTest_def out_def Let_def split: sum.split)
        moreover have "session_closed (world_new w0 w2)"
          by (rule world_new_chain [OF NewClient_reads [OF n] NewClient_no_login [OF n] test_session_closed [OF p]
              with_client_reads [OF test_session_read_only p]])
        then have "session_closed (world_new w w2)"
          by (rule world_new_chain [OF e1(2,1)])
            (rule world_reads_trans [OF NewClient_reads [OF n] with_client_reads [OF test_session_read_only p]])
        ultimately show ?thesis by simp
      qed
    qed
  qed
qed

text \<open>
  The health probe and the connection test leave no session open on the vCenter: when the login
  among their calls succeeded, the last call they made is a logout.
\<close>

theorem probes_close_their_session:
  "session_closed (world_new w (snd (ProbeHealth E ep w))) \<and> session_closed (world_new w (snd (RunConnectionTest E ep w)))"
  using ProbeHealth_closes RunConnectionTest_closes by blast

section \<open>Verdicts\<close>

text \<open>
  No login failure is ever red. Every error of the login call reaches the classification with the
  prefix "vsphere login: ", so it contains "login" and both lights turn yellow, also for an unresolvable host
  or a refused connection; the red branch for network errors is never taken for them.
\<close>

theorem failed_login_is_never_red:
  "hp_Connection (probe_login_failed (wrapf ''vsphere login'' e) out) = LightYellow
   \<and> hp_ISOCache (probe_login_failed (wrapf ''vsphere login'' e) out) = LightYellow
   \<and> isNetErr (wrapf ''vsphere login'' (errorf ''dial tcp: lookup vc: no such host''))"
proof (intro conjI)
  have "Contains (ToLower (''vsphere login'' @ '': '' @ err_text e)) ''login''"
  proof -
    have "ToLower (''vsphere login'' @ '': '' @ err_text e) = ''vsphere '' @ ''login'' @ '': '' @ ToLower (err_text e)"
      by (simp add: ToLower_def lower_char_def)
    then show ?thesis unfolding Contains_def by (simp only: sublist_appendI)
  qed
  then show "hp_Connection (probe_login_failed (wrapf ''vsphere login'' e) out) = LightYellow"
    "hp_ISOCache (probe_login_failed (wrapf ''vsphere login'' e) out) = LightYellow"
    by (simp_all add: probe_login_failed_def wrapf_def Let_def)
  show "isNetErr (wrapf ''vsphere login'' (errorf ''dial tcp: lookup vc: no such host''))" by code_simp
qed

text \<open>What a green light and a passed test stand on.\<close>

definition login_ok :: "vsphere \<Rightarrow> endpoint \<Rightarrow> bool" where
  "login_ok E ep \<longleftrightarrow>
     (\<exists>u h. ve_ParseURL E (ep_URL ep) = Inr u \<and> ve_Login E h u (ep_Username ep) (ep_Password ep) (ep_Insecure ep) = Inr ())
     \<and> (\<exists>h. ve_Datacenter E h (ep_Datacenter ep) = Inr ())
     \<and> (NormalizeDatastore (ep_Datastore ep) \<noteq> [] \<longrightarrow> (\<exists>h. ve_Datastore E h (NormalizeDatastore (ep_Datastore ep)) = Inr ()))"

definition folder_ok :: "vsphere \<Rightarrow> string \<Rightarrow> bool" where
  "folder_ok E f \<longleftrightarrow> TrimSpace f = [] \<or> (\<exists>h p r. ve_FindByInventoryPath E h p = Inr (Some r) \<and>
     p \<in> {TrimSpace f, ReplaceFirst (ReplaceFirst (TrimSpace f) ''/VMs/'' ''/vm/'') ''/vms/'' ''/vm/''})"

lemma NormalizeDatastore_idem [simp]: "NormalizeDatastore (NormalizeDatastore s) = NormalizeDatastore s"
  by (auto simp: NormalizeDatastore_def Let_def)

lemma ensure_login_ok:
  assumes "ensure E s = (Inr x, t)" "\<not> cl_connected (v_cl s)"
  shows "login_ok E (cl_ep (v_cl s))"
  using assms
  by (auto simp: ensure_def login_ok_def run_prims Let_def split: sum.splits if_splits
      elim!: thenE_InrE tryE_E dest!: wrapE_InrE logout_fail_run do_call_Inr) blast

lemma verifyFolderExists_Inr:
  assumes "verifyFolderExists E f s = (Inr u, t)"
  shows "folder_ok E f"
proof (cases "TrimSpace f = []")
  case True
  then show ?thesis by (simp add: folder_ok_def)
next
  case False
  let ?f = "TrimSpace f"
  let ?alt = "ReplaceFirst (ReplaceFirst ?f ''/VMs/'' ''/vm/'') ''/vms/'' ''/vm/''"
  from assms False obtain ref s1 ref2 s2 where
    a: "do_call E (CFindByInventoryPath ?f) (\<lambda>h. ve_FindByInventoryPath E h ?f) s = (Inr ref, s1)" and
    b: "(if ref = None \<and> ?alt \<noteq> ?f then do_call E (CFindByInventoryPath ?alt) (\<lambda>h. ve_FindByInventoryPath E h ?alt)
      else retE ref) s1 = (Inr ref2, s2)" and
    c: "(if ref2 = None then failE (errorf (go_quote ?f @ '' not found'')) else retE ()) s2 = (Inr u, t)"
    unfolding verifyFolderExists_def Let_def by (simp only: if_False) (elim bindE_InrE)
  from c obtain r where r: "ref2 = Some r" by (auto simp: run_prims split: if_splits)
  have "ref = Some r \<or> (\<exists>h. ve_FindByInventoryPath E h ?alt = Inr (Some r))"
    using b r by (auto simp: run_prims split: if_splits dest!: do_call_Inr)
  with do_call_Inr [OF a] show ?thesis by (auto simp: folder_ok_def)
qed

lemma NewClient_Inr:
  assumes "NewClient E ep w = (Inr c, w')"
  shows "\<not> cl_connected c \<and> ep_URL (cl_ep c) = ep_URL ep \<and> ep_Username (cl_ep c) = ep_Username ep
    \<and> ep_Password (cl_ep c) = ep_Password ep \<and> ep_Insecure (cl_ep c) = ep_Insecure ep
    \<and> ep_Datacenter (cl_ep c) = ep_Datacenter ep \<and> ep_Datastore (cl_ep c) = NormalizeDatastore (ep_Datastore ep)"
proof (cases "ep_Password ep = []")
  case True
  with assms show ?thesis by (simp add: NewClient_def failE_def)
next
  case False
  with assms show ?thesis
    by (auto simp: NewClient_def thenE_def bindE_def tryE_def retE_def failE_def Let_def split: prod.splits sum.splits if_splits)
qed

lemma login_ok_client:
  assumes "NewClient E ep w = (Inr c, w')" "login_ok E (cl_ep c)"
  shows "login_ok E ep"
  using NewClient_Inr [OF assms(1)] assms(2) by (simp add: login_ok_def)

text \<open>Checks are only ever added; a failed one stays.\<close>

lemma append_checks: "ct_Checks (appendCheck n a b d out) = ct_Checks out @ [\<lparr>cr_Name = n, cr_OK = a, cr_Skip = b, cr_Detail = d\<rparr>]"
  "ct_OK (appendCheck n a b d out) = ct_OK out" "ct_Error (appendCheck n a b d out) = ct_Error out"
  by (simp_all add: appendCheck_def)

definition passed :: "connection_test \<Rightarrow> bool" where
  "passed out \<longleftrightarrow> list_all (\<lambda>ch. cr_Skip ch \<or> cr_OK ch) (ct_Checks out)"

lemma test_folder_sound:
  assumes "test_folder E ep out s = (Inr out', t)" "passed out'"
  shows "folder_ok E (ep_Folder ep) \<and> passed out"
proof (cases "TrimSpace (ep_Folder ep) = []")
  case True
  with assms show ?thesis by (auto simp: test_folder_def run_prims folder_ok_def passed_def append_checks)
next
  case False
  with assms obtain r u where "verifyFolderExists E (TrimSpace (ep_Folder ep)) s = (r, u)" and
    "(retE (case r of Inl e \<Rightarrow> appendCheck ''Folder'' False False (err_text e) (out\<lparr>ct_Error := err_text e\<rparr>)
        | Inr _ \<Rightarrow> appendCheck ''Folder'' True False (TrimSpace (ep_Folder ep)) out) :: connection_test vio) u = (Inr out', t)"
    unfolding test_folder_def Let_def by (simp only: if_False) (elim tryE_E)
  with assms(2) show ?thesis
    by (cases r) (auto simp: run_prims passed_def append_checks folder_ok_def dest!: verifyFolderExists_Inr)
qed

lemma test_iso_folder_passed:
  assumes "test_iso_folder E ep out s = (Inr out', t)" "passed out'"
  shows "passed out"
  using assms
  by (auto simp: test_iso_folder_def run_prims passed_def append_checks Let_def split: if_splits sum.splits elim!: tryE_E)

lemma test_connected_sound:
  assumes "test_connected E ep out s = (Inr res, t)" "ct_OK res"
  shows "folder_ok E (ep_Folder ep)"
proof -
  from assms(1) obtain o1 o2 s1 o3 s2 where f: "test_folder E ep o1 s = (Inr o2, s1)" and
    i: "test_iso_folder E ep o2 s1 = (Inr o3, s2)" and r: "res = test_result o3"
    by (auto simp: test_connected_def run_prims Let_def elim!: bindE_InrE)
  have "passed o3" using r assms(2) by (simp add: test_result_def passed_def Let_def split: if_splits)
  from test_folder_sound [OF f test_iso_folder_passed [OF i this]] show ?thesis by simp
qed

lemma test_login_failed_OK: "ct_OK (test_login_failed ep e out) = ct_OK out"
  by (simp add: test_login_failed_def append_checks Let_def)

text \<open>
  C40: A passed connection test is true. When the test reports OK, the vCenter accepted this user and
  password, it has this datacenter, it has the datastore if one is named, and the folder exists if one
  is set (as written or with \<open>/vm/\<close> for \<open>/VMs/\<close> and \<open>/vms/\<close>).
\<close>

theorem passed_test_is_true:
  assumes "RunConnectionTest E ep w = (res, w')" and "ct_OK res"
  shows "login_ok E ep \<and> folder_ok E (ep_Folder ep)"
proof -
  let ?ep = "ep\<lparr>ep_Datastore := NormalizeDatastore (ep_Datastore ep)\<rparr>"
  from assms obtain reach w0 c w1 out w2 where n: "NewClient E ?ep w0 = (Inr c, w1)"
    and p: "with_client E c (test_session E ?ep out) w1 = (Inr res, w2)" and o': "\<not> ct_OK out"
    by (auto simp: RunConnectionTest_def Let_def append_checks split: if_splits prod.splits sum.splits)
  from p obtain s where t: "test_session E ?ep out \<lparr>v_cl = c, v_w = w1\<rparr> = (Inr res, s)"
    by (auto simp: with_client_def split: prod.splits)
  then obtain r u where e: "ensure E \<lparr>v_cl = c, v_w = w1\<rparr> = (r, u)" and
    k: "(case r of Inl e \<Rightarrow> retE (test_login_failed ?ep e out) | Inr _ \<Rightarrow> test_connected E ?ep out) u = (Inr res, s)"
    unfolding test_session_def by (rule tryE_E)
  show ?thesis
  proof (cases r)
    case (Inl x)
    with k o' assms(2) show ?thesis by (auto simp: run_prims test_login_failed_OK)
  next
    case (Inr x)
    with k have tc: "test_connected E ?ep out u = (Inr res, s)" by simp
    have "login_ok E ?ep"
      using login_ok_client [OF n] ensure_login_ok [of E "\<lparr>v_cl = c, v_w = w1\<rparr>" x u] e Inr NewClient_Inr [OF n] by simp
    with test_connected_sound [OF tc assms(2)] show ?thesis by (simp add: login_ok_def)
  qed
qed

theorem passed_test_is_true_witness:
  "\<exists>res w'. RunConnectionTest demo_vs demo_ep demo_world = (res, w') \<and> ct_OK res \<and> login_ok demo_vs demo_ep"
proof -
  have f: "NormalizeDatastore ''DS'' = ''DS''" "TrimSpace ''/DC/vm/LAB'' = ''/DC/vm/LAB''"
    "TrimChar ''rf2vc/isos'' CHR ''/'' = ''rf2vc/isos''" by code_simp+
  obtain res w' where r: "RunConnectionTest demo_vs demo_ep demo_world = (res, w')" and ok: "ct_OK res"
  proof -
    have "ct_OK (fst (RunConnectionTest demo_vs demo_ep demo_world))"
      by (simp add: RunConnectionTest_def probeEndpoint_def world_call_def NewClient_def with_client_def test_session_def
          ensure_def test_connected_def test_folder_def verifyFolderExists_def test_iso_folder_def probeISOFolder_def
          datastoreDirExists_def ds_Path_def test_result_def append_checks client_Close_def io_simps do_call_def record_call_def
          demo_vs_def demo_ep_def demo_world_def f Let_def)
    then show ?thesis by (metis that prod.collapse)
  qed
  with passed_test_is_true [OF r ok] show ?thesis by blast
qed

end
