(* ===== verification/Vsphere_Pool.thy ===== *)
theory Vsphere_Pool
  imports Vsphere_Lookup
begin

text \<open>
  The client pool (\<open>internal/vsphere/pool.go\<close>): one lazily made client per vCenter id, replaced when the
  settings it was made from change. The state is the pool and the process state; a client that a
  request uses is put back with what the request did to it (\<open>pool_put\<close>), as requests share the pointer.
\<close>

section \<open>State and operations\<close>

record pool =
  p_isoCache :: string
  p_clients :: "(string, client) fmap"

definition NewPool :: "string \<Rightarrow> pool" where
  "NewPool isoCache = \<lparr>p_isoCache = isoCache, p_clients = fmempty\<rparr>"

definition endpointFrom :: "pool \<Rightarrow> vcenter \<Rightarrow> endpoint" where
  "endpointFrom p vc = \<lparr>ep_ID = vc_ID vc, ep_URL = vc_URL vc, ep_Username = vc_Username vc, ep_Password = vc_Password vc,
     ep_Insecure = vc_Insecure vc, ep_Datacenter = vc_Datacenter vc, ep_Datastore = vc_Datastore vc,
     ep_Folder = vc_Folder vc, ep_ISOFolder = vc_ISOFolder vc, ep_ISOCache = p_isoCache p, ep_Allowlist = []\<rparr>"

definition sameEndpoint :: "endpoint \<Rightarrow> endpoint \<Rightarrow> bool" where
  "sameEndpoint a b \<longleftrightarrow> ep_URL a = ep_URL b \<and> ep_Username a = ep_Username b \<and> ep_Password a = ep_Password b \<and>
     ep_Insecure a = ep_Insecure b \<and> ep_Datacenter a = ep_Datacenter b \<and> ep_Datastore a = ep_Datastore b \<and>
     ep_Folder a = ep_Folder b \<and> ep_ISOFolder a = ep_ISOFolder b"

text \<open>\<open>_ = c.Close(ctx)\<close> on a pooled client: only the process state remains of it.\<close>

definition close_client :: "vsphere \<Rightarrow> client \<Rightarrow> world \<Rightarrow> world" where
  "close_client E c w = v_w (snd (client_Close E \<lparr>v_cl = c, v_w = w\<rparr>))"

definition pool_make :: "vsphere \<Rightarrow> string \<Rightarrow> endpoint \<Rightarrow> pool \<times> world \<Rightarrow> (verr + client) \<times> pool \<times> world" where
  "pool_make E vid ep pw = (case pw of (p, w) \<Rightarrow> (case NewClient E ep w of
       (Inl e, w) \<Rightarrow> (Inl e, p, w)
     | (Inr c, w) \<Rightarrow> (Inr c, p\<lparr>p_clients := fmupd vid c (p_clients p)\<rparr>, w)))"

definition pool_For :: "vsphere \<Rightarrow> vcenter \<Rightarrow> pool \<times> world \<Rightarrow> (verr + client) \<times> pool \<times> world" where
  "pool_For E vc pw = (case pw of (p, w) \<Rightarrow>
     let ep = endpointFrom p vc in
     (case fmlookup (p_clients p) (vc_ID vc) of
       Some c \<Rightarrow> if sameEndpoint (cl_ep c) ep then (Inr c, p, w)
         else pool_make E (vc_ID vc) ep (p\<lparr>p_clients := fmdrop (vc_ID vc) (p_clients p)\<rparr>, close_client E c w)
     | None \<Rightarrow> pool_make E (vc_ID vc) ep (p, w)))"

definition pool_Invalidate :: "vsphere \<Rightarrow> string \<Rightarrow> pool \<times> world \<Rightarrow> pool \<times> world" where
  "pool_Invalidate E vid pw = (case pw of (p, w) \<Rightarrow> (case fmlookup (p_clients p) vid of
       Some c \<Rightarrow> (p\<lparr>p_clients := fmdrop vid (p_clients p)\<rparr>, close_client E c w)
     | None \<Rightarrow> (p, w)))"

definition pool_CloseAll :: "vsphere \<Rightarrow> string list \<Rightarrow> pool \<times> world \<Rightarrow> pool \<times> world" where
  "pool_CloseAll E order pw = fold (pool_Invalidate E) order pw"

definition pool_put :: "string \<Rightarrow> client \<Rightarrow> pool \<Rightarrow> pool" where
  "pool_put vid c p = p\<lparr>p_clients := fmupd vid c (p_clients p)\<rparr>"

text \<open>Resolve the store's mapping, then the pooled client; the mapping comes back with an error, too.\<close>

definition ClientForUUID :: "vsphere \<Rightarrow> store \<Rightarrow> string \<Rightarrow> pool \<times> world \<Rightarrow> (verr + client) \<times> mapping option \<times> pool \<times> world" where
  "ClientForUUID E st uuid pw = (case LookupUUID uuid st of
       None \<Rightarrow> (Inl (errorf (''uuid '' @ uuid @ '' is not mapped to any vCenter'')), None, pw)
     | Some (m, _) \<Rightarrow> (case GetVCenterSecret (mp_VCenterID m) st of
         None \<Rightarrow> (Inl (errorf (''vcenter '' @ mp_VCenterID m @ '' missing'')), Some m, pw)
       | Some full \<Rightarrow> (case pool_For E full pw of (r, pw) \<Rightarrow> (r, Some m, pw))))"

section \<open>Laws\<close>

lemma normalizeDatastore_same: "normalizeDatastore s = NormalizeDatastore s"
  by (auto simp: normalizeDatastore_def NormalizeDatastore_def unset_names_def Let_def)

lemma NewClient_endpoint:
  assumes "NewClient E ep w = (Inr c, w')" "ep_ISOFolder ep \<noteq> []" "NormalizeDatastore (ep_Datastore ep) = ep_Datastore ep"
  shows "sameEndpoint (cl_ep c) ep \<and> \<not> cl_connected c \<and> cl_uuidCache c = None \<and> cl_mediaISO c = fmempty"
proof (cases "ep_Password ep = []")
  case True
  with assms(1) show ?thesis by (simp add: NewClient_def failE_def)
next
  case False
  with assms show ?thesis
    by (auto simp: NewClient_def thenE_def bindE_def tryE_def retE_def failE_def sameEndpoint_def Let_def
        split: prod.splits sum.splits if_splits)
qed

lemma store_secret_ok:
  assumes "store_ok st" "GetVCenterSecret vid st = Some vc"
  shows "vc_ID vc = vid \<and> vc_ISOFolder vc \<noteq> [] \<and> NormalizeDatastore (vc_Datastore vc) = vc_Datastore vc"
proof -
  from assms(2) obtain v where v: "fmlookup (s_vcenters st) vid = Some v"
    "vc = v\<lparr>vc_Datastore := normalizeDatastore (vc_Datastore v)\<rparr>" by (auto simp: GetVCenterSecret_def)
  with store_ok_vcenter [OF assms(1) v(1)] show ?thesis
    by (simp add: vcenter_ok_def normalizeDatastore_same [symmetric])
qed

lemma pool_For_current:
  assumes "vc_ISOFolder vc \<noteq> []" "NormalizeDatastore (vc_Datastore vc) = vc_Datastore vc"
    and "pool_For E vc (p, w) = (Inr c, p', w')"
  shows "sameEndpoint (cl_ep c) (endpointFrom p vc) \<and> fmlookup (p_clients p') (vc_ID vc) = Some c
    \<and> p_isoCache p' = p_isoCache p \<and> (\<forall>k. k \<noteq> vc_ID vc \<longrightarrow> fmlookup (p_clients p') k = fmlookup (p_clients p) k)"
proof -
  have ep: "ep_ISOFolder (endpointFrom p vc) \<noteq> []"
      "NormalizeDatastore (ep_Datastore (endpointFrom p vc)) = ep_Datastore (endpointFrom p vc)"
    using assms(1,2) by (simp_all add: endpointFrom_def)
  show ?thesis
    using assms(3) NewClient_endpoint [OF _ ep]
    by (auto simp: pool_For_def pool_make_def Let_def split: option.splits if_splits prod.splits sum.splits)
qed

lemma sameEndpoint_from:
  "sameEndpoint e (endpointFrom p vc) \<Longrightarrow> ep_URL e = vc_URL vc \<and> ep_Username e = vc_Username vc \<and> ep_Password e = vc_Password vc
    \<and> ep_Insecure e = vc_Insecure vc \<and> ep_Datacenter e = vc_Datacenter vc \<and> ep_Datastore e = vc_Datastore vc
    \<and> ep_Folder e = vc_Folder vc \<and> ep_ISOFolder e = vc_ISOFolder vc"
  by (simp add: sameEndpoint_def endpointFrom_def)

text \<open>
  C36: A pooled client always has the current settings. For a vCenter as the store hands it out, and
  whatever the pool held before, the client \<open>For\<close> returns has exactly the URL, user name, password, TLS
  setting, datacenter, datastore, folder and ISO folder that the store holds; asking again returns the
  same client without a single outside call, so its session, UUID cache and media state are kept; and the
  clients of other vCenters are untouched.
\<close>

theorem pool_client_is_current_and_kept:
  assumes "store_ok st" and "GetVCenterSecret vid st = Some vc" and "pool_For E vc (p, w) = (Inr c, p', w')"
  shows "(ep_URL (cl_ep c) = vc_URL vc \<and> ep_Username (cl_ep c) = vc_Username vc \<and> ep_Password (cl_ep c) = vc_Password vc
      \<and> ep_Insecure (cl_ep c) = vc_Insecure vc \<and> ep_Datacenter (cl_ep c) = vc_Datacenter vc
      \<and> ep_Datastore (cl_ep c) = vc_Datastore vc \<and> ep_Folder (cl_ep c) = vc_Folder vc \<and> ep_ISOFolder (cl_ep c) = vc_ISOFolder vc)
    \<and> (\<forall>w2. pool_For E vc (p', w2) = (Inr c, p', w2))
    \<and> (\<forall>k. k \<noteq> vid \<longrightarrow> fmlookup (p_clients p') k = fmlookup (p_clients p) k)"
proof -
  note ok = store_secret_ok [OF assms(1,2)]
  have cur: "sameEndpoint (cl_ep c) (endpointFrom p vc)" "fmlookup (p_clients p') (vc_ID vc) = Some c"
      "p_isoCache p' = p_isoCache p" "\<forall>k. k \<noteq> vc_ID vc \<longrightarrow> fmlookup (p_clients p') k = fmlookup (p_clients p) k"
    using pool_For_current [OF _ _ assms(3)] ok by auto
  have "endpointFrom p' vc = endpointFrom p vc" using cur(3) by (simp add: endpointFrom_def)
  then have "pool_For E vc (p', w2) = (Inr c, p', w2)" for w2 using cur(1,2) by (simp add: pool_For_def Let_def)
  with sameEndpoint_from [OF cur(1)] cur(4) ok show ?thesis by simp
qed

theorem pool_client_is_current_and_kept_witness:
  "\<exists>c p'. pool_For demo_vs demo_stored (NewPool [], demo_world) = (Inr c, p', snd (snd (pool_For demo_vs demo_stored (NewPool [], demo_world))))
     \<and> ep_Password (cl_ep c) = vc_Password demo_stored \<and> pool_For demo_vs demo_stored (p', demo_world) = (Inr c, p', demo_world)"
proof -
  have n: "normalizeDatastore [] = []" "NormalizeDatastore [] = []" by code_simp+
  have ok: "store_ok demo_store1" using demo_reach(2) by (rule store_reach_ok)
  have g: "GetVCenterSecret demo_id demo_store1 = Some demo_stored"
    by (simp add: GetVCenterSecret_def demo_store1_def demo_stored_def demo_vc_def vcenter_zero_def n)
  obtain c p' w' where f: "pool_For demo_vs demo_stored (NewPool [], demo_world) = (Inr c, p', w')"
    by (simp add: pool_For_def pool_make_def NewPool_def NewClient_def endpointFrom_def world_call_def demo_stored_def demo_vc_def
        vcenter_zero_def n thenE_def bindE_def tryE_def retE_def demo_vs_def Let_def)
  with pool_client_is_current_and_kept [OF ok g f] show ?thesis by simp
qed

end
