(* ===== verification/Session_Books.thy ===== *)
theory Session_Books
  imports Vsphere_Media Vsphere_Probe Vsphere_Pool
begin

text \<open>
  Where vCenter sessions go: every function that runs on a client is followed through the history of calls.
  A session is opened by a login that succeeds and closed by a logout that succeeds. A client forgets its session
  with the logout, whatever becomes of it, so a logout that is refused gives up a session that may still be open.
  The books of a client are the sessions opened, less those closed or given up, less the one it holds. No operation
  of \<open>internal/vsphere\<close> changes them: whatever fails on the way, a session that was opened is held by the client,
  has been closed, or was given up by a logout that failed.
\<close>

section \<open>The books\<close>

fun is_login :: "vcall \<Rightarrow> bool" where
  "is_login (CLogin _) = True"
| "is_login _ = False"

definition opened :: "hist \<Rightarrow> nat" where
  "opened h = length (filter (\<lambda>(c, e). is_login c \<and> e = None) h)"

definition closed :: "hist \<Rightarrow> nat" where
  "closed h = length (filter (\<lambda>(c, e). c = CLogout \<and> e = None) h)"

definition given_up :: "hist \<Rightarrow> nat" where
  "given_up h = length (filter (\<lambda>(c, e). c = CLogout \<and> e \<noteq> None) h)"

definition sessions :: "world \<Rightarrow> int" where
  "sessions w = int (opened (w_calls w)) - int (closed (w_calls w)) - int (given_up (w_calls w))"

definition held :: "client \<Rightarrow> int" where
  "held c = (if cl_connected c then 1 else 0)"

definition same_books :: "vstate \<Rightarrow> vstate \<Rightarrow> bool" where
  "same_books s t \<longleftrightarrow> sessions (v_w t) - held (v_cl t) = sessions (v_w s) - held (v_cl s)"

lemma same_books_preorder [simp, keeps_intro]: "preorder_rel same_books"
  by (auto simp: preorder_rel_def same_books_def reflp_def transp_def)

named_theorems books_intro \<open>functions that keep the books\<close>

lemma sessions_call: "sessions (record_call E c e w) =
    sessions w + (if is_login c \<and> e = None then 1 else 0) - (if c = CLogout then 1 else 0)"
  by (cases e) (simp_all add: sessions_def record_call_def opened_def closed_def given_up_def)

section \<open>Primitives\<close>

lemma books_call [books_intro]:
  "\<not> is_login c \<Longrightarrow> c \<noteq> CLogout \<Longrightarrow> keeps same_books (do_call E c f)"
  by (auto simp: keeps_def same_books_def do_call_def Let_def sessions_call)

lemma books_prims [books_intro]:
  "keeps same_books (cl_get g)" "keeps same_books clock_get" "keeps same_books (act h op m d)" "keeps same_books (sleep E t)"
  "keeps same_books tick" "keeps same_books (files_get k)" "keeps same_books (files_mod l)" "keeps same_books (getE n)"
  by (auto simp: keeps_def same_books_def io_simps sleep_def tick_def files_get_def files_mod_def sessions_def
      split: option.split)

lemma books_mod [books_intro]: "(\<And>c. cl_connected (f c) = cl_connected c) \<Longrightarrow> keeps same_books (cl_mod f)"
  by (simp add: keeps_def same_books_def io_simps held_def)

lemma books_os [books_intro]: "keeps same_books (os_call E op p)"
  unfolding os_call_def by (intro books_intro) simp_all

section \<open>Opening and closing\<close>

lemma books_close [books_intro]: "keeps same_books (client_Close E)"
  by (auto simp: keeps_def same_books_def client_Close_def io_simps do_call_def Let_def sessions_call held_def
      split: sum.split)

lemma close_closes: "client_Close E s = (r, t) \<Longrightarrow> \<not> cl_connected (v_cl t)"
  by (auto simp: client_Close_def io_simps do_call_def Let_def split: sum.splits if_splits)

text \<open>
  A logout that fails loses the session: \<open>Close\<close> reports the error, which its callers drop, and the client has
  forgotten the session, which nobody can log out any more.
\<close>

theorem failed_logout_forgets_session:
  assumes "client_Close E s = (r, t)" "cl_connected (v_cl s)" "ve_Logout E (w_calls (v_w s)) = Inl e"
  shows "r = Inl e \<and> \<not> cl_connected (v_cl t) \<and> given_up (w_calls (v_w t)) = Suc (given_up (w_calls (v_w s)))
    \<and> closed (w_calls (v_w t)) = closed (w_calls (v_w s))"
  using assms
  by (auto simp: client_Close_def io_simps do_call_def record_call_def outcome_def given_up_def closed_def Let_def split: sum.splits)

lemma logout_fail_sessions:
  "logout_fail E e s = (r, t) \<Longrightarrow> sessions (v_w t) = sessions (v_w s) - 1 \<and> v_cl t = v_cl s"
  by (auto simp: logout_fail_def io_simps do_call_def Let_def sessions_call split: sum.splits)

lemma do_call_sessions:
  "do_call E c f s = (r, t) \<Longrightarrow> \<not> is_login c \<Longrightarrow> c \<noteq> CLogout \<Longrightarrow> sessions (v_w t) = sessions (v_w s) \<and> v_cl t = v_cl s"
  by (auto simp: do_call_def Let_def sessions_call)

lemma login_run:
  "do_call E (CLogin u) f s = (r, t) \<Longrightarrow> sessions (v_w t) = sessions (v_w s) + (case r of Inl _ \<Rightarrow> 0 | Inr _ \<Rightarrow> 1) \<and> v_cl t = v_cl s"
  by (auto simp: do_call_def Let_def sessions_call outcome_def split: sum.splits)

lemma books_ensure [books_intro]: "keeps same_books (ensure E)"
  unfolding keeps_def
proof
  fix s
  obtain r t where run: "ensure E s = (r, t)" by fastforce
  have "same_books s t"
    using run unfolding ensure_def
    by (auto simp: io_simps same_books_def held_def Let_def split: if_splits sum.splits prod.splits
        dest!: login_run do_call_sessions logout_fail_sessions)
  with run show "same_books s (snd (ensure E s))" by simp
qed

section \<open>Every function on a client\<close>

lemma books_vm_Properties [books_intro]: "keeps same_books (vm_Properties E vm ps)"
  unfolding vm_Properties_def by (intro keeps_intro books_intro) simp_all

lemma books_infoFromVM [books_intro]: "keeps same_books (infoFromVM E vm)"
  unfolding infoFromVM_def by (intro keeps_intro books_intro) simp_all

lemma books_requireDatastore [books_intro]: "keeps same_books (requireDatastore)"
  unfolding requireDatastore_def by (intro keeps_intro books_intro)

lemma books_cachedVM [books_intro]: "keeps same_books (cachedVM u)"
  unfolding cachedVM_def by (intro keeps_intro books_intro)

lemma books_rememberUUID [books_intro]: "keeps same_books (rememberUUID u vm)"
  unfolding rememberUUID_def remember_entry_def Let_def by (intro keeps_intro books_intro) simp_all

lemma books_findByUUIDSearchIndex [books_intro]: "keeps same_books (findByUUIDSearchIndex E u)"
  unfolding findByUUIDSearchIndex_def by (intro keeps_intro books_intro) simp_all

lemma books_checkFolder [books_intro]: "keeps same_books (checkFolder E vm)"
  unfolding checkFolder_def gate_path_def by (intro keeps_intro books_intro) simp_all

lemma books_collect_children: "(\<And>f. keeps same_books (rec f)) \<Longrightarrow> keeps same_books (collect_children rec out chs)"
  by (induction rec out chs rule: collect_children.induct) (simp_all add: keeps_intro)

lemma books_collectVMs [books_intro]: "keeps same_books (collectVMs E n fol)"
  by (induction n arbitrary: fol) (simp_all add: keeps_intro books_intro books_collect_children)

lemma books_walk [books_intro]: "keeps same_books (walkFolderInventory E p)"
  unfolding walkFolderInventory_def by (intro keeps_intro books_intro) simp_all

lemma books_find_patterns [books_intro]: "keeps same_books (find_patterns E e ps)"
  by (induction E e ps rule: find_patterns.induct) (simp_all add: keeps_intro books_intro Let_def)

lemma books_find_candidates [books_intro]: "keeps same_books (find_candidates E e bs)"
  by (induction E e bs rule: find_candidates.induct) (simp_all add: keeps_intro books_intro Let_def)

lemma books_match_uuid [books_intro]: "keeps same_books (match_uuid E ep u folder want vms)"
  by (induction vms) (simp_all add: keeps_intro books_intro Let_def)

lemma books_list_vms [books_intro]: "keeps same_books (list_vms E ep out n vms)"
  by (induction vms arbitrary: out n) (simp_all add: keeps_intro books_intro Let_def)

lemma books_find_fallback [books_intro]: "keeps same_books (find_fallback E u e)"
  unfolding find_fallback_def findByUUIDInFolder_def findVMsUnderFolder_def Let_def by (intro keeps_intro books_intro)

lemma books_findByUUID [books_intro]: "keeps same_books (findByUUID E u)"
  unfolding findByUUID_def by (intro keeps_intro books_intro) simp_all

lemma books_GetSystem [books_intro]: "keeps same_books (GetSystem E u)"
  unfolding GetSystem_def by (intro keeps_intro books_intro)

lemma books_ListFolderVMs [books_intro]: "keeps same_books (ListFolderVMs E)"
  unfolding ListFolderVMs_def findVMsUnderFolder_def Let_def by (intro keeps_intro books_intro)

lemma books_answerPendingQuestions [books_intro]: "keeps same_books (answerPendingQuestions E vm)"
  unfolding answerPendingQuestions_def Let_def by (intro keeps_intro books_intro) simp_all

lemma books_ensureMsgAutoAnswer [books_intro]: "keeps same_books (ensureMsgAutoAnswer E vm)"
  unfolding ensureMsgAutoAnswer_def task_Wait_def Let_def by (intro keeps_intro books_intro) simp_all

lemma books_answer_ticks [books_intro]: "keeps same_books (answer_ticks E vm n)"
  by (induction n) (simp_all add: keeps_intro books_intro Let_def)

lemma books_waitTask [books_intro]: "keeps same_books (waitTask E vm)"
  unfolding waitTask_def by (intro keeps_intro books_intro) simp_all

lemma books_vm_PowerState [books_intro]: "keeps same_books (vm_PowerState E vm)"
  unfolding vm_PowerState_def by (intro keeps_intro books_intro) simp_all

lemma books_powerOn [books_intro]: "keeps same_books (powerOn E vm)"
  unfolding powerOn_def by (intro keeps_intro books_intro) simp_all

lemma books_powerOff [books_intro]: "keeps same_books (powerOff E vm)"
  unfolding powerOff_def by (intro keeps_intro books_intro) simp_all

lemma books_soft_loop [books_intro]: "keeps same_books (soft_loop E vm timeout deadline)"
proof -
  have "same_books s (snd (soft_loop E vm timeout deadline s))" for s
  proof (induction E vm timeout deadline s rule: soft_loop.induct)
    case (1 E vm timeout deadline s)
    obtain r s1 where v: "vm_PowerState E vm s = (r, s1)" by fastforce
    then have b1: "same_books s s1" by (rule keepsD [OF books_vm_PowerState])
    obtain q s2 where q: "sleep E (2 * second) s1 = (q, s2)" by fastforce
    then have b2: "same_books s1 s2" by (rule keepsD [OF books_prims(4)])
    from b1 b2 1 show ?case
      by (subst soft_loop.simps) (auto simp: v q same_books_def split: sum.split)
  qed
  then show ?thesis by (simp add: keeps_def)
qed

lemma books_softPowerOff [books_intro]: "keeps same_books (softPowerOff E vm timeout)"
  unfolding softPowerOff_def by (intro keeps_intro books_intro) simp_all

lemma books_reset_switch [books_intro]: "keeps same_books (reset_switch E vm rt)"
  unfolding reset_switch_def Let_def by (intro keeps_intro books_intro)

lemma books_Reset [books_intro]: "keeps same_books (Reset E u rt)"
  unfolding Reset_def by (intro keeps_intro books_intro)

lemma books_vm_Device [books_intro]: "keeps same_books (vm_Device E vm)"
  unfolding vm_Device_def by (intro keeps_intro books_intro) simp_all

lemma books_setBootOrderVM [books_intro]: "keeps same_books (setBootOrderVM E vm prefer)"
  unfolding setBootOrderVM_def Let_def by (intro keeps_intro books_intro) simp_all

lemma books_SetBoot [books_intro]: "keeps same_books (SetBootCDOnce E u)"
  unfolding SetBootCDOnce_def by (intro keeps_intro books_intro)

lemma books_SetBootDisk [books_intro]: "keeps same_books (SetBootDiskFirst E u)"
  unfolding SetBootDiskFirst_def setBootDiskFirstVM_def by (intro keeps_intro books_intro)

lemma books_read_file [books_intro]: "keeps same_books (read_file E p)"
  unfolding read_file_def by (intro keeps_intro books_intro)

lemma books_contentISOName [books_intro]: "keeps same_books (contentISOName E p)"
  unfolding contentISOName_def by (intro keeps_intro books_intro)

lemma books_os_Stat_size [books_intro]: "keeps same_books (os_Stat_size E p)"
  unfolding os_Stat_size_def by (intro keeps_intro books_intro)

lemma books_downloadISO [books_intro]: "keeps same_books (downloadISO E url)"
  unfolding downloadISO_def fetchISO_def store_body_def Let_def by (intro keeps_intro books_intro) simp_all

lemma books_datastoreDirExists [books_intro]: "keeps same_books (datastoreDirExists E p)"
  unfolding datastoreDirExists_def Let_def by (intro keeps_intro books_intro) simp_all

lemma books_datastoreFileExists [books_intro]: "keeps same_books (datastoreFileExists E p)"
  unfolding datastoreFileExists_def Let_def by (intro keeps_intro books_intro) simp_all

lemma books_mkdir_parts [books_intro]: "keeps same_books (mkdir_parts E a ps)"
  by (induction E a ps rule: mkdir_parts.induct) (simp_all add: keeps_intro books_intro Let_def)

lemma books_ensureISOFolder [books_intro]: "keeps same_books (ensureISOFolder E)"
  unfolding ensureISOFolder_def Let_def by (intro keeps_intro books_intro)

lemma books_host_uploads [books_intro]: "keeps same_books (host_uploads E p hs e)"
  by (induction hs arbitrary: e) (simp_all add: keeps_intro books_intro Let_def)

lemma books_putISO [books_intro]: "keeps same_books (putISO E l p)"
  unfolding putISO_def putISOViaHost_def putISOViaVC_def by (intro keeps_intro books_intro) simp_all

lemma books_confirm [books_intro]: "keeps same_books (confirm_upload E p)"
  unfolding confirm_upload_def by (intro keeps_intro books_intro)

lemma books_upload_attempts [books_intro]: "keeps same_books (upload_attempts E l p n)"
  by (induction n) (simp_all add: keeps_intro books_intro Let_def)

lemma books_uploadISOIfNeeded [books_intro]: "keeps same_books (uploadISOIfNeeded E l p)"
  unfolding uploadISOIfNeeded_def upload_serial_def by (intro keeps_intro books_intro) simp_all

lemma books_ISOCacheStatus [books_intro]: "keeps same_books (ISOCacheStatus E ord)"
  unfolding ISOCacheStatus_def iso_finish_def Let_def by (intro keeps_intro books_intro) simp_all

lemma books_attachCDROM [books_intro]: "keeps same_books (attachCDROM E vm p)"
  unfolding attachCDROM_def reconfigure_wait_def Let_def by (intro keeps_intro books_intro) simp_all

lemma books_disconnectCDROM [books_intro]: "keeps same_books (disconnectCDROM E vm)"
  unfolding disconnectCDROM_def reconfigure_wait_def Let_def by (intro keeps_intro books_intro) simp_all

lemma books_detachCDROM [books_intro]: "keeps same_books (detachCDROM E vm)"
  unfolding detachCDROM_def reconfigure_wait_def Let_def by (intro keeps_intro books_intro) simp_all

lemma books_powerOffForMedia [books_intro]: "keeps same_books (powerOffForMedia E vm)"
  unfolding powerOffForMedia_def by (intro keeps_intro books_intro)

lemma books_was_on [books_intro]: "keeps same_books (was_on E vm)"
  unfolding was_on_def by (intro keeps_intro books_intro)

lemma books_set_media [books_intro]: "keeps same_books (set_media u i)"
  unfolding set_media_def by (intro keeps_intro books_intro) simp_all

lemma books_disconnect_for_insert [books_intro]: "keeps same_books (disconnect_for_insert E vm b)"
  unfolding disconnect_for_insert_def by (intro keeps_intro books_intro)

lemma books_swap_media [books_intro]: "keeps same_books (swap_media E u vm p)"
  unfolding swap_media_def by (intro keeps_intro books_intro)

lemma books_insert_staged [books_intro]: "keeps same_books (insert_staged E u i vm p)"
  unfolding insert_staged_def Let_def by (intro keeps_intro books_intro)

lemma books_InsertMedia [books_intro]: "keeps same_books (InsertMedia E u i)"
  unfolding InsertMedia_def Let_def by (intro keeps_intro books_intro)

lemma books_eject_detach [books_intro]: "keeps same_books (eject_detach E vm)"
  unfolding eject_detach_def eject_power_off_def by (intro keeps_intro books_intro)

lemma books_EjectMedia [books_intro]: "keeps same_books (EjectMedia E u)"
  unfolding EjectMedia_def setBootDiskFirstVM_def by (intro keeps_intro books_intro) simp_all

lemma books_cdromStatus [books_intro]: "keeps same_books (cdromStatus E vm)"
  unfolding cdromStatus_def cdromISOPathProps_def by (intro keeps_intro books_intro) simp_all

lemma books_MappingStatus [books_intro]: "keeps same_books (MappingStatus E u)"
  unfolding MappingStatus_def status_found_def Let_def by (intro keeps_intro books_intro)

lemma books_verifyFolderExists [books_intro]: "keeps same_books (verifyFolderExists E f)"
  unfolding verifyFolderExists_def Let_def by (intro keeps_intro books_intro) simp_all

lemma books_probeISOFolder [books_intro]: "keeps same_books (probeISOFolder E)"
  unfolding probeISOFolder_def Let_def by (intro keeps_intro books_intro)

lemma books_probe_session [books_intro]: "keeps same_books (probe_session E ep out)"
  unfolding probe_session_def probe_connected_def probe_folder_def probe_iso_def probe_iso_folder_def Let_def by (intro keeps_intro books_intro)

lemma books_test_session [books_intro]: "keeps same_books (test_session E ep out)"
  unfolding test_session_def test_connected_def test_folder_def test_iso_folder_def Let_def by (intro keeps_intro books_intro)

section \<open>Making and closing a client\<close>

lemma close_client_sessions: "sessions (close_client E c w) = sessions w - held c"
proof -
  obtain r t where t: "client_Close E \<lparr>v_cl = c, v_w = w\<rparr> = (r, t)" by fastforce
  from keepsD [OF books_close t] close_closes [OF t] show ?thesis
    by (simp add: same_books_def held_def close_client_def t)
qed

lemma NewClient_sessions: "NewClient E ep w = (r, w') \<Longrightarrow> sessions w' = sessions w \<and> (\<forall>c. r = Inr c \<longrightarrow> held c = 0)"
  by (auto simp: NewClient_def io_simps world_call_def sessions_call held_def Let_def split: if_splits sum.splits prod.splits)

end
