(* ===== verification/Pool_Flight.thy ===== *)
theory Pool_Flight
  imports Session_Books
begin

text \<open>
  The pool as requests share it (\<open>internal/vsphere/pool.go\<close>): it holds pointers, and a request goes on with the
  pointer it was given after the pool's lock is released. Clients are the cells of a heap. First, as long as a
  pointer is in the pool this is the pool of \<open>Vsphere_Pool\<close>, which puts a client back after each operation; then
  what becomes of sessions when requests, edits and deletes interleave.
\<close>

section \<open>Pointers\<close>

record pool_heap =
  h_isoCache :: string
  h_cells :: "client list"
  h_clients :: "(string, nat) fmap"
  h_w :: world

definition heap_New :: "string \<Rightarrow> world \<Rightarrow> pool_heap" where
  "heap_New isoCache w = \<lparr>h_isoCache = isoCache, h_cells = [], h_clients = fmempty, h_w = w\<rparr>"

text \<open>A stretch of an operation on the client at an address; the pool may have forgotten it by then.\<close>

definition cell_run :: "nat \<Rightarrow> (vstate \<Rightarrow> vstate) \<Rightarrow> pool_heap \<Rightarrow> pool_heap" where
  "cell_run a f s = (let t = f \<lparr>v_cl = h_cells s ! a, v_w = h_w s\<rparr> in s\<lparr>h_cells := (h_cells s)[a := v_cl t], h_w := v_w t\<rparr>)"

definition cell_Close :: "vsphere \<Rightarrow> nat \<Rightarrow> pool_heap \<Rightarrow> pool_heap" where
  "cell_Close E a s = cell_run a (\<lambda>t. snd (client_Close E t)) s"

definition shared_make :: "vsphere \<Rightarrow> string \<Rightarrow> endpoint \<Rightarrow> pool_heap \<Rightarrow> (verr + nat) \<times> pool_heap" where
  "shared_make E vid ep s = (case NewClient E ep (h_w s) of
       (Inl e, w) \<Rightarrow> (Inl e, s\<lparr>h_w := w\<rparr>)
     | (Inr c, w) \<Rightarrow> (Inr (length (h_cells s)),
         s\<lparr>h_cells := h_cells s @ [c], h_clients := fmupd vid (length (h_cells s)) (h_clients s), h_w := w\<rparr>))"

definition shared_For :: "vsphere \<Rightarrow> vcenter \<Rightarrow> pool_heap \<Rightarrow> (verr + nat) \<times> pool_heap" where
  "shared_For E vc s = (let ep = endpointFrom (NewPool (h_isoCache s)) vc in
     case fmlookup (h_clients s) (vc_ID vc) of
       Some a \<Rightarrow> if sameEndpoint (cl_ep (h_cells s ! a)) ep then (Inr a, s)
         else shared_make E (vc_ID vc) ep ((cell_Close E a s)\<lparr>h_clients := fmdrop (vc_ID vc) (h_clients s)\<rparr>)
     | None \<Rightarrow> shared_make E (vc_ID vc) ep s)"

definition shared_Invalidate :: "vsphere \<Rightarrow> string \<Rightarrow> pool_heap \<Rightarrow> pool_heap" where
  "shared_Invalidate E vid s = (case fmlookup (h_clients s) vid of
       Some a \<Rightarrow> (cell_Close E a s)\<lparr>h_clients := fmdrop vid (h_clients s)\<rparr>
     | None \<Rightarrow> s)"

definition shared_CloseAll :: "vsphere \<Rightarrow> string list \<Rightarrow> pool_heap \<Rightarrow> pool_heap" where
  "shared_CloseAll E order s = fold (shared_Invalidate E) order s"

section \<open>Pointers and values\<close>

definition pool_view :: "pool_heap \<Rightarrow> pool" where
  "pool_view s = \<lparr>p_isoCache = h_isoCache s, p_clients = fmmap (\<lambda>a. h_cells s ! a) (h_clients s)\<rparr>"

text \<open>Every pointer of the pool is to a cell, no two are to the same.\<close>

definition heap_ok :: "pool_heap \<Rightarrow> bool" where
  "heap_ok s \<longleftrightarrow> (\<forall>k a. fmlookup (h_clients s) k = Some a \<longrightarrow> a < length (h_cells s))
     \<and> (\<forall>k k' a. fmlookup (h_clients s) k = Some a \<longrightarrow> fmlookup (h_clients s) k' = Some a \<longrightarrow> k = k')"

lemma heap_ok_bound: "heap_ok s \<Longrightarrow> fmlookup (h_clients s) k = Some a \<Longrightarrow> a < length (h_cells s)"
  by (simp add: heap_ok_def)

lemma heap_ok_inj: "heap_ok s \<Longrightarrow> fmlookup (h_clients s) k = Some a \<Longrightarrow> fmlookup (h_clients s) k' = Some a \<Longrightarrow> k = k'"
  by (simp add: heap_ok_def)

lemma heap_ok_New [simp]: "heap_ok (heap_New cache w)"
  by (simp add: heap_ok_def heap_New_def)

lemma view_New: "pool_view (heap_New cache w) = NewPool cache"
  by (simp add: pool_view_def heap_New_def NewPool_def)

lemma cell_run_frame [simp]: "h_clients (cell_run a f s) = h_clients s" "h_isoCache (cell_run a f s) = h_isoCache s"
    "length (h_cells (cell_run a f s)) = length (h_cells s)" "heap_ok (cell_run a f s) = heap_ok s"
    "h_clients (cell_Close E a s) = h_clients s" "h_isoCache (cell_Close E a s) = h_isoCache s"
    "length (h_cells (cell_Close E a s)) = length (h_cells s)" "heap_ok (cell_Close E a s) = heap_ok s"
  by (simp_all add: cell_run_def cell_Close_def heap_ok_def Let_def)

lemma heap_ok_drop: "heap_ok s \<Longrightarrow> heap_ok (s\<lparr>h_clients := fmdrop k (h_clients s)\<rparr>)"
  by (simp add: heap_ok_def)

lemma pool_eqI: "p_isoCache p = p_isoCache (q :: pool) \<Longrightarrow> (\<And>k. fmlookup (p_clients p) k = fmlookup (p_clients q) k) \<Longrightarrow> p = q"
  by (intro pool.equality) (simp_all add: fmap_ext)

lemma view_run:
  assumes "heap_ok s" "fmlookup (h_clients s) vid = Some a"
  shows "pool_view (cell_run a f s) = pool_put vid (v_cl (f \<lparr>v_cl = h_cells s ! a, v_w = h_w s\<rparr>)) (pool_view s)"
  by (rule pool_eqI)
    (use assms in \<open>auto simp: pool_view_def pool_put_def cell_run_def Let_def option.map_comp
      intro!: option.map_cong nth_list_update_neq dest: heap_ok_bound heap_ok_inj\<close>)

lemma view_drop: "heap_ok s \<Longrightarrow> fmlookup (h_clients s) vid = Some a \<Longrightarrow>
    pool_view ((cell_run a f s)\<lparr>h_clients := fmdrop vid (h_clients s)\<rparr>) = (pool_view s)\<lparr>p_clients := fmdrop vid (p_clients (pool_view s))\<rparr>"
  by (rule pool_eqI)
    (auto simp: pool_view_def cell_run_def Let_def intro!: option.map_cong nth_list_update_neq dest: heap_ok_inj)

lemma cell_Close_world: "h_w (cell_Close E a s) = close_client E (h_cells s ! a) (h_w s)"
  by (simp add: cell_Close_def cell_run_def close_client_def Let_def)

section \<open>The shared pool is the pool\<close>

lemma heap_ok_make:
  assumes "heap_ok s" "shared_make E vid ep s = (r, s')"
  shows "heap_ok s'"
proof -
  have new: "heap_ok (s\<lparr>h_cells := h_cells s @ [c], h_clients := fmupd vid (length (h_cells s)) (h_clients s), h_w := w\<rparr>)" for c w
    using heap_ok_bound [OF assms(1)] heap_ok_inj [OF assms(1)] unfolding heap_ok_def
    by (auto split: if_splits intro: less_SucI dest: less_irrefl_nat)
  have "heap_ok (s\<lparr>h_w := w\<rparr>)" for w using assms(1) by (simp add: heap_ok_def)
  with new assms(2) show ?thesis by (auto simp: shared_make_def split: prod.splits sum.splits)
qed

lemma make_refines:
  assumes "heap_ok s" "shared_make E vid ep s = (r, s')"
  shows "pool_make E vid ep (pool_view s, h_w s) = (map_sum id (\<lambda>a. h_cells s' ! a) r, pool_view s', h_w s')
    \<and> (\<forall>a. r = Inr a \<longrightarrow> fmlookup (h_clients s') vid = Some a)"
proof (cases "NewClient E ep (h_w s)")
  case (Pair q w)
  show ?thesis
  proof (cases q)
    case (Inl e)
    with Pair assms(2) show ?thesis by (auto simp: shared_make_def pool_make_def pool_view_def)
  next
    case (Inr c)
    with Pair assms(2) have s': "r = Inr (length (h_cells s))"
      "s' = s\<lparr>h_cells := h_cells s @ [c], h_clients := fmupd vid (length (h_cells s)) (h_clients s), h_w := w\<rparr>"
      by (auto simp: shared_make_def)
    have "(pool_view s)\<lparr>p_clients := fmupd vid c (p_clients (pool_view s))\<rparr> = pool_view s'"
      by (rule pool_eqI)
        (use assms(1) in \<open>auto simp: s'(2) pool_view_def nth_append intro!: option.map_cong dest: heap_ok_bound\<close>)
    with Pair Inr show ?thesis by (simp add: pool_make_def s')
  qed
qed

lemma shared_For_refines:
  assumes "heap_ok s" "shared_For E vc s = (r, s')"
  shows "heap_ok s' \<and> pool_For E vc (pool_view s, h_w s) = (map_sum id (\<lambda>a. h_cells s' ! a) r, pool_view s', h_w s')
    \<and> (\<forall>a. r = Inr a \<longrightarrow> fmlookup (h_clients s') (vc_ID vc) = Some a)"
proof -
  have ep: "endpointFrom (pool_view s) vc = endpointFrom (NewPool (h_isoCache s)) vc"
    by (simp add: endpointFrom_def pool_view_def NewPool_def)
  show ?thesis
  proof (cases "fmlookup (h_clients s) (vc_ID vc)")
    case None
    then have "shared_make E (vc_ID vc) (endpointFrom (pool_view s) vc) s = (r, s')" "fmlookup (p_clients (pool_view s)) (vc_ID vc) = None"
      using assms(2) by (simp_all add: shared_For_def pool_view_def ep [unfolded pool_view_def] Let_def)
    with make_refines [OF assms(1)] heap_ok_make [OF assms(1)] show ?thesis by (simp add: pool_For_def Let_def)
  next
    case (Some a)
    then have v: "fmlookup (p_clients (pool_view s)) (vc_ID vc) = Some (h_cells s ! a)" by (simp add: pool_view_def)
    show ?thesis
    proof (cases "sameEndpoint (cl_ep (h_cells s ! a)) (endpointFrom (pool_view s) vc)")
      case True
      then have "r = Inr a" "s' = s" using Some assms(2) by (simp_all add: shared_For_def ep Let_def)
      with Some v True assms(1) show ?thesis by (simp add: pool_For_def Let_def)
    next
      case False
      define t where "t = (cell_Close E a s)\<lparr>h_clients := fmdrop (vc_ID vc) (h_clients s)\<rparr>"
      have t: "shared_make E (vc_ID vc) (endpointFrom (pool_view s) vc) t = (r, s')"
        using assms(2) Some False by (simp add: shared_For_def ep t_def Let_def)
      have ok: "heap_ok t" using heap_ok_drop [of "cell_Close E a s" "vc_ID vc"] assms(1) by (simp add: t_def)
      have "pool_view t = (pool_view s)\<lparr>p_clients := fmdrop (vc_ID vc) (p_clients (pool_view s))\<rparr>"
        "h_w t = close_client E (h_cells s ! a) (h_w s)"
        using view_drop [OF assms(1) Some] by (simp_all add: t_def cell_Close_def cell_Close_world [unfolded cell_Close_def])
      with make_refines [OF ok t] heap_ok_make [OF ok t] v False show ?thesis by (simp add: pool_For_def Let_def)
    qed
  qed
qed

lemma shared_Invalidate_refines:
  assumes "heap_ok s"
  shows "heap_ok (shared_Invalidate E vid s)
    \<and> pool_Invalidate E vid (pool_view s, h_w s) = (pool_view (shared_Invalidate E vid s), h_w (shared_Invalidate E vid s))"
proof (cases "fmlookup (h_clients s) vid")
  case None
  with assms show ?thesis by (simp add: shared_Invalidate_def pool_Invalidate_def pool_view_def)
next
  case (Some a)
  have "fmlookup (p_clients (pool_view s)) vid = Some (h_cells s ! a)" using Some by (simp add: pool_view_def)
  with Some view_drop [OF assms Some, of "\<lambda>t. snd (client_Close E t)"] heap_ok_drop [of "cell_Close E a s" vid] assms show ?thesis
    by (simp add: shared_Invalidate_def pool_Invalidate_def cell_Close_world) (simp add: cell_Close_def)
qed

lemma shared_CloseAll_refines:
  assumes "heap_ok s"
  shows "heap_ok (shared_CloseAll E order s)
    \<and> pool_CloseAll E order (pool_view s, h_w s) = (pool_view (shared_CloseAll E order s), h_w (shared_CloseAll E order s))"
  using assms
proof (induction order arbitrary: s)
  case Nil
  then show ?case by (simp add: shared_CloseAll_def pool_CloseAll_def)
next
  case (Cons vid order)
  from shared_Invalidate_refines [OF Cons.prems, of E vid] Cons.IH [of "shared_Invalidate E vid s"] show ?case
    by (simp add: shared_CloseAll_def pool_CloseAll_def)
qed

text \<open>
  Requests that share pointers see the pool that the sequential model has. Reading each pointer of the pool
  as the client behind it, \<open>For\<close>, \<open>Invalidate\<close> and \<open>CloseAll\<close> on the heap do exactly what they do on the pool of values,
  with the same outside calls and the same answer; and an operation that runs on a pointer still in the pool
  is the operation on the value, put back as it left it.
\<close>

theorem shared_pool_refines_pool:
  assumes "heap_ok s"
  shows "(case shared_For E vc s of (r, s1) \<Rightarrow>
        pool_For E vc (pool_view s, h_w s) = (map_sum id (\<lambda>a. h_cells s1 ! a) r, pool_view s1, h_w s1) \<and> heap_ok s1)
    \<and> pool_Invalidate E vid (pool_view s, h_w s) = (pool_view (shared_Invalidate E vid s), h_w (shared_Invalidate E vid s))
    \<and> pool_CloseAll E order (pool_view s, h_w s) = (pool_view (shared_CloseAll E order s), h_w (shared_CloseAll E order s))
    \<and> (\<forall>a t. fmlookup (h_clients s) vid = Some a \<longrightarrow> f \<lparr>v_cl = h_cells s ! a, v_w = h_w s\<rparr> = t \<longrightarrow>
        pool_view (cell_run a f s) = pool_put vid (v_cl t) (pool_view s) \<and> h_w (cell_run a f s) = v_w t)"
  using shared_For_refines [OF assms] shared_Invalidate_refines [OF assms] shared_CloseAll_refines [OF assms]
    view_run [OF assms] by (auto simp: cell_run_def Let_def split: prod.split)

theorem shared_pool_refines_pool_witness:
  "\<exists>a s1. shared_For demo_vs demo_stored (heap_New [] demo_world) = (Inr a, s1)
     \<and> pool_For demo_vs demo_stored (NewPool [], demo_world) = (Inr (h_cells s1 ! a), pool_view s1, h_w s1)"
proof -
  have n: "normalizeDatastore [] = []" "NormalizeDatastore [] = []" by code_simp+
  obtain a s1 where f: "shared_For demo_vs demo_stored (heap_New [] demo_world) = (Inr a, s1)"
    by (simp add: shared_For_def shared_make_def heap_New_def NewPool_def NewClient_def endpointFrom_def world_call_def demo_stored_def demo_vc_def
        vcenter_zero_def n thenE_def bindE_def tryE_def retE_def demo_vs_def Let_def)
  have h: "h_w (heap_New [] demo_world) = demo_world" by (simp add: heap_New_def)
  from shared_pool_refines_pool [OF heap_ok_New, of demo_vs demo_stored "[]" demo_world] f show ?thesis by (auto simp: view_New h)
qed

section \<open>Requests that interleave\<close>

definition connected_cells :: "pool_heap \<Rightarrow> nat set" where
  "connected_cells s = {a. a < length (h_cells s) \<and> cl_connected (h_cells s ! a)}"

definition in_pool :: "pool_heap \<Rightarrow> nat set" where
  "in_pool s = {a. \<exists>k. fmlookup (h_clients s) k = Some a}"

definition in_use :: "(nat, nat) fmap \<Rightarrow> nat set" where
  "in_use reqs = {a. \<exists>r. fmlookup reqs r = Some a}"

text \<open>
  The states that requests reach: \<open>reqs\<close> has the pointer of each request. A request asks the pool for a client,
  runs stretches of operations on it (any function that keeps the books, as every operation does) and ends; the
  API invalidates, the process closes all. \<open>quiet\<close> restricts the steps to those that retire no client that a
  request holds.
\<close>

inductive shared_reach :: "vsphere \<Rightarrow> bool \<Rightarrow> string \<Rightarrow> world \<Rightarrow> pool_heap \<Rightarrow> (nat, nat) fmap \<Rightarrow> bool"
  for E :: vsphere and quiet :: bool and isoCache :: string and w0 :: world where
  start: "shared_reach E quiet isoCache w0 (heap_New isoCache w0) fmempty"
| take: "shared_reach E quiet isoCache w0 s reqs \<Longrightarrow> shared_For E vc s = (r, s') \<Longrightarrow>
    (quiet \<Longrightarrow> (in_pool s - in_pool s') \<inter> in_use reqs = {}) \<Longrightarrow>
    shared_reach E quiet isoCache w0 s' (case r of Inl _ \<Rightarrow> reqs | Inr a \<Rightarrow> fmupd i a reqs)"
| use: "shared_reach E quiet isoCache w0 s reqs \<Longrightarrow> a \<in> in_use reqs \<Longrightarrow> (\<And>t. same_books t (f t)) \<Longrightarrow>
    shared_reach E quiet isoCache w0 (cell_run a f s) reqs"
| release: "shared_reach E quiet isoCache w0 s reqs \<Longrightarrow> shared_reach E quiet isoCache w0 s (fmdrop i reqs)"
| invalidate: "shared_reach E quiet isoCache w0 s reqs \<Longrightarrow> s' = shared_Invalidate E vid s \<Longrightarrow>
    (quiet \<Longrightarrow> (in_pool s - in_pool s') \<inter> in_use reqs = {}) \<Longrightarrow> shared_reach E quiet isoCache w0 s' reqs"
| close_all: "shared_reach E quiet isoCache w0 s reqs \<Longrightarrow> s' = shared_CloseAll E order s \<Longrightarrow>
    (quiet \<Longrightarrow> (in_pool s - in_pool s') \<inter> in_use reqs = {}) \<Longrightarrow> shared_reach E quiet isoCache w0 s' reqs"

section \<open>The books of the heap\<close>

definition heap_books :: "pool_heap \<Rightarrow> int" where
  "heap_books s = sessions (h_w s) - sum_list (map held (h_cells s))"

lemma sum_list_held_update: "a < length cs \<Longrightarrow> sum_list (map held (cs[a := c])) = sum_list (map held cs) - held (cs ! a) + held c"
proof (induction cs arbitrary: a)
  case (Cons x cs)
  then show ?case by (cases a) simp_all
qed simp

lemma sum_list_held: "sum_list (map held cs) = int (length (filter cl_connected cs))"
  by (induction cs) (simp_all add: held_def)

lemma heap_books_count: "heap_books s = sessions (h_w s) - int (card (connected_cells s))"
  by (simp add: heap_books_def sum_list_held length_filter_conv_card connected_cells_def)

lemma cell_run_books: "a < length (h_cells s) \<Longrightarrow> (\<And>t. same_books t (f t)) \<Longrightarrow> heap_books (cell_run a f s) = heap_books s"
proof -
  assume a: "a < length (h_cells s)" and f: "\<And>t. same_books t (f t)"
  from f [of "\<lparr>v_cl = h_cells s ! a, v_w = h_w s\<rparr>"] show ?thesis
    by (simp add: heap_books_def cell_run_def Let_def sum_list_held_update [OF a] same_books_def)
qed

lemma keeps_books_stretch: "keeps same_books m \<Longrightarrow> same_books t (snd (m t))"
  by (simp add: keeps_def)

lemma cell_Close_books: "a < length (h_cells s) \<Longrightarrow> heap_books (cell_Close E a s) = heap_books s"
  unfolding cell_Close_def by (rule cell_run_books) (auto intro: keeps_books_stretch books_close)

lemma heap_books_clients [simp]: "heap_books (s\<lparr>h_clients := m\<rparr>) = heap_books s"
  by (simp add: heap_books_def)

lemma make_books: "shared_make E vid ep s = (r, s') \<Longrightarrow> heap_books s' = heap_books s"
  by (auto simp: shared_make_def heap_books_def split: prod.splits sum.splits dest!: NewClient_sessions)

lemma shared_For_books: "heap_ok s \<Longrightarrow> shared_For E vc s = (r, s') \<Longrightarrow> heap_books s' = heap_books s"
  by (auto simp: shared_For_def Let_def cell_Close_books heap_ok_bound split: option.splits if_splits dest!: make_books)

lemma shared_Invalidate_books: "heap_ok s \<Longrightarrow> heap_books (shared_Invalidate E vid s) = heap_books s"
  by (auto simp: shared_Invalidate_def cell_Close_books heap_ok_bound split: option.split)

lemma shared_CloseAll_books: "heap_ok s \<Longrightarrow> heap_books (shared_CloseAll E order s) = heap_books s"
  using shared_Invalidate_refines
  by (induction order arbitrary: s) (simp_all add: shared_CloseAll_def shared_Invalidate_books)

section \<open>What the pool forgets is closed\<close>

text \<open>A cell that is not in the pool is closed, unless it was out of the pool before and is as it was.\<close>

definition forgets :: "pool_heap \<Rightarrow> pool_heap \<Rightarrow> bool" where
  "forgets s s' \<longleftrightarrow> length (h_cells s) \<le> length (h_cells s') \<and>
     (\<forall>b < length (h_cells s'). b \<notin> in_pool s' \<longrightarrow> \<not> cl_connected (h_cells s' ! b)
        \<or> b < length (h_cells s) \<and> b \<notin> in_pool s \<and> h_cells s' ! b = h_cells s ! b)"

lemma forgetsI:
  assumes "length (h_cells s) \<le> length (h_cells s')"
    and "\<And>b. b < length (h_cells s') \<Longrightarrow> b \<notin> in_pool s' \<Longrightarrow> cl_connected (h_cells s' ! b) \<Longrightarrow>
      b < length (h_cells s) \<and> b \<notin> in_pool s \<and> h_cells s' ! b = h_cells s ! b"
  shows "forgets s s'"
  using assms by (auto simp: forgets_def)

lemma forgetsD: "forgets s s' \<Longrightarrow> b < length (h_cells s') \<Longrightarrow> b \<notin> in_pool s' \<Longrightarrow> cl_connected (h_cells s' ! b) \<Longrightarrow>
    b < length (h_cells s) \<and> b \<notin> in_pool s \<and> h_cells s' ! b = h_cells s ! b"
  by (auto simp: forgets_def)

lemma forgets_refl [simp]: "forgets s s"
  by (simp add: forgets_def)

lemma forgets_trans: "forgets s t \<Longrightarrow> forgets t u \<Longrightarrow> forgets s u"
proof (rule forgetsI)
  assume st: "forgets s t" and tu: "forgets t u"
  show "length (h_cells s) \<le> length (h_cells u)" using st tu by (simp add: forgets_def)
  fix b assume "b < length (h_cells u)" "b \<notin> in_pool u" "cl_connected (h_cells u ! b)"
  with forgetsD [OF tu] have "b < length (h_cells t)" "b \<notin> in_pool t" "h_cells u ! b = h_cells t ! b" "cl_connected (h_cells t ! b)"
    by fastforce+
  with forgetsD [OF st] show "b < length (h_cells s) \<and> b \<notin> in_pool s \<and> h_cells u ! b = h_cells s ! b" by simp
qed

lemma forgets_make:
  assumes "fmlookup (h_clients s) vid = None" "shared_make E vid ep s = (r, s')"
  shows "forgets s s'"
proof (rule forgetsI)
  show "length (h_cells s) \<le> length (h_cells s')"
    using assms(2) by (auto simp: shared_make_def split: prod.splits sum.splits)
  fix b assume "b < length (h_cells s')" "b \<notin> in_pool s'"
  with assms show "b < length (h_cells s) \<and> b \<notin> in_pool s \<and> h_cells s' ! b = h_cells s ! b"
    by (auto simp: shared_make_def in_pool_def nth_append less_Suc_eq split: prod.splits sum.splits if_splits)
      (metis option.distinct(1))+
qed

lemma cell_Close_closes: "a < length (h_cells s) \<Longrightarrow> \<not> cl_connected (h_cells (cell_Close E a s) ! a)"
  by (simp add: cell_Close_def cell_run_def Let_def) (metis close_closes prod.collapse)

lemma forgets_retire:
  assumes "heap_ok s" "fmlookup (h_clients s) vid = Some a"
  shows "forgets s ((cell_Close E a s)\<lparr>h_clients := fmdrop vid (h_clients s)\<rparr>)"
proof (rule forgetsI)
  fix b assume b: "b < length (h_cells ((cell_Close E a s)\<lparr>h_clients := fmdrop vid (h_clients s)\<rparr>))"
    "b \<notin> in_pool ((cell_Close E a s)\<lparr>h_clients := fmdrop vid (h_clients s)\<rparr>)"
    "cl_connected (h_cells ((cell_Close E a s)\<lparr>h_clients := fmdrop vid (h_clients s)\<rparr>) ! b)"
  have "b \<noteq> a" using b cell_Close_closes [of a s E] by auto
  moreover have "b \<notin> in_pool s" using b(2) assms(2) \<open>b \<noteq> a\<close> by (auto simp: in_pool_def) (metis option.inject)
  ultimately show "b < length (h_cells s) \<and> b \<notin> in_pool s
      \<and> h_cells ((cell_Close E a s)\<lparr>h_clients := fmdrop vid (h_clients s)\<rparr>) ! b = h_cells s ! b"
    using b(1) by (simp add: cell_Close_def cell_run_def Let_def)
qed simp

lemma forgets_For:
  assumes "heap_ok s" "shared_For E vc s = (r, s')"
  shows "forgets s s'"
proof (cases "fmlookup (h_clients s) (vc_ID vc)")
  case None
  with assms(2) forgets_make [OF None] show ?thesis by (simp add: shared_For_def Let_def)
next
  case (Some a)
  show ?thesis
  proof (cases "sameEndpoint (cl_ep (h_cells s ! a)) (endpointFrom (NewPool (h_isoCache s)) vc)")
    case True
    with Some assms(2) show ?thesis by (auto simp: shared_For_def Let_def)
  next
    case False
    define t where "t = (cell_Close E a s)\<lparr>h_clients := fmdrop (vc_ID vc) (h_clients s)\<rparr>"
    have "shared_make E (vc_ID vc) (endpointFrom (NewPool (h_isoCache s)) vc) t = (r, s')"
      using assms(2) Some False by (simp add: shared_For_def t_def Let_def)
    moreover have "fmlookup (h_clients t) (vc_ID vc) = None" by (simp add: t_def)
    ultimately have "forgets t s'" by (metis forgets_make)
    with forgets_retire [OF assms(1) Some] show ?thesis unfolding t_def by (rule forgets_trans)
  qed
qed

lemma forgets_Invalidate: "heap_ok s \<Longrightarrow> forgets s (shared_Invalidate E vid s)"
  by (auto simp: shared_Invalidate_def forgets_retire split: option.split)

lemma forgets_CloseAll: "heap_ok s \<Longrightarrow> forgets s (shared_CloseAll E order s)"
proof (induction order arbitrary: s)
  case (Cons vid order)
  from shared_Invalidate_refines [OF Cons.prems, of E vid] Cons.IH [of "shared_Invalidate E vid s"]
  have "forgets (shared_Invalidate E vid s) (shared_CloseAll E (vid # order) s)" by (simp add: shared_CloseAll_def)
  with forgets_Invalidate [OF Cons.prems] show ?case by (rule forgets_trans)
qed (simp add: shared_CloseAll_def)

section \<open>The invariant\<close>

text \<open>What the pool no longer has is closed and, in quiet states, held by no request.\<close>

definition heap_inv :: "bool \<Rightarrow> pool_heap \<Rightarrow> (nat, nat) fmap \<Rightarrow> bool" where
  "heap_inv quiet s reqs \<longleftrightarrow> heap_ok s \<and> heap_books s = 0 \<and> in_use reqs \<subseteq> {..< length (h_cells s)}
     \<and> (quiet \<longrightarrow> in_use reqs \<subseteq> in_pool s \<and> connected_cells s \<subseteq> in_pool s)"

lemma heap_inv_step:
  assumes inv: "heap_inv quiet s reqs" and ok: "heap_ok s'" and books: "heap_books s' = heap_books s"
    and forget: "forgets s s'" and quiet: "quiet \<Longrightarrow> (in_pool s - in_pool s') \<inter> in_use reqs = {}"
  shows "heap_inv quiet s' reqs"
proof -
  have len: "length (h_cells s) \<le> length (h_cells s')" using forget by (simp add: forgets_def)
  have "in_use reqs \<subseteq> in_pool s' \<and> connected_cells s' \<subseteq> in_pool s'" if q: quiet
  proof
    show "in_use reqs \<subseteq> in_pool s'" using inv quiet [OF q] q by (auto simp: heap_inv_def)
    show "connected_cells s' \<subseteq> in_pool s'"
    proof
      fix b assume b: "b \<in> connected_cells s'"
      show "b \<in> in_pool s'"
      proof (rule ccontr)
        assume "b \<notin> in_pool s'"
        with forgetsD [OF forget, of b] b have "b \<in> connected_cells s" "b \<notin> in_pool s" by (auto simp: connected_cells_def)
        with inv q show False by (auto simp: heap_inv_def)
      qed
    qed
  qed
  with inv ok books len show ?thesis by (auto simp: heap_inv_def)
qed

lemma heap_inv_take: "heap_inv quiet s reqs \<Longrightarrow> fmlookup (h_clients s) k = Some a \<Longrightarrow> heap_inv quiet s (fmupd i a reqs)"
  by (auto simp: heap_inv_def in_use_def in_pool_def heap_ok_bound split: if_splits)

lemma heap_inv_release: "heap_inv quiet s reqs \<Longrightarrow> heap_inv quiet s (fmdrop i reqs)"
  by (fastforce simp: heap_inv_def in_use_def split: if_splits)

lemma heap_inv_use:
  assumes "heap_inv quiet s reqs" "a \<in> in_use reqs" "\<And>t. same_books t (f t)"
  shows "heap_inv quiet (cell_run a f s) reqs"
proof -
  have a: "a < length (h_cells s)" using assms(1,2) by (auto simp: heap_inv_def)
  have "connected_cells (cell_run a f s) \<subseteq> insert a (connected_cells s)"
    by (auto simp: connected_cells_def cell_run_def Let_def nth_list_update split: if_splits)
  moreover have "in_pool (cell_run a f s) = in_pool s" by (simp add: in_pool_def)
  moreover have "heap_books (cell_run a f s) = heap_books s" using a assms(3) by (rule cell_run_books)
  ultimately show ?thesis using assms(1,2) by (auto simp: heap_inv_def)
qed

lemma shared_reach_inv: "shared_reach E quiet isoCache w0 s reqs \<Longrightarrow> w_calls w0 = [] \<Longrightarrow> heap_inv quiet s reqs"
proof (induction rule: shared_reach.induct)
  case start
  then show ?case
    by (simp add: heap_inv_def heap_books_def heap_New_def sessions_def opened_def closed_def given_up_def in_use_def connected_cells_def heap_ok_def)
next
  case (take s reqs vc r s' i)
  have ok: "heap_ok s" using take by (simp add: heap_inv_def)
  have "heap_inv quiet s' reqs"
    using heap_inv_step [OF take.IH [OF take.prems] _ shared_For_books [OF ok take.hyps(2)] forgets_For [OF ok take.hyps(2)] take.hyps(3)]
      shared_For_refines [OF ok take.hyps(2)] by blast
  then show ?case using shared_For_refines [OF ok take.hyps(2)] by (auto intro: heap_inv_take split: sum.split)
next
  case (use s reqs a f)
  then show ?case by (auto intro: heap_inv_use)
next
  case (release s reqs i)
  then show ?case by (auto intro: heap_inv_release)
next
  case (invalidate s reqs s' vid)
  have ok: "heap_ok s" using invalidate by (simp add: heap_inv_def)
  with heap_inv_step [OF invalidate.IH [OF invalidate.prems], of s'] invalidate.hyps(2,3) show ?case
    by (simp add: shared_Invalidate_refines shared_Invalidate_books forgets_Invalidate)
next
  case (close_all s reqs s' order)
  have ok: "heap_ok s" using close_all by (simp add: heap_inv_def)
  with heap_inv_step [OF close_all.IH [OF close_all.prems], of s'] close_all.hyps(2,3) show ?case
    by (simp add: shared_CloseAll_refines shared_CloseAll_books forgets_CloseAll)
qed

text \<open>
  C15: Sessions of clients that interleaved requests share are accounted for. Whatever requests, edits and
  deletes do to the clients they share and in whatever order, the sessions opened (logins that succeeded) are those
  closed (logouts that succeeded), plus one for each logout that failed, plus one for each connected client; and if no
  client is retired while a request holds it, every connected client is still in the pool, where the end of the
  process logs it out.
\<close>

theorem shared_sessions_are_accounted:
  assumes "shared_reach E quiet isoCache w0 s reqs" "w_calls w0 = []"
  shows "opened (w_calls (h_w s)) = closed (w_calls (h_w s)) + given_up (w_calls (h_w s)) + card (connected_cells s)
    \<and> (quiet \<longrightarrow> connected_cells s \<subseteq> in_pool s)"
  using shared_reach_inv [OF assms] by (simp add: heap_inv_def heap_books_count sessions_def)

section \<open>A client that outlives its settings\<close>

lemma demo_ensure_connects: "cl_connected (v_cl (snd (ensure demo_vs \<lparr>v_cl = c, v_w = w\<rparr>)))"
  by (simp add: ensure_def io_simps do_call_def record_call_def outcome_def demo_vs_def Let_def)

lemma demo_shared_For:
  obtains c w where "shared_For demo_vs demo_stored (heap_New [] demo_world) =
    (Inr 0, \<lparr>h_isoCache = [], h_cells = [c], h_clients = fmupd (vc_ID demo_stored) 0 fmempty, h_w = w\<rparr>)"
proof -
  have n: "normalizeDatastore [] = []" "NormalizeDatastore [] = []" by code_simp+
  show thesis
    by (rule that)
      (simp add: shared_For_def shared_make_def heap_New_def NewPool_def NewClient_def endpointFrom_def world_call_def demo_stored_def demo_vc_def
        vcenter_zero_def n thenE_def bindE_def tryE_def retE_def demo_vs_def Let_def)
qed

theorem shared_sessions_are_accounted_witness:
  "\<exists>s reqs. shared_reach demo_vs True [] demo_world s reqs \<and> connected_cells s = {0} \<and> 0 \<in> in_pool s
     \<and> opened (w_calls (h_w s)) = closed (w_calls (h_w s)) + given_up (w_calls (h_w s)) + 1"
proof -
  obtain c w where f: "shared_For demo_vs demo_stored (heap_New [] demo_world) =
    (Inr 0, \<lparr>h_isoCache = [], h_cells = [c], h_clients = fmupd (vc_ID demo_stored) 0 fmempty, h_w = w\<rparr>)" by (rule demo_shared_For)
  define s1 where "s1 = \<lparr>h_isoCache = [], h_cells = [c], h_clients = fmupd (vc_ID demo_stored) (0 :: nat) fmempty, h_w = w\<rparr>"
  have "shared_reach demo_vs True [] demo_world s1 (fmupd 0 0 fmempty)"
    using shared_reach.take [where quiet = True and i = 0, OF shared_reach.start f [folded s1_def]] by (simp add: in_use_def)
  then have r: "shared_reach demo_vs True [] demo_world (cell_run 0 (\<lambda>t. snd (ensure demo_vs t)) s1) (fmupd 0 0 fmempty)"
    by (rule shared_reach.use) (auto simp: in_use_def intro: keeps_books_stretch books_intro)
  have "w_calls demo_world = []" by (simp add: demo_world_def)
  note acc = shared_sessions_are_accounted [OF r this]
  have c: "connected_cells (cell_run 0 (\<lambda>t. snd (ensure demo_vs t)) s1) = {0}"
    by (auto simp: connected_cells_def cell_run_def s1_def Let_def demo_ensure_connects)
  show ?thesis using r acc c by (intro exI conjI) auto
qed

text \<open>
  A request that was given its client before the vCenter was edited or deleted goes on with it: the pool closes the
  client and forgets it, the request's next step logs in again with the settings that are gone, and that session is
  closed by nobody: no client is in the pool, and the end of the process closes none.
\<close>

theorem stale_client_reopens_a_session:
  "\<exists>s reqs. shared_reach demo_vs False [] demo_world s reqs \<and> in_pool s = {} \<and> connected_cells s = {0}
     \<and> (\<forall>order. shared_CloseAll demo_vs order s = s)
     \<and> opened (w_calls (h_w s)) = closed (w_calls (h_w s)) + given_up (w_calls (h_w s)) + 1"
proof -
  obtain c w where f: "shared_For demo_vs demo_stored (heap_New [] demo_world) =
    (Inr 0, \<lparr>h_isoCache = [], h_cells = [c], h_clients = fmupd (vc_ID demo_stored) 0 fmempty, h_w = w\<rparr>)" by (rule demo_shared_For)
  define s1 where "s1 = \<lparr>h_isoCache = [], h_cells = [c], h_clients = fmupd (vc_ID demo_stored) (0 :: nat) fmempty, h_w = w\<rparr>"
  define s2 where "s2 = shared_Invalidate demo_vs (vc_ID demo_stored) s1"
  define s3 where "s3 = cell_run 0 (\<lambda>t. snd (ensure demo_vs t)) s2"
  have "shared_reach demo_vs False [] demo_world s1 (fmupd 0 0 fmempty)"
    using shared_reach.take [where quiet = False and i = 0, OF shared_reach.start f [folded s1_def]] by (simp add: in_use_def)
  then have "shared_reach demo_vs False [] demo_world s2 (fmupd 0 0 fmempty)"
    by (rule shared_reach.invalidate) (simp_all add: s2_def)
  then have r: "shared_reach demo_vs False [] demo_world s3 (fmupd 0 0 fmempty)"
    unfolding s3_def by (rule shared_reach.use) (auto simp: in_use_def intro: keeps_books_stretch books_intro)
  have l: "length (h_cells s2) = 1" "h_clients s2 = fmempty"
    by (auto simp: s2_def s1_def shared_Invalidate_def cell_Close_def cell_run_def Let_def intro: fmap_ext)
  have c: "connected_cells s3 = {0}" using l(1)
    by (auto simp: connected_cells_def s3_def cell_run_def Let_def demo_ensure_connects)
  have p: "h_clients s3 = fmempty" by (simp add: s3_def l(2))
  have "shared_CloseAll demo_vs order s3 = s3" for order
    unfolding shared_CloseAll_def by (induction order) (simp_all add: shared_Invalidate_def p)
  moreover have "opened (w_calls (h_w s3)) = closed (w_calls (h_w s3)) + given_up (w_calls (h_w s3)) + 1"
    using shared_reach_inv [OF r] c by (simp add: heap_inv_def heap_books_count sessions_def demo_world_def)
  ultimately show ?thesis using r c p by (intro exI [of _ s3] exI [of _ "fmupd 0 0 fmempty"]) (simp add: in_pool_def)
qed

end
