(* ===== verification/Gw_Http.thy ===== *)
theory Gw_Http
  imports Gw_Prelude
begin

text \<open>
  HTTP and JSON as the servers use them: requests as \<open>net/http\<close> hands them to a handler, replies as the
  handlers write them, and \<open>encoding/json\<close>'s decoding of a JSON value into a Go struct. Tokenising the
  body is left to the library: a request carries the JSON values its body holds, in order, and the error
  the decoder reports after the last of them.
\<close>

section \<open>JSON values\<close>

datatype json =
    JNull
  | JBool bool
  | JInt int
  | JFrac int int
  | JStr string
  | JArr "json list"
  | JObj "(string \<times> json) list"

text \<open>\<open>JFrac a b\<close> is the number \<open>a/b\<close>. The kind names are those of \<open>json.UnmarshalTypeError\<close>.\<close>

fun json_kind :: "json \<Rightarrow> string" where
  "json_kind JNull = ''null''"
| "json_kind (JBool _) = ''bool''"
| "json_kind (JInt _) = ''number''"
| "json_kind (JFrac _ _) = ''number''"
| "json_kind (JStr _) = ''string''"
| "json_kind (JArr _) = ''array''"
| "json_kind (JObj _) = ''object''"

subsection \<open>Decoding into a struct\<close>

text \<open>
  A field decoder takes the JSON value and the struct so far and returns the first error, if any, and the
  struct. Decoding goes on after a type error and reports the first one at the end; \<open>null\<close> leaves a
  field as it is (or sets a pointer to nil); a key that names no field is skipped; keys match exactly or
  else without regard to case; of repeated keys the last wins.
\<close>

type_synonym 'r field_decoder = "json \<Rightarrow> 'r \<Rightarrow> string option \<times> 'r"

definition field_error :: "string \<Rightarrow> string \<Rightarrow> string \<Rightarrow> json \<Rightarrow> string" where
  "field_error st key ty v =
     ''json: cannot unmarshal '' @ json_kind v @ '' into Go struct field '' @ st @ ''.'' @ key @ '' of type '' @ ty"

definition str_field :: "string \<Rightarrow> string \<Rightarrow> (string \<Rightarrow> 'r \<Rightarrow> 'r) \<Rightarrow> 'r field_decoder" where
  "str_field st key put v r = (case v of
       JStr s \<Rightarrow> (None, put s r)
     | JNull \<Rightarrow> (None, r)
     | _ \<Rightarrow> (Some (field_error st key ''string'' v), r))"

definition bool_field :: "string \<Rightarrow> string \<Rightarrow> (bool \<Rightarrow> 'r \<Rightarrow> 'r) \<Rightarrow> 'r field_decoder" where
  "bool_field st key put v r = (case v of
       JBool b \<Rightarrow> (None, put b r)
     | JNull \<Rightarrow> (None, r)
     | _ \<Rightarrow> (Some (field_error st key ''bool'' v), r))"

definition bool_ptr_field :: "string \<Rightarrow> string \<Rightarrow> (bool option \<Rightarrow> 'r \<Rightarrow> 'r) \<Rightarrow> 'r field_decoder" where
  "bool_ptr_field st key put v r = (case v of
       JBool b \<Rightarrow> (None, put (Some b) r)
     | JNull \<Rightarrow> (None, put None r)
     | _ \<Rightarrow> (Some (field_error st key ''bool'' v), r))"

definition find_field :: "string \<Rightarrow> (string \<times> 'd) list \<Rightarrow> 'd option" where
  "find_field k fs = (case map_of fs k of
       Some d \<Rightarrow> Some d
     | None \<Rightarrow> map_option snd (find (\<lambda>(name, _). EqualFold name k) fs))"

fun first_error :: "string option \<Rightarrow> string option \<Rightarrow> string option" where
  "first_error (Some e) _ = Some e"
| "first_error None e = e"

fun decode_members :: "(string \<times> 'r field_decoder) list \<Rightarrow> (string \<times> json) list \<Rightarrow> 'r \<Rightarrow> string option \<times> 'r" where
  "decode_members fs [] r = (None, r)"
| "decode_members fs ((k, v) # ms) r = (case find_field k fs of
       None \<Rightarrow> decode_members fs ms r
     | Some d \<Rightarrow> (case d v r of (e, r1) \<Rightarrow> (case decode_members fs ms r1 of (e', r2) \<Rightarrow> (first_error e e', r2))))"

definition decode_struct :: "string \<Rightarrow> (string \<times> 'r field_decoder) list \<Rightarrow> json \<Rightarrow> 'r \<Rightarrow> string option \<times> 'r" where
  "decode_struct ty fs v r = (case v of
       JObj ms \<Rightarrow> decode_members fs ms r
     | JNull \<Rightarrow> (None, r)
     | _ \<Rightarrow> (Some (''json: cannot unmarshal '' @ json_kind v @ '' into Go value of type '' @ ty), r))"

text \<open>A struct-typed pointer field: \<open>null\<close> is nil, an object is decoded into what is there or a new struct.\<close>

definition ptr_field :: "string \<Rightarrow> string \<Rightarrow> string \<Rightarrow> (string \<times> 'a field_decoder) list \<Rightarrow> 'a \<Rightarrow>
    ('r \<Rightarrow> 'a option) \<Rightarrow> ('a option \<Rightarrow> 'r \<Rightarrow> 'r) \<Rightarrow> 'r field_decoder" where
  "ptr_field st key ty fs zero get put v r = (case v of
       JNull \<Rightarrow> (None, put None r)
     | JObj ms \<Rightarrow> (case decode_members fs ms (case get r of Some a \<Rightarrow> a | None \<Rightarrow> zero) of
         (e, a) \<Rightarrow> (e, put (Some a) r))
     | _ \<Rightarrow> (Some (field_error st key ty v), put (Some (case get r of Some a \<Rightarrow> a | None \<Rightarrow> zero)) r))"

text \<open>A struct tag as \<open>reflect\<close> prints it in the name of an anonymous struct type.\<close>

definition go_tag :: "string \<Rightarrow> string" where
  "go_tag key = go_quote (''json:'' @ go_quote key)"

section \<open>Requests and replies\<close>

text \<open>
  \<open>rq_BasicAuth\<close> is \<open>r.BasicAuth()\<close>; \<open>rq_Header\<close> holds canonical header names, first value first;
  \<open>rq_Client\<close> is the client name in the request's context.
\<close>

record request =
  rq_Method :: string
  rq_Path :: string
  rq_Query :: "(string \<times> string) list"
  rq_Header :: "(string \<times> string) list"
  rq_BasicAuth :: "(string \<times> string) option"
  rq_RemoteAddr :: string
  rq_Client :: string
  rq_Body :: "json list"
  rq_BodyEnd :: string

definition assoc_get :: "(string \<times> string) list \<Rightarrow> string \<Rightarrow> string" where
  "assoc_get xs k = (case map_of xs k of Some v \<Rightarrow> v | None \<Rightarrow> [])"

definition query_get :: "request \<Rightarrow> string \<Rightarrow> string" where
  "query_get r k = assoc_get (rq_Query r) k"

definition header_get :: "request \<Rightarrow> string \<Rightarrow> string" where
  "header_get r k = assoc_get (rq_Header r) k"

definition UserAgent :: "request \<Rightarrow> string" where
  "UserAgent r = header_get r ''User-Agent''"

text \<open>\<open>r.Header.Del\<close> and \<open>r.Header.Set\<close>.\<close>

definition header_del :: "string \<Rightarrow> request \<Rightarrow> request" where
  "header_del k r = r\<lparr>rq_Header := filter (\<lambda>(h, _). h \<noteq> k) (rq_Header r)\<rparr>"

definition header_set :: "string \<Rightarrow> string \<Rightarrow> request \<Rightarrow> request" where
  "header_set k v r = r\<lparr>rq_Header := (k, v) # filter (\<lambda>(h, _). h \<noteq> k) (rq_Header r)\<rparr>"

text \<open>\<open>json.NewDecoder(r.Body).Decode(&x)\<close>: the outcome and the request with the rest of its body.\<close>

definition decode_body :: "string \<Rightarrow> (string \<times> 'r field_decoder) list \<Rightarrow> request \<Rightarrow> 'r \<Rightarrow> string option \<times> 'r \<times> request" where
  "decode_body ty fs rq r = (case rq_Body rq of
       [] \<Rightarrow> (Some (rq_BodyEnd rq), r, rq)
     | v # vs \<Rightarrow> (case decode_struct ty fs v r of (e, r') \<Rightarrow> (e, r', rq\<lparr>rq_Body := vs\<rparr>)))"

datatype reply_body = JSONBody json | TextBody string | NoBody

record reply =
  rp_Code :: nat
  rp_Header :: "(string \<times> string) list"
  rp_Body :: reply_body

definition http_Error :: "string \<Rightarrow> nat \<Rightarrow> reply" where
  "http_Error msg code = \<lparr>rp_Code = code, rp_Header = [(''Content-Type'', ''text/plain; charset=utf-8''),
     (''X-Content-Type-Options'', ''nosniff'')], rp_Body = TextBody (msg @ [CHR 0x0A])\<rparr>"

definition http_NotFound :: reply where
  "http_NotFound = http_Error ''404 page not found'' 404"

definition WriteHeader :: "nat \<Rightarrow> reply" where
  "WriteHeader code = \<lparr>rp_Code = code, rp_Header = [], rp_Body = NoBody\<rparr>"

lemmas reply_defs = http_Error_def http_NotFound_def WriteHeader_def

lemma rp_Code_simps [simp]:
  "rp_Code (http_Error m c) = c" "rp_Code http_NotFound = 404" "rp_Code (WriteHeader c) = c"
  by (simp_all add: reply_defs)

text \<open>
  A handler that returns early after writing its reply fails with it; either way there is one reply.
\<close>

definition reply_of :: "reply + reply \<Rightarrow> reply" where
  "reply_of r = (case r of Inl x \<Rightarrow> x | Inr x \<Rightarrow> x)"

lemma reply_of_simps [simp]: "reply_of (Inl x) = x" "reply_of (Inr x) = x"
  by (simp_all add: reply_of_def)

section \<open>Laws\<close>

lemma map_of_filter_key: "map_of (filter (\<lambda>(h, _). h \<noteq> k) xs) k' = (if k' = k then None else map_of xs k')"
  by (induction xs) auto

lemma header_get_set [simp]: "header_get (header_set k v r) k' = (if k' = k then v else header_get r k')"
  by (simp add: header_get_def header_set_def assoc_get_def map_of_filter_key)

lemma header_get_del [simp]: "header_get (header_del k r) k' = (if k' = k then [] else header_get r k')"
  by (simp add: header_get_def header_del_def assoc_get_def map_of_filter_key)

end
