(* ===== verification/Kube.thy ===== *)
theory Kube
  imports Gw_Prelude
begin

text \<open>
  The Kubernetes REST client (\<open>internal/kube/kube.go\<close>): ConfigMaps and Secrets of one namespace. The API
  server and the network are a parameter, \<open>kube_env\<close>; every exchange is appended to a history that later
  answers may depend on. A response carries its status, the first 512 bytes of its body and what
  \<open>encoding/json\<close> makes of the body for each of the types the client decodes into.
\<close>

section \<open>Objects and errors\<close>

record object_meta =
  om_Name :: string
  om_Namespace :: string
  om_Labels :: "(string, string) fmap"
  om_Annotations :: "(string, string) fmap"
  om_ResourceVersion :: string

record configmap =
  cm_APIVersion :: string
  cm_Kind :: string
  cm_Metadata :: object_meta
  cm_Data :: "(string, string) fmap"

text \<open>An error and whether \<open>errors.Is(err, ErrNotFound)\<close> holds of it.\<close>

datatype kube_err = KErr (ke_NotFound: bool) (ke_text: string)

definition kube_errorf :: "string \<Rightarrow> kube_err" where
  "kube_errorf s = KErr False s"

text \<open>\<open>m[k]\<close> on a Go map of strings.\<close>

definition map_get :: "(string, string) fmap \<Rightarrow> string \<Rightarrow> string" where
  "map_get m k = (case fmlookup m k of Some v \<Rightarrow> v | None \<Rightarrow> [])"

section \<open>The API server\<close>

datatype kcall = KCall (kc_method: string) (kc_url: string) (kc_body: "configmap option")

type_synonym khist = "(kcall \<times> (string + int)) list"

record kresp =
  kr_Status :: int
  kr_Text :: string
  kr_Message :: "string option"
  kr_ConfigMap :: "string + configmap"
  kr_List :: "string + configmap list"
  kr_Secret :: "string + (string, string) fmap"

record kube_env =
  ke_badURL :: "string \<Rightarrow> string option"
  ke_token :: "khist \<Rightarrow> string + string"
  ke_Do :: "khist \<Rightarrow> kcall \<Rightarrow> string + kresp"

type_synonym 'a kio = "(khist, kube_err, 'a) eio"

record kube_client =
  kc_base :: string
  kc_Namespace :: string

section \<open>Paths\<close>

definition unreserved :: "char \<Rightarrow> bool" where
  "unreserved c = (let n = of_char c :: nat in
     (48 \<le> n \<and> n \<le> 57) \<or> (65 \<le> n \<and> n \<le> 90) \<or> (97 \<le> n \<and> n \<le> 122) \<or> c \<in> set ''-_.~'')"

definition upper_hex :: "nat \<Rightarrow> char" where
  "upper_hex n = (if n < 10 then char_of (48 + n) else char_of (55 + n))"

definition percent :: "char \<Rightarrow> string" where
  "percent c = (let n = of_char c :: nat in [CHR ''%'', upper_hex (n div 16), upper_hex (n mod 16)])"

text \<open>\<open>url.PathEscape\<close> and \<open>url.QueryEscape\<close>.\<close>

definition PathEscape :: "string \<Rightarrow> string" where
  "PathEscape s = concat (map (\<lambda>c. if unreserved c \<or> c \<in> set ''$&+=:@'' then [c] else percent c) s)"

definition QueryEscape :: "string \<Rightarrow> string" where
  "QueryEscape s = concat (map (\<lambda>c. if unreserved c then [c] else if c = CHR '' '' then ''+'' else percent c) s)"

definition kube_New :: "string \<Rightarrow> string \<Rightarrow> kube_client" where
  "kube_New base namespace = \<lparr>kc_base = TrimSuffix base ''/'', kc_Namespace = namespace\<rparr>"

definition cmPath :: "kube_client \<Rightarrow> string \<Rightarrow> string" where
  "cmPath c name =
     (let p = ''/api/v1/namespaces/'' @ PathEscape (kc_Namespace c) @ ''/configmaps'' in
      if name \<noteq> [] then p @ ''/'' @ PathEscape name else p)"

section \<open>One exchange\<close>

text \<open>
  \<open>do\<close>: \<open>decode\<close> picks what the caller decodes the body into; \<open>None\<close> is \<open>out == nil\<close>.
\<close>

definition decoded :: "string + 'a \<Rightarrow> kube_err + 'a" where
  "decoded r = (case r of Inl e \<Rightarrow> Inl (kube_errorf e) | Inr x \<Rightarrow> Inr x)"

definition check_status :: "string \<Rightarrow> string \<Rightarrow> kresp \<Rightarrow> kube_err option" where
  "check_status meth path resp =
     (let pre = meth @ '' '' @ path @ '': '' in
      if kr_Status resp = 404 then Some (KErr True (pre @ ''not found''))
      else if kr_Status resp div 100 \<noteq> 2 then
        (let http = pre @ ''HTTP '' @ show_int (kr_Status resp) @ '': '' in
         case kr_Message resp of
           Some m \<Rightarrow> Some (kube_errorf (http @ (if m \<noteq> [] then m else TrimSpace (kr_Text resp))))
         | None \<Rightarrow> Some (kube_errorf (http @ TrimSpace (kr_Text resp))))
      else None)"

definition kube_exchange :: "kube_env \<Rightarrow> kcall \<Rightarrow> kresp kio" where
  "kube_exchange K call = (\<lambda>h. case ke_Do K h call of
       Inl e \<Rightarrow> (Inl (kube_errorf e), h @ [(call, Inl e)])
     | Inr resp \<Rightarrow> (Inr resp, h @ [(call, Inr (kr_Status resp))]))"

definition kube_do :: "kube_env \<Rightarrow> kube_client \<Rightarrow> string \<Rightarrow> string \<Rightarrow> configmap option \<Rightarrow> (kresp \<Rightarrow> kube_err + 'a) \<Rightarrow> 'a kio" where
  "kube_do K c meth path body decode =
     (let url = kc_base c @ path in
      case ke_badURL K url of Some e \<Rightarrow> failE (kube_errorf e)
      | None \<Rightarrow> bindE (getE (ke_token K)) (\<lambda>tok. case tok of
          Inl e \<Rightarrow> failE (kube_errorf (''serviceaccount token: '' @ e))
        | Inr _ \<Rightarrow> bindE (kube_exchange K (KCall meth url body)) (\<lambda>resp.
            case check_status meth path resp of
              Some e \<Rightarrow> failE e
            | None \<Rightarrow> (case decode resp of Inl e \<Rightarrow> failE e | Inr x \<Rightarrow> retE x))))"

section \<open>Operations\<close>

definition ListConfigMaps :: "kube_env \<Rightarrow> kube_client \<Rightarrow> string \<Rightarrow> configmap list kio" where
  "ListConfigMaps K c labelSelector =
     kube_do K c ''GET'' (cmPath c [] @ ''?labelSelector='' @ QueryEscape labelSelector) None (\<lambda>r. decoded (kr_List r))"

definition GetConfigMap :: "kube_env \<Rightarrow> kube_client \<Rightarrow> string \<Rightarrow> configmap kio" where
  "GetConfigMap K c name = kube_do K c ''GET'' (cmPath c name) None (\<lambda>r. decoded (kr_ConfigMap r))"

definition stamped :: "kube_client \<Rightarrow> configmap \<Rightarrow> configmap" where
  "stamped c cm = cm\<lparr>cm_APIVersion := ''v1'', cm_Kind := ''ConfigMap'',
     cm_Metadata := (cm_Metadata cm)\<lparr>om_Namespace := kc_Namespace c\<rparr>\<rparr>"

definition CreateConfigMap :: "kube_env \<Rightarrow> kube_client \<Rightarrow> configmap \<Rightarrow> configmap kio" where
  "CreateConfigMap K c cm = kube_do K c ''POST'' (cmPath c []) (Some (stamped c cm)) (\<lambda>r. decoded (kr_ConfigMap r))"

definition UpdateConfigMap :: "kube_env \<Rightarrow> kube_client \<Rightarrow> configmap \<Rightarrow> configmap kio" where
  "UpdateConfigMap K c cm = kube_do K c ''PUT'' (cmPath c (om_Name (cm_Metadata cm))) (Some (stamped c cm)) (\<lambda>r. decoded (kr_ConfigMap r))"

definition DeleteConfigMap :: "kube_env \<Rightarrow> kube_client \<Rightarrow> string \<Rightarrow> unit kio" where
  "DeleteConfigMap K c name = tryE (kube_do K c ''DELETE'' (cmPath c name) None (\<lambda>_. Inr ())) (\<lambda>r. case r of
       Inr _ \<Rightarrow> retE ()
     | Inl e \<Rightarrow> if ke_NotFound e then retE () else failE e)"

definition GetSecretData :: "kube_env \<Rightarrow> kube_client \<Rightarrow> string \<Rightarrow> (string, string) fmap kio" where
  "GetSecretData K c name =
     kube_do K c ''GET'' (''/api/v1/namespaces/'' @ PathEscape (kc_Namespace c) @ ''/secrets/'' @ PathEscape name) None
       (\<lambda>r. decoded (kr_Secret r))"

section \<open>In the cluster\<close>

text \<open>What a process sees of its pod: environment variables, files, and whether a PEM file holds certificates.\<close>

record pod =
  po_getenv :: "string \<Rightarrow> string"
  po_ReadFile :: "string \<Rightarrow> string + string"
  po_hasCerts :: "string \<Rightarrow> bool"

definition saDir :: string where "saDir = ''/var/run/secrets/kubernetes.io/serviceaccount''"

definition JoinHostPort :: "string \<Rightarrow> string \<Rightarrow> string" where
  "JoinHostPort host port = (if CHR '':'' \<in> set host then CHR ''['' # host @ '']:'' @ port else host @ '':'' @ port)"

definition pod_api :: "pod \<Rightarrow> string + string" where
  "pod_api po =
     (let host = po_getenv po ''KUBERNETES_SERVICE_HOST''; port = po_getenv po ''KUBERNETES_SERVICE_PORT'' in
      if host = [] \<or> port = [] then Inl ''not running in a cluster (KUBERNETES_SERVICE_HOST unset)''
      else case po_ReadFile po (saDir @ ''/ca.crt'') of
          Inl e \<Rightarrow> Inl e
        | Inr ca \<Rightarrow> if \<not> po_hasCerts po ca then Inl (''no certificates in '' @ saDir @ ''/ca.crt'')
            else Inr (''https://'' @ JoinHostPort host port))"

definition kube_InCluster :: "pod \<Rightarrow> string + kube_client" where
  "kube_InCluster po = (case pod_api po of
       Inl e \<Rightarrow> Inl e
     | Inr base \<Rightarrow> (case po_ReadFile po (saDir @ ''/namespace'') of
         Inl e \<Rightarrow> Inl e
       | Inr ns \<Rightarrow> Inr (kube_New base (TrimSpace ns))))"

section \<open>Laws\<close>

lemma kube_exchange_run:
  "kube_exchange K call h = (r, h') \<Longrightarrow> (\<exists>s. h' = h @ [(call, s)])
     \<and> (\<forall>resp. r = Inr resp \<longrightarrow> ke_Do K h call = Inr resp)"
  by (auto simp: kube_exchange_def split: sum.splits)

text \<open>An operation makes at most one exchange, with the method and path it asks for.\<close>

lemma kube_do_calls:
  assumes "kube_do K c meth path body decode h = (r, h')"
  shows "h' = h \<or> (\<exists>s. h' = h @ [(KCall meth (kc_base c @ path) body, s)])"
  using assms
  by (auto simp: kube_do_def Let_def bindE_def tryE_def getE_def failE_def retE_def kube_exchange_def
      split: option.splits sum.splits prod.splits)

lemma kube_do_Inr:
  assumes "kube_do K c meth path body decode h = (Inr x, h')"
  obtains resp where "ke_Do K h (KCall meth (kc_base c @ path) body) = Inr resp" "kr_Status resp div 100 = 2"
    "decode resp = Inr x" "h' = h @ [(KCall meth (kc_base c @ path) body, Inr (kr_Status resp))]"
  using assms
  by (auto simp: kube_do_def Let_def bindE_def tryE_def getE_def failE_def retE_def kube_exchange_def check_status_def
      split: option.splits sum.splits prod.splits if_splits)

lemma kube_do_NotFound:
  assumes "kube_do K c meth path body decode h = (Inl e, h')" "ke_NotFound e" "\<And>r e'. decode r = Inl e' \<Longrightarrow> \<not> ke_NotFound e'"
  shows "h' = h @ [(KCall meth (kc_base c @ path) body, Inr 404)]"
  using assms
  by (auto simp: kube_do_def Let_def bindE_def tryE_def getE_def failE_def retE_def kube_exchange_def check_status_def kube_errorf_def
      split: option.splits sum.splits prod.splits if_splits)

lemma decoded_not_found: "decoded r = Inl e \<Longrightarrow> \<not> ke_NotFound e"
  by (auto simp: decoded_def kube_errorf_def split: sum.splits)

lemma decoded_Inr: "decoded r = Inr x \<longleftrightarrow> r = Inr x"
  by (auto simp: decoded_def split: sum.splits)

end
