(* ===== verification/Gw_State.thy ===== *)
theory Gw_State
  imports Vsphere_Pool Vsphere_Media Vsphere_Probe Kube Gw_Http
begin

text \<open>
  The state the HTTP servers share (the store, the client pool, the process and vSphere world, the
  exchanges with the Kubernetes API) and how a handler reaches each part of it. The environment gives,
  for the n-th use of the store, the store's own parameters (disk outcomes, random ids, map orders).
\<close>

section \<open>State and environment\<close>

record gw_env =
  ge_vs :: vsphere
  ge_store :: "nat \<Rightarrow> store \<Rightarrow> store_env"
  ge_kube :: kube_env

record gw =
  g_store :: store
  g_ops :: nat
  g_pool :: pool
  g_w :: world
  g_kube :: khist

type_synonym ('e, 'a) gio = "(gw, 'e, 'a) eio"
type_synonym handler = "(reply, reply) gio"

definition gact :: "(int \<Rightarrow> string \<Rightarrow> string \<Rightarrow> detail \<Rightarrow> bus \<Rightarrow> bus) \<Rightarrow> string \<Rightarrow> string \<Rightarrow> detail \<Rightarrow> ('e, unit) gio" where
  "gact h op message detail =
     modE (\<lambda>g. g\<lparr>g_w := (g_w g)\<lparr>w_bus := h (w_clock (g_w g)) op message detail (w_bus (g_w g))\<rparr>\<rparr>)"

text \<open>A read of the store that needs no parameter, one that ranges over a map, and a write.\<close>

definition store_read :: "(store \<Rightarrow> 'a) \<Rightarrow> ('e, 'a) gio" where
  "store_read f = getE (\<lambda>g. f (g_store g))"

definition store_list :: "gw_env \<Rightarrow> (store_env \<Rightarrow> store \<Rightarrow> 'a) \<Rightarrow> ('e, 'a) gio" where
  "store_list G f = (\<lambda>g. (Inr (f (ge_store G (g_ops g) (g_store g)) (g_store g)), g\<lparr>g_ops := Suc (g_ops g)\<rparr>))"

definition store_write :: "gw_env \<Rightarrow> (store_env \<Rightarrow> store \<Rightarrow> 'a store_result) \<Rightarrow> (string, 'a) gio" where
  "store_write G f = (\<lambda>g. case f (ge_store G (g_ops g) (g_store g)) (g_store g) of
       (r, st) \<Rightarrow> (r, g\<lparr>g_store := st, g_ops := Suc (g_ops g)\<rparr>))"

text \<open>
  \<open>pool.For\<close> and \<open>pool.ClientForUUID\<close> hand out a pointer to a pooled client: here its key and value, and
  a use of the client puts what became of it back under the key.
\<close>

definition pooled :: "gw_env \<Rightarrow> vcenter \<Rightarrow> (verr, string \<times> client) gio" where
  "pooled G vc = (\<lambda>g. case pool_For (ge_vs G) vc (g_pool g, g_w g) of
       (r, p, w) \<Rightarrow> ((case r of Inl e \<Rightarrow> Inl e | Inr c \<Rightarrow> Inr (vc_ID vc, c)), g\<lparr>g_pool := p, g_w := w\<rparr>))"

definition pooled_for_uuid :: "gw_env \<Rightarrow> string \<Rightarrow> (verr, string \<times> client) gio" where
  "pooled_for_uuid G uuid = (\<lambda>g. case ClientForUUID (ge_vs G) (g_store g) uuid (g_pool g, g_w g) of
       (r, m, p, w) \<Rightarrow>
         ((case r of Inl e \<Rightarrow> Inl e | Inr c \<Rightarrow> Inr ((case m of Some mp \<Rightarrow> mp_VCenterID mp | None \<Rightarrow> []), c)),
          g\<lparr>g_pool := p, g_w := w\<rparr>))"

definition on_client :: "string \<times> client \<Rightarrow> 'a vio \<Rightarrow> (verr, 'a) gio" where
  "on_client kc m = (\<lambda>g. case m \<lparr>v_cl = snd kc, v_w = g_w g\<rparr> of
       (r, t) \<Rightarrow> (r, g\<lparr>g_pool := pool_put (fst kc) (v_cl t) (g_pool g), g_w := v_w t\<rparr>))"

text \<open>A probe that makes and closes its own client.\<close>

definition on_world :: "(world \<Rightarrow> 'a \<times> world) \<Rightarrow> ('e, 'a) gio" where
  "on_world f = (\<lambda>g. case f (g_w g) of (x, w) \<Rightarrow> (Inr x, g\<lparr>g_w := w\<rparr>))"

definition invalidate :: "gw_env \<Rightarrow> string \<Rightarrow> ('e, unit) gio" where
  "invalidate G vid = modE (\<lambda>g. case pool_Invalidate (ge_vs G) vid (g_pool g, g_w g) of (p, w) \<Rightarrow> g\<lparr>g_pool := p, g_w := w\<rparr>)"

definition on_kube :: "'a kio \<Rightarrow> (kube_err, 'a) gio" where
  "on_kube m = (\<lambda>g. case m (g_kube g) of (r, h) \<Rightarrow> (r, g\<lparr>g_kube := h\<rparr>))"

text \<open>\<open>if err != nil { ...; http.Error(...); return }\<close>: \<open>f\<close> is what the error branch writes.\<close>

definition or_reply :: "('e, 'a) gio \<Rightarrow> ('e \<Rightarrow> (reply, reply) gio) \<Rightarrow> ('a \<Rightarrow> handler) \<Rightarrow> handler" where
  "or_reply m f k = tryE m (\<lambda>r. case r of
       Inl e \<Rightarrow> bindE (f e) failE
     | Inr x \<Rightarrow> k x)"

definition run_handler :: "handler \<Rightarrow> gw \<Rightarrow> reply \<times> gw" where
  "run_handler h g = (case h g of (r, g') \<Rightarrow> (reply_of r, g'))"

section \<open>What a handler leaves alone\<close>

text \<open>
  \<open>gw_grows P\<close>: every new call to vSphere satisfies \<open>P\<close>, and time has not gone back. \<open>gw_calls P\<close>: and the
  store is the same.
\<close>

definition gw_new :: "gw \<Rightarrow> gw \<Rightarrow> hist" where
  "gw_new g g' = drop (length (w_calls (g_w g))) (w_calls (g_w g'))"

definition gw_grows :: "(vcall \<Rightarrow> bool) \<Rightarrow> gw \<Rightarrow> gw \<Rightarrow> bool" where
  "gw_grows P g g' \<longleftrightarrow> w_clock (g_w g) \<le> w_clock (g_w g') \<and> (\<exists>l. w_calls (g_w g') = w_calls (g_w g) @ l \<and> list_all (\<lambda>(c, _). P c) l)"

definition gw_calls :: "(vcall \<Rightarrow> bool) \<Rightarrow> gw \<Rightarrow> gw \<Rightarrow> bool" where
  "gw_calls P g g' \<longleftrightarrow> g_store g' = g_store g \<and> gw_grows P g g'"

lemma gw_calls_preorder [simp, keeps_intro]: "preorder_rel (gw_calls P)"
  by (auto simp: preorder_rel_def gw_calls_def gw_grows_def reflp_def transp_def)

lemma gw_calls_refl [simp]: "gw_calls P g g"
  by (simp add: gw_calls_def gw_grows_def)

lemma gw_calls_mono: "gw_calls P g g' \<Longrightarrow> (\<And>c. P c \<Longrightarrow> Q c) \<Longrightarrow> gw_calls Q g g'"
  by (fastforce simp: gw_calls_def gw_grows_def list_all_iff)

lemma gw_calls_new: "gw_calls P g g' \<Longrightarrow> list_all (\<lambda>(c, _). P c) (gw_new g g')"
  by (auto simp: gw_calls_def gw_grows_def gw_new_def)

named_theorems gw_intro \<open>which calls the primitives of a handler make\<close>

lemma keeps_gact [gw_intro]: "keeps (gw_calls P) (gact h op m d)"
  by (auto simp: gact_def keeps_def modE_def gw_calls_def gw_grows_def)

lemma keeps_store_read [gw_intro]: "keeps (gw_calls P) (store_read f)"
  unfolding store_read_def by (rule keeps_getE) simp

lemma keeps_store_list [gw_intro]: "keeps (gw_calls P) (store_list G f)"
  by (auto simp: store_list_def keeps_def gw_calls_def gw_grows_def)

lemma close_client_reads: "world_reads w (close_client E c w)"
  using world_reads_run [OF client_Close_read_only, of E "\<lparr>v_cl = c, v_w = w\<rparr>"]
  by (metis close_client_def prod.collapse vstate.select_convs(2))

lemma pool_For_reads:
  assumes "pool_For E vc (p, w) = (r, p', w')"
  shows "world_reads w w'"
proof -
  have make: "pool_make E vid ep (q, w1) = (r, p', w') \<Longrightarrow> world_reads w1 w'" for vid ep q w1
    by (auto simp: pool_make_def split: prod.splits sum.splits dest!: NewClient_reads)
  show ?thesis
  proof (cases "fmlookup (p_clients p) (vc_ID vc)")
    case None
    with assms show ?thesis by (auto simp: pool_For_def Let_def intro: make)
  next
    case (Some c)
    show ?thesis
    proof (cases "sameEndpoint (cl_ep c) (endpointFrom p vc)")
      case True
      with assms Some show ?thesis by (simp add: pool_For_def Let_def)
    next
      case False
      with assms Some have "pool_make E (vc_ID vc) (endpointFrom p vc)
          (p\<lparr>p_clients := fmdrop (vc_ID vc) (p_clients p)\<rparr>, close_client E c w) = (r, p', w')"
        by (simp add: pool_For_def Let_def)
      from world_reads_trans [OF close_client_reads make [OF this]] show ?thesis .
    qed
  qed
qed

lemma gw_calls_reads: "g_store g' = g_store g \<Longrightarrow> world_reads (g_w g) (g_w g') \<Longrightarrow> gw_calls (\<lambda>c. \<not> mutating c) g g'"
  by (simp add: gw_calls_def gw_grows_def world_reads_def)

lemma keeps_pooled [gw_intro]: "keeps (gw_calls (\<lambda>c. \<not> mutating c)) (pooled G vc)"
  by (auto simp: keeps_def pooled_def split: prod.splits sum.splits dest!: pool_For_reads intro: gw_calls_reads)

lemma keeps_pooled_for_uuid [gw_intro]: "keeps (gw_calls (\<lambda>c. \<not> mutating c)) (pooled_for_uuid G uuid)"
  by (auto simp: keeps_def pooled_for_uuid_def ClientForUUID_def
      split: prod.splits sum.splits option.splits dest!: pool_For_reads intro: gw_calls_reads)

lemma keeps_on_client:
  assumes "keeps (calls_only P) m"
  shows "keeps (gw_calls P) (on_client kc m)"
  unfolding keeps_def
proof
  fix g :: gw
  obtain r t where m: "m \<lparr>v_cl = snd kc, v_w = g_w g\<rparr> = (r, t)" by fastforce
  from keepsD [OF assms m] m show "gw_calls P g (snd (on_client kc m g))"
    by (simp add: on_client_def gw_calls_def gw_grows_def calls_only_def)
qed

lemma keeps_or_reply [keeps_intro]:
  "preorder_rel R \<Longrightarrow> keeps R m \<Longrightarrow> (\<And>e. keeps R (f e)) \<Longrightarrow> (\<And>x. keeps R (k x)) \<Longrightarrow> keeps R (or_reply m f k)"
  unfolding or_reply_def by (intro keeps_tryE keeps_case_sum keeps_bindE keeps_failE) auto

lemma run_handler_keeps: "keeps R h \<Longrightarrow> run_handler h g = (r, g') \<Longrightarrow> R g g'"
  by (auto simp: run_handler_def keeps_def split: prod.splits) (metis snd_conv)

section \<open>Running the primitives\<close>

lemma gact_run [simp]: "gact h op m d g = (Inr (), g\<lparr>g_w := (g_w g)\<lparr>w_bus := h (w_clock (g_w g)) op m d (w_bus (g_w g))\<rparr>\<rparr>)"
  by (simp add: gact_def modE_def)

lemma store_read_run [simp]: "store_read f g = (Inr (f (g_store g)), g)"
  by (simp add: store_read_def getE_def)

lemma bind_gact [simp]:
  "bindE (gact h op m d) k g = k () (g\<lparr>g_w := (g_w g)\<lparr>w_bus := h (w_clock (g_w g)) op m d (w_bus (g_w g))\<rparr>\<rparr>)"
  "thenE (gact h op m d) k' g = k' (g\<lparr>g_w := (g_w g)\<lparr>w_bus := h (w_clock (g_w g)) op m d (w_bus (g_w g))\<rparr>\<rparr>)"
  by (simp_all add: bindE_def thenE_def tryE_def)

lemma bind_store_read [simp]: "bindE (store_read f) k g = k (f (g_store g)) g"
  by (simp add: bindE_def tryE_def)

lemma or_reply_run:
  "or_reply m f k g = (case m g of (Inl e, g') \<Rightarrow> bindE (f e) failE g' | (Inr x, g') \<Rightarrow> k x g')"
  by (auto simp: or_reply_def tryE_def split: prod.splits sum.splits)

lemma pooled_for_uuid_unmapped:
  "LookupUUID uuid (g_store g) = None \<Longrightarrow>
     pooled_for_uuid G uuid g = (Inl (errorf (''uuid '' @ uuid @ '' is not mapped to any vCenter'')), g)"
  by (simp add: pooled_for_uuid_def ClientForUUID_def)

section \<open>The replies a handler can give\<close>

definition replies :: "(reply \<Rightarrow> bool) \<Rightarrow> handler \<Rightarrow> bool" where
  "replies P h \<longleftrightarrow> (\<forall>g. P (reply_of (fst (h g))))"

named_theorems replies_intro \<open>replies of the handler combinators\<close>

lemma replies_ret [replies_intro]: "P x \<Longrightarrow> replies P (retE x)" "P x \<Longrightarrow> replies P (failE x)"
  by (simp_all add: replies_def retE_def failE_def)

lemma replies_gact [replies_intro]: "replies P h \<Longrightarrow> replies P (thenE (gact k op m d) h)"
  by (simp add: replies_def)

lemma replies_store_read [replies_intro]: "(\<And>x. replies P (k x)) \<Longrightarrow> replies P (bindE (store_read f) k)"
  by (simp add: replies_def)

lemma replies_store_list [replies_intro]: "(\<And>x. replies P (k x)) \<Longrightarrow> replies P (bindE (store_list G f) k)"
  by (simp add: replies_def store_list_def bindE_def tryE_def)

lemma replies_or_reply [replies_intro]:
  assumes "\<And>e. replies P (f e)" "\<And>x. replies P (k x)"
  shows "replies P (or_reply m f k)"
proof -
  have "P (reply_of (fst (bindE (f e) failE g)))" for e g
    using assms(1) [of e] by (cases "f e g") (auto simp: replies_def bindE_def tryE_def failE_def split: sum.splits
        dest!: spec [of _ g])
  with assms(2) show ?thesis
    by (auto simp: replies_def or_reply_run split: prod.split sum.split)
qed

lemma replies_split [replies_intro]:
  "(b \<Longrightarrow> replies P h) \<Longrightarrow> (\<not> b \<Longrightarrow> replies P h') \<Longrightarrow> replies P (if b then h else h')"
  "(\<And>x y. replies P (f x y)) \<Longrightarrow> replies P (case p of (x, y) \<Rightarrow> f x y)"
  "replies P h \<Longrightarrow> (\<And>x. replies P (f' x)) \<Longrightarrow> replies P (case v of None \<Rightarrow> h | Some x \<Rightarrow> f' x)"
  by (auto split: prod.split option.split)

lemma run_handler_replies: "replies P h \<Longrightarrow> run_handler h g = (rep, g') \<Longrightarrow> P rep"
  by (auto simp: replies_def run_handler_def split: prod.splits) (metis fst_conv)


end
