(* ===== verification/Redfish.thy ===== *)
theory Redfish
  imports Gw_State
begin

text \<open>
  The Redfish server (\<open>internal/redfish/server.go\<close>): path rewriting and routing, and one definition per
  handler. Routing is split into the \<open>switch\<close>, which names the handler and its argument (\<open>rf_op\<close>), and
  the call of that handler. JSON bodies are written with the keys in the order of the source.
\<close>

section \<open>Paths\<close>

definition hex_digit_char :: "char \<Rightarrow> bool" where
  "hex_digit_char c = (let n = of_char c :: nat in
     (48 \<le> n \<and> n \<le> 57) \<or> (97 \<le> n \<and> n \<le> 102) \<or> (65 \<le> n \<and> n \<le> 70))"

definition looksLikeUUID :: "string \<Rightarrow> bool" where
  "looksLikeUUID s \<longleftrightarrow> length s = 36 \<and>
     list_all (\<lambda>(i, c). if i \<in> {8, 13, 18, 23} then c = CHR ''-'' else hex_digit_char c) (enumerate 0 s)"

definition top_level :: "string list" where
  "top_level = [''systems'', ''managers'', ''chassis'', ''sessionservice'', ''accountservice'', ''registries'',
     ''taskservice'', ''eventservice'', ''updateservice'', ''jsonschemas'', ''$metadata'']"

definition rewriteBareUUIDPath :: "string \<Rightarrow> string option" where
  "rewriteBareUUIDPath p =
     (if p = ''/'' \<or> p = [] then None
      else case CutChar (TrimPrefix p ''/'') CHR ''/'' of (seg, rest, hasMore) \<Rightarrow>
        if \<not> looksLikeUUID seg then None
        else if ToLower seg \<in> set top_level then None
        else if hasMore then Some (''/Systems/'' @ seg @ ''/'' @ rest)
        else Some (''/Systems/'' @ seg))"

definition systemIDFrom :: "string \<Rightarrow> string \<Rightarrow> string" where
  "systemIDFrom p suf = TrimSuffix (TrimPrefix p ''/Systems/'') suf"

definition managerIDFrom :: "string \<Rightarrow> string \<Rightarrow> string" where
  "managerIDFrom p suf = TrimSuffix (TrimPrefix p ''/Managers/'') suf"

definition managerSystemID :: "string \<Rightarrow> string \<Rightarrow> string \<Rightarrow> string" where
  "managerSystemID query p suf =
     (let mid = managerIDFrom p suf in
      if mid \<noteq> [] \<and> mid \<noteq> ''1'' then mid
      else let sys = TrimSpace query in if sys \<noteq> [] then sys else [])"

section \<open>The switch\<close>

datatype rf_op =
    RfServiceRoot
  | RfSystems
  | RfReset string
  | RfInsert string
  | RfEject string
  | RfCd string
  | RfSystemMedia string
  | RfEthernet string
  | RfPatch string
  | RfSystem string
  | RfManagers
  | RfManagerMedia string
  | RfManager string
  | RfNotFound

definition under :: "string \<Rightarrow> string \<Rightarrow> string \<Rightarrow> bool" where
  "under base suf p \<longleftrightarrow> HasPrefix p base \<and> HasSuffix p suf"

definition insert_suffix :: string where "insert_suffix = ''/VirtualMedia/Cd/Actions/VirtualMedia.InsertMedia''"
definition eject_suffix :: string where "eject_suffix = ''/VirtualMedia/Cd/Actions/VirtualMedia.EjectMedia''"
definition reset_suffix :: string where "reset_suffix = ''/Actions/ComputerSystem.Reset''"

text \<open>\<open>query\<close> is \<open>r.URL.Query().Get("system")\<close>.\<close>

definition manager_op :: "string \<Rightarrow> string \<Rightarrow> string \<Rightarrow> rf_op" where
  "manager_op meth p query =
     (if under ''/Managers/'' insert_suffix p \<and> meth = ''POST'' then RfInsert (managerSystemID query p insert_suffix)
      else if under ''/Managers/'' eject_suffix p \<and> meth = ''POST'' then RfEject (managerSystemID query p eject_suffix)
      else if under ''/Managers/'' ''/VirtualMedia/Cd'' p \<and> meth = ''GET'' then RfCd (managerSystemID query p ''/VirtualMedia/Cd'')
      else if under ''/Managers/'' ''/VirtualMedia'' p \<and> meth = ''GET'' then RfManagerMedia (managerIDFrom p ''/VirtualMedia'')
      else if under ''/Managers/'' ''/EthernetInterfaces'' p \<and> meth = ''GET''
        then RfEthernet (''/redfish/v1/Managers/'' @ managerIDFrom p ''/EthernetInterfaces'' @ ''/EthernetInterfaces'')
      else if HasPrefix p ''/Managers/'' \<and> meth = ''GET''
        then (let mid = TrimPrefix p ''/Managers/'' in if Contains mid ''/'' then RfNotFound else RfManager mid)
      else RfNotFound)"

definition rf_switch :: "string \<Rightarrow> string \<Rightarrow> string \<Rightarrow> rf_op" where
  "rf_switch meth p query =
     (if p = ''/'' \<and> meth = ''GET'' then RfServiceRoot
      else if p = ''/Systems'' \<and> meth = ''GET'' then RfSystems
      else if under ''/Systems/'' reset_suffix p \<and> meth = ''POST'' then RfReset (systemIDFrom p reset_suffix)
      else if under ''/Systems/'' insert_suffix p \<and> meth = ''POST'' then RfInsert (systemIDFrom p insert_suffix)
      else if under ''/Systems/'' eject_suffix p \<and> meth = ''POST'' then RfEject (systemIDFrom p eject_suffix)
      else if under ''/Systems/'' ''/VirtualMedia/Cd'' p \<and> meth = ''GET'' then RfCd (systemIDFrom p ''/VirtualMedia/Cd'')
      else if under ''/Systems/'' ''/VirtualMedia'' p \<and> meth = ''GET'' then RfSystemMedia (systemIDFrom p ''/VirtualMedia'')
      else if under ''/Systems/'' ''/EthernetInterfaces'' p \<and> meth = ''GET''
        then RfEthernet (''/redfish/v1/Systems/'' @ systemIDFrom p ''/EthernetInterfaces'' @ ''/EthernetInterfaces'')
      else if HasPrefix p ''/Systems/'' \<and> meth = ''PATCH''
        then (let sid = TrimPrefix p ''/Systems/'' in if Contains sid ''/'' then RfNotFound else RfPatch sid)
      else if HasPrefix p ''/Systems/'' \<and> meth = ''GET''
        then (let sid = TrimPrefix p ''/Systems/'' in if Contains sid ''/'' then RfNotFound else RfSystem sid)
      else if p = ''/Managers'' \<and> meth = ''GET'' then RfManagers
      else manager_op meth p query)"

definition rf_path :: "string \<Rightarrow> string" where
  "rf_path url = (let p = TrimSuffix (TrimPrefix url ''/redfish/v1'') ''/'' in if p = [] then ''/'' else p)"

text \<open>The whole of routing: which handler a request for \<open>url\<close> runs.\<close>

definition rf_resolve :: "string \<Rightarrow> string \<Rightarrow> string \<Rightarrow> rf_op" where
  "rf_resolve meth url query =
     (case rewriteBareUUIDPath (rf_path url) of
        Some p \<Rightarrow> rf_switch meth p query
      | None \<Rightarrow> rf_switch meth (rf_path url) query)"

section \<open>Bodies\<close>

definition rf_JSON :: "nat \<Rightarrow> json \<Rightarrow> reply" where
  "rf_JSON code v = \<lparr>rp_Code = code, rp_Header = [(''Content-Type'', ''application/json; charset=utf-8''),
     (''OData-Version'', ''4.0'')], rp_Body = JSONBody v\<rparr>"

definition odata_id :: "string \<Rightarrow> json" where
  "odata_id l = JObj [(''@odata.id'', JStr l)]"

definition collection :: "string \<Rightarrow> string \<Rightarrow> string \<Rightarrow> string list \<Rightarrow> json" where
  "collection oid ty name members = JObj [(''@odata.id'', JStr oid), (''@odata.type'', JStr ty), (''Name'', JStr name),
     (''Members@odata.count'', JInt (int (length members))), (''Members'', JArr (map odata_id members))]"

definition service_root :: json where
  "service_root = JObj [
     (''@odata.context'', JStr ''/redfish/v1/$metadata#ServiceRoot.ServiceRoot''),
     (''@odata.id'', JStr ''/redfish/v1/''), (''@odata.type'', JStr ''#ServiceRoot.v1_5_0.ServiceRoot''),
     (''Id'', JStr ''RootService''), (''Name'', JStr ''rf2vc''), (''RedfishVersion'', JStr ''1.6.0''),
     (''UUID'', JStr ''00000000-0000-0000-0000-000000000001''),
     (''Systems'', odata_id ''/redfish/v1/Systems''), (''Managers'', odata_id ''/redfish/v1/Managers'')]"

definition systems_body :: "mapping list \<Rightarrow> json" where
  "systems_body ms = collection ''/redfish/v1/Systems'' ''#ComputerSystemCollection.ComputerSystemCollection''
     ''Computer System Collection'' (map (\<lambda>m. ''/redfish/v1/Systems/'' @ mp_UUID m) ms)"

definition managers_body :: "mapping list \<Rightarrow> json" where
  "managers_body ms = collection ''/redfish/v1/Managers'' ''#ManagerCollection.ManagerCollection''
     ''Manager Collection'' (''/redfish/v1/Managers/1'' # map (\<lambda>m. ''/redfish/v1/Managers/'' @ mp_UUID m) ms)"

definition reset_types :: "string list" where
  "reset_types = [''On'', ''ForceOff'', ''GracefulShutdown'', ''ForceRestart'', ''GracefulRestart'', ''PowerCycle'', ''Nmi'']"

definition system_body :: "system_info \<Rightarrow> json" where
  "system_body sys = (let base = ''/redfish/v1/Systems/'' @ si_UUID sys in JObj [
     (''@odata.id'', JStr base), (''@odata.type'', JStr ''#ComputerSystem.v1_14_0.ComputerSystem''),
     (''Id'', JStr (si_UUID sys)), (''Name'', JStr (si_Name sys)), (''UUID'', JStr (si_UUID sys)),
     (''SystemType'', JStr ''Virtual''), (''PowerState'', JStr (si_PowerState sys)),
     (''Status'', JObj [(''State'', JStr ''Enabled''), (''Health'', JStr ''OK'')]),
     (''MemorySummary'', JObj [(''TotalSystemMemoryGiB'', JFrac (si_MemoryMiB sys) 1024)]),
     (''ProcessorSummary'', JObj [(''Count'', JInt (si_CPUs sys))]),
     (''Boot'', JObj [(''BootSourceOverrideEnabled'', JStr ''Disabled''), (''BootSourceOverrideTarget'', JStr ''None''),
        (''BootSourceOverrideMode'', JStr ''UEFI''),
        (''BootSourceOverrideTarget@Redfish.AllowableValues'', JArr (map JStr
           [''None'', ''Pxe'', ''Cd'', ''Usb'', ''Hdd'', ''BiosSetup'', ''UefiTarget'', ''UefiHttp'']))]),
     (''Actions'', JObj [(''#ComputerSystem.Reset'', JObj [(''target'', JStr (base @ ''/Actions/ComputerSystem.Reset'')),
        (''ResetType@Redfish.AllowableValues'', JArr (map JStr reset_types))])]),
     (''VirtualMedia'', odata_id (base @ ''/VirtualMedia'')),
     (''EthernetInterfaces'', odata_id (base @ ''/EthernetInterfaces'')),
     (''Links'', JObj [(''ManagedBy'', JArr [odata_id (''/redfish/v1/Managers/'' @ si_UUID sys)])])])"

definition manager_body :: "string \<Rightarrow> string list \<Rightarrow> json" where
  "manager_body mid managerFor = (let base = ''/redfish/v1/Managers/'' @ mid in JObj [
     (''@odata.id'', JStr base), (''@odata.type'', JStr ''#Manager.v1_10_0.Manager''), (''Id'', JStr mid),
     (''Name'', JStr ''Gateway Manager''), (''ManagerType'', JStr ''Service''),
     (''Status'', JObj [(''State'', JStr ''Enabled''), (''Health'', JStr ''OK'')]),
     (''VirtualMedia'', odata_id (base @ ''/VirtualMedia'')), (''EthernetInterfaces'', odata_id (base @ ''/EthernetInterfaces'')),
     (''Links'', JObj [(''ManagerForServers'', JArr (map odata_id managerFor))])])"

definition media_collection_body :: "string \<Rightarrow> json" where
  "media_collection_body base = collection (base @ ''/VirtualMedia'') ''#VirtualMediaCollection.VirtualMediaCollection''
     ''Virtual Media Collection'' [base @ ''/VirtualMedia/Cd'']"

definition ethernet_body :: "string \<Rightarrow> json" where
  "ethernet_body oid = collection oid ''#EthernetInterfaceCollection.EthernetInterfaceCollection'' ''Ethernet Interface Collection'' []"

definition cd_body :: "string \<Rightarrow> media_status \<Rightarrow> json" where
  "cd_body oid st = JObj [
     (''@odata.id'', JStr oid), (''@odata.type'', JStr ''#VirtualMedia.v1_3_0.VirtualMedia''), (''Id'', JStr ''Cd''),
     (''Name'', JStr ''Virtual CD''), (''MediaTypes'', JArr [JStr ''CD'', JStr ''DVD'']),
     (''Inserted'', JBool (ms_Inserted st)), (''Image'', JStr (ms_Image st)), (''WriteProtected'', JBool True),
     (''ConnectedVia'', JStr ''URI''), (''TransferProtocolType'', JStr ''HTTP''),
     (''Actions'', JObj [
        (''#VirtualMedia.InsertMedia'', JObj [(''target'', JStr (oid @ ''/Actions/VirtualMedia.InsertMedia''))]),
        (''#VirtualMedia.EjectMedia'', JObj [(''target'', JStr (oid @ ''/Actions/VirtualMedia.EjectMedia''))])])]"

section \<open>Handlers\<close>

text \<open>\<open>clientFor\<close>: the pooled client of a mapped UUID, or the 404 reply.\<close>

definition clientFor :: "gw_env \<Rightarrow> string \<Rightarrow> (string \<times> client \<Rightarrow> handler) \<Rightarrow> handler" where
  "clientFor G uuid k = or_reply (pooled_for_uuid G uuid)
     (\<lambda>e. thenE (gact act_InErr ''resolve'' (err_text e) [(''uuid'', AStr uuid)]) (retE (http_Error (err_text e) 404))) k"

definition serviceRoot :: handler where
  "serviceRoot = retE (rf_JSON 200 service_root)"

definition systemsCollection :: "gw_env \<Rightarrow> handler" where
  "systemsCollection G = bindE (store_list G (\<lambda>se. ListMappings (se_morder se))) (\<lambda>ms. retE (rf_JSON 200 (systems_body ms)))"

definition systemGet :: "gw_env \<Rightarrow> string \<Rightarrow> handler" where
  "systemGet G sid = clientFor G sid (\<lambda>kc.
     or_reply (on_client kc (GetSystem (ge_vs G) sid))
       (\<lambda>e. thenE (gact act_InErr ''system-get'' (err_text e) [(''uuid'', AStr sid)]) (retE (http_Error (err_text e) 404)))
       (\<lambda>sys. retE (rf_JSON 200 (system_body sys))))"

text \<open>The two shared ends of a changing request: the dry run, and the call with its error report.\<close>

definition unless_dry :: "string \<Rightarrow> string \<Rightarrow> string \<Rightarrow> detail \<Rightarrow> handler \<Rightarrow> handler" where
  "unless_dry sid op message detail k = bindE (store_read (DryRunForUUID sid)) (\<lambda>dry.
     if dry then thenE (gact act_OutDry op message detail) (retE (WriteHeader 204)) else k)"

definition apply_change :: "gw_env \<Rightarrow> string \<Rightarrow> string \<Rightarrow> string \<Rightarrow> detail \<Rightarrow> unit vio \<Rightarrow> handler" where
  "apply_change G sid op message detail m = clientFor G sid (\<lambda>kc.
     thenE (gact act_Out op message detail)
       (or_reply (on_client kc m)
         (\<lambda>e. thenE (gact act_OutErr op (err_text e) detail) (retE (http_Error (err_text e) 500)))
         (\<lambda>_. retE (WriteHeader 204))))"

definition reset_fields :: "(string \<times> string field_decoder) list" where
  "reset_fields = [(''ResetType'', str_field [] ''ResetType'' (\<lambda>s _. s))]"

definition systemReset :: "gw_env \<Rightarrow> request \<Rightarrow> string \<Rightarrow> handler" where
  "systemReset G rq sid = (case decode_body (''struct { ResetType string '' @ go_tag ''ResetType'' @ '' }'') reset_fields rq [] of
       (Some e, _, _) \<Rightarrow> retE (http_Error e 400)
     | (None, resetType, _) \<Rightarrow>
         let detail = [(''uuid'', AStr sid), (''resetType'', AStr resetType)] in
         unless_dry sid ''ComputerSystem.Reset'' ''would power/reset VM (dry-run)'' detail
           (apply_change G sid ''ComputerSystem.Reset'' ''applying power action'' detail (Reset (ge_vs G) sid resetType)))"

record boot_override =
  bo_Target :: string
  bo_Enabled :: string

definition boot_fields :: "(string \<times> boot_override field_decoder) list" where
  "boot_fields = [
     (''BootSourceOverrideTarget'', str_field [] ''Boot.BootSourceOverrideTarget'' (\<lambda>s b. b\<lparr>bo_Target := s\<rparr>)),
     (''BootSourceOverrideEnabled'', str_field [] ''Boot.BootSourceOverrideEnabled'' (\<lambda>s b. b\<lparr>bo_Enabled := s\<rparr>))]"

definition boot_type :: string where
  "boot_type = ''struct { BootSourceOverrideTarget string '' @ go_tag ''BootSourceOverrideTarget'' @
     ''; BootSourceOverrideEnabled string '' @ go_tag ''BootSourceOverrideEnabled'' @ '' }''"

definition patch_fields :: "(string \<times> boot_override option field_decoder) list" where
  "patch_fields = [(''Boot'', ptr_field [] ''Boot'' boot_type boot_fields \<lparr>bo_Target = [], bo_Enabled = []\<rparr> (\<lambda>b. b) (\<lambda>b _. b))]"

definition cd_targets :: "string list" where "cd_targets = [''cd'', ''cdrom'', ''usb'', ''usbcd'']"
definition disk_targets :: "string list" where "disk_targets = [[], ''none'', ''hdd'', ''disk'', ''pxe'', ''diags'']"

definition patchBoot :: "gw_env \<Rightarrow> string \<Rightarrow> boot_override \<Rightarrow> handler" where
  "patchBoot G sid b =
     (let target = ToLower (bo_Target b); enabled = ToLower (bo_Enabled b);
          detail = [(''uuid'', AStr sid), (''bootTarget'', AStr target), (''bootEnabled'', AStr enabled)] in
      if target \<in> set cd_targets then
        unless_dry sid ''BootOverride'' ''would set boot CD once (dry-run)'' detail
          (apply_change G sid ''BootOverride'' ''set boot CD once'' detail (SetBootCDOnce (ge_vs G) sid))
      else if enabled = ''disabled'' \<or> target \<in> set disk_targets then
        unless_dry sid ''BootOverride'' ''would set boot disk first (dry-run)'' detail
          (apply_change G sid ''BootOverride'' ''set boot disk first'' detail (SetBootDiskFirst (ge_vs G) sid))
      else retE (WriteHeader 204))"

definition systemPatch :: "gw_env \<Rightarrow> request \<Rightarrow> string \<Rightarrow> handler" where
  "systemPatch G rq sid = (case decode_body (''struct { Boot *'' @ boot_type @ '' '' @ go_tag ''Boot'' @ '' }'') patch_fields rq None of
       (Some e, _, _) \<Rightarrow> retE (http_Error e 400)
     | (None, Some b, _) \<Rightarrow> patchBoot G sid b
     | (None, None, _) \<Rightarrow> retE (WriteHeader 204))"

definition managersCollection :: "gw_env \<Rightarrow> handler" where
  "managersCollection G = bindE (store_list G (\<lambda>se. ListMappings (se_morder se))) (\<lambda>ms. retE (rf_JSON 200 (managers_body ms)))"

definition managerGet :: "gw_env \<Rightarrow> string \<Rightarrow> handler" where
  "managerGet G mid =
     (if mid = ''1'' then
        bindE (store_list G (\<lambda>se. ListMappings (se_morder se))) (\<lambda>ms.
          retE (rf_JSON 200 (manager_body mid (map (\<lambda>m. ''/redfish/v1/Systems/'' @ mp_UUID m) ms))))
      else bindE (store_read (LookupUUID mid)) (\<lambda>r. case r of
          None \<Rightarrow> retE (http_Error ''manager/system not mapped'' 404)
        | Some _ \<Rightarrow> retE (rf_JSON 200 (manager_body mid [''/redfish/v1/Systems/'' @ mid]))))"

definition managerVirtualMediaCollection :: "string \<Rightarrow> handler" where
  "managerVirtualMediaCollection mid = retE (rf_JSON 200 (media_collection_body (''/redfish/v1/Managers/'' @ mid)))"

definition systemVirtualMediaCollection :: "string \<Rightarrow> handler" where
  "systemVirtualMediaCollection sid = bindE (store_read (LookupUUID sid)) (\<lambda>r. case r of
       None \<Rightarrow> retE (http_Error ''uuid not mapped'' 404)
     | Some _ \<Rightarrow> retE (rf_JSON 200 (media_collection_body (''/redfish/v1/Systems/'' @ sid))))"

definition ethernetInterfaces :: "string \<Rightarrow> handler" where
  "ethernetInterfaces oid = retE (rf_JSON 200 (ethernet_body oid))"

definition virtualMediaCd :: "gw_env \<Rightarrow> request \<Rightarrow> string \<Rightarrow> handler" where
  "virtualMediaCd G rq sid =
     (let sid = (if sid = [] then TrimSpace (query_get rq ''system'') else sid);
          oid = TrimSuffix (rq_Path rq) ''/'' in
      if sid = [] then retE (rf_JSON 200 (cd_body oid \<lparr>ms_Inserted = False, ms_Image = []\<rparr>))
      else clientFor G sid (\<lambda>(_, c). retE (rf_JSON 200 (cd_body oid (MediaStatus sid c)))))"

definition no_system_id :: reply where
  "no_system_id = http_Error ''system id required (use Managers/{uuid}/VirtualMedia or ?system=)'' 400"

record insert_request =
  ir_Image :: string
  ir_Inserted :: "bool option"
  ir_WriteProtected :: "bool option"

definition insert_fields :: "(string \<times> insert_request field_decoder) list" where
  "insert_fields = [(''Image'', str_field [] ''Image'' (\<lambda>s r. r\<lparr>ir_Image := s\<rparr>)),
     (''Inserted'', bool_ptr_field [] ''Inserted'' (\<lambda>b r. r\<lparr>ir_Inserted := b\<rparr>)),
     (''WriteProtected'', bool_ptr_field [] ''WriteProtected'' (\<lambda>b r. r\<lparr>ir_WriteProtected := b\<rparr>))]"

definition insert_type :: string where
  "insert_type = ''struct { Image string '' @ go_tag ''Image'' @ ''; Inserted *bool '' @ go_tag ''Inserted'' @
     ''; WriteProtected *bool '' @ go_tag ''WriteProtected'' @ '' }''"

definition rf_insertMedia :: "gw_env \<Rightarrow> request \<Rightarrow> string \<Rightarrow> handler" where
  "rf_insertMedia G rq sid =
     (if sid = [] then retE no_system_id
      else case decode_body insert_type insert_fields rq \<lparr>ir_Image = [], ir_Inserted = None, ir_WriteProtected = None\<rparr> of
          (Some e, _, _) \<Rightarrow> retE (http_Error e 400)
        | (None, body, _) \<Rightarrow>
            if ir_Image body = [] then retE (http_Error ''Image is required'' 400)
            else let detail = [(''uuid'', AStr sid), (''image'', AStr (ir_Image body))] in
              unless_dry sid ''InsertMedia'' (''would stage/attach ISO (dry-run) '' @ dash @ '' no upload or CDROM change'') detail
                (apply_change G sid ''InsertMedia'' ''staging/attaching ISO'' detail (InsertMedia (ge_vs G) sid (ir_Image body))))"

definition rf_ejectMedia :: "gw_env \<Rightarrow> string \<Rightarrow> handler" where
  "rf_ejectMedia G sid =
     (if sid = [] then retE no_system_id
      else let detail = [(''uuid'', AStr sid)] in
        unless_dry sid ''EjectMedia'' ''would eject CDROM (dry-run)'' detail
          (apply_change G sid ''EjectMedia'' ''ejecting CDROM'' detail (EjectMedia (ge_vs G) sid)))"

section \<open>The server\<close>

fun rf_handle :: "gw_env \<Rightarrow> request \<Rightarrow> rf_op \<Rightarrow> handler" where
  "rf_handle G rq RfServiceRoot = serviceRoot"
| "rf_handle G rq RfSystems = systemsCollection G"
| "rf_handle G rq (RfReset sid) = systemReset G rq sid"
| "rf_handle G rq (RfInsert sid) = rf_insertMedia G rq sid"
| "rf_handle G rq (RfEject sid) = rf_ejectMedia G sid"
| "rf_handle G rq (RfCd sid) = virtualMediaCd G rq sid"
| "rf_handle G rq (RfSystemMedia sid) = systemVirtualMediaCollection sid"
| "rf_handle G rq (RfEthernet oid) = ethernetInterfaces oid"
| "rf_handle G rq (RfPatch sid) = systemPatch G rq sid"
| "rf_handle G rq (RfSystem sid) = systemGet G sid"
| "rf_handle G rq RfManagers = managersCollection G"
| "rf_handle G rq (RfManagerMedia mid) = managerVirtualMediaCollection mid"
| "rf_handle G rq (RfManager mid) = managerGet G mid"
| "rf_handle G rq RfNotFound = thenE (gact act_InErr ''not-found'' (rq_Path rq) []) (retE http_NotFound)"

definition rf_route :: "gw_env \<Rightarrow> request \<Rightarrow> handler" where
  "rf_route G rq =
     (let detail = [(''remote'', AStr (rq_RemoteAddr rq)), (''ua'', AStr (UserAgent rq)), (''client'', AStr (rq_Client rq))];
          note = (case rewriteBareUUIDPath (rf_path (rq_Path rq)) of
             Some p \<Rightarrow> detail @ [(''rewrote'', AStr (''/redfish/v1'' @ p))] | None \<Rightarrow> detail) in
      thenE (gact act_In (rq_Method rq) (rq_Path rq) note)
        (rf_handle G rq (rf_resolve (rq_Method rq) (rq_Path rq) (query_get rq ''system''))))"

text \<open>\<open>http.Redirect\<close> to the service root for the path without its slash.\<close>

definition rf_redirect :: "request \<Rightarrow> handler" where
  "rf_redirect rq = retE \<lparr>rp_Code = 308, rp_Header = (''Location'', ''/redfish/v1/'') #
       (if rq_Method rq \<in> {''GET'', ''HEAD''} then [(''Content-Type'', ''text/html; charset=utf-8'')] else []),
     rp_Body = (if rq_Method rq = ''GET'' then TextBody (''<a href='' @ go_quote ''/redfish/v1/'' @ ''>Permanent Redirect</a>.'' @ [CHR 0x0A, CHR 0x0A]) else NoBody)\<rparr>"

definition rf_mount :: "gw_env \<Rightarrow> request \<Rightarrow> handler option" where
  "rf_mount G rq = (if rq_Path rq = ''/redfish/v1'' then Some (rf_redirect rq)
     else if HasPrefix (rq_Path rq) ''/redfish/v1/'' then Some (rf_route G rq) else None)"

section \<open>Routing\<close>

lemma last_not: "c \<notin> set s \<Longrightarrow> s \<noteq> [] \<Longrightarrow> last s \<noteq> c"
  using last_in_set [of s] by metis

lemma uuid_chars:
  assumes "looksLikeUUID u"
  shows "CHR ''/'' \<notin> set u" "u \<noteq> []" "length u = 36" "last u \<noteq> CHR ''/''"
proof -
  have ok: "c = CHR ''-'' \<or> hex_digit_char c" if "c \<in> set u" for c
  proof -
    from that obtain i where "i < length u" "u ! i = c" by (metis in_set_conv_nth)
    then have "(i, c) \<in> set (enumerate 0 u)" by (force simp: in_set_enumerate_eq)
    with assms show ?thesis by (auto simp: looksLikeUUID_def list_all_iff split: if_splits)
  qed
  have "\<not> hex_digit_char CHR ''/''" by code_simp
  with ok [of "CHR ''/''"] show s: "CHR ''/'' \<notin> set u" by auto
  from assms show l: "length u = 36" by (simp add: looksLikeUUID_def)
  then show n: "u \<noteq> []" by auto
  show "last u \<noteq> CHR ''/''" using s n by (rule last_not)
qed

lemma TrimSuffix_slash:
  "TrimSuffix (s @ r) ''/'' = s @ TrimSuffix r ''/''" if "s = [] \<or> last s \<noteq> CHR ''/'' \<or> r \<noteq> []"
proof (cases r rule: rev_cases)
  case Nil
  with that show ?thesis by (cases s rule: rev_cases) (auto simp: TrimSuffix_def)
next
  case (snoc r' c)
  then show ?thesis by (auto simp: TrimSuffix_def suffix_def)
qed

lemma TrimSuffix_no_slash: "r = [] \<or> last r \<noteq> CHR ''/'' \<Longrightarrow> TrimSuffix r ''/'' = r"
  by (cases r rule: rev_cases) (auto simp: TrimSuffix_def)

lemma CutChar_absent: "c \<notin> set s \<Longrightarrow> CutChar s c = (s, [], False)"
  by (simp add: CutChar_def Let_def)

lemma CutChar_at: "c \<notin> set s \<Longrightarrow> CutChar (s @ c # r) c = (s, r, True)"
  by (simp add: CutChar_def Let_def takeWhile_append)

text \<open>A tail is empty or starts a new segment.\<close>

definition new_segment :: "string \<Rightarrow> bool" where
  "new_segment r \<longleftrightarrow> r = [] \<or> hd r = CHR ''/''"

lemma CutChar_segment:
  assumes "CHR ''/'' \<notin> set s" "new_segment r"
  shows "CutChar (s @ r) CHR ''/'' = (s, tl r, r \<noteq> [])"
  using assms by (cases r) (auto simp: new_segment_def CutChar_absent CutChar_at)

lemma new_segment_trim: "new_segment r \<Longrightarrow> new_segment (TrimSuffix r ''/'')"
  by (cases r rule: rev_cases) (auto simp: new_segment_def TrimSuffix_def hd_append split: if_splits)

lemma uuid_not_top_level: "looksLikeUUID u \<Longrightarrow> ToLower u \<notin> set top_level"
  using uuid_chars(3) [of u] by (auto simp: top_level_def dest!: arg_cong [where f = length])

lemma rewrite_uuid:
  assumes "looksLikeUUID u" "new_segment r"
  shows "rewriteBareUUIDPath (''/'' @ u @ r) = Some (''/Systems/'' @ u @ r)"
proof -
  note u = uuid_chars [OF assms(1)]
  have "TrimPrefix (CHR ''/'' # u @ r) ''/'' = u @ r" by (simp add: TrimPrefix_def)
  moreover have "r \<noteq> [] \<Longrightarrow> CHR ''/'' # tl r = r" using assms(2) by (cases r) (auto simp: new_segment_def)
  ultimately show ?thesis
    using u CutChar_segment [OF u(1) assms(2)] assms(1) uuid_not_top_level [OF assms(1)]
    by (cases r) (auto simp: rewriteBareUUIDPath_def)
qed

lemma rewrite_named:
  assumes "CHR ''/'' \<notin> set s" "length s \<noteq> 36" "new_segment r"
  shows "rewriteBareUUIDPath (''/'' @ s @ r) = None"
proof -
  have "TrimPrefix (CHR ''/'' # s @ r) ''/'' = s @ r" by (simp add: TrimPrefix_def)
  then show ?thesis
    using CutChar_segment [OF assms(1,3)] assms(2) by (auto simp: rewriteBareUUIDPath_def looksLikeUUID_def)
qed

lemma rf_path_under:
  assumes "CHR ''/'' \<notin> set s" "s \<noteq> []" "new_segment r"
  shows "rf_path (''/redfish/v1/'' @ s @ r) = ''/'' @ s @ TrimSuffix r ''/''"
proof -
  have "last (CHR ''/'' # s) \<noteq> CHR ''/''" using assms(2) last_not [OF assms(1,2)] by simp
  then have "TrimSuffix ((CHR ''/'' # s) @ r) ''/'' = (CHR ''/'' # s) @ TrimSuffix r ''/''" by (intro TrimSuffix_slash) simp
  then show ?thesis by (simp add: rf_path_def TrimPrefix_def)
qed

lemma bare_uuid_path_is_system_path_at:
  assumes "looksLikeUUID u" and "new_segment rest"
  shows "rf_resolve meth (''/redfish/v1/'' @ u @ rest) query = rf_resolve meth (''/redfish/v1/Systems/'' @ u @ rest) query"
proof -
  note u = uuid_chars [OF assms(1)]
  have s: "CHR ''/'' \<notin> set ''Systems''" "length ''Systems'' \<noteq> 36" "''Systems'' \<noteq> []" by simp_all
  have seg: "new_segment (''/'' @ u @ rest)" by (simp add: new_segment_def)
  have bare: "rf_path (''/redfish/v1/'' @ u @ rest) = ''/'' @ u @ TrimSuffix rest ''/''"
    by (rule rf_path_under [OF u(1,2) assms(2)])
  have "TrimSuffix (''/'' @ u @ rest) ''/'' = ''/'' @ u @ TrimSuffix rest ''/''"
    using TrimSuffix_slash [of "''/'' @ u" rest] u by simp
  then have full: "rf_path (''/redfish/v1/Systems/'' @ u @ rest) = ''/Systems/'' @ u @ TrimSuffix rest ''/''"
    using rf_path_under [OF s(1,3) seg] by simp
  have "rewriteBareUUIDPath (''/Systems/'' @ u @ TrimSuffix rest ''/'') = None"
    using rewrite_named [OF s(1,2), of "''/'' @ u @ TrimSuffix rest ''/''"] by (simp add: new_segment_def)
  with rewrite_uuid [OF assms(1) new_segment_trim [OF assms(2)]] bare full show ?thesis
    by (simp add: rf_resolve_def)
qed

text \<open>
  A BMH address without "Systems/" works. For every BIOS UUID and every rest of the path (also with a
  trailing slash), a request to \<open>/redfish/v1/<uuid><rest>\<close> runs exactly the handler that
  \<open>/redfish/v1/Systems/<uuid><rest>\<close> runs, for every method and query.
\<close>

theorem bare_uuid_path_is_system_path:
  assumes "looksLikeUUID u" and "new_segment rest"
  shows "rf_resolve meth (''/redfish/v1/'' @ u @ rest) query = rf_resolve meth (''/redfish/v1/Systems/'' @ u @ rest) query"
  using assms by (rule bare_uuid_path_is_system_path_at)

theorem bare_uuid_path_is_system_path_witness:
  "rf_resolve ''GET'' ''/redfish/v1/42394b25-7a2c-c177-03f4-2bb3e5d147cb/VirtualMedia/'' []
     = RfSystemMedia ''42394b25-7a2c-c177-03f4-2bb3e5d147cb''"
proof -
  have u: "looksLikeUUID ''42394b25-7a2c-c177-03f4-2bb3e5d147cb''" by code_simp
  have r: "new_segment ''/VirtualMedia/''" by code_simp
  have "rf_resolve ''GET'' ''/redfish/v1/Systems/42394b25-7a2c-c177-03f4-2bb3e5d147cb/VirtualMedia/'' []
     = RfSystemMedia ''42394b25-7a2c-c177-03f4-2bb3e5d147cb''" by code_simp
  with bare_uuid_path_is_system_path [OF u r, of "''GET''" "[]"] show ?thesis by simp
qed

section \<open>Links\<close>

lemma SplitChar_append: "SplitChar c (a @ c # b) = SplitChar c a @ SplitChar c b"
  by (induction a) (auto split: list.split)

lemma HasSuffix_segments:
  assumes "HasSuffix p (CHR ''/'' # s)"
  shows "prefix (rev (SplitChar CHR ''/'' s)) (rev (SplitChar CHR ''/'' p))"
proof -
  from assms obtain a where "p = a @ CHR ''/'' # s" by (auto simp: HasSuffix_def suffix_def)
  then have "SplitChar CHR ''/'' p = SplitChar CHR ''/'' a @ SplitChar CHR ''/'' s" by (simp add: SplitChar_append)
  then show ?thesis by simp
qed

lemma not_under:
  assumes "\<not> prefix (rev (SplitChar CHR ''/'' s)) (rev (SplitChar CHR ''/'' p))"
  shows "\<not> under base (CHR ''/'' # s) p"
  using assms HasSuffix_segments by (auto simp: under_def)

lemma under_at: "under base suf (base @ u @ suf)"
  using suffixI [of "base @ u @ suf" "base @ u" suf] by (simp add: under_def HasPrefix_def HasSuffix_def)

lemma id_at: "systemIDFrom (''/Systems/'' @ u @ suf) suf = u" "managerIDFrom (''/Managers/'' @ u @ suf) suf = u"
proof -
  show "systemIDFrom (''/Systems/'' @ u @ suf) suf = u"
    unfolding systemIDFrom_def TrimPrefix_append TrimSuffix_append ..
  show "managerIDFrom (''/Managers/'' @ u @ suf) suf = u"
    unfolding managerIDFrom_def TrimPrefix_append TrimSuffix_append ..
qed

lemma not_contains: "CHR ''/'' \<notin> set u \<Longrightarrow> \<not> Contains u ''/''"
  by (auto simp: Contains_def sublist_def)

lemmas suffix_names = reset_suffix_def insert_suffix_def eject_suffix_def

lemma uuid_ne: "looksLikeUUID u \<Longrightarrow> length s \<noteq> 36 \<Longrightarrow> u \<noteq> s \<and> s \<noteq> u"
  using uuid_chars(3) by blast

lemma switch_system:
  assumes "looksLikeUUID u"
  shows "rf_switch ''GET'' (''/Systems/'' @ u) q = RfSystem u"
    "rf_switch ''GET'' (''/Systems/'' @ u @ ''/VirtualMedia'') q = RfSystemMedia u"
    "rf_switch ''GET'' (''/Systems/'' @ u @ ''/VirtualMedia/Cd'') q = RfCd u"
    "rf_switch ''GET'' (''/Systems/'' @ u @ ''/EthernetInterfaces'') q = RfEthernet (''/redfish/v1/Systems/'' @ u @ ''/EthernetInterfaces'')"
    "rf_switch ''POST'' (''/Systems/'' @ u @ reset_suffix) q = RfReset u"
    "rf_switch ''POST'' (''/Systems/'' @ u @ insert_suffix) q = RfInsert u"
    "rf_switch ''POST'' (''/Systems/'' @ u @ eject_suffix) q = RfEject u"
proof -
  note u = uuid_chars [OF assms]
  note seg = SplitChar_append_sep [OF u(1)] SplitChar_no_sep [OF u(1)]
  note ne = uuid_ne [OF assms]
  have base: "HasPrefix (''/Systems/'' @ r) ''/Systems/''" "''/Systems/'' @ r \<noteq> ''/''" "''/Systems/'' @ r \<noteq> ''/Systems''" for r
    by (simp_all add: HasPrefix_def)
  have trim: "TrimPrefix (''/Systems/'' @ u) ''/Systems/'' = u" by (simp only: TrimPrefix_append)
  have n0: "\<not> under ''/Systems/'' ''/VirtualMedia/Cd'' (''/Systems/'' @ u)" "\<not> under ''/Systems/'' ''/VirtualMedia'' (''/Systems/'' @ u)"
    "\<not> under ''/Systems/'' ''/EthernetInterfaces'' (''/Systems/'' @ u)"
    by (rule not_under; simp add: seg ne)+
  show "rf_switch ''GET'' (''/Systems/'' @ u) q = RfSystem u"
    using base [of u] n0 not_contains [OF u(1)] trim by (simp add: rf_switch_def)
  have n1: "\<not> under ''/Systems/'' ''/VirtualMedia/Cd'' (''/Systems/'' @ u @ ''/VirtualMedia'')"
    by (rule not_under; simp add: seg ne)
  show "rf_switch ''GET'' (''/Systems/'' @ u @ ''/VirtualMedia'') q = RfSystemMedia u"
    using base [of "u @ ''/VirtualMedia''"] n1 under_at [of "''/Systems/''" "''/VirtualMedia''" u] id_at(1) [of u "''/VirtualMedia''"]
    by (simp add: rf_switch_def)
  show "rf_switch ''GET'' (''/Systems/'' @ u @ ''/VirtualMedia/Cd'') q = RfCd u"
    using base [of "u @ ''/VirtualMedia/Cd''"] under_at [of "''/Systems/''" "''/VirtualMedia/Cd''" u] id_at(1) [of u "''/VirtualMedia/Cd''"]
    by (simp add: rf_switch_def)
  have n2: "\<not> under ''/Systems/'' ''/VirtualMedia/Cd'' (''/Systems/'' @ u @ ''/EthernetInterfaces'')"
    "\<not> under ''/Systems/'' ''/VirtualMedia'' (''/Systems/'' @ u @ ''/EthernetInterfaces'')"
    by (rule not_under; simp add: seg ne)+
  show "rf_switch ''GET'' (''/Systems/'' @ u @ ''/EthernetInterfaces'') q = RfEthernet (''/redfish/v1/Systems/'' @ u @ ''/EthernetInterfaces'')"
    using base [of "u @ ''/EthernetInterfaces''"] n2 under_at [of "''/Systems/''" "''/EthernetInterfaces''" u] id_at(1) [of u "''/EthernetInterfaces''"]
    by (simp add: rf_switch_def)
  show "rf_switch ''POST'' (''/Systems/'' @ u @ reset_suffix) q = RfReset u"
    using base [of "u @ reset_suffix"] under_at [of "''/Systems/''" reset_suffix u] id_at(1) [of u reset_suffix]
    by (simp add: rf_switch_def)
  have n3: "\<not> under ''/Systems/'' reset_suffix (''/Systems/'' @ u @ insert_suffix)"
    "\<not> under ''/Systems/'' reset_suffix (''/Systems/'' @ u @ eject_suffix)"
    "\<not> under ''/Systems/'' insert_suffix (''/Systems/'' @ u @ eject_suffix)"
    unfolding suffix_names by (rule not_under; simp add: seg ne)+
  show "rf_switch ''POST'' (''/Systems/'' @ u @ insert_suffix) q = RfInsert u"
    using base [of "u @ insert_suffix"] n3 under_at [of "''/Systems/''" insert_suffix u] id_at(1) [of u insert_suffix]
    by (simp add: rf_switch_def)
  show "rf_switch ''POST'' (''/Systems/'' @ u @ eject_suffix) q = RfEject u"
    using base [of "u @ eject_suffix"] n3 under_at [of "''/Systems/''" eject_suffix u] id_at(1) [of u eject_suffix]
    by (simp add: rf_switch_def)
qed

lemma switch_manager:
  assumes "looksLikeUUID u"
  shows "rf_switch ''GET'' (''/Managers/'' @ u) q = RfManager u"
    "rf_switch ''GET'' (''/Managers/'' @ u @ ''/VirtualMedia'') q = RfManagerMedia u"
    "rf_switch ''GET'' (''/Managers/'' @ u @ ''/VirtualMedia/Cd'') q = RfCd u"
    "rf_switch ''GET'' (''/Managers/'' @ u @ ''/EthernetInterfaces'') q = RfEthernet (''/redfish/v1/Managers/'' @ u @ ''/EthernetInterfaces'')"
    "rf_switch ''POST'' (''/Managers/'' @ u @ insert_suffix) q = RfInsert u"
    "rf_switch ''POST'' (''/Managers/'' @ u @ eject_suffix) q = RfEject u"
proof -
  note u = uuid_chars [OF assms]
  note seg = SplitChar_append_sep [OF u(1)] SplitChar_no_sep [OF u(1)]
  note ne = uuid_ne [OF assms]
  have sys: "\<not> HasPrefix (''/Managers/'' @ r) ''/Systems/''" "\<not> under ''/Systems/'' s (''/Managers/'' @ r)" for r s
    by (simp_all add: HasPrefix_def under_def)
  then have sw: "rf_switch m (''/Managers/'' @ u @ r) q = manager_op m (''/Managers/'' @ u @ r) q" for m r
    using sys [of "u @ r"] by (simp add: rf_switch_def)
  have base: "HasPrefix (''/Managers/'' @ r) ''/Managers/''" for r by (simp add: HasPrefix_def)
  have mid: "managerSystemID q (''/Managers/'' @ u @ suf) suf = u" for suf
    using id_at(2) [of u suf] u(2) ne [of "''1''"] by (simp add: managerSystemID_def Let_def)
  have trim: "TrimPrefix (''/Managers/'' @ u) ''/Managers/'' = u" by (simp only: TrimPrefix_append)
  have n0: "\<not> under ''/Managers/'' ''/VirtualMedia/Cd'' (''/Managers/'' @ u)" "\<not> under ''/Managers/'' ''/VirtualMedia'' (''/Managers/'' @ u)"
    "\<not> under ''/Managers/'' ''/EthernetInterfaces'' (''/Managers/'' @ u)"
    by (rule not_under; simp add: seg ne)+
  show "rf_switch ''GET'' (''/Managers/'' @ u) q = RfManager u"
    using sw [of "''GET''" "[]"] base [of u] n0 not_contains [OF u(1)] trim by (simp add: manager_op_def)
  have n1: "\<not> under ''/Managers/'' ''/VirtualMedia/Cd'' (''/Managers/'' @ u @ ''/VirtualMedia'')"
    by (rule not_under; simp add: seg ne)
  show "rf_switch ''GET'' (''/Managers/'' @ u @ ''/VirtualMedia'') q = RfManagerMedia u"
    using sw n1 under_at [of "''/Managers/''" "''/VirtualMedia''" u] id_at(2) [of u "''/VirtualMedia''"]
    by (simp add: manager_op_def)
  show "rf_switch ''GET'' (''/Managers/'' @ u @ ''/VirtualMedia/Cd'') q = RfCd u"
    using sw under_at [of "''/Managers/''" "''/VirtualMedia/Cd''" u] mid [of "''/VirtualMedia/Cd''"]
    by (simp add: manager_op_def)
  have n2: "\<not> under ''/Managers/'' ''/VirtualMedia/Cd'' (''/Managers/'' @ u @ ''/EthernetInterfaces'')"
    "\<not> under ''/Managers/'' ''/VirtualMedia'' (''/Managers/'' @ u @ ''/EthernetInterfaces'')"
    by (rule not_under; simp add: seg ne)+
  show "rf_switch ''GET'' (''/Managers/'' @ u @ ''/EthernetInterfaces'') q = RfEthernet (''/redfish/v1/Managers/'' @ u @ ''/EthernetInterfaces'')"
    using sw n2 under_at [of "''/Managers/''" "''/EthernetInterfaces''" u] id_at(2) [of u "''/EthernetInterfaces''"]
    by (simp add: manager_op_def)
  have n3: "\<not> under ''/Managers/'' insert_suffix (''/Managers/'' @ u @ eject_suffix)"
    unfolding suffix_names by (rule not_under; simp add: seg ne)
  show "rf_switch ''POST'' (''/Managers/'' @ u @ insert_suffix) q = RfInsert u"
    using sw under_at [of "''/Managers/''" insert_suffix u] mid [of insert_suffix] by (simp add: manager_op_def)
  show "rf_switch ''POST'' (''/Managers/'' @ u @ eject_suffix) q = RfEject u"
    using sw n3 under_at [of "''/Managers/''" eject_suffix u] mid [of eject_suffix] by (simp add: manager_op_def)
qed

lemma resolve_named:
  assumes "CHR ''/'' \<notin> set s" "length s \<noteq> 36" "s \<noteq> []" "r \<noteq> [] \<Longrightarrow> last r \<noteq> CHR ''/''" "new_segment r"
  shows "rf_resolve meth (''/redfish/v1/'' @ s @ r) q = rf_switch meth (''/'' @ s @ r) q"
proof -
  have "TrimSuffix r ''/'' = r" using assms(4) by (intro TrimSuffix_no_slash) blast
  then have "rf_path (''/redfish/v1/'' @ s @ r) = ''/'' @ s @ r" using rf_path_under [OF assms(1,3,5)] by simp
  then show ?thesis using rewrite_named [OF assms(1,2,5)] by (simp add: rf_resolve_def)
qed

lemma resolve_system:
  assumes "looksLikeUUID u" "r \<noteq> [] \<Longrightarrow> last r \<noteq> CHR ''/''"
  shows "rf_resolve meth (''/redfish/v1/Systems/'' @ u @ r) q = rf_switch meth (''/Systems/'' @ u @ r) q"
    "rf_resolve meth (''/redfish/v1/Managers/'' @ u @ r) q = rf_switch meth (''/Managers/'' @ u @ r) q"
proof -
  note u = uuid_chars [OF assms(1)]
  have l: "last (''/'' @ u @ r) \<noteq> CHR ''/''" using u assms(2) by (cases "r = []") auto
  have n: "new_segment (''/'' @ u @ r)" by (simp add: new_segment_def)
  show "rf_resolve meth (''/redfish/v1/Systems/'' @ u @ r) q = rf_switch meth (''/Systems/'' @ u @ r) q"
    using resolve_named [of "''Systems''" "''/'' @ u @ r" meth q] l n by simp
  show "rf_resolve meth (''/redfish/v1/Managers/'' @ u @ r) q = rf_switch meth (''/Managers/'' @ u @ r) q"
    using resolve_named [of "''Managers''" "''/'' @ u @ r" meth q] l n by simp
qed

text \<open>The links of a document: \<open>@odata.id\<close> is followed with GET, \<open>target\<close> with POST.\<close>

fun json_links :: "json \<Rightarrow> (string \<times> string) list"
  and arr_links :: "json list \<Rightarrow> (string \<times> string) list"
  and obj_links :: "(string \<times> json) list \<Rightarrow> (string \<times> string) list" where
  "json_links (JArr vs) = arr_links vs"
| "json_links (JObj ms) = obj_links ms"
| "json_links _ = []"
| "arr_links [] = []"
| "arr_links (v # vs) = json_links v @ arr_links vs"
| "obj_links [] = []"
| "obj_links ((k, JStr s) # ms) =
     (if k = ''@odata.id'' then [(''GET'', s)] else if k = ''target'' then [(''POST'', s)] else []) @ obj_links ms"
| "obj_links ((k, v) # ms) = json_links v @ obj_links ms"

text \<open>The handlers that act on one system.\<close>

definition ops_of :: "string \<Rightarrow> rf_op list" where
  "ops_of u = [RfSystem u, RfReset u, RfSystemMedia u, RfCd u, RfInsert u, RfEject u, RfManager u, RfManagerMedia u,
     RfEthernet (''/redfish/v1/Systems/'' @ u @ ''/EthernetInterfaces''),
     RfEthernet (''/redfish/v1/Managers/'' @ u @ ''/EthernetInterfaces'')]"

text \<open>
  The pages of the service: the root, the two collections, the gateway's manager \<open>1\<close> and, for each BIOS
  UUID, the pages of its system (also at the address without "Systems/") and of its manager.
\<close>

definition pages_of :: "string \<Rightarrow> string \<Rightarrow> string list" where
  "pages_of base i = [base @ i, base @ i @ ''/VirtualMedia'', base @ i @ ''/VirtualMedia/Cd'', base @ i @ ''/EthernetInterfaces'']"

definition system_bases :: "string list" where
  "system_bases = [''/redfish/v1/Systems/'', ''/redfish/v1/'', ''/redfish/v1/Managers/'']"

definition common_pages :: "string list" where
  "common_pages = [''/redfish/v1/'', ''/redfish/v1/Systems'', ''/redfish/v1/Managers''] @ pages_of ''/redfish/v1/Managers/'' ''1''"

definition system_page :: "string \<Rightarrow> string \<Rightarrow> bool" where
  "system_page u page \<longleftrightarrow> looksLikeUUID u \<and> list_ex (\<lambda>base. page \<in> set (pages_of base u)) system_bases"

definition served_page :: "string \<Rightarrow> bool" where
  "served_page page \<longleftrightarrow> page \<in> set common_pages \<or> (\<exists>u. system_page u page)"

lemma system_pageI:
  "looksLikeUUID u \<Longrightarrow> served_page (''/redfish/v1/Systems/'' @ u)" "looksLikeUUID u \<Longrightarrow> served_page (''/redfish/v1/Managers/'' @ u)"
  "looksLikeUUID u \<Longrightarrow> base \<in> set system_bases \<Longrightarrow> page \<in> set (pages_of base u) \<Longrightarrow> served_page page"
  by (auto simp: served_page_def system_page_def system_bases_def pages_of_def)

lemma resolve_at_system:
  assumes "looksLikeUUID u" "base = ''/redfish/v1/Systems/'' \<or> base = ''/redfish/v1/''"
  shows "rf_resolve ''GET'' (base @ u) q = RfSystem u"
    "rf_resolve ''GET'' (base @ u @ ''/VirtualMedia'') q = RfSystemMedia u"
    "rf_resolve ''GET'' (base @ u @ ''/VirtualMedia/Cd'') q = RfCd u"
    "rf_resolve ''GET'' (base @ u @ ''/EthernetInterfaces'') q = RfEthernet (''/redfish/v1/Systems/'' @ u @ ''/EthernetInterfaces'')"
    "rf_resolve ''POST'' (base @ u @ reset_suffix) q = RfReset u"
    "rf_resolve ''POST'' (base @ u @ insert_suffix) q = RfInsert u"
    "rf_resolve ''POST'' (base @ u @ eject_suffix) q = RfEject u"
proof -
  have seg: "new_segment []" "new_segment ''/VirtualMedia''" "new_segment ''/VirtualMedia/Cd''" "new_segment ''/EthernetInterfaces''"
    "new_segment reset_suffix" "new_segment insert_suffix" "new_segment eject_suffix" by code_simp+
  have lst: "last ''/VirtualMedia'' \<noteq> CHR ''/''" "last ''/VirtualMedia/Cd'' \<noteq> CHR ''/''" "last ''/EthernetInterfaces'' \<noteq> CHR ''/''"
    "last reset_suffix \<noteq> CHR ''/''" "last insert_suffix \<noteq> CHR ''/''" "last eject_suffix \<noteq> CHR ''/''" by code_simp+
  have at: "rf_resolve m (base @ u @ r) q = rf_switch m (''/Systems/'' @ u @ r) q" if "new_segment r" "r \<noteq> [] \<Longrightarrow> last r \<noteq> CHR ''/''" for m r
    using assms(2) bare_uuid_path_is_system_path_at [OF assms(1) that(1)] resolve_system(1) [OF assms(1), of r] that(2) by auto
  note sw = switch_system [OF assms(1)]
  show "rf_resolve ''GET'' (base @ u) q = RfSystem u" using at [OF seg(1), of "''GET''"] sw(1) by simp
  show "rf_resolve ''GET'' (base @ u @ ''/VirtualMedia'') q = RfSystemMedia u" using at [OF seg(2) lst(1)] sw(2) by simp
  show "rf_resolve ''GET'' (base @ u @ ''/VirtualMedia/Cd'') q = RfCd u" using at [OF seg(3) lst(2)] sw(3) by simp
  show "rf_resolve ''GET'' (base @ u @ ''/EthernetInterfaces'') q = RfEthernet (''/redfish/v1/Systems/'' @ u @ ''/EthernetInterfaces'')"
    using at [OF seg(4) lst(3)] sw(4) by simp
  show "rf_resolve ''POST'' (base @ u @ reset_suffix) q = RfReset u" using at [OF seg(5) lst(4)] sw(5) by simp
  show "rf_resolve ''POST'' (base @ u @ insert_suffix) q = RfInsert u" using at [OF seg(6) lst(5)] sw(6) by simp
  show "rf_resolve ''POST'' (base @ u @ eject_suffix) q = RfEject u" using at [OF seg(7) lst(6)] sw(7) by simp
qed

lemma resolve_at_manager:
  assumes "looksLikeUUID u"
  shows "rf_resolve ''GET'' (''/redfish/v1/Managers/'' @ u) q = RfManager u"
    "rf_resolve ''GET'' (''/redfish/v1/Managers/'' @ u @ ''/VirtualMedia'') q = RfManagerMedia u"
    "rf_resolve ''GET'' (''/redfish/v1/Managers/'' @ u @ ''/VirtualMedia/Cd'') q = RfCd u"
    "rf_resolve ''GET'' (''/redfish/v1/Managers/'' @ u @ ''/EthernetInterfaces'') q = RfEthernet (''/redfish/v1/Managers/'' @ u @ ''/EthernetInterfaces'')"
    "rf_resolve ''POST'' (''/redfish/v1/Managers/'' @ u @ insert_suffix) q = RfInsert u"
    "rf_resolve ''POST'' (''/redfish/v1/Managers/'' @ u @ eject_suffix) q = RfEject u"
proof -
  have lst: "last ''/VirtualMedia'' \<noteq> CHR ''/''" "last ''/VirtualMedia/Cd'' \<noteq> CHR ''/''" "last ''/EthernetInterfaces'' \<noteq> CHR ''/''"
    "last insert_suffix \<noteq> CHR ''/''" "last eject_suffix \<noteq> CHR ''/''" by code_simp+
  note r = resolve_system(2) [OF assms] and m = switch_manager [OF assms]
  show "rf_resolve ''GET'' (''/redfish/v1/Managers/'' @ u) q = RfManager u" using r [of "[]"] m(1) by simp
  show "rf_resolve ''GET'' (''/redfish/v1/Managers/'' @ u @ ''/VirtualMedia'') q = RfManagerMedia u" using r [OF lst(1)] m(2) by simp
  show "rf_resolve ''GET'' (''/redfish/v1/Managers/'' @ u @ ''/VirtualMedia/Cd'') q = RfCd u" using r [OF lst(2)] m(3) by simp
  show "rf_resolve ''GET'' (''/redfish/v1/Managers/'' @ u @ ''/EthernetInterfaces'') q = RfEthernet (''/redfish/v1/Managers/'' @ u @ ''/EthernetInterfaces'')"
    using r [OF lst(3)] m(4) by simp
  show "rf_resolve ''POST'' (''/redfish/v1/Managers/'' @ u @ insert_suffix) q = RfInsert u" using r [OF lst(4)] m(5) by simp
  show "rf_resolve ''POST'' (''/redfish/v1/Managers/'' @ u @ eject_suffix) q = RfEject u" using r [OF lst(5)] m(6) by simp
qed

lemma resolve_common:
  "rf_resolve ''GET'' ''/redfish/v1/'' q = RfServiceRoot" "rf_resolve ''GET'' ''/redfish/v1/Systems'' q = RfSystems"
  "rf_resolve ''GET'' ''/redfish/v1/Managers'' q = RfManagers" "rf_resolve ''GET'' ''/redfish/v1/Managers/1'' q = RfManager ''1''"
  "rf_resolve ''GET'' ''/redfish/v1/Managers/1/VirtualMedia'' q = RfManagerMedia ''1''"
  "rf_resolve ''GET'' ''/redfish/v1/Managers/1/VirtualMedia/Cd'' q = RfCd (TrimSpace q)"
  "rf_resolve ''GET'' ''/redfish/v1/Managers/1/EthernetInterfaces'' q = RfEthernet ''/redfish/v1/Managers/1/EthernetInterfaces''"
  "rf_resolve ''POST'' (''/redfish/v1/Managers/1'' @ insert_suffix) q = RfInsert (TrimSpace q)"
  "rf_resolve ''POST'' (''/redfish/v1/Managers/1'' @ eject_suffix) q = RfEject (TrimSpace q)"
  by (code_simp; simp)+

text \<open>Where the links of a document lead; \<open>uuid_links u\<close>: to pages and actions of the system \<open>u\<close> alone.\<close>

definition uuid_links :: "string \<Rightarrow> json \<Rightarrow> bool" where
  "uuid_links u doc \<longleftrightarrow> list_all (\<lambda>(m, l). (m = ''GET'' \<longrightarrow> served_page l) \<and> (\<forall>q. rf_resolve m l q \<in> set (ops_of u))) (json_links doc)"

definition good_links :: "json \<Rightarrow> bool" where
  "good_links doc \<longleftrightarrow> list_all (\<lambda>(m, l). (m = ''GET'' \<longrightarrow> served_page l) \<and> (\<forall>q. rf_resolve m l q \<noteq> RfNotFound)) (json_links doc)"

lemma uuid_links_good: "uuid_links u doc \<Longrightarrow> good_links doc"
proof -
  have "RfNotFound \<notin> set (ops_of u)" by (simp add: ops_of_def)
  then have "rf_resolve m l q \<in> set (ops_of u) \<Longrightarrow> rf_resolve m l q \<noteq> RfNotFound" for m l q by metis
  then show "uuid_links u doc \<Longrightarrow> good_links doc"
    unfolding uuid_links_def good_links_def by (elim list.pred_mono_strong) auto
qed

lemma uuid_documents:
  assumes "looksLikeUUID u"
  shows "si_UUID sys = u \<Longrightarrow> uuid_links u (system_body sys)" "uuid_links u (manager_body u [''/redfish/v1/Systems/'' @ u])"
    "uuid_links u (media_collection_body (''/redfish/v1/Systems/'' @ u))" "uuid_links u (media_collection_body (''/redfish/v1/Managers/'' @ u))"
    "uuid_links u (ethernet_body (''/redfish/v1/Systems/'' @ u @ ''/EthernetInterfaces''))"
    "uuid_links u (ethernet_body (''/redfish/v1/Managers/'' @ u @ ''/EthernetInterfaces''))"
    "base \<in> set system_bases \<Longrightarrow> uuid_links u (cd_body (base @ u @ ''/VirtualMedia/Cd'') st)"
proof -
  note s = resolve_at_system [OF assms, of "''/redfish/v1/Systems/''", unfolded suffix_names, simplified]
  note b = resolve_at_system [OF assms, of "''/redfish/v1/''", unfolded suffix_names, simplified]
  note m = resolve_at_manager [OF assms, unfolded suffix_names, simplified]
  have pg: "served_page (''/redfish/v1/Systems/'' @ u)" "served_page (''/redfish/v1/Systems/'' @ u @ ''/VirtualMedia'')"
    "served_page (''/redfish/v1/Systems/'' @ u @ ''/VirtualMedia/Cd'')" "served_page (''/redfish/v1/Systems/'' @ u @ ''/EthernetInterfaces'')"
    "served_page (''/redfish/v1/Managers/'' @ u)" "served_page (''/redfish/v1/Managers/'' @ u @ ''/VirtualMedia'')"
    "served_page (''/redfish/v1/Managers/'' @ u @ ''/VirtualMedia/Cd'')" "served_page (''/redfish/v1/Managers/'' @ u @ ''/EthernetInterfaces'')"
    "served_page (''/redfish/v1/'' @ u @ ''/VirtualMedia/Cd'')"
    using assms by (auto simp: served_page_def system_page_def system_bases_def pages_of_def)
  note pg = pg [simplified]
  note body = system_body_def manager_body_def media_collection_body_def ethernet_body_def cd_body_def collection_def odata_id_def
    ops_of_def reset_types_def Let_def uuid_links_def
  show "si_UUID sys = u \<Longrightarrow> uuid_links u (system_body sys)" by (simp add: body pg s m)
  show "uuid_links u (manager_body u [''/redfish/v1/Systems/'' @ u])" by (simp add: body pg s m)
  show "uuid_links u (media_collection_body (''/redfish/v1/Systems/'' @ u))" by (simp add: body pg s m)
  show "uuid_links u (media_collection_body (''/redfish/v1/Managers/'' @ u))" by (simp add: body pg s m)
  show "uuid_links u (ethernet_body (''/redfish/v1/Systems/'' @ u @ ''/EthernetInterfaces''))" by (simp add: body pg s m)
  show "uuid_links u (ethernet_body (''/redfish/v1/Managers/'' @ u @ ''/EthernetInterfaces''))" by (simp add: body pg s m)
  show "base \<in> set system_bases \<Longrightarrow> uuid_links u (cd_body (base @ u @ ''/VirtualMedia/Cd'') st)"
    by (auto simp: system_bases_def body pg s m b)
qed

lemma json_links_id: "json_links (odata_id l) = [(''GET'', l)]" "obj_links ((k, odata_id l) # ms) = (''GET'', l) # obj_links ms"
  by (simp_all add: odata_id_def)

lemma arr_links_ids: "arr_links (map odata_id ls) = map (Pair ''GET'') ls"
  "arr_links (map (odata_id \<circ> f) ms) = map (\<lambda>m. (''GET'', f m)) ms"
  by (induction ls, simp_all add: json_links_id) (induction ms, simp_all add: json_links_id)

lemma common_served: "page \<in> set common_pages \<Longrightarrow> served_page page"
  by (simp add: served_page_def)

lemma common_documents:
  assumes "\<And>m. m \<in> set ms \<Longrightarrow> looksLikeUUID (mp_UUID m)"
  shows "good_links service_root" "good_links (systems_body ms)" "good_links (managers_body ms)"
    "good_links (manager_body ''1'' (map (\<lambda>m. ''/redfish/v1/Systems/'' @ mp_UUID m) ms))"
    "good_links (media_collection_body ''/redfish/v1/Managers/1'')" "good_links (ethernet_body ''/redfish/v1/Managers/1/EthernetInterfaces'')"
    "good_links (cd_body ''/redfish/v1/Managers/1/VirtualMedia/Cd'' st)"
proof -
  note c = resolve_common [unfolded suffix_names, simplified]
  have pg: "served_page ''/redfish/v1/''" "served_page ''/redfish/v1/Systems''" "served_page ''/redfish/v1/Managers''"
    "served_page ''/redfish/v1/Managers/1''" "served_page ''/redfish/v1/Managers/1/VirtualMedia''"
    "served_page ''/redfish/v1/Managers/1/VirtualMedia/Cd''" "served_page ''/redfish/v1/Managers/1/EthernetInterfaces''"
    by (rule common_served, simp add: common_pages_def pages_of_def)+
  have sys: "served_page (''/redfish/v1/Systems/'' @ mp_UUID m)" "rf_resolve ''GET'' (''/redfish/v1/Systems/'' @ mp_UUID m) q \<noteq> RfNotFound"
    "served_page (''/redfish/v1/Managers/'' @ mp_UUID m)" "rf_resolve ''GET'' (''/redfish/v1/Managers/'' @ mp_UUID m) q \<noteq> RfNotFound"
    if "m \<in> set ms" for m q
    using assms [OF that] system_pageI resolve_at_system(1) [of "mp_UUID m" "''/redfish/v1/Systems/''"] resolve_at_manager(1) by auto
  note sys = sys [simplified]
  note body = service_root_def systems_body_def managers_body_def manager_body_def media_collection_body_def ethernet_body_def cd_body_def
    collection_def good_links_def Let_def arr_links_ids
  note ids = json_links_id
  show "good_links service_root" by (simp add: body ids pg c)
  show "good_links (systems_body ms)" by (auto simp: body ids pg c list_all_iff sys)
  show "good_links (managers_body ms)" by (auto simp: body ids pg c list_all_iff sys)
  show "good_links (manager_body ''1'' (map (\<lambda>m. ''/redfish/v1/Systems/'' @ mp_UUID m) ms))" by (auto simp: body ids pg c list_all_iff sys)
  show "good_links (media_collection_body ''/redfish/v1/Managers/1'')" by (simp add: body ids pg c)
  show "good_links (ethernet_body ''/redfish/v1/Managers/1/EthernetInterfaces'')" by (simp add: body ids pg c)
  show "good_links (cd_body ''/redfish/v1/Managers/1/VirtualMedia/Cd'' st)" by (simp add: body ids pg c)
qed

text \<open>The JSON document of a reply, if it has one.\<close>

definition json_reply :: "(json \<Rightarrow> bool) \<Rightarrow> reply \<Rightarrow> bool" where
  "json_reply P rep \<longleftrightarrow> (\<forall>doc. rp_Body rep = JSONBody doc \<longrightarrow> P doc)"

lemma json_reply_simps [simp]:
  "json_reply P (http_Error e n)" "json_reply P (WriteHeader n)" "json_reply P http_NotFound" "json_reply P (rf_JSON n doc) \<longleftrightarrow> P doc"
  by (simp_all add: json_reply_def http_Error_def WriteHeader_def http_NotFound_def rf_JSON_def)

lemma json_reply_mono: "json_reply P rep \<Longrightarrow> (\<And>doc. P doc \<Longrightarrow> Q doc) \<Longrightarrow> json_reply Q rep"
  by (simp add: json_reply_def)

lemma replies_mono: "replies (json_reply P) h \<Longrightarrow> (\<And>doc. P doc \<Longrightarrow> Q doc) \<Longrightarrow> replies (json_reply Q) h"
  by (auto simp: replies_def intro: json_reply_mono)

lemma replies_json [replies_intro]: "replies (json_reply P) (thenE (gact k op m d) (retE (http_Error e n)))"
  by (intro replies_intro) simp

lemma replies_clientFor [replies_intro]: "(\<And>kc. replies (json_reply P) (k kc)) \<Longrightarrow> replies (json_reply P) (clientFor G sid k)"
  unfolding clientFor_def by (intro replies_intro) auto

text \<open>The system a document describes carries the UUID vCenter reports for the VM.\<close>

definition reports_uuids :: "vsphere \<Rightarrow> bool" where
  "reports_uuids E \<longleftrightarrow> (\<forall>h ref p. ve_Properties E h ref = Inr p \<longrightarrow> (\<exists>u. pr_Uuid p = Some u \<and> looksLikeUUID u))"

lemma infoFromVM_uuid:
  assumes "reports_uuids E" "infoFromVM E vm s = (Inr info, t)"
  shows "looksLikeUUID (si_UUID info)"
proof -
  from assms(2) obtain p s1 where p: "ve_Properties E (w_calls (v_w s)) (vm_ref vm) = Inr p"
    and u: "si_UUID info = (case pr_Uuid p of Some u \<Rightarrow> u | None \<Rightarrow> [])"
    by (auto simp: infoFromVM_def vm_Properties_def do_call_def bindE_def tryE_def retE_def Let_def failE_def
        split: prod.splits sum.splits option.splits)
  from assms(1) p obtain v where "pr_Uuid p = Some v" "looksLikeUUID v" unfolding reports_uuids_def by blast
  then show ?thesis by (simp add: u)
qed

lemma GetSystem_uuid:
  assumes "reports_uuids E" "GetSystem E sid s = (Inr sys, t)"
  shows "looksLikeUUID (si_UUID sys)"
  using assms(2) unfolding GetSystem_def
  by (auto elim!: bindE_InrE simp: cl_get_def getE_def retE_def failE_def dest: infoFromVM_uuid [OF assms(1)] split: if_splits)

lemma systemGet_replies:
  assumes "reports_uuids (ge_vs G)"
  shows "replies (json_reply (\<lambda>doc. \<exists>sys. doc = system_body sys \<and> looksLikeUUID (si_UUID sys))) (systemGet G sid)"
  unfolding systemGet_def
proof (rule replies_clientFor)
  fix kc
  let ?P = "\<lambda>doc. \<exists>sys. doc = system_body sys \<and> looksLikeUUID (si_UUID sys)"
  let ?f = "\<lambda>e. thenE (gact act_InErr ''system-get'' (err_text e) [(''uuid'', AStr sid)]) (retE (http_Error (err_text e) 404))"
  let ?k = "\<lambda>sys. retE (rf_JSON 200 (system_body sys))"
  have "json_reply ?P (reply_of (fst (or_reply (on_client kc (GetSystem (ge_vs G) sid)) ?f ?k g)))" for g
  proof -
    obtain r t where m: "GetSystem (ge_vs G) sid \<lparr>v_cl = snd kc, v_w = g_w g\<rparr> = (r, t)" by fastforce
    show ?thesis
    proof (cases r)
      case (Inl e)
      with m show ?thesis by (simp add: or_reply_run on_client_def bindE_def tryE_def retE_def failE_def)
    next
      case (Inr sys)
      with m have "looksLikeUUID (si_UUID sys)" using GetSystem_uuid [OF assms] by blast
      with m Inr show ?thesis by (auto simp: or_reply_run on_client_def retE_def)
    qed
  qed
  then show "replies (json_reply ?P) (or_reply (on_client kc (GetSystem (ge_vs G) sid)) ?f ?k)"
    by (simp add: replies_def)
qed

lemma page_replies:
  "replies (json_reply (\<lambda>doc. doc = service_root)) serviceRoot"
  "replies (json_reply (\<lambda>doc. doc = media_collection_body (''/redfish/v1/Managers/'' @ mid))) (managerVirtualMediaCollection mid)"
  "replies (json_reply (\<lambda>doc. doc = media_collection_body (''/redfish/v1/Systems/'' @ sid))) (systemVirtualMediaCollection sid)"
  "replies (json_reply (\<lambda>doc. doc = ethernet_body oid)) (ethernetInterfaces oid)"
  "replies (json_reply (\<lambda>doc. \<exists>st. doc = cd_body (TrimSuffix (rq_Path rq) ''/'') st)) (virtualMediaCd G rq sid)"
  "mid \<noteq> ''1'' \<Longrightarrow> replies (json_reply (\<lambda>doc. doc = manager_body mid [''/redfish/v1/Systems/'' @ mid])) (managerGet G mid)"
  unfolding serviceRoot_def managerVirtualMediaCollection_def systemVirtualMediaCollection_def ethernetInterfaces_def
    virtualMediaCd_def managerGet_def Let_def
  by (auto intro!: replies_intro simp del: fun_upd_apply)

text \<open>The operator maps BIOS UUIDs.\<close>

definition maps_uuids :: "store \<Rightarrow> bool" where
  "maps_uuids st \<longleftrightarrow> (\<forall>k m. fmlookup (s_byUUID st) k = Some m \<longrightarrow> looksLikeUUID (mp_UUID m))"

lemma listed_uuids: "maps_uuids st \<Longrightarrow> m \<in> set (ListMappings order st) \<Longrightarrow> looksLikeUUID (mp_UUID m)"
  by (auto simp: ListMappings_def go_range_def List.map_filter_def maps_uuids_def)

lemma collection_replies:
  assumes "maps_uuids (g_store g)"
  shows "json_reply good_links (reply_of (fst (systemsCollection G g)))" "json_reply good_links (reply_of (fst (managersCollection G g)))"
    "json_reply good_links (reply_of (fst (managerGet G ''1'' g)))"
  using common_documents [OF listed_uuids [OF assms]]
  by (simp_all add: systemsCollection_def managersCollection_def managerGet_def store_list_def bindE_def tryE_def retE_def)

lemma replies_at: "replies P h \<Longrightarrow> P (reply_of (fst (h g)))"
  by (simp add: replies_def)

lemma rf_route_reply:
  assumes "run_handler (rf_route G rq) g = (rep, g')"
  obtains g1 where "g_store g1 = g_store g"
    "rep = reply_of (fst (rf_handle G rq (rf_resolve (rq_Method rq) (rq_Path rq) (query_get rq ''system'')) g1))"
  using assms by (auto simp: run_handler_def rf_route_def Let_def split: prod.splits) (metis (no_types, lifting) fst_conv gw.select_convs(1) gw.surjective gw.update_convs(4))

text \<open>The document of each page of a system is about a system with a UUID: the page's own or the one vCenter reports.\<close>

definition about_system :: "string \<Rightarrow> json \<Rightarrow> bool" where
  "about_system u doc \<longleftrightarrow> (\<exists>w. looksLikeUUID w \<and> (w = u \<or> (\<exists>sys. doc = system_body sys \<and> w = si_UUID sys)) \<and> uuid_links w doc)"

lemma about_systemI:
  "looksLikeUUID u \<Longrightarrow> uuid_links u doc \<Longrightarrow> about_system u doc"
  "looksLikeUUID (si_UUID sys) \<Longrightarrow> about_system u (system_body sys)"
  using uuid_documents(1) by (auto simp: about_system_def)

definition page_ops :: "string \<Rightarrow> rf_op list" where
  "page_ops u = [RfSystem u, RfSystemMedia u, RfManager u, RfManagerMedia u,
     RfEthernet (''/redfish/v1/Systems/'' @ u @ ''/EthernetInterfaces''), RfEthernet (''/redfish/v1/Managers/'' @ u @ ''/EthernetInterfaces'')]"

lemma system_op_replies:
  assumes "reports_uuids (ge_vs G)" "looksLikeUUID u"
  shows "rop \<in> set (page_ops u) \<Longrightarrow> replies (json_reply (about_system u)) (rf_handle G rq rop)"
proof -
  note d = uuid_documents [OF assms(2)]
  have one: "u \<noteq> ''1''" using uuid_ne [OF assms(2), of "''1''"] by simp
  note imp = replies_mono [where Q = "about_system u"]
  have "replies (json_reply (about_system u)) (rf_handle G rq (RfSystem u))"
    using imp [OF systemGet_replies [OF assms(1)]] about_systemI(2) by auto
  moreover have "replies (json_reply (about_system u)) (rf_handle G rq (RfManager u))"
    using imp [OF page_replies(6) [OF one]] about_systemI(1) [OF assms(2)] d(2) by auto
  moreover have "replies (json_reply (about_system u)) (rf_handle G rq (RfSystemMedia u))"
    using imp [OF page_replies(3)] about_systemI(1) [OF assms(2)] d(3) by auto
  moreover have "replies (json_reply (about_system u)) (rf_handle G rq (RfManagerMedia u))"
    using imp [OF page_replies(2)] about_systemI(1) [OF assms(2)] d(4) by auto
  moreover have "replies (json_reply (about_system u)) (rf_handle G rq (RfEthernet (''/redfish/v1/Systems/'' @ u @ ''/EthernetInterfaces'')))"
    using imp [OF page_replies(4)] about_systemI(1) [OF assms(2)] d(5) by auto
  moreover have "replies (json_reply (about_system u)) (rf_handle G rq (RfEthernet (''/redfish/v1/Managers/'' @ u @ ''/EthernetInterfaces'')))"
    using imp [OF page_replies(4)] about_systemI(1) [OF assms(2)] d(6) by auto
  ultimately show "rop \<in> set (page_ops u) \<Longrightarrow> replies (json_reply (about_system u)) (rf_handle G rq rop)"
    unfolding page_ops_def by auto
qed

lemma system_cd_replies:
  assumes "looksLikeUUID u" "\<And>st. uuid_links u (cd_body (TrimSuffix (rq_Path rq) ''/'') st)"
  shows "replies (json_reply (about_system u)) (rf_handle G rq (RfCd u))"
  unfolding rf_handle.simps by (rule replies_mono [OF page_replies(5)]) (auto intro: about_systemI(1) [OF assms(1)] assms(2))

lemma page_op:
  assumes "system_page u page"
  obtains (cd) base where "base \<in> set system_bases" "page = base @ u @ ''/VirtualMedia/Cd''" "rf_resolve ''GET'' page q = RfCd u"
    | (page) "rf_resolve ''GET'' page q \<in> set (page_ops u)"
proof -
  from assms have u: "looksLikeUUID u" by (simp add: system_page_def)
  from assms obtain base where b: "base \<in> set system_bases" "page \<in> set (pages_of base u)"
    by (auto simp: system_page_def list_ex_iff)
  have mem: "RfSystem u \<in> set (page_ops u)" "RfSystemMedia u \<in> set (page_ops u)" "RfManager u \<in> set (page_ops u)"
    "RfManagerMedia u \<in> set (page_ops u)" "RfEthernet (''/redfish/v1/Systems/'' @ u @ ''/EthernetInterfaces'') \<in> set (page_ops u)"
    "RfEthernet (''/redfish/v1/Managers/'' @ u @ ''/EthernetInterfaces'') \<in> set (page_ops u)" by (simp_all only: page_ops_def) simp_all
  have at: "rf_resolve ''GET'' (base @ u) q \<in> set (page_ops u)" "rf_resolve ''GET'' (base @ u @ ''/VirtualMedia'') q \<in> set (page_ops u)"
    "rf_resolve ''GET'' (base @ u @ ''/VirtualMedia/Cd'') q = RfCd u" "rf_resolve ''GET'' (base @ u @ ''/EthernetInterfaces'') q \<in> set (page_ops u)"
  proof -
    consider "base = ''/redfish/v1/Systems/'' \<or> base = ''/redfish/v1/''" | "base = ''/redfish/v1/Managers/''"
      using b(1) by (auto simp: system_bases_def)
    then have "rf_resolve ''GET'' (base @ u) q \<in> set (page_ops u) \<and> rf_resolve ''GET'' (base @ u @ ''/VirtualMedia'') q \<in> set (page_ops u)
      \<and> rf_resolve ''GET'' (base @ u @ ''/VirtualMedia/Cd'') q = RfCd u \<and> rf_resolve ''GET'' (base @ u @ ''/EthernetInterfaces'') q \<in> set (page_ops u)"
    proof cases
      case 1
      show ?thesis unfolding resolve_at_system(1-4) [OF u 1] by (intro conjI mem refl)
    next
      case 2
      show ?thesis unfolding 2 resolve_at_manager(1-4) [OF u] by (intro conjI mem refl)
    qed
    then show "rf_resolve ''GET'' (base @ u) q \<in> set (page_ops u)" "rf_resolve ''GET'' (base @ u @ ''/VirtualMedia'') q \<in> set (page_ops u)"
      "rf_resolve ''GET'' (base @ u @ ''/VirtualMedia/Cd'') q = RfCd u" "rf_resolve ''GET'' (base @ u @ ''/EthernetInterfaces'') q \<in> set (page_ops u)"
      by simp_all
  qed
  from b(2) consider "page = base @ u" | "page = base @ u @ ''/VirtualMedia''" | "page = base @ u @ ''/VirtualMedia/Cd''"
    | "page = base @ u @ ''/EthernetInterfaces''" unfolding pages_of_def by auto
  then show thesis using that at b(1) by cases (metis, metis, metis, metis)
qed

lemma system_page_reply:
  assumes "system_page u (rq_Path rq)" "reports_uuids (ge_vs G)"
  shows "replies (json_reply (about_system u)) (rf_handle G rq (rf_resolve ''GET'' (rq_Path rq) q))"
proof -
  have u: "looksLikeUUID u" using assms(1) by (simp add: system_page_def)
  show ?thesis
  proof (rule page_op [OF assms(1), of q])
    fix base
    assume b: "base \<in> set system_bases" "rq_Path rq = base @ u @ ''/VirtualMedia/Cd''"
    assume cd: "rf_resolve ''GET'' (rq_Path rq) q = RfCd u"
    from b(2) have "TrimSuffix (rq_Path rq) ''/'' = base @ u @ ''/VirtualMedia/Cd''" by (simp add: TrimSuffix_no_slash)
    with uuid_documents(7) [OF u b(1)] show ?thesis unfolding cd using system_cd_replies [OF u] by metis
  qed (rule system_op_replies [OF assms(2) u])
qed

lemma common_page_reply:
  assumes "rq_Path rq \<in> set common_pages" "maps_uuids (g_store g)"
  shows "json_reply good_links (reply_of (fst (rf_handle G rq (rf_resolve ''GET'' (rq_Path rq) q) g)))"
proof -
  have imp: "replies (json_reply P) h \<Longrightarrow> (\<And>doc. P doc \<Longrightarrow> good_links doc) \<Longrightarrow> json_reply good_links (reply_of (fst (h g)))" for P h
    by (blast intro: json_reply_mono dest: replies_at)
  note d = common_documents [of "[]", simplified]
  have cd: "json_reply good_links (reply_of (fst (virtualMediaCd G rq sid g)))" if "rq_Path rq = ''/redfish/v1/Managers/1/VirtualMedia/Cd''" for sid
    using d(7) TrimSuffix_no_slash [of "''/redfish/v1/Managers/1/VirtualMedia/Cd''"] that by (intro imp [OF page_replies(5)]) auto
  note r = imp [OF page_replies(1)] imp [OF page_replies(2), of "''1''"] imp [OF page_replies(4)]
  show ?thesis
    using assms(1) collection_replies [OF assms(2)] cd r d
    by (auto simp: common_pages_def pages_of_def resolve_common)
qed

text \<open>
  C35: Every link the server hands out leads to a handler. Say the store's mappings are of UUIDs and vCenter
  reports a UUID for the VMs it answers about (a system without one gets links that lead nowhere). Whatever
  JSON a GET of one of the service's pages answers (the root, the collections, manager 1, and for each UUID
  the pages of its system, with or without "Systems/", and of its manager), each link in it with
  \<open>@odata.id\<close> is again one of these pages, and neither a GET of it nor a POST to an action's target
  ends in the 404 of the switch, whatever the query. On the pages of one system's UUID every link runs a
  handler of that same system (for the system document itself, of the UUID vCenter reports).
\<close>

theorem served_links_resolve:
  assumes "served_page (rq_Path rq)" and "rq_Method rq = ''GET''"
    and "run_handler (rf_route G rq) g = (rep, g')" and "rp_Body rep = JSONBody doc"
    and "maps_uuids (g_store g)" and "reports_uuids (ge_vs G)"
  shows "list_all (\<lambda>(m, l). (m = ''GET'' \<longrightarrow> served_page l) \<and> (\<forall>q. rf_resolve m l q \<noteq> RfNotFound)) (json_links doc)
    \<and> (\<forall>u. system_page u (rq_Path rq) \<longrightarrow>
         (\<exists>w. looksLikeUUID w \<and> (w = u \<or> (\<exists>sys. doc = system_body sys \<and> w = si_UUID sys))
            \<and> list_all (\<lambda>(m, l). \<forall>q. rf_resolve m l q \<in> set (ops_of w)) (json_links doc)))"
proof -
  from rf_route_reply [OF assms(3)] obtain g1 where st: "g_store g1 = g_store g"
    and rep: "rep = reply_of (fst (rf_handle G rq (rf_resolve ''GET'' (rq_Path rq) (query_get rq ''system'')) g1))"
    using assms(2) by metis
  have sys: "about_system u doc" if "system_page u (rq_Path rq)" for u
    using replies_at [OF system_page_reply [OF that assms(6)]] assms(4) unfolding rep json_reply_def by blast
  have "good_links doc" if "rq_Path rq \<in> set common_pages"
    using common_page_reply [OF that] assms(4,5) st unfolding rep json_reply_def by metis
  with sys assms(1) have "good_links doc" unfolding served_page_def about_system_def using uuid_links_good by blast
  with sys show ?thesis unfolding good_links_def about_system_def uuid_links_def list_all_iff by fast
qed

text \<open>
  The gateway's own manager shows the CD of a system named in the query, but the targets it offers do not
  name the system: a POST there is refused with 400.
\<close>

theorem manager_cd_targets_lose_the_system:
  "(\<forall>l. (''POST'', l) \<in> set (json_links (cd_body ''/redfish/v1/Managers/1/VirtualMedia/Cd'' st)) \<longrightarrow>
      rf_resolve ''POST'' l [] \<in> {RfInsert [], RfEject []})
   \<and> run_handler (rf_handle G rq (RfInsert [])) g = (no_system_id, g) \<and> run_handler (rf_handle G rq (RfEject [])) g = (no_system_id, g)
   \<and> rp_Code no_system_id = 400"
proof -
  have q: "TrimSpace [] = []" by code_simp
  note c = resolve_common(8,9) [of "[]", unfolded suffix_names, simplified]
  show ?thesis
    by (auto simp: cd_body_def c q rf_insertMedia_def rf_ejectMedia_def run_handler_def retE_def no_system_id_def http_Error_def)
qed

section \<open>Changes\<close>

lemma changing_grows [keeps_intro]:
  "grows (Reset E u rt)" "grows (SetBootCDOnce E u)" "grows (SetBootDiskFirst E u)" "grows (InsertMedia E u url)" "grows (EjectMedia E u)"
proof -
  note r = grows_read [OF findByUUID_read_only] grows_read [OF infoFromVM_read_only] grows_read [OF vm_Properties_read_only]
  have boot: "grows (setBootOrderVM E vm p)" for vm p
    unfolding setBootOrderVM_def vm_Device_def by (intro keeps_intro; simp)
  show "grows (SetBootCDOnce E u)" "grows (SetBootDiskFirst E u)"
    unfolding SetBootCDOnce_def SetBootDiskFirst_def setBootDiskFirstVM_def by (intro keeps_intro r boot)+
  then have cdonce: "grows (SetBootCDOnce E u)" by blast
  show "grows (Reset E u rt)"
    unfolding Reset_def reset_switch_def by (intro keeps_intro r)
  have on: "grows (was_on E vm)" for vm unfolding was_on_def vm_PowerState_def by (intro keeps_intro; simp)
  have set': "grows (set_media u url)" unfolding set_media_def by (intro keeps_intro)
  have swap: "grows (swap_media E u vm p)" for vm p
    unfolding swap_media_def by (intro keeps_intro on cdonce disconnect_for_insert_grows powerOffForMedia_grows cd_functions_power)
  show "grows (InsertMedia E u url)"
    unfolding InsertMedia_def insert_staged_def vm_Device_def Let_def
    by (intro keeps_intro r swap set' grows_read [OF downloadISO_read_only] grows_read [OF contentISOName_read_only] uploadISOIfNeeded_grows; simp)
  show "grows (EjectMedia E u)"
    unfolding EjectMedia_def eject_detach_def setBootDiskFirstVM_def
    by (intro keeps_intro r on boot cd_functions_power eject_power_off_grows)
qed

lemma MediaStatus_pure: "keeps (gw_calls P) (retE x)"
  by (rule keeps_retE) simp

abbreviation gw_reads :: "('e, 'a) gio \<Rightarrow> bool" where
  "gw_reads h \<equiv> keeps (gw_calls (\<lambda>c. \<not> mutating c)) h"

lemma clientFor_keeps [gw_intro]: "(\<And>kc. gw_reads (k kc)) \<Longrightarrow> gw_reads (clientFor G uuid k)"
  unfolding clientFor_def by (intro keeps_intro gw_intro)

lemma reading_handlers:
  "gw_reads serviceRoot" "gw_reads (systemsCollection G)" "gw_reads (systemGet G sid)" "gw_reads (managersCollection G)"
  "gw_reads (managerGet G sid)" "gw_reads (managerVirtualMediaCollection sid)" "gw_reads (systemVirtualMediaCollection sid)"
  "gw_reads (ethernetInterfaces oid)" "gw_reads (virtualMediaCd G rq sid)"
  unfolding serviceRoot_def systemsCollection_def systemGet_def managersCollection_def managerGet_def
    managerVirtualMediaCollection_def systemVirtualMediaCollection_def ethernetInterfaces_def virtualMediaCd_def Let_def
  by (intro keeps_intro gw_intro keeps_on_client read_only_intro)+

text \<open>A changing handler with authority over \<open>sid\<close> may make any call; without it, only reads.\<close>

definition may_change :: "string \<Rightarrow> store \<Rightarrow> bool" where
  "may_change sid st \<longleftrightarrow> \<not> DryRunForUUID sid st \<and> LookupUUID sid st \<noteq> None"

definition guarded :: "string \<Rightarrow> gw \<Rightarrow> gw \<Rightarrow> bool" where
  "guarded sid g g' \<longleftrightarrow> gw_calls (\<lambda>c. mutating c \<longrightarrow> may_change sid (g_store g)) g g'"

lemma guarded_preorder [simp, keeps_intro]: "preorder_rel (guarded sid)"
proof -
  have "guarded sid a b \<Longrightarrow> guarded sid b c \<Longrightarrow> guarded sid a c" for a b c
    using gw_calls_preorder [of "\<lambda>c. mutating c \<longrightarrow> may_change sid (g_store a)"]
    by (auto simp: guarded_def preorder_rel_def dest: transpD) (auto simp: gw_calls_def gw_grows_def)
  then show ?thesis by (auto simp: preorder_rel_def guarded_def intro: reflpI transpI)
qed

lemma gw_reads_guarded: "gw_reads h \<Longrightarrow> keeps (guarded sid) h"
  by (auto simp: keeps_def guarded_def intro: gw_calls_mono)

lemma unless_dry_guarded:
  assumes "grows m"
  shows "keeps (guarded sid) (unless_dry sid op msg detail (apply_change G sid op msg' detail' m))"
  unfolding keeps_def guarded_def
proof
  fix g :: gw
  let ?h = "unless_dry sid op msg detail (apply_change G sid op msg' detail' m)"
  let ?P = "\<lambda>c. mutating c \<longrightarrow> may_change sid (g_store g)"
  show "gw_calls ?P g (snd (?h g))"
  proof (cases "may_change sid (g_store g)")
    case True
    have "keeps (gw_calls (\<lambda>_. True)) (pooled_for_uuid G sid)"
      using keeps_pooled_for_uuid by (auto simp: keeps_def intro: gw_calls_mono)
    then have "keeps (gw_calls (\<lambda>_. True)) ?h"
      unfolding unless_dry_def apply_change_def clientFor_def
      by (intro keeps_intro gw_intro keeps_on_client assms)
    with True show ?thesis by (simp add: keeps_def)
  next
    case False
    have "gw_calls P g (g\<lparr>g_w := (g_w g)\<lparr>w_bus := b\<rparr>\<rparr>)" for P b
      by (simp add: gw_calls_def gw_grows_def)
    moreover from False have "DryRunForUUID sid (g_store g) \<or> LookupUUID sid (g_store g) = None"
      unfolding may_change_def by blast
    ultimately show ?thesis
      by (auto simp: unless_dry_def apply_change_def clientFor_def or_reply_run pooled_for_uuid_unmapped
          bindE_def tryE_def thenE_def retE_def failE_def)
  qed
qed

fun op_changes :: "rf_op \<Rightarrow> string option" where
  "op_changes (RfReset s) = Some s"
| "op_changes (RfInsert s) = Some s"
| "op_changes (RfEject s) = Some s"
| "op_changes (RfPatch s) = Some s"
| "op_changes _ = None"

lemma rf_handle_guarded:
  "op_changes rop = Some sid \<Longrightarrow> keeps (guarded sid) (rf_handle G rq rop)"
  "op_changes rop = None \<Longrightarrow> gw_reads (rf_handle G rq rop)"
proof -
  note g = unless_dry_guarded
  have ret: "keeps (guarded s) (retE x)" for s x by (rule keeps_retE) simp
  have "keeps (guarded sid) (systemReset G rq sid)" "keeps (guarded sid) (rf_insertMedia G rq sid)" "keeps (guarded sid) (rf_ejectMedia G sid)"
    "keeps (guarded sid) (systemPatch G rq sid)"
    unfolding systemReset_def rf_insertMedia_def rf_ejectMedia_def systemPatch_def patchBoot_def Let_def
    by (auto split: prod.split option.split intro!: ret g changing_grows)
  then show "op_changes rop = Some sid \<Longrightarrow> keeps (guarded sid) (rf_handle G rq rop)"
    by (cases rop) auto
  have "gw_reads (rf_handle G rq RfNotFound)" by (simp, intro keeps_intro gw_intro)
  then show "op_changes rop = None \<Longrightarrow> gw_reads (rf_handle G rq rop)"
    using reading_handlers by (cases rop) auto
qed

lemma changes_by_method: "op_changes (rf_resolve m l q) \<noteq> None \<Longrightarrow> m = ''POST'' \<or> m = ''PATCH''"
  by (auto simp: rf_resolve_def rf_switch_def manager_op_def Let_def split: option.splits if_splits)

lemma rf_route_guarded:
  "(\<exists>sid. op_changes (rf_resolve (rq_Method rq) (rq_Path rq) (query_get rq ''system'')) = Some sid \<and> keeps (guarded sid) (rf_route G rq))
   \<or> gw_reads (rf_route G rq)"
proof (cases "op_changes (rf_resolve (rq_Method rq) (rq_Path rq) (query_get rq ''system''))")
  case None
  then have "gw_reads (rf_route G rq)"
    unfolding rf_route_def Let_def by (intro keeps_intro gw_intro rf_handle_guarded(2))
  then show ?thesis by blast
next
  case (Some sid)
  then have "keeps (guarded sid) (rf_route G rq)"
    unfolding rf_route_def Let_def
    by (intro keeps_thenE guarded_preorder gw_reads_guarded [OF keeps_gact] rf_handle_guarded(1))
  with Some show ?thesis by blast
qed

text \<open>
  C4: Nothing changes without authority. Whatever the request, the server leaves the store as it is, and
  if any call it makes would change vSphere, the method is POST or PATCH, the handler that ran is a
  changing one for a system id that is mapped in the store, and neither the global nor that system's
  vCenter dry run is on.
\<close>

theorem redfish_changes_need_authority:
  assumes "run_handler (rf_route G rq) g = (rep, g')"
  shows "g_store g' = g_store g
    \<and> (\<forall>(c, e) \<in> set (gw_new g g'). mutating c \<longrightarrow> rq_Method rq \<in> {''POST'', ''PATCH''}
        \<and> (\<exists>sid. op_changes (rf_resolve (rq_Method rq) (rq_Path rq) (query_get rq ''system'')) = Some sid
             \<and> \<not> DryRunForUUID sid (g_store g) \<and> LookupUUID sid (g_store g) \<noteq> None))"
proof -
  from rf_route_guarded [of rq G] consider (changes) sid where
      "op_changes (rf_resolve (rq_Method rq) (rq_Path rq) (query_get rq ''system'')) = Some sid" "keeps (guarded sid) (rf_route G rq)"
    | (reads) "gw_reads (rf_route G rq)" by blast
  then show ?thesis
  proof cases
    case changes
    have gd: "gw_calls (\<lambda>c. mutating c \<longrightarrow> may_change sid (g_store g)) g g'"
      using run_handler_keeps [OF changes(2) assms] by (simp add: guarded_def)
    with changes(1) gw_calls_new [OF gd] changes_by_method [of "rq_Method rq" "rq_Path rq" "query_get rq ''system''"] show ?thesis
      by (auto simp: gw_calls_def may_change_def list_all_iff)
  next
    case reads
    from run_handler_keeps [OF reads assms] gw_calls_new [OF run_handler_keeps [OF reads assms]] show ?thesis
      by (auto simp: gw_calls_def list_all_iff)
  qed
qed

text \<open>One mapped system on a connected client, to evaluate requests on.\<close>

definition demo_gw_vc :: vcenter where
  "demo_gw_vc = vcenter_zero\<lparr>vc_ID := ''1'', vc_Name := ''lab'', vc_URL := ''https://vc'', vc_Username := ''u'', vc_Password := ''p'',
     vc_Datacenter := ''DC'', vc_Datastore := ''DS'', vc_Folder := ''/DC/vm/LAB'', vc_ISOFolder := ''rf2vc/isos''\<rparr>"

definition demo_gw :: gw where
  "demo_gw = \<lparr>g_store = demo_store\<lparr>s_vcenters := fmupd ''1'' demo_gw_vc fmempty,
       s_byUUID := fmupd ''aa-bb'' \<lparr>mp_UUID = ''aa-bb'', mp_VCenterID = ''1'', mp_Name = ''node1'', mp_Notes = []\<rparr> fmempty\<rparr>,
     g_ops = 0, g_pool = \<lparr>p_isoCache = ''/var/tmp/rf2vc'', p_clients = fmupd ''1'' demo_conn fmempty\<rparr>,
     g_w = demo_world, g_kube = []\<rparr>"

definition demo_genv :: gw_env where
  "demo_genv = \<lparr>ge_vs = demo_vs, ge_store = (\<lambda>_ _. demo_env [''1''] [''1''] [''aa-bb'']),
     ge_kube = \<lparr>ke_badURL = (\<lambda>_. None), ke_token = (\<lambda>_. Inr ''t''), ke_Do = (\<lambda>_ _. Inl ''down'')\<rparr>\<rparr>"

definition demo_rq :: "string \<Rightarrow> string \<Rightarrow> json list \<Rightarrow> request" where
  "demo_rq meth path body = \<lparr>rq_Method = meth, rq_Path = path, rq_Query = [], rq_Header = [], rq_BasicAuth = None,
     rq_RemoteAddr = [], rq_Client = [], rq_Body = body, rq_BodyEnd = ''EOF''\<rparr>"

lemma demo_gw_uuid: "NormalizeUUID ''AA-BB'' = ''aa-bb''" "normalizeDatastore ''DS'' = ''DS''"
  by code_simp+

lemma demo_gw_lookup: "LookupUUID ''AA-BB'' (g_store demo_gw) \<noteq> None" "DryRunForUUID ''AA-BB'' (g_store demo_gw) = False"
  by (simp_all add: LookupUUID_def DryRunForUUID_def demo_gw_uuid demo_gw_def demo_store_def demo_gw_vc_def vcenter_zero_def)

lemma demo_gw_pooled:
  assumes "g_store g = g_store demo_gw" "g_pool g = g_pool demo_gw"
  shows "pooled_for_uuid demo_genv ''AA-BB'' g = (Inr (''1'', demo_conn), g)"
proof -
  have v: "vc_ID demo_gw_vc = ''1''" "vc_Datastore demo_gw_vc = ''DS''"
    "demo_gw_vc\<lparr>vc_Datastore := ''DS''\<rparr> = demo_gw_vc" by (simp_all add: demo_gw_vc_def vcenter_zero_def)
  have e: "sameEndpoint (cl_ep demo_conn) (endpointFrom (g_pool demo_gw) demo_gw_vc)"
    by (simp add: sameEndpoint_def endpointFrom_def demo_conn_def demo_client_def demo_ep_def demo_gw_vc_def vcenter_zero_def)
  show ?thesis
    using e assms
    by (simp add: pooled_for_uuid_def ClientForUUID_def LookupUUID_def GetVCenterSecret_def demo_gw_uuid demo_gw_def v pool_For_def Let_def)
qed

definition demo_patch :: request where
  "demo_patch = demo_rq ''PATCH'' ''/redfish/v1/Systems/AA-BB/'' [JObj [(''Boot'', JObj [(''BootSourceOverrideTarget'', JStr ''Hdd'')])]]"

lemma demo_boot_disk:
  assumes "w_clock w = 0" "w_calls w = []"
  shows "fst (SetBootDiskFirst demo_vs ''AA-BB'' \<lparr>v_cl = demo_conn, v_w = w\<rparr>) = Inr ()"
    "w_calls (v_w (snd (SetBootDiskFirst demo_vs ''AA-BB'' \<lparr>v_cl = demo_conn, v_w = w\<rparr>))) =
       [(CDevice ''vm-1'', None), (CSetBootOptions ''vm-1'' [BootDevice ''disk''], None)]"
proof -
  have u: "ToLower (TrimSpace ''AA-BB'') = ''aa-bb''" by code_simp
  have f: "findByUUID demo_vs ''AA-BB'' \<lparr>v_cl = demo_conn, v_w = w\<rparr> = (Inr demo_at, \<lparr>v_cl = demo_conn, v_w = w\<rparr>)"
    using assms(1) u by (intro findByUUID_cached) (simp_all add: demo_conn_def cached_entry_def demo_at_def uuidCacheTTL_def second_def)
  have step: "SetBootDiskFirst demo_vs ''AA-BB'' \<lparr>v_cl = demo_conn, v_w = w\<rparr> = setBootDiskFirstVM demo_vs demo_at \<lparr>v_cl = demo_conn, v_w = w\<rparr>"
    by (simp add: SetBootDiskFirst_def bindE_run f)
  show "fst (SetBootDiskFirst demo_vs ''AA-BB'' \<lparr>v_cl = demo_conn, v_w = w\<rparr>) = Inr ()"
    "w_calls (v_w (snd (SetBootDiskFirst demo_vs ''AA-BB'' \<lparr>v_cl = demo_conn, v_w = w\<rparr>))) =
       [(CDevice ''vm-1'', None), (CSetBootOptions ''vm-1'' [BootDevice ''disk''], None)]"
    unfolding step by (simp_all add: setBootDiskFirstVM_def setBootOrderVM_def vm_Device_def boot_order_def io_simps do_call_def
        record_call_def outcome_def demo_vs_def demo_devices_def demo_at_def assms(2) Let_def)
qed

lemma demo_patch_run:
  obtains rep g' where "run_handler (rf_route demo_genv demo_patch) demo_gw = (rep, g')" "rp_Code rep = 204"
    "gw_new demo_gw g' = [(CDevice ''vm-1'', None), (CSetBootOptions ''vm-1'' [BootDevice ''disk''], None)]"
proof -
  have op: "rf_resolve ''PATCH'' ''/redfish/v1/Systems/AA-BB/'' [] = RfPatch ''AA-BB''" by code_simp
  have q: "query_get demo_patch ''system'' = []" by code_simp
  have rq: "rq_Method demo_patch = ''PATCH''" "rq_Path demo_patch = ''/redfish/v1/Systems/AA-BB/''"
    by (simp_all add: demo_patch_def demo_rq_def)
  have d: "decode_body ty patch_fields demo_patch None =
      (None, Some \<lparr>bo_Target = ''Hdd'', bo_Enabled = []\<rparr>, demo_patch\<lparr>rq_Body := []\<rparr>)" for ty
    by (simp add: decode_body_def decode_struct_def patch_fields_def boot_fields_def find_field_def ptr_field_def str_field_def
        demo_patch_def demo_rq_def)
  have t: "ToLower ''Hdd'' = ''hdd''" by code_simp
  have dry: "DryRunForUUID ''AA-BB'' (g_store demo_gw) = False" by (rule demo_gw_lookup)
  have w0: "w_clock (g_w demo_gw) = 0" "w_calls (g_w demo_gw) = []" by (simp_all add: demo_gw_def demo_world_def)
  have vs: "ge_vs demo_genv = demo_vs" by (simp add: demo_genv_def)
  have p: "pooled_for_uuid demo_genv ''AA-BB'' (demo_gw\<lparr>g_w := w\<rparr>) = (Inr (''1'', demo_conn), demo_gw\<lparr>g_w := w\<rparr>)" for w
    by (rule demo_gw_pooled) simp_all
  define r where "r = run_handler (rf_route demo_genv demo_patch) demo_gw"
  have "rp_Code (fst r) = 204 \<and> gw_new demo_gw (snd r) = [(CDevice ''vm-1'', None), (CSetBootOptions ''vm-1'' [BootDevice ''disk''], None)]"
    by (simp add: r_def run_handler_def rf_route_def op q rq systemPatch_def d patchBoot_def t cd_targets_def disk_targets_def
        unless_dry_def apply_change_def clientFor_def dry or_reply_run p vs w0 Let_def on_client_def
        case_prod_beta demo_boot_disk retE_def gw_new_def)
  then show thesis using that [of "fst r" "snd r"] by (simp add: r_def)
qed

theorem redfish_changes_need_authority_witness:
  "rf_resolve ''PATCH'' ''/redfish/v1/Systems/AA-BB/'' [] = RfPatch ''AA-BB''
     \<and> \<not> DryRunForUUID ''AA-BB'' (g_store demo_gw) \<and> LookupUUID ''AA-BB'' (g_store demo_gw) \<noteq> None"
proof -
  have op: "rf_resolve ''PATCH'' ''/redfish/v1/Systems/AA-BB/'' [] = RfPatch ''AA-BB''" by code_simp
  have q: "query_get demo_patch ''system'' = []" by code_simp
  have rq: "rq_Method demo_patch = ''PATCH''" "rq_Path demo_patch = ''/redfish/v1/Systems/AA-BB/''"
    by (simp_all add: demo_patch_def demo_rq_def)
  obtain rep g' where r: "run_handler (rf_route demo_genv demo_patch) demo_gw = (rep, g')"
    and n: "gw_new demo_gw g' = [(CDevice ''vm-1'', None), (CSetBootOptions ''vm-1'' [BootDevice ''disk''], None)]"
    by (rule demo_patch_run)
  have "(CSetBootOptions ''vm-1'' [BootDevice ''disk''], None) \<in> set (gw_new demo_gw g')" by (simp add: n)
  moreover have "mutating (CSetBootOptions ''vm-1'' [BootDevice ''disk''])" by simp
  ultimately show ?thesis using redfish_changes_need_authority [OF r] by (fastforce simp: rq q op)
qed

definition demo_uuid :: string where "demo_uuid = ''42394b25-7a2c-c177-03f4-2bb3e5d147cb''"

lemma demo_uuid_looks: "looksLikeUUID demo_uuid" "NormalizeUUID demo_uuid = demo_uuid"
  by code_simp+

definition demo_uuid_gw :: gw where
  "demo_uuid_gw = demo_gw\<lparr>g_store := (g_store demo_gw)\<lparr>
     s_byUUID := fmupd demo_uuid \<lparr>mp_UUID = demo_uuid, mp_VCenterID = ''1'', mp_Name = ''node1'', mp_Notes = []\<rparr> fmempty\<rparr>\<rparr>"

definition demo_uuid_genv :: gw_env where
  "demo_uuid_genv = demo_genv\<lparr>ge_vs := demo_vs\<lparr>ve_Properties :=
     (\<lambda>_ _. Inr \<lparr>pr_Name = ''node1'', pr_Uuid = Some demo_uuid, pr_Power = PoweredOn\<rparr>)\<rparr>\<rparr>"

theorem served_links_resolve_witness:
  "(let l = ''/redfish/v1/Systems/'' @ demo_uuid @ ''/VirtualMedia/Cd'' in
    (''GET'', l) \<in> set (json_links (media_collection_body (''/redfish/v1/Systems/'' @ demo_uuid)))
    \<and> (\<forall>q. rf_resolve ''GET'' l q \<in> set (ops_of demo_uuid)))"
proof -
  let ?path = "''/redfish/v1/'' @ demo_uuid @ ''/VirtualMedia''"
  let ?doc = "media_collection_body (''/redfish/v1/Systems/'' @ demo_uuid)"
  let ?rq = "demo_rq ''GET'' ?path []"
  have pg: "system_page demo_uuid ?path" by (simp add: system_page_def demo_uuid_looks system_bases_def pages_of_def)
  have op: "rf_resolve ''GET'' ?path [] = RfSystemMedia demo_uuid" by code_simp
  have q: "query_get ?rq ''system'' = []" by (simp add: query_get_def assoc_get_def demo_rq_def)
  have rq: "rq_Method ?rq = ''GET''" "rq_Path ?rq = ?path" by (simp_all add: demo_rq_def)
  have look: "LookupUUID demo_uuid (g_store demo_uuid_gw) \<noteq> None" by (simp add: LookupUUID_def demo_uuid_gw_def demo_uuid_looks)
  have "\<exists>g'. run_handler (rf_route demo_uuid_genv ?rq) demo_uuid_gw = (rf_JSON 200 ?doc, g')"
    unfolding rf_route_def Let_def q rq op using look
    by (auto simp: run_handler_def systemVirtualMediaCollection_def retE_def)
  then obtain g' where run: "run_handler (rf_route demo_uuid_genv ?rq) demo_uuid_gw = (rf_JSON 200 ?doc, g')" by blast
  have body: "rp_Body (rf_JSON 200 ?doc) = JSONBody ?doc" by (simp add: rf_JSON_def)
  have maps: "maps_uuids (g_store demo_uuid_gw)" by (auto simp: maps_uuids_def demo_uuid_gw_def demo_uuid_looks split: if_splits)
  have rep: "reports_uuids (ge_vs demo_uuid_genv)" by (simp add: reports_uuids_def demo_uuid_genv_def demo_uuid_looks)
  have served: "served_page (rq_Path ?rq)" using pg rq(2) by (auto simp: served_page_def)
  have no: "?doc \<noteq> system_body sys" for sys by (simp add: media_collection_body_def collection_def system_body_def Let_def)
  have link: "(''GET'', ''/redfish/v1/Systems/'' @ demo_uuid @ ''/VirtualMedia/Cd'') \<in> set (json_links ?doc)"
    by (simp add: media_collection_body_def collection_def odata_id_def)
  from served_links_resolve [OF served rq(1) run body maps rep] pg no
  have "list_all (\<lambda>(m, l). \<forall>q. rf_resolve m l q \<in> set (ops_of demo_uuid)) (json_links ?doc)" unfolding rq(2) by blast
  with link show ?thesis unfolding Let_def list_all_iff by blast
qed


section \<open>Replies\<close>

definition rf_reply_ok :: "reply \<Rightarrow> bool" where
  "rf_reply_ok rep = (case rp_Body rep of
       JSONBody v \<Rightarrow> rp_Code rep = 200 \<and> (''OData-Version'', ''4.0'') \<in> set (rp_Header rep)
     | NoBody \<Rightarrow> rp_Code rep = 204
     | TextBody _ \<Rightarrow> rp_Code rep \<in> {400, 404, 500})"

lemma rf_reply_ok_simps [simp]:
  "rf_reply_ok (rf_JSON 200 v)" "rf_reply_ok (WriteHeader 204)" "rf_reply_ok (http_Error m 400)" "rf_reply_ok (http_Error m 404)"
  "rf_reply_ok (http_Error m 500)" "rf_reply_ok http_NotFound" "rf_reply_ok no_system_id"
  by (simp_all add: rf_reply_ok_def rf_JSON_def reply_defs no_system_id_def)

lemma changing_replies [replies_intro]:
  "replies rf_reply_ok (unless_dry sid op m d (apply_change G sid op m' d' c))"
  unfolding unless_dry_def apply_change_def clientFor_def by (intro replies_intro; simp)

lemma rf_handle_replies: "replies rf_reply_ok (rf_handle G rq rop)"
proof -
  have "replies rf_reply_ok (systemReset G rq sid)" "replies rf_reply_ok (rf_insertMedia G rq sid)" "replies rf_reply_ok (rf_ejectMedia G sid)"
    "replies rf_reply_ok (systemPatch G rq sid)" "replies rf_reply_ok (systemGet G sid)" "replies rf_reply_ok (virtualMediaCd G rq sid)"
    "replies rf_reply_ok (managerGet G sid)" "replies rf_reply_ok (systemVirtualMediaCollection sid)" for sid
    unfolding systemReset_def rf_insertMedia_def rf_ejectMedia_def systemPatch_def patchBoot_def systemGet_def virtualMediaCd_def
      managerGet_def systemVirtualMediaCollection_def clientFor_def Let_def
    by (intro replies_intro; simp)+
  then show ?thesis
    by (cases rop) (auto simp: serviceRoot_def systemsCollection_def managersCollection_def managerVirtualMediaCollection_def
        ethernetInterfaces_def intro!: replies_intro)
qed

text \<open>
  Replies are well typed. Every request, whatever its method, path and body, gets exactly one reply of
  one of three forms: 200 with a JSON document and the OData version header; 204 with no body; 400, 404 or
  500 with a text. No handler falls through without a reply or mixes a body with 204.
\<close>

theorem redfish_reply_shape:
  "rf_reply_ok (fst (run_handler (rf_route G rq) g))"
proof -
  have "replies rf_reply_ok (rf_route G rq)"
    unfolding rf_route_def Let_def by (intro replies_intro rf_handle_replies)
  then show ?thesis by (metis prod.collapse run_handler_replies)
qed

text \<open>A handler that, on a store \<open>st\<close>, answers 400 or 404 and only reports to the activity bus.\<close>

definition refuses :: "store \<Rightarrow> handler \<Rightarrow> bool" where
  "refuses st h \<longleftrightarrow> (\<forall>g. g_store g = st \<longrightarrow> rp_Code (reply_of (fst (h g))) \<in> {400, 404}
     \<and> (\<exists>w. snd (h g) = g\<lparr>g_w := w\<rparr> \<and> w_calls w = w_calls (g_w g)))"

named_theorems refuses_intro \<open>refusals\<close>

lemma same_world_update: "\<exists>w. (g :: gw) = g\<lparr>g_w := w\<rparr> \<and> w_calls w = w_calls (g_w g)"
  by (intro exI [of _ "g_w g"]) simp

lemma refuses_ret [refuses_intro]: "rp_Code x \<in> {400, 404} \<Longrightarrow> refuses st (retE x)"
  using same_world_update by (simp add: refuses_def retE_def)

lemma refuses_gact [refuses_intro]:
  assumes "refuses st h"
  shows "refuses st (thenE (gact k op m d) h)"
  unfolding refuses_def
proof (intro allI impI)
  fix g :: gw
  assume "g_store g = st"
  let ?g = "g\<lparr>g_w := (g_w g)\<lparr>w_bus := k (w_clock (g_w g)) op m d (w_bus (g_w g))\<rparr>\<rparr>"
  have "g_store ?g = st" using \<open>g_store g = st\<close> by simp
  with assms have "rp_Code (reply_of (fst (h ?g))) \<in> {400, 404} \<and> (\<exists>w. snd (h ?g) = ?g\<lparr>g_w := w\<rparr> \<and> w_calls w = w_calls (g_w ?g))"
    unfolding refuses_def by blast
  then show "rp_Code (reply_of (fst (thenE (gact k op m d) h g))) \<in> {400, 404} \<and>
     (\<exists>w. snd (thenE (gact k op m d) h g) = g\<lparr>g_w := w\<rparr> \<and> w_calls w = w_calls (g_w g))"
    by simp
qed

lemma refuses_clientFor [refuses_intro]: "LookupUUID sid st = None \<Longrightarrow> refuses st (clientFor G sid k)"
  by (auto simp: refuses_def clientFor_def or_reply_run pooled_for_uuid_unmapped bindE_def tryE_def retE_def failE_def)

lemma refuses_unless_dry [refuses_intro]: "\<not> DryRunForUUID sid st \<Longrightarrow> refuses st h \<Longrightarrow> refuses st (unless_dry sid op m d h)"
  by (simp add: refuses_def unless_dry_def)

lemma refuses_split [refuses_intro]:
  "(b \<Longrightarrow> refuses st h) \<Longrightarrow> (\<not> b \<Longrightarrow> refuses st h') \<Longrightarrow> refuses st (if b then h else h')"
  "(\<And>x y. refuses st (f x y)) \<Longrightarrow> refuses st (case p of (x, y) \<Rightarrow> f x y)"
  "refuses st h \<Longrightarrow> (\<And>x. refuses st (f' x)) \<Longrightarrow> refuses st (case v of None \<Rightarrow> h | Some x \<Rightarrow> f' x)"
  by (auto split: prod.split option.split)

text \<open>
  An unmapped system is refused before anything is tried. With the global dry run off, reading a
  system, resetting it, inserting or ejecting media for a UUID that is bound to no vCenter ends in 404 (or
  400 when the body is already wrong), without a single call outside and with pool and store unchanged.
\<close>

theorem unmapped_system_is_refused:
  assumes "rf_resolve (rq_Method rq) (rq_Path rq) (query_get rq ''system'') \<in> {RfSystem sid, RfReset sid, RfInsert sid, RfEject sid}"
    and "LookupUUID sid (g_store g) = None" and "\<not> set_DryRun (s_settings (g_store g))"
    and "run_handler (rf_route G rq) g = (rep, g')"
  shows "rp_Code rep \<in> {400, 404} \<and> gw_new g g' = [] \<and> g_pool g' = g_pool g \<and> g_store g' = g_store g"
proof -
  let ?op = "rf_resolve (rq_Method rq) (rq_Path rq) (query_get rq ''system'')"
  have dry: "\<not> DryRunForUUID sid (g_store g)"
    using assms(2,3) by (auto simp: DryRunForUUID_def LookupUUID_def split: option.splits)
  have "refuses (g_store g) (rf_handle G rq rop)" if "rop \<in> {RfSystem sid, RfReset sid, RfInsert sid, RfEject sid}" for rop
  proof -
    have "refuses (g_store g) (systemGet G sid)" "refuses (g_store g) (systemReset G rq sid)"
      "refuses (g_store g) (rf_insertMedia G rq sid)" "refuses (g_store g) (rf_ejectMedia G sid)"
      unfolding systemGet_def systemReset_def rf_insertMedia_def rf_ejectMedia_def apply_change_def Let_def
      by (intro refuses_intro assms(2) dry; simp add: no_system_id_def)+
    with that show ?thesis by auto
  qed
  with assms(1) have "refuses (g_store g) (rf_route G rq)"
    unfolding rf_route_def Let_def by (intro refuses_intro) simp
  then show ?thesis
    using assms(4) by (auto simp: refuses_def run_handler_def gw_new_def split: prod.splits dest!: spec [of _ g])
qed

theorem unmapped_system_is_refused_witness:
  "\<exists>rep g'. run_handler (rf_route demo_genv (demo_rq ''POST'' ''/redfish/v1/Systems/CC/VirtualMedia/Cd/Actions/VirtualMedia.EjectMedia'' [])) demo_gw
      = (rep, g') \<and> rp_Code rep \<in> {400, 404} \<and> gw_new demo_gw g' = []"
proof -
  let ?rq = "demo_rq ''POST'' ''/redfish/v1/Systems/CC/VirtualMedia/Cd/Actions/VirtualMedia.EjectMedia'' []"
  obtain rep g' where r: "run_handler (rf_route demo_genv ?rq) demo_gw = (rep, g')" by fastforce
  have op: "rf_resolve (rq_Method ?rq) (rq_Path ?rq) (query_get ?rq ''system'') = RfEject ''CC''" by code_simp
  have u: "NormalizeUUID ''CC'' = ''cc''" by code_simp
  have n: "LookupUUID ''CC'' (g_store demo_gw) = None" "\<not> set_DryRun (s_settings (g_store demo_gw))"
    by (simp_all add: LookupUUID_def u demo_gw_def demo_store_def)
  from unmapped_system_is_refused [OF _ n r] op r show ?thesis by auto
qed



section \<open>Reset types\<close>

text \<open>What each advertised reset type does to the VM: the power operations sent, in order.\<close>

datatype power_action = TurnOn | TurnOff

definition reset_actions :: "string \<Rightarrow> power_action list" where
  "reset_actions rt =
     (if rt = ''On'' then [TurnOn]
      else if rt \<in> {''ForceOff'', ''GracefulShutdown'', ''Nmi''} then [TurnOff]
      else if rt \<in> {''ForceRestart'', ''GracefulRestart'', ''PowerCycle''} then [TurnOff, TurnOn] else [])"

fun run_actions :: "vsphere \<Rightarrow> vm_obj \<Rightarrow> power_action list \<Rightarrow> unit vio" where
  "run_actions E vm [] = retE ()"
| "run_actions E vm [TurnOn] = powerOn E vm"
| "run_actions E vm [TurnOff] = powerOff E vm"
| "run_actions E vm (TurnOn # as) = thenE (powerOn E vm) (run_actions E vm as)"
| "run_actions E vm (TurnOff # as) = thenE (powerOff E vm) (run_actions E vm as)"

text \<open>
  What the system document advertises is what reset supports. For every value in
  \<open>ResetType@Redfish.AllowableValues\<close> the reset is exactly the listed power operations (so none of them is
  "unsupported"); in particular \<open>GracefulShutdown\<close> and \<open>Nmi\<close> are the same hard power-off as \<open>ForceOff\<close>,
  and any other value is refused without touching the VM.
\<close>

theorem advertised_resets_are_supported:
  "map (reset_switch E vm) reset_types = map (\<lambda>rt. run_actions E vm (reset_actions rt)) reset_types
   \<and> list_all (\<lambda>rt. reset_actions rt \<noteq> []) reset_types
   \<and> (ToLower rt \<in> set (map ToLower reset_types) \<or> reset_switch E vm rt = failE (errorf (''unsupported ResetType '' @ go_quote rt)))"
proof -
  have l: "map ToLower reset_types = [''on'', ''forceoff'', ''gracefulshutdown'', ''forcerestart'', ''gracefulrestart'', ''powercycle'', ''nmi'']"
    by code_simp
  then have t: "ToLower ''On'' = ''on''" "ToLower ''ForceOff'' = ''forceoff''" "ToLower ''GracefulShutdown'' = ''gracefulshutdown''"
    "ToLower ''ForceRestart'' = ''forcerestart''" "ToLower ''GracefulRestart'' = ''gracefulrestart''"
    "ToLower ''PowerCycle'' = ''powercycle''" "ToLower ''Nmi'' = ''nmi''"
    by (simp_all add: reset_types_def)
  have "map (reset_switch E vm) reset_types = map (\<lambda>rt. run_actions E vm (reset_actions rt)) reset_types"
    by (simp add: reset_types_def reset_switch_def reset_actions_def t)
  moreover have "list_all (\<lambda>rt. reset_actions rt \<noteq> []) reset_types"
    by (simp add: reset_types_def reset_actions_def)
  moreover have "ToLower rt \<in> set (map ToLower reset_types) \<or> reset_switch E vm rt = failE (errorf (''unsupported ResetType '' @ go_quote rt))"
    unfolding l by (auto simp: reset_switch_def Let_def)
  ultimately show ?thesis by blast
qed


end
