(* ===== verification/Kubeauth.thy ===== *)
theory Kubeauth
  imports Kube Vsphere_World
begin

text \<open>
  Bearer-token review (\<open>internal/kubeauth/kubeauth.go\<close>): the caller's own token asks the API server who
  it is and whether it may use the gateway; an accepted token is remembered for 30 seconds. The API
  server's answers are a parameter and may depend on all earlier calls; SHA-256 is the environment's
  \<open>ve_sha256\<close>.
\<close>

section \<open>State\<close>

datatype rev_err = ErrUnauthenticated | ErrForbidden | RevErr string

record resource_attributes =
  ra_Namespace :: string
  ra_Verb :: string
  ra_Group :: string
  ra_Resource :: string
  ra_Name :: string

definition attributes_String :: "resource_attributes \<Rightarrow> string" where
  "attributes_String a = ra_Verb a @ '' '' @ ra_Resource a @ ''/'' @ ra_Name a @ '' in '' @ ra_Namespace a"

text \<open>The two bodies the reviewer posts: its version, or the attributes it asks about.\<close>

datatype review_body = SelfSubjectReview string | SelfSubjectAccessReview resource_attributes

text \<open>One exchange: the path below the base URL, the token that authenticates it and the body.\<close>

datatype rcall = RCall (rc_url: string) (rc_token: string) (rc_body: review_body)

text \<open>The exchanges so far, each with the time its review started.\<close>

type_synonym rhist = "(int \<times> rcall) list"

text \<open>
  A response: status, the first 512 bytes of its body, and what decoding the body into the expected
  struct gives (an error, or the user name and the \<open>allowed\<close> flag, empty when absent).
\<close>

record rresp =
  rr_Status :: int
  rr_Text :: string
  rr_User :: "string + string"
  rr_Allowed :: "string + bool"

record review_env =
  re_Do :: "rhist \<Rightarrow> int \<times> rcall \<Rightarrow> string + rresp"
  re_sha256 :: "string \<Rightarrow> string"

record cached_user =
  cu_user :: string
  cu_expires :: int

record reviewer =
  rv_baseURL :: string
  rv_attrs :: resource_attributes
  rv_ttl :: int
  rv_cache :: "(string, cached_user) fmap"

definition review_New :: "string \<Rightarrow> resource_attributes \<Rightarrow> reviewer" where
  "review_New baseURL attrs = \<lparr>rv_baseURL = TrimSuffix baseURL ''/'', rv_attrs = attrs, rv_ttl = 30 * second, rv_cache = fmempty\<rparr>"

definition review_InCluster :: "pod \<Rightarrow> resource_attributes \<Rightarrow> string + reviewer" where
  "review_InCluster po attrs = (case pod_api po of
       Inl e \<Rightarrow> Inl e
     | Inr base \<Rightarrow>
         if ra_Namespace attrs = [] then
           (case po_ReadFile po (saDir @ ''/namespace'') of
              Inl e \<Rightarrow> Inl e
            | Inr ns \<Rightarrow> Inr (review_New base (attrs\<lparr>ra_Namespace := TrimSpace ns\<rparr>)))
         else Inr (review_New base attrs))"

definition Attributes :: "reviewer \<Rightarrow> resource_attributes" where
  "Attributes r = rv_attrs r"

section \<open>Calls\<close>

type_synonym 'a rio = "(rhist, rev_err, 'a) eio"

text \<open>\<open>post\<close>: the status of a 2xx or 404 reply, and for 2xx the decoded body.\<close>

definition review_post :: "review_env \<Rightarrow> reviewer \<Rightarrow> int \<Rightarrow> string \<Rightarrow> string \<Rightarrow> review_body \<Rightarrow> (rresp \<Rightarrow> string + 'a) \<Rightarrow> (int \<times> 'a option) rio" where
  "review_post V r now token path body decode = (\<lambda>h.
     let call = (now, RCall (rv_baseURL r @ path) token body) in
     (case re_Do V h call of
        Inl e \<Rightarrow> Inl (RevErr e)
      | Inr resp \<Rightarrow>
          if rr_Status resp = 401 then Inl ErrUnauthenticated
          else if rr_Status resp = 404 then Inr (404, None)
          else if rr_Status resp div 100 \<noteq> 2 then
            Inl (RevErr (path @ '': HTTP '' @ show_int (rr_Status resp) @ '': '' @ TrimSpace (rr_Text resp)))
          else (case decode resp of Inl e \<Rightarrow> Inl (RevErr e) | Inr x \<Rightarrow> Inr (rr_Status resp, Some x)),
      h @ [call]))"

fun review_versions :: "review_env \<Rightarrow> reviewer \<Rightarrow> int \<Rightarrow> string \<Rightarrow> string list \<Rightarrow> string rio" where
  "review_versions V r now token [] = failE (RevErr ''SelfSubjectReview API not available'')"
| "review_versions V r now token (v # vs) =
     bindE (review_post V r now token (''/apis/authentication.k8s.io/'' @ v @ ''/selfsubjectreviews'') (SelfSubjectReview v) rr_User)
       (\<lambda>(code, out). if code = 404 then review_versions V r now token vs
          else (case out of
              Some user \<Rightarrow> if user = [] then failE (RevErr ''SelfSubjectReview returned no username'') else retE user
            | None \<Rightarrow> failE (RevErr ''SelfSubjectReview returned no username'')))"

definition review_whoami :: "review_env \<Rightarrow> reviewer \<Rightarrow> int \<Rightarrow> string \<Rightarrow> string rio" where
  "review_whoami V r now token = review_versions V r now token [''v1'', ''v1beta1'']"

definition review_allowed :: "review_env \<Rightarrow> reviewer \<Rightarrow> int \<Rightarrow> string \<Rightarrow> bool rio" where
  "review_allowed V r now token =
     bindE (review_post V r now token ''/apis/authorization.k8s.io/v1/selfsubjectaccessreviews'' (SelfSubjectAccessReview (rv_attrs r)) rr_Allowed)
       (\<lambda>(code, out). if code = 404 then failE (RevErr ''SelfSubjectAccessReview API not available'')
          else retE (out = Some True))"

section \<open>Review\<close>

definition evict :: "int \<Rightarrow> (string, cached_user) fmap \<Rightarrow> (string, cached_user) fmap" where
  "evict now m = (if 1024 < go_len m
     then fmfilter (\<lambda>k. case fmlookup m k of Some c \<Rightarrow> \<not> cu_expires c < now | None \<Rightarrow> False) m else m)"

definition remember :: "reviewer \<Rightarrow> string \<Rightarrow> string \<Rightarrow> int \<Rightarrow> reviewer" where
  "remember r key user now = r\<lparr>rv_cache := fmupd key \<lparr>cu_user = user, cu_expires = now + rv_ttl r\<rparr> (evict now (rv_cache r))\<rparr>"

text \<open>The user name and the error, as Go returns both; \<open>now\<close> is read once, at the start.\<close>

definition Review :: "review_env \<Rightarrow> int \<Rightarrow> string \<Rightarrow> reviewer \<times> rhist \<Rightarrow> (string \<times> rev_err option) \<times> reviewer \<times> rhist" where
  "Review V now token rh = (case rh of (r, h) \<Rightarrow>
     let key = re_sha256 V token in
     case (case fmlookup (rv_cache r) key of Some c \<Rightarrow> if now < cu_expires c then Some c else None | None \<Rightarrow> None) of
       Some c \<Rightarrow> ((cu_user c, None), r, h)
     | None \<Rightarrow> (case review_whoami V r now token h of
         (Inl e, h1) \<Rightarrow> (([], Some e), r, h1)
       | (Inr user, h1) \<Rightarrow> (case review_allowed V r now token h1 of
           (Inl e, h2) \<Rightarrow> ((user, Some e), r, h2)
         | (Inr ok, h2) \<Rightarrow> if \<not> ok then ((user, Some ErrForbidden), r, h2)
             else ((user, None), remember r key user now, h2))))"


section \<open>Only the caller's token\<close>

text \<open>Every exchange of an operation carries the given token, and there are at most \<open>n\<close>.\<close>

definition sends :: "string \<Rightarrow> nat \<Rightarrow> 'a rio \<Rightarrow> bool" where
  "sends token n m \<longleftrightarrow> (\<forall>h. \<exists>l. snd (m h) = h @ l \<and> length l \<le> n \<and> (\<forall>c \<in> set l. rc_token (snd c) = token))"

lemma sends_post: "sends token 1 (review_post V r now token path body decode)"
  by (simp add: sends_def review_post_def Let_def)

lemma sends_ret: "sends token n (retE x)" "sends token n (failE e)"
  by (auto simp: sends_def retE_def failE_def)

lemma sends_bindE:
  assumes "sends token n m" "\<And>x. sends token k (f x)"
  shows "sends token (n + k) (bindE m f)"
  unfolding sends_def
proof
  fix h
  obtain r h1 where m: "m h = (r, h1)" by fastforce
  with assms(1) obtain l where l: "h1 = h @ l" "length l \<le> n" "\<forall>c \<in> set l. rc_token (snd c) = token"
    by (metis sends_def snd_conv)
  show "\<exists>l. snd (bindE m f h) = h @ l \<and> length l \<le> n + k \<and> (\<forall>c \<in> set l. rc_token (snd c) = token)"
  proof (cases r)
    case (Inl e)
    with m l show ?thesis by (intro exI [of _ l]) (simp add: bindE_def tryE_def failE_def)
  next
    case (Inr x)
    from assms(2) [of x] obtain l' where "snd (f x h1) = h1 @ l'" "length l' \<le> k" "\<forall>c \<in> set l'. rc_token (snd c) = token"
      by (auto simp: sends_def)
    with m Inr l show ?thesis by (intro exI [of _ "l @ l'"]) (auto simp: bindE_def tryE_def)
  qed
qed

lemma sends_versions: "sends token (length vs) (review_versions V r now token vs)"
proof (induction vs)
  case Nil
  then show ?case by (simp add: sends_ret)
next
  case (Cons v vs)
  have "sends token (1 + length vs) (review_versions V r now token (v # vs))"
    unfolding review_versions.simps
    by (rule sends_bindE [OF sends_post]) (auto split: option.split intro: Cons.IH sends_ret)
  then show ?case by simp
qed

lemma sends_whoami: "sends token 2 (review_whoami V r now token)"
  using sends_versions [of token "[''v1'', ''v1beta1'']" V r now] by (simp add: review_whoami_def numeral_2_eq_2 del: review_versions.simps)

lemma sends_allowed: "sends token 1 (review_allowed V r now token)"
proof -
  have "sends token (1 + 0) (review_allowed V r now token)"
    unfolding review_allowed_def by (rule sends_bindE [OF sends_post]) (auto intro: sends_ret)
  then show ?thesis by simp
qed

lemma sendsD: "sends token n m \<Longrightarrow> m h = (x, h') \<Longrightarrow> \<exists>l. h' = h @ l \<and> length l \<le> n \<and> (\<forall>c \<in> set l. rc_token (snd c) = token)"
  by (metis sends_def snd_conv)

lemma Review_unfold:
  obtains (cached) c where "fmlookup (rv_cache r) (re_sha256 V token) = Some c" "now < cu_expires c"
      "Review V now token (r, h) = ((cu_user c, None), r, h)"
  | (unknown) e h1 where "review_whoami V r now token h = (Inl e, h1)" "Review V now token (r, h) = (([], Some e), r, h1)"
  | (unreviewed) user e h1 h2 where "review_whoami V r now token h = (Inr user, h1)" "review_allowed V r now token h1 = (Inl e, h2)"
      "Review V now token (r, h) = ((user, Some e), r, h2)"
  | (refused) user h1 h2 where "review_whoami V r now token h = (Inr user, h1)" "review_allowed V r now token h1 = (Inr False, h2)"
      "Review V now token (r, h) = ((user, Some ErrForbidden), r, h2)"
  | (granted) user h1 h2 where "review_whoami V r now token h = (Inr user, h1)" "review_allowed V r now token h1 = (Inr True, h2)"
      "Review V now token (r, h) = ((user, None), remember r (re_sha256 V token) user now, h2)"
proof (cases "\<exists>c. fmlookup (rv_cache r) (re_sha256 V token) = Some c \<and> now < cu_expires c")
  case True
  then show ?thesis using cached by (auto simp: Review_def Let_def)
next
  case False
  then have none: "(case fmlookup (rv_cache r) (re_sha256 V token) of Some c \<Rightarrow> if now < cu_expires c then Some c else None | None \<Rightarrow> None) = None"
    by (auto split: option.split)
  obtain w h1 where w: "review_whoami V r now token h = (w, h1)" by fastforce
  show ?thesis
  proof (cases w)
    case (Inl e)
    with w none show ?thesis by (intro unknown) (auto simp: Review_def Let_def)
  next
    case (Inr user)
    obtain a h2 where a: "review_allowed V r now token h1 = (a, h2)" by fastforce
    show ?thesis
    proof (cases a)
      case (Inl e)
      with w Inr a none show ?thesis by (intro unreviewed) (auto simp: Review_def Let_def)
    next
      case (Inr ok)
      with w \<open>w = Inr user\<close> a none show ?thesis
        by (cases ok) (auto simp: Review_def Let_def intro: refused granted)
    qed
  qed
qed

lemma Review_sends:
  assumes "Review V now token (r, h) = ((user, err), r', h')"
  shows "\<exists>l. h' = h @ l \<and> length l \<le> 3 \<and> (\<forall>c \<in> set l. rc_token (snd c) = token) \<and> (err = None \<or> r' = r)"
proof -
  have both: "\<exists>l. h2 = h @ l \<and> length l \<le> 3 \<and> (\<forall>c \<in> set l. rc_token (snd c) = token)"
    if "review_whoami V r now token h = (x, h1)" "review_allowed V r now token h1 = (y, h2)" for x h1 y h2
  proof -
    from sendsD [OF sends_whoami that(1)] sendsD [OF sends_allowed that(2)] show ?thesis by force
  qed
  have one: "\<exists>l. h1 = h @ l \<and> length l \<le> 3 \<and> (\<forall>c \<in> set l. rc_token (snd c) = token)"
    if "review_whoami V r now token h = (x, h1)" for x h1
    using sendsD [OF sends_whoami that] by force
  show ?thesis
  proof (rule Review_unfold [where V = V and now = now and token = token and r = r and h = h])
    fix e h1
    assume "review_whoami V r now token h = (Inl e, h1)" "Review V now token (r, h) = (([], Some e), r, h1)"
    with one assms show ?thesis by auto
  next
    fix user e h1 h2
    assume "review_whoami V r now token h = (Inr user, h1)" "review_allowed V r now token h1 = (Inl e, h2)"
      "Review V now token (r, h) = ((user, Some e), r, h2)"
    with both [of "Inr user" h1 "Inl e" h2] assms show ?thesis by auto
  next
    fix user h1 h2
    assume "review_whoami V r now token h = (Inr user, h1)" "review_allowed V r now token h1 = (Inr False, h2)"
      "Review V now token (r, h) = ((user, Some ErrForbidden), r, h2)"
    with both [of "Inr user" h1 "Inr False" h2] assms show ?thesis by auto
  next
    fix user h1 h2
    assume "review_whoami V r now token h = (Inr user, h1)" "review_allowed V r now token h1 = (Inr True, h2)"
      "Review V now token (r, h) = ((user, None), remember r (re_sha256 V token) user now, h2)"
    with both [of "Inr user" h1 "Inr True" h2] assms show ?thesis by auto
  qed (use assms in auto)
qed

text \<open>
  A review speaks only with the caller's own token. One review makes at most three exchanges, each
  authenticated with the token under review (never with credentials of the gateway); and when it refuses,
  the reviewer's state is what it was, so a refusal is never remembered.
\<close>

theorem review_sends_only_the_callers_token:
  "case Review V now token (r, h) of ((user, err), r', h') \<Rightarrow>
     prefix h h' \<and> length h' \<le> length h + 3
     \<and> list_all (\<lambda>c. rc_token (snd c) = token) (drop (length h) h') \<and> (err = None \<or> r' = r)"
proof -
  obtain user err r' h' where v: "Review V now token (r, h) = ((user, err), r', h')" by (metis prod.exhaust)
  from Review_sends [OF v] show ?thesis by (auto simp: v list_all_iff)
qed

section \<open>Thirty seconds\<close>

text \<open>
  What the API server itself said, read off the record of the exchanges and apart from the reviewer's
  code. \<open>answered\<close>: the exchange is on the record and this was its response. \<open>named\<close>: asked with the token
  who it is, by one of the two versions of the self subject review, the API server answered with
  success and this non-empty user name. \<open>permitted\<close>: asked with the token for the configured access, it
  answered with success and \<open>allowed\<close> true. \<open>grant\<close>: both, at the time \<open>t\<close>, first the name and then the
  access. \<open>vouched\<close>: such a grant lies in the history, for the token under review (up to SHA-256), at
  most the cache's lifetime ago.
\<close>

definition answered :: "review_env \<Rightarrow> rhist \<Rightarrow> int \<times> rcall \<Rightarrow> rresp \<Rightarrow> rhist \<Rightarrow> bool" where
  "answered V h0 call resp h \<longleftrightarrow> prefix (h0 @ [call]) h \<and> re_Do V h0 call = Inr resp"

definition success :: "rresp \<Rightarrow> bool" where
  "success resp \<longleftrightarrow> 200 \<le> rr_Status resp \<and> rr_Status resp \<le> 299"

definition named :: "review_env \<Rightarrow> reviewer \<Rightarrow> int \<Rightarrow> string \<Rightarrow> string \<Rightarrow> rhist \<Rightarrow> rhist \<Rightarrow> bool" where
  "named V r t token user h0 h \<longleftrightarrow> (\<exists>v \<in> {''v1'', ''v1beta1''}. \<exists>resp.
     answered V h0 (t, RCall (rv_baseURL r @ ''/apis/authentication.k8s.io/'' @ v @ ''/selfsubjectreviews'') token (SelfSubjectReview v)) resp h
     \<and> success resp \<and> rr_User resp = Inr user \<and> user \<noteq> [])"

definition permitted :: "review_env \<Rightarrow> reviewer \<Rightarrow> int \<Rightarrow> string \<Rightarrow> rhist \<Rightarrow> rhist \<Rightarrow> bool" where
  "permitted V r t token h1 h \<longleftrightarrow> (\<exists>resp.
     answered V h1 (t, RCall (rv_baseURL r @ ''/apis/authorization.k8s.io/v1/selfsubjectaccessreviews'') token
       (SelfSubjectAccessReview (rv_attrs r))) resp h
     \<and> success resp \<and> rr_Allowed resp = Inr True)"

definition grant :: "review_env \<Rightarrow> reviewer \<Rightarrow> int \<Rightarrow> string \<Rightarrow> string \<Rightarrow> rhist \<Rightarrow> bool" where
  "grant V r t token user h \<longleftrightarrow> (\<exists>h0 h1. named V r t token user h0 h1 \<and> permitted V r t token h1 h)"

definition vouched :: "review_env \<Rightarrow> reviewer \<Rightarrow> int \<Rightarrow> string \<Rightarrow> string \<Rightarrow> rhist \<Rightarrow> bool" where
  "vouched V r now token user h \<longleftrightarrow> (\<exists>t token'. grant V r t token' user h \<and> re_sha256 V token' = re_sha256 V token \<and>
     t \<le> now \<and> (t = now \<or> now < t + rv_ttl r))"

definition same_reviewer :: "reviewer \<Rightarrow> reviewer \<Rightarrow> bool" where
  "same_reviewer r r' \<longleftrightarrow> rv_baseURL r' = rv_baseURL r \<and> rv_attrs r' = rv_attrs r \<and> rv_ttl r' = rv_ttl r"

lemma grant_same: "same_reviewer r r' \<Longrightarrow> grant V r' t token user h = grant V r t token user h"
  by (simp add: grant_def named_def permitted_def same_reviewer_def)

lemma grant_prefix: "grant V r t token user h \<Longrightarrow> prefix h h' \<Longrightarrow> grant V r t token user h'"
  unfolding grant_def permitted_def answered_def by (meson prefix_order.trans)

lemma success_status: "rr_Status resp div 100 = 2 \<Longrightarrow> success resp"
  by (auto simp: success_def)

lemma review_post_answered:
  assumes "review_post V r now token path body decode h = (Inr (code, out), h')" "code \<noteq> 404"
  shows "\<exists>resp x. answered V h (now, RCall (rv_baseURL r @ path) token body) resp h' \<and> success resp
    \<and> decode resp = Inr x \<and> out = Some x"
  using assms by (auto simp: review_post_def Let_def answered_def success_status split: sum.splits if_splits)

lemma review_versions_named:
  assumes "review_versions V r now token vs h = (Inr user, h')"
  shows "\<exists>h0. \<exists>v \<in> set vs. \<exists>resp.
     answered V h0 (now, RCall (rv_baseURL r @ ''/apis/authentication.k8s.io/'' @ v @ ''/selfsubjectreviews'') token (SelfSubjectReview v)) resp h'
     \<and> success resp \<and> rr_User resp = Inr user \<and> user \<noteq> []"
  using assms
proof (induction vs arbitrary: h)
  case Nil
  then show ?case by (simp add: failE_def)
next
  case (Cons v vs)
  let ?post = "review_post V r now token (''/apis/authentication.k8s.io/'' @ v @ ''/selfsubjectreviews'') (SelfSubjectReview v) rr_User h"
  from Cons.prems obtain code out h1 where post: "?post = (Inr (code, out), h1)"
    and rest: "(if code = 404 then review_versions V r now token vs
       else (case out of
              Some user \<Rightarrow> if user = [] then failE (RevErr ''SelfSubjectReview returned no username'') else retE user
            | None \<Rightarrow> failE (RevErr ''SelfSubjectReview returned no username''))) h1 = (Inr user, h')"
    by (auto simp: bindE_def tryE_def failE_def split: prod.splits sum.splits)
  show ?case
  proof (cases "code = 404")
    case True
    with rest Cons.IH [of h1] show ?thesis by (simp del: append.append_Cons) blast
  next
    case False
    from review_post_answered [OF post False] rest False show ?thesis
      by (auto simp: failE_def retE_def split: if_splits) blast
  qed
qed

lemma review_whoami_named: "review_whoami V r now token h = (Inr user, h') \<Longrightarrow> \<exists>h0. named V r now token user h0 h'"
  unfolding review_whoami_def named_def by (drule review_versions_named) auto

lemma review_allowed_permitted: "review_allowed V r now token h = (Inr True, h') \<Longrightarrow> permitted V r now token h h'"
  unfolding review_allowed_def permitted_def
  by (auto simp: bindE_def tryE_def failE_def retE_def split: prod.splits sum.splits if_splits dest: review_post_answered)

text \<open>Every cache entry stems from a grant not in the future and expires one lifetime after it.\<close>

definition cache_inv :: "review_env \<Rightarrow> int \<Rightarrow> reviewer \<times> rhist \<Rightarrow> bool" where
  "cache_inv V now rh \<longleftrightarrow> (case rh of (r, h) \<Rightarrow> \<forall>k c. fmlookup (rv_cache r) k = Some c \<longrightarrow>
     (\<exists>t token. grant V r t token (cu_user c) h \<and> re_sha256 V token = k \<and> cu_expires c = t + rv_ttl r \<and> t \<le> now))"

lemma cache_inv_New: "cache_inv V now (review_New base attrs, h)"
  by (simp add: cache_inv_def review_New_def)

lemma cache_inv_later: "cache_inv V now rh \<Longrightarrow> now \<le> now' \<Longrightarrow> cache_inv V now' rh"
  unfolding cache_inv_def by (auto split: prod.splits) (metis order_trans)

lemma evict_lookup: "fmlookup (evict now m) k = Some c \<Longrightarrow> fmlookup m k = Some c"
  by (auto simp: evict_def split: if_splits)

lemma cache_inv_prefix: "cache_inv V now (r, h) \<Longrightarrow> prefix h h' \<Longrightarrow> cache_inv V now (r, h')"
  unfolding cache_inv_def by (auto dest: grant_prefix) (metis grant_prefix)

lemma Review_prefix: "Review V now token (r, h) = (res, r', h') \<Longrightarrow> prefix h h'"
  by (cases res) (auto dest: Review_sends)

lemma Review_vouched:
  assumes "cache_inv V now (r, h)" "Review V now token (r, h) = ((user, err), r', h')"
  shows "cache_inv V now (r', h') \<and> same_reviewer r r' \<and> (err = None \<longrightarrow> vouched V r now token user h')"
proof (rule Review_unfold [where V = V and now = now and token = token and r = r and h = h])
  have refl: "same_reviewer r r" by (simp add: same_reviewer_def)
  have pre: "prefix h h'" using assms(2) by (rule Review_prefix)
  have keep: "cache_inv V now (r, h')" using assms(1) pre by (rule cache_inv_prefix)
  show ?thesis if "fmlookup (rv_cache r) (re_sha256 V token) = Some c" "now < cu_expires c"
      "Review V now token (r, h) = ((cu_user c, None), r, h)" for c
  proof -
    from assms(1) that(1) obtain t token' where "grant V r t token' (cu_user c) h" "re_sha256 V token' = re_sha256 V token"
      "cu_expires c = t + rv_ttl r" "t \<le> now" unfolding cache_inv_def prod.case by blast
    with that assms refl show ?thesis by (auto simp: vouched_def)
  qed
  show ?thesis if "Review V now token (r, h) = (([], Some e), r, h1)" for e h1
    using that assms(2) keep refl by simp
  show ?thesis if "Review V now token (r, h) = ((u, Some e), r, h2)" for u e h2
    using that assms(2) keep refl by simp
  show ?thesis if "Review V now token (r, h) = ((u, Some ErrForbidden), r, h2)" for u h2
    using that assms(2) keep refl by simp
  show ?thesis if g: "review_whoami V r now token h = (Inr u, h1)" "review_allowed V r now token h1 = (Inr True, h2)"
      "Review V now token (r, h) = ((u, None), remember r (re_sha256 V token) u now, h2)" for u h1 h2
  proof -
    let ?r = "remember r (re_sha256 V token) u now"
    have eq: "user = u" "err = None" "r' = ?r" "h' = h2" using assms(2) g(3) by auto
    have same: "same_reviewer r ?r" by (simp add: same_reviewer_def remember_def)
    have gr: "grant V r now token u h2" using review_whoami_named [OF g(1)] review_allowed_permitted [OF g(2)] by (auto simp: grant_def)
    have "cache_inv V now (?r, h2)"
      unfolding cache_inv_def
    proof (simp only: prod.case, intro allI impI)
      fix k c
      assume look: "fmlookup (rv_cache ?r) k = Some c"
      show "\<exists>t token. grant V ?r t token (cu_user c) h2 \<and> re_sha256 V token = k \<and> cu_expires c = t + rv_ttl ?r \<and> t \<le> now"
      proof (cases "k = re_sha256 V token")
        case True
        with look have "c = \<lparr>cu_user = u, cu_expires = now + rv_ttl r\<rparr>" by (auto simp: remember_def)
        with True gr grant_same [OF same] show ?thesis by (auto simp: remember_def intro!: exI [of _ now] exI [of _ token])
      next
        case False
        with look have "fmlookup (rv_cache r) k = Some c" by (auto simp: remember_def dest: evict_lookup)
        with keep eq grant_same [OF same] show ?thesis by (auto simp: cache_inv_def remember_def)
      qed
    qed
    then show ?thesis using eq same gr by (auto simp: vouched_def)
  qed
qed

text \<open>The reviewer as requests use it: reviews one after the other, at times that do not go back.\<close>

inductive review_reach :: "review_env \<Rightarrow> reviewer \<Rightarrow> int \<Rightarrow> reviewer \<times> rhist \<Rightarrow> bool" for V :: review_env and r0 :: reviewer where
  start: "review_reach V r0 now (r0, [])"
| review: "review_reach V r0 now rh \<Longrightarrow> now \<le> now' \<Longrightarrow> review_reach V r0 now' (snd (Review V now' token rh))"

lemma review_reach_inv:
  assumes "review_reach V (review_New base attrs) now rh"
  shows "cache_inv V now rh \<and> same_reviewer (review_New base attrs) (fst rh)"
  using assms
proof induction
  case (start now)
  then show ?case by (simp add: cache_inv_New same_reviewer_def)
next
  case (review now rh now' token)
  obtain r h where rh: "rh = (r, h)" by fastforce
  obtain u e r' h' where v: "Review V now' token (r, h) = ((u, e), r', h')" by (metis prod.exhaust)
  have "cache_inv V now' (r, h)" using review rh cache_inv_later by blast
  from Review_vouched [OF this v] review.IH rh v show ?case by (auto simp: same_reviewer_def)
qed

text \<open>
  C28: An accepted token was vouched for within the last 30 seconds. However reviews of however many
  tokens follow each other from a fresh reviewer, whenever a review accepts a token and names its user,
  the API server itself named that user and allowed the access, asked with that token (up to SHA-256), in
  exchanges on record, at a time not in the future and less than 30 seconds ago. A revoked token or right
  thus outlives its revocation by less than the cache's lifetime.
\<close>

theorem accepted_token_is_vouched:
  assumes "review_reach V (review_New base attrs) now (r, h)" "now \<le> now'"
    "Review V now' token (r, h) = ((user, None), r', h')"
  shows "\<exists>t token'. grant V (review_New base attrs) t token' user h' \<and> re_sha256 V token' = re_sha256 V token
    \<and> t \<le> now' \<and> now' < t + 30 * second"
proof -
  from review_reach_inv [OF assms(1)] have inv: "cache_inv V now (r, h)" and same: "same_reviewer (review_New base attrs) r"
    by auto
  from Review_vouched [OF cache_inv_later [OF inv assms(2)] assms(3)]
  have "vouched V r now' token user h'" by simp
  moreover have "rv_ttl r = 30 * second" using same by (simp add: same_reviewer_def review_New_def)
  ultimately obtain t token' where "grant V r t token' user h'" "re_sha256 V token' = re_sha256 V token" "t \<le> now'"
    "now' < t + 30 * second" by (auto simp: vouched_def second_def)
  then show ?thesis unfolding grant_same [OF same] by blast
qed

definition demo_rev :: review_env where
  "demo_rev = \<lparr>re_Do = (\<lambda>h c. Inr \<lparr>rr_Status = 201, rr_Text = [], rr_User = Inr ''alice'', rr_Allowed = Inr True\<rparr>), re_sha256 = (\<lambda>s. s)\<rparr>"

definition demo_attrs :: resource_attributes where
  "demo_attrs = \<lparr>ra_Namespace = ''ns'', ra_Verb = ''get'', ra_Group = [], ra_Resource = ''services'', ra_Name = ''rf2vc''\<rparr>"

lemma accepted_token_is_vouched_witness:
  "\<exists>t token'. grant demo_rev (review_New ''k/'' demo_attrs) t token' ''alice''
      (snd (snd (Review demo_rev 5 ''tok'' (review_New ''k/'' demo_attrs, []))))
    \<and> re_sha256 demo_rev token' = re_sha256 demo_rev ''tok'' \<and> t \<le> 5 \<and> 5 < t + 30 * second"
proof (rule accepted_token_is_vouched [where now = 5])
  let ?r = "review_New ''k/'' demo_attrs"
  show "review_reach demo_rev ?r 5 (?r, [])" by (rule start)
  show "(5::int) \<le> 5" by simp
  have "fst (Review demo_rev 5 ''tok'' (?r, [])) = (''alice'', None)" by code_simp
  then show "Review demo_rev 5 ''tok'' (?r, []) = ((''alice'', None), fst (snd (Review demo_rev 5 ''tok'' (?r, []))),
      snd (snd (Review demo_rev 5 ''tok'' (?r, []))))"
    by (simp add: prod_eq_iff)
qed

end
