(* ===== verification/Gw_Config.thy ===== *)
theory Gw_Config
  imports Gw_Prelude
begin

text \<open>
  The gateway's configuration (\<open>internal/config/config.go\<close>): a YAML file, overridden by environment
  variables, with defaults for what is still empty. Reading the file, \<open>yaml.Unmarshal\<close> into a zero
  \<open>Config\<close> and the environment are a parameter.
\<close>

record auth_config =
  ac_Username :: string
  ac_Password :: string
  ac_RedfishClientsDir :: string
  ac_DisableSharedRedfish :: bool
  ac_APIService :: string

record config =
  cf_Listen :: string
  cf_UIListen :: string
  cf_APIListen :: string
  cf_APITLSCertFile :: string
  cf_APITLSKeyFile :: string
  cf_TLSCertFile :: string
  cf_TLSKeyFile :: string
  cf_Auth :: auth_config
  cf_DataDir :: string
  cf_ISOCacheDir :: string
  cf_VCenterConfigMaps :: string

record config_env =
  ce_ReadFile :: "string \<Rightarrow> string + string"
  ce_Unmarshal :: "string \<Rightarrow> string + config"
  ce_getenv :: "string \<Rightarrow> string"

text \<open>One \<open>if v := os.Getenv(name); v != "" { set v }\<close>.\<close>

definition env_override :: "(string \<Rightarrow> string) \<Rightarrow> string \<Rightarrow> (string \<Rightarrow> config \<Rightarrow> config) \<Rightarrow> config \<Rightarrow> config" where
  "env_override getenv name put c = (let v = getenv name in if v \<noteq> [] then put v c else c)"

text \<open>The overrides, in the order of the source.\<close>

definition env_overrides :: "(string \<times> (string \<Rightarrow> config \<Rightarrow> config)) list" where
  "env_overrides =
     [(''RF2VC_LISTEN'', \<lambda>v. cf_Listen_update (\<lambda>_. v)),
      (''RF2VC_UI_LISTEN'', \<lambda>v. cf_UIListen_update (\<lambda>_. v)),
      (''RF2VC_AUTH_USERNAME'', \<lambda>v. cf_Auth_update (ac_Username_update (\<lambda>_. v))),
      (''RF2VC_AUTH_PASSWORD'', \<lambda>v. cf_Auth_update (ac_Password_update (\<lambda>_. v))),
      (''RF2VC_REDFISH_CLIENTS_DIR'', \<lambda>v. cf_Auth_update (ac_RedfishClientsDir_update (\<lambda>_. v))),
      (''RF2VC_REDFISH_DISABLE_SHARED'', \<lambda>v. cf_Auth_update (ac_DisableSharedRedfish_update (\<lambda>_. v = ''true''))),
      (''RF2VC_API_LISTEN'', \<lambda>v. cf_APIListen_update (\<lambda>_. v)),
      (''RF2VC_API_TLS_CERT'', \<lambda>v. cf_APITLSCertFile_update (\<lambda>_. v)),
      (''RF2VC_API_TLS_KEY'', \<lambda>v. cf_APITLSKeyFile_update (\<lambda>_. v)),
      (''RF2VC_API_SERVICE'', \<lambda>v. cf_Auth_update (ac_APIService_update (\<lambda>_. v))),
      (''RF2VC_DATA_DIR'', \<lambda>v. cf_DataDir_update (\<lambda>_. v)),
      (''RF2VC_ISO_CACHE_DIR'', \<lambda>v. cf_ISOCacheDir_update (\<lambda>_. v)),
      (''RF2VC_VCENTER_CONFIGMAPS'', \<lambda>v. cf_VCenterConfigMaps_update (\<lambda>_. v))]"

definition applyEnvOverrides :: "(string \<Rightarrow> string) \<Rightarrow> config \<Rightarrow> config" where
  "applyEnvOverrides getenv c = fold (\<lambda>(name, put). env_override getenv name put) env_overrides c"

definition or_default :: "string \<Rightarrow> string \<Rightarrow> string" where
  "or_default d s = (if s = [] then d else s)"

definition config_fill :: "config \<Rightarrow> config" where
  "config_fill c =
     (let c = c\<lparr>cf_Listen := or_default '':8080'' (cf_Listen c), cf_DataDir := or_default ''/data'' (cf_DataDir c)\<rparr>;
          c = c\<lparr>cf_ISOCacheDir := or_default (cf_DataDir c @ ''/iso-cache'') (cf_ISOCacheDir c)\<rparr>
      in c\<lparr>cf_VCenterConfigMaps := or_default ''auto'' (cf_VCenterConfigMaps c),
           cf_Auth := (cf_Auth c)\<lparr>ac_APIService := or_default ''rf2vc'' (ac_APIService (cf_Auth c))\<rparr>\<rparr>)"

definition config_Load :: "config_env \<Rightarrow> string \<Rightarrow> string + config" where
  "config_Load C path = (case ce_ReadFile C path of
       Inl e \<Rightarrow> Inl e
     | Inr b \<Rightarrow> (case ce_Unmarshal C b of
         Inl e \<Rightarrow> Inl e
       | Inr c \<Rightarrow> (let c = config_fill (applyEnvOverrides (ce_getenv C) c) in
           if ac_Username (cf_Auth c) = [] \<or> ac_Password (cf_Auth c) = []
           then Inl ''auth.username and auth.password are required'' else Inr c)))"

section \<open>What is loaded\<close>

text \<open>What an environment variable, if set, and otherwise the file give.\<close>

definition env_or :: "(string \<Rightarrow> string) \<Rightarrow> string \<Rightarrow> string \<Rightarrow> string" where
  "env_or getenv name file = (if getenv name \<noteq> [] then getenv name else file)"

lemma override_keeps: "(\<And>v c. f (put v c) = f c) \<Longrightarrow> f (env_override g n put c) = f c"
  by (simp add: env_override_def Let_def)

lemma override_sets: "(\<And>v c. f (put v c) = v) \<Longrightarrow> f (env_override g n put c) = env_or g n (f c)"
  by (simp add: env_override_def env_or_def Let_def)

lemmas override_unfold = applyEnvOverrides_def env_overrides_def fold_simps comp_apply prod.case

lemma override_cf_Listen: "cf_Listen (applyEnvOverrides g c) = env_or g ''RF2VC_LISTEN'' (cf_Listen c)"
  unfolding override_unfold by (simp add: override_keeps [where f = cf_Listen] override_sets [where f = cf_Listen])

lemma override_cf_UIListen: "cf_UIListen (applyEnvOverrides g c) = env_or g ''RF2VC_UI_LISTEN'' (cf_UIListen c)"
  unfolding override_unfold by (simp add: override_keeps [where f = cf_UIListen] override_sets [where f = cf_UIListen])

lemma override_cf_DataDir: "cf_DataDir (applyEnvOverrides g c) = env_or g ''RF2VC_DATA_DIR'' (cf_DataDir c)"
  unfolding override_unfold by (simp add: override_keeps [where f = cf_DataDir] override_sets [where f = cf_DataDir])

lemma override_cf_ISOCacheDir: "cf_ISOCacheDir (applyEnvOverrides g c) = env_or g ''RF2VC_ISO_CACHE_DIR'' (cf_ISOCacheDir c)"
  unfolding override_unfold by (simp add: override_keeps [where f = cf_ISOCacheDir] override_sets [where f = cf_ISOCacheDir])

lemma override_cf_VCenterConfigMaps: "cf_VCenterConfigMaps (applyEnvOverrides g c) = env_or g ''RF2VC_VCENTER_CONFIGMAPS'' (cf_VCenterConfigMaps c)"
  unfolding override_unfold by (simp add: override_keeps [where f = cf_VCenterConfigMaps] override_sets [where f = cf_VCenterConfigMaps])

lemma override_ac_Username: "ac_Username (cf_Auth (applyEnvOverrides g c)) = env_or g ''RF2VC_AUTH_USERNAME'' (ac_Username (cf_Auth c))"
  unfolding override_unfold
  by (simp add: override_keeps [where f = "\<lambda>c. ac_Username (cf_Auth c)"] override_sets [where f = "\<lambda>c. ac_Username (cf_Auth c)"])

lemma override_ac_Password: "ac_Password (cf_Auth (applyEnvOverrides g c)) = env_or g ''RF2VC_AUTH_PASSWORD'' (ac_Password (cf_Auth c))"
  unfolding override_unfold
  by (simp add: override_keeps [where f = "\<lambda>c. ac_Password (cf_Auth c)"] override_sets [where f = "\<lambda>c. ac_Password (cf_Auth c)"])

lemmas override_fields = override_cf_Listen override_cf_UIListen override_cf_DataDir override_cf_ISOCacheDir
  override_cf_VCenterConfigMaps override_ac_Username override_ac_Password

lemma config_Load_Inr:
  assumes "config_Load C path = Inr c"
  obtains b c0 where "ce_ReadFile C path = Inr b" "ce_Unmarshal C b = Inr c0"
    "c = config_fill (applyEnvOverrides (ce_getenv C) c0)"
    "ac_Username (cf_Auth c) \<noteq> []" "ac_Password (cf_Auth c) \<noteq> []"
  using assms by (auto simp: config_Load_def Let_def split: sum.splits if_splits)

text \<open>
  A loaded configuration is complete. The two credentials of the shared account, the listen address,
  the data and ISO cache directories and the ConfigMap mode are all set; a variable of the environment
  that is set wins over the file; and the ISO cache lies in the data directory unless it was placed
  elsewhere.
\<close>

theorem loaded_config_is_complete:
  assumes "config_Load C path = Inr c"
  shows "ac_Username (cf_Auth c) \<noteq> [] \<and> ac_Password (cf_Auth c) \<noteq> [] \<and> ac_APIService (cf_Auth c) \<noteq> []
    \<and> cf_Listen c \<noteq> [] \<and> cf_DataDir c \<noteq> [] \<and> cf_ISOCacheDir c \<noteq> [] \<and> cf_VCenterConfigMaps c \<noteq> []
    \<and> (\<exists>b c0. ce_ReadFile C path = Inr b \<and> ce_Unmarshal C b = Inr c0
        \<and> ac_Password (cf_Auth c) = env_or (ce_getenv C) ''RF2VC_AUTH_PASSWORD'' (ac_Password (cf_Auth c0))
        \<and> cf_UIListen c = env_or (ce_getenv C) ''RF2VC_UI_LISTEN'' (cf_UIListen c0)
        \<and> (env_or (ce_getenv C) ''RF2VC_ISO_CACHE_DIR'' (cf_ISOCacheDir c0) = [] \<longrightarrow> cf_ISOCacheDir c = cf_DataDir c @ ''/iso-cache''))"
proof -
  from assms obtain b c0 where c: "ce_ReadFile C path = Inr b" "ce_Unmarshal C b = Inr c0"
      "c = config_fill (applyEnvOverrides (ce_getenv C) c0)" "ac_Username (cf_Auth c) \<noteq> []" "ac_Password (cf_Auth c) \<noteq> []"
    by (rule config_Load_Inr)
  moreover have "ac_APIService (cf_Auth c) \<noteq> []" "cf_Listen c \<noteq> []" "cf_DataDir c \<noteq> []" "cf_ISOCacheDir c \<noteq> []"
    "cf_VCenterConfigMaps c \<noteq> []" using c(3) by (simp_all add: config_fill_def or_default_def Let_def)
  moreover have "ac_Password (cf_Auth c) = env_or (ce_getenv C) ''RF2VC_AUTH_PASSWORD'' (ac_Password (cf_Auth c0))"
    "cf_UIListen c = env_or (ce_getenv C) ''RF2VC_UI_LISTEN'' (cf_UIListen c0)"
    using c(3) by (simp_all add: config_fill_def Let_def override_fields)
  moreover have "cf_ISOCacheDir c = cf_DataDir c @ ''/iso-cache''"
    if "env_or (ce_getenv C) ''RF2VC_ISO_CACHE_DIR'' (cf_ISOCacheDir c0) = []"
    using c(3) that by (simp add: config_fill_def Let_def override_fields or_default_def)
  ultimately show ?thesis by blast
qed

definition zero_config :: config where
  "zero_config = \<lparr>cf_Listen = [], cf_UIListen = [], cf_APIListen = [], cf_APITLSCertFile = [], cf_APITLSKeyFile = [],
     cf_TLSCertFile = [], cf_TLSKeyFile = [],
     cf_Auth = \<lparr>ac_Username = [], ac_Password = [], ac_RedfishClientsDir = [], ac_DisableSharedRedfish = False, ac_APIService = []\<rparr>,
     cf_DataDir = [], cf_ISOCacheDir = [], cf_VCenterConfigMaps = []\<rparr>"

definition demo_config_env :: config_env where
  "demo_config_env = \<lparr>ce_ReadFile = Inr, ce_Unmarshal = (\<lambda>_. Inr zero_config),
     ce_getenv = (\<lambda>n. if n = ''RF2VC_AUTH_USERNAME'' then ''admin'' else if n = ''RF2VC_AUTH_PASSWORD'' then ''pw'' else [])\<rparr>"

definition demo_config :: config where
  "demo_config = (case config_Load demo_config_env ''f'' of Inr c \<Rightarrow> c | Inl _ \<Rightarrow> zero_config)"

lemma demo_config: "config_Load demo_config_env ''f'' = Inr demo_config"
proof -
  have "config_Load demo_config_env ''f'' = Inr (config_fill (applyEnvOverrides (ce_getenv demo_config_env) zero_config))"
    by code_simp
  then show ?thesis by (simp add: demo_config_def)
qed

theorem loaded_config_is_complete_witness:
  "ac_Password (cf_Auth demo_config) \<noteq> [] \<and> cf_ISOCacheDir demo_config \<noteq> []"
  using loaded_config_is_complete [OF demo_config] by blast

end
