(* ===== verification/Gw_Auth.thy ===== *)
theory Gw_Auth
  imports Gw_Config Kubeauth Redfish
begin

text \<open>
  Who may call (\<open>cmd/gateway/auth.go\<close>, \<open>cmd/gateway/redfishauth.go\<close>): Basic Auth with the shared
  account and per-client Redfish passwords read from a directory, bearer tokens for the API listener, the
  identity headers of oauth-proxy for the dashboard. A middleware takes the handler it guards, a request
  and its own state next to the gateway's. The directory's content is a function of time; \<open>log\<close> lines are
  left out.
\<close>

section \<open>Per-client credentials\<close>

record auth_dir =
  ad_ReadDir :: "int \<Rightarrow> string \<Rightarrow> string + string list"
  ad_ReadFile :: "int \<Rightarrow> string \<Rightarrow> string + string"

definition redfishClientsReload :: int where
  "redfishClientsReload = 15 * second"

text \<open>\<open>None\<close>: the nil map before the first load, the zero time before the first warning.\<close>

record credentials =
  cr_sharedUser :: string
  cr_sharedPass :: string
  cr_sharedRedfish :: bool
  cr_dir :: string
  cr_loadedAt :: int
  cr_clients :: "(string, string) fmap option"
  cr_lastErr :: string
  cr_lastWarned :: "int option"

definition newCredentials :: "string \<Rightarrow> string \<Rightarrow> string \<Rightarrow> bool \<Rightarrow> credentials" where
  "newCredentials user pass dir sharedRedfish = \<lparr>cr_sharedUser = user, cr_sharedPass = pass, cr_sharedRedfish = sharedRedfish,
     cr_dir = dir, cr_loadedAt = 0, cr_clients = None, cr_lastErr = [], cr_lastWarned = None\<rparr>"

text \<open>\<open>subtle.ConstantTimeCompare(a, b) == 1\<close>.\<close>

definition creds_equal :: "string \<Rightarrow> string \<Rightarrow> bool" where
  "creds_equal a b \<longleftrightarrow> length a = length b \<and> list_all2 (=) a b"

definition client_entry :: "auth_dir \<Rightarrow> int \<Rightarrow> string \<Rightarrow> string \<Rightarrow> string \<Rightarrow> (string, string) fmap \<Rightarrow> (string, string) fmap" where
  "client_entry D now dir sharedUser name out =
     (if HasPrefix name ''.'' \<or> name = sharedUser then out
      else case ad_ReadFile D now (path_Join [dir, name]) of
          Inl _ \<Rightarrow> out
        | Inr b \<Rightarrow> (let pass = trim_right (\<lambda>c. c = CHR 0x0D \<or> c = CHR 0x0A) b in
            if pass \<noteq> [] then fmupd name pass out else out))"

definition readClientsDir :: "auth_dir \<Rightarrow> int \<Rightarrow> string \<Rightarrow> string \<Rightarrow> string + (string, string) fmap" where
  "readClientsDir D now dir sharedUser = (case ad_ReadDir D now dir of
       Inl e \<Rightarrow> Inl e
     | Inr entries \<Rightarrow> Inr (fold (client_entry D now dir sharedUser) entries fmempty))"

text \<open>\<open>clientsNow\<close>; looking up in the nil map is looking up in the empty one.\<close>

definition load_clients :: "auth_dir \<Rightarrow> int \<Rightarrow> credentials \<Rightarrow> credentials" where
  "load_clients D now c = (case readClientsDir D now (cr_dir c) (cr_sharedUser c) of
       Inl e \<Rightarrow> c\<lparr>cr_loadedAt := now, cr_lastErr := e,
          cr_clients := Some (case cr_clients c of None \<Rightarrow> fmempty | Some m \<Rightarrow> m)\<rparr>
     | Inr m \<Rightarrow> c\<lparr>cr_loadedAt := now, cr_lastErr := [], cr_clients := Some m\<rparr>)"

definition clientsNow :: "auth_dir \<Rightarrow> int \<Rightarrow> credentials \<Rightarrow> (string, string) fmap \<times> credentials" where
  "clientsNow D now c =
     (if cr_dir c = [] then (fmempty, c)
      else let c' = (if cr_clients c \<noteq> None \<and> now - cr_loadedAt c < redfishClientsReload then c else load_clients D now c) in
        (case cr_clients c' of Some m \<Rightarrow> m | None \<Rightarrow> fmempty, c'))"

definition warnShared :: "int \<Rightarrow> credentials \<times> bus \<Rightarrow> credentials \<times> bus" where
  "warnShared now cb = (case cb of (c, b) \<Rightarrow>
     if (case cr_lastWarned c of Some t \<Rightarrow> now - t < 10 * 60 * second | None \<Rightarrow> False) then (c, b)
     else (c\<lparr>cr_lastWarned := Some now\<rparr>,
       act_RunWarn now ''auth'' ''Redfish call used the shared account; move this BMH to its own client credential''
         [(''user'', AStr (cr_sharedUser c))] b))"

definition shared_check :: "credentials \<Rightarrow> string \<Rightarrow> string \<Rightarrow> bool \<times> string" where
  "shared_check c user pass =
     (if user \<noteq> cr_sharedUser c then (False, ''bad-user'')
      else if \<not> creds_equal pass (cr_sharedPass c) then (False, ''bad-password'')
      else (True, []))"

definition creds_check :: "auth_dir \<Rightarrow> int \<Rightarrow> string \<Rightarrow> string \<Rightarrow> bool \<Rightarrow> credentials \<times> bus \<Rightarrow> (bool \<times> string) \<times> credentials \<times> bus" where
  "creds_check D now user pass redfishPath cb = (case cb of (c, b) \<Rightarrow>
     if redfishPath then
       (case clientsNow D now c of (clients, c) \<Rightarrow>
         (case fmlookup clients user of
            Some want \<Rightarrow> (if creds_equal pass want then (True, []) else (False, ''bad-password''), c, b)
          | None \<Rightarrow>
             if user = cr_sharedUser c \<and> \<not> cr_sharedRedfish c then ((False, ''shared-disabled''), c, b)
             else
               (case (if user = cr_sharedUser c \<and> creds_equal pass (cr_sharedPass c) \<and> 0 < go_len clients
                      then warnShared now (c, b) else (c, b)) of
                 (c, b) \<Rightarrow> (shared_check c user pass, c, b))))
     else (shared_check c user pass, c, b))"

section \<open>Middleware\<close>

definition headerForwardedUser :: string where "headerForwardedUser = ''X-Forwarded-User''"
definition headerForwardedEmail :: string where "headerForwardedEmail = ''X-Forwarded-Email''"

definition isHealthz :: "string \<Rightarrow> bool" where
  "isHealthz path \<longleftrightarrow> path = ''/healthz''"

definition isRedfishPath :: "string \<Rightarrow> bool" where
  "isRedfishPath path \<longleftrightarrow> path = ''/redfish'' \<or> HasPrefix path ''/redfish/''"

definition isPublicRedfishRoot :: "string \<Rightarrow> bool" where
  "isPublicRedfishRoot path \<longleftrightarrow> TrimSuffix path ''/'' \<in> {''/redfish'', ''/redfish/v1''}"

type_synonym server = "request \<Rightarrow> gw \<Rightarrow> reply \<times> gw"

definition gw_now :: "gw \<Rightarrow> int" where
  "gw_now g = w_clock (g_w g)"

definition gw_bus :: "bus \<Rightarrow> gw \<Rightarrow> gw" where
  "gw_bus b g = g\<lparr>g_w := (g_w g)\<lparr>w_bus := b\<rparr>\<rparr>"

definition gw_act :: "(int \<Rightarrow> string \<Rightarrow> string \<Rightarrow> detail \<Rightarrow> bus \<Rightarrow> bus) \<Rightarrow> string \<Rightarrow> string \<Rightarrow> detail \<Rightarrow> gw \<Rightarrow> gw" where
  "gw_act h op message detail g = gw_bus (h (gw_now g) op message detail (w_bus (g_w g))) g"

definition serve :: "server \<Rightarrow> request \<Rightarrow> 's \<times> gw \<Rightarrow> reply \<times> 's \<times> gw" where
  "serve nxt rq sg = (case nxt rq (snd sg) of (rep, g) \<Rightarrow> (rep, fst sg, g))"

definition authenticate :: "string \<Rightarrow> reply \<Rightarrow> reply" where
  "authenticate scheme rep = rep\<lparr>rp_Header := (''WWW-Authenticate'', scheme @ '' realm='' @ go_quote ''rf2vc'') # rp_Header rep\<rparr>"

definition basic_deny :: "request \<Rightarrow> string \<Rightarrow> string \<Rightarrow> 's \<times> gw \<Rightarrow> reply \<times> 's \<times> gw" where
  "basic_deny rq reason user sg =
     (authenticate ''Basic'' (http_Error ''Unauthorized'' 401), fst sg,
      gw_act act_InErr ''auth'' ''401 Unauthorized''
        [(''method'', AStr (rq_Method rq)), (''path'', AStr (rq_Path rq)), (''remote'', AStr (rq_RemoteAddr rq)),
         (''ua'', AStr (UserAgent rq)), (''reason'', AStr reason), (''user'', AStr user)] (snd sg))"

definition basicAuth :: "auth_dir \<Rightarrow> server \<Rightarrow> request \<Rightarrow> credentials \<times> gw \<Rightarrow> reply \<times> credentials \<times> gw" where
  "basicAuth D nxt rq cg =
     (if isHealthz (rq_Path rq) then serve nxt rq cg
      else if rq_Method rq = ''GET'' \<and> isPublicRedfishRoot (rq_Path rq) then serve nxt rq cg
      else case rq_BasicAuth rq of
          None \<Rightarrow> basic_deny rq ''missing'' [] cg
        | Some (u, p) \<Rightarrow>
            (case creds_check D (gw_now (snd cg)) u p (isRedfishPath (rq_Path rq)) (fst cg, w_bus (g_w (snd cg))) of
               ((ok, reason), c, b) \<Rightarrow>
                 if \<not> ok then basic_deny rq reason u (c, gw_bus b (snd cg))
                 else serve nxt (rq\<lparr>rq_Client := u\<rparr>) (c, gw_bus b (snd cg))))"

definition StatusText :: "nat \<Rightarrow> string" where
  "StatusText code = (if code = 401 then ''Unauthorized'' else if code = 403 then ''Forbidden''
     else if code = 503 then ''Service Unavailable'' else [])"

definition token_fail :: "request \<Rightarrow> nat \<Rightarrow> string \<Rightarrow> string \<Rightarrow> 's \<times> gw \<Rightarrow> reply \<times> 's \<times> gw" where
  "token_fail rq code reason user sg =
     ((if code = 401 then authenticate ''Bearer'' else id) (http_Error (StatusText code) code), fst sg,
      gw_act act_InErr ''auth'' (show_int (int code) @ '' '' @ StatusText code)
        [(''method'', AStr (rq_Method rq)), (''path'', AStr (rq_Path rq)), (''remote'', AStr (rq_RemoteAddr rq)),
         (''reason'', AStr reason), (''user'', AStr user)] (snd sg))"

definition unless_reading :: "string \<Rightarrow> string \<Rightarrow> request \<Rightarrow> gw \<Rightarrow> gw" where
  "unless_reading op user rq g =
     (if rq_Method rq \<noteq> ''GET'' \<and> rq_Method rq \<noteq> ''HEAD''
      then gw_act act_Run op (rq_Method rq @ '' '' @ rq_Path rq) [(''user'', AStr user)] g else g)"

type_synonym 's review_fun = "int \<Rightarrow> string \<Rightarrow> 's \<Rightarrow> (string \<times> rev_err option) \<times> 's"

definition bearer :: "request \<Rightarrow> string \<times> bool" where
  "bearer rq = CutPrefix (header_get rq ''Authorization'') ''Bearer ''"

definition identified :: "string \<Rightarrow> request \<Rightarrow> request" where
  "identified user rq = header_set headerForwardedUser user (header_del headerForwardedEmail rq)"

definition tokenAuth :: "'s review_fun \<Rightarrow> server \<Rightarrow> request \<Rightarrow> 's \<times> gw \<Rightarrow> reply \<times> 's \<times> gw" where
  "tokenAuth review nxt rq sg =
     (if isHealthz (rq_Path rq) then serve nxt rq sg
      else case bearer rq of (token, ok) \<Rightarrow>
        if \<not> ok \<or> TrimSpace token = [] then token_fail rq 401 ''missing-bearer'' [] sg
        else case review (gw_now (snd sg)) (TrimSpace token) (fst sg) of
            ((user, Some ErrUnauthenticated), s) \<Rightarrow> token_fail rq 401 ''invalid-token'' [] (s, snd sg)
          | ((user, Some ErrForbidden), s) \<Rightarrow> token_fail rq 403 ''forbidden'' user (s, snd sg)
          | ((user, Some (RevErr _)), s) \<Rightarrow> token_fail rq 503 ''review-failed'' user (s, snd sg)
          | ((user, None), s) \<Rightarrow>
              serve nxt (identified user rq) (s, unless_reading ''api'' user (identified user rq) (snd sg)))"

definition forwardedUser :: "request \<Rightarrow> string" where
  "forwardedUser rq = (let u = TrimSpace (header_get rq headerForwardedUser) in
     if u \<noteq> [] then u else TrimSpace (header_get rq headerForwardedEmail))"

definition proxyAuth :: "server \<Rightarrow> server" where
  "proxyAuth nxt rq g =
     (if isHealthz (rq_Path rq) then nxt rq g
      else let user = forwardedUser rq in
        if user = [] then (http_Error ''Unauthorized: sign in through the rf2vc Route'' 401, g)
        else nxt rq (unless_reading ''ui'' user rq g))"

text \<open>\<open>encoding/json\<close> writes the members of a map in the order of their keys.\<close>

definition gw_whoami :: "string \<Rightarrow> request \<Rightarrow> reply" where
  "gw_whoami mode rq =
     (let out = (if mode \<noteq> ''basic''
        then [(''email'', JStr (TrimSpace (header_get rq headerForwardedEmail))), (''mode'', JStr mode), (''user'', JStr (forwardedUser rq))]
        else case rq_BasicAuth rq of
            Some (u, _) \<Rightarrow> [(''mode'', JStr mode), (''user'', JStr u)]
          | None \<Rightarrow> [(''mode'', JStr mode)])
      in \<lparr>rp_Code = 200, rp_Header = [(''Content-Type'', ''application/json'')], rp_Body = JSONBody (JObj out)\<rparr>)"

section \<open>Files for oauth-proxy\<close>

text \<open>
  \<open>bcrypt.GenerateFromPassword\<close> and the outcomes of \<open>os.WriteFile\<close> are arguments; the result is the
  error, if any, and the files written.
\<close>

definition writeHtpasswd :: "(string \<Rightarrow> string + string) \<Rightarrow> (string \<Rightarrow> string \<Rightarrow> string option) \<Rightarrow> string \<Rightarrow> string \<Rightarrow> string
    \<Rightarrow> string option \<times> (string \<times> string) list" where
  "writeHtpasswd bcrypt write path user pass =
     (if user = [] \<or> pass = [] then (Some ''RF2VC_AUTH_USERNAME and RF2VC_AUTH_PASSWORD are required'', [])
      else if Contains user '':'' then (Some (''username must not contain '' @ [CHR 0x27] @ '':'' @ [CHR 0x27]), [])
      else case bcrypt pass of
          Inl e \<Rightarrow> (Some e, [])
        | Inr hash \<Rightarrow> (let content = user @ '':'' @ hash @ [CHR 0x0A] in
            case write path content of Some e \<Rightarrow> (Some e, []) | None \<Rightarrow> (None, [(path, content)])))"

section \<open>The credentials in force\<close>

lemma creds_equal_iff [simp]: "creds_equal a b \<longleftrightarrow> a = b"
  by (auto simp: creds_equal_def list_all2_eq [symmetric] list.rel_eq)

text \<open>
  What \<open>creds_check\<close> promises, as a specification over the map of client passwords: a client's own entry decides
  alone; otherwise the shared account, unless it is switched off for Redfish.
\<close>

definition accepted :: "credentials \<Rightarrow> (string, string) fmap \<Rightarrow> string \<Rightarrow> string \<Rightarrow> bool \<Rightarrow> bool" where
  "accepted c clients user pass redfishPath =
     (case (if redfishPath then fmlookup clients user else None) of
        Some want \<Rightarrow> pass = want
      | None \<Rightarrow> user = cr_sharedUser c \<and> pass = cr_sharedPass c \<and> (redfishPath \<longrightarrow> cr_sharedRedfish c))"

definition same_account :: "credentials \<Rightarrow> credentials \<Rightarrow> bool" where
  "same_account c c' \<longleftrightarrow> cr_sharedUser c' = cr_sharedUser c \<and> cr_sharedPass c' = cr_sharedPass c
     \<and> cr_sharedRedfish c' = cr_sharedRedfish c \<and> cr_dir c' = cr_dir c"

lemma load_clients_same: "same_account c (load_clients D now c)"
  by (simp add: load_clients_def same_account_def split: sum.split)

lemma clientsNow_same: "clientsNow D now c = (m, c') \<Longrightarrow> same_account c c'"
  using load_clients_same [of c D now] by (auto simp: clientsNow_def Let_def same_account_def split: if_splits)

lemma accepted_same: "same_account c c' \<Longrightarrow> accepted c' = accepted c"
  by (intro ext) (auto simp: accepted_def same_account_def split: option.split)

lemma warnShared_fields:
  "warnShared now (c, b) = (c', b') \<Longrightarrow> same_account c c' \<and> cr_clients c' = cr_clients c \<and> cr_loadedAt c' = cr_loadedAt c"
  by (auto simp: warnShared_def same_account_def split: if_splits)

lemma shared_check_iff: "fst (shared_check c user pass) \<longleftrightarrow> user = cr_sharedUser c \<and> pass = cr_sharedPass c"
  by (simp add: shared_check_def)

lemma creds_check_accepts:
  assumes "creds_check D now user pass rf (c, b) = ((ok, reason), c', b')"
  shows "ok = accepted c (fst (clientsNow D now c)) user pass rf"
proof (cases rf)
  case False
  with assms show ?thesis using shared_check_iff [of c user pass] by (auto simp: creds_check_def accepted_def)
next
  case True
  obtain m c1 where m: "clientsNow D now c = (m, c1)" by fastforce
  from clientsNow_same [OF m] have same: "same_account c c1" .
  show ?thesis
  proof (cases "fmlookup m user")
    case (Some want)
    with True m assms show ?thesis by (auto simp: creds_check_def accepted_def split: if_splits)
  next
    case None
    obtain c2 b2 where w: "warnShared now (c1, b) = (c2, b2)" by fastforce
    have sc: "fst (shared_check c2 user pass) = fst (shared_check c1 user pass)"
      using warnShared_fields [OF w] by (simp add: shared_check_iff same_account_def)
    from True None m assms w sc same shared_check_iff [of c1 user pass] show ?thesis
      by (auto simp: creds_check_def accepted_def same_account_def split: if_splits prod.splits)
  qed
qed

lemma creds_check_state:
  assumes "creds_check D now user pass rf (c, b) = (r, c', b')"
  shows "same_account c c' \<and> (let d = if rf then snd (clientsNow D now c) else c in
    cr_clients c' = cr_clients d \<and> cr_loadedAt c' = cr_loadedAt d)"
proof -
  obtain m c1 where m: "clientsNow D now c = (m, c1)" by fastforce
  obtain c2 b2 where w: "warnShared now (c1, b) = (c2, b2)" by fastforce
  from clientsNow_same [OF m] warnShared_fields [OF w] assms m w show ?thesis
    by (auto simp: creds_check_def same_account_def Let_def split: if_splits prod.splits option.splits)
qed

text \<open>The credentials as the gateway uses them: loads and checks, at times that do not go back.\<close>

inductive creds_reach :: "auth_dir \<Rightarrow> credentials \<Rightarrow> int \<Rightarrow> credentials \<Rightarrow> bool" for D :: auth_dir and c0 :: credentials where
  start: "creds_reach D c0 now c0"
| load: "creds_reach D c0 now c \<Longrightarrow> now \<le> now' \<Longrightarrow> creds_reach D c0 now' (snd (clientsNow D now' c))"
| check: "creds_reach D c0 now c \<Longrightarrow> now \<le> now' \<Longrightarrow>
    creds_reach D c0 now' (fst (snd (creds_check D now' user pass rf (c, b))))"

definition readable :: "auth_dir \<Rightarrow> string \<Rightarrow> string \<Rightarrow> bool" where
  "readable D dir sharedUser \<longleftrightarrow> (\<forall>t e. readClientsDir D t dir sharedUser \<noteq> Inl e)"

definition creds_inv :: "auth_dir \<Rightarrow> int \<Rightarrow> credentials \<Rightarrow> bool" where
  "creds_inv D now c \<longleftrightarrow> (\<forall>m. cr_clients c = Some m \<longrightarrow> cr_loadedAt c \<le> now
     \<and> (m = fmempty \<or> (\<exists>t \<le> cr_loadedAt c. readClientsDir D t (cr_dir c) (cr_sharedUser c) = Inr m))
     \<and> (readable D (cr_dir c) (cr_sharedUser c) \<longrightarrow> readClientsDir D (cr_loadedAt c) (cr_dir c) (cr_sharedUser c) = Inr m))"

lemma creds_inv_later: "creds_inv D now c \<Longrightarrow> now \<le> now' \<Longrightarrow> creds_inv D now' c"
  unfolding creds_inv_def by (meson order_trans)

lemma load_clients_inv: "creds_inv D now c \<Longrightarrow> now \<le> now' \<Longrightarrow> creds_inv D now' (load_clients D now' c)"
  by (cases "readClientsDir D now' (cr_dir c) (cr_sharedUser c)"; cases "cr_clients c")
    (auto simp: creds_inv_def load_clients_def readable_def intro: order_trans)

lemma clientsNow_inv: "creds_inv D now c \<Longrightarrow> now \<le> now' \<Longrightarrow> creds_inv D now' (snd (clientsNow D now' c))"
  by (auto simp: clientsNow_def Let_def intro: load_clients_inv creds_inv_later)

lemma creds_inv_cong:
  "same_account c c' \<Longrightarrow> cr_clients c' = cr_clients c \<Longrightarrow> cr_loadedAt c' = cr_loadedAt c \<Longrightarrow> creds_inv D now c \<Longrightarrow> creds_inv D now c'"
  by (simp add: creds_inv_def same_account_def)

lemma creds_check_inv:
  assumes "creds_inv D now c" "now \<le> now'" "creds_check D now' user pass rf (c, b) = (r, c', b')"
  shows "creds_inv D now' c'"
proof -
  let ?d = "if rf then snd (clientsNow D now' c) else c"
  from creds_check_state [OF assms(3)] have st: "same_account c c'" "cr_clients c' = cr_clients ?d" "cr_loadedAt c' = cr_loadedAt ?d"
    by (simp_all add: Let_def)
  have "same_account c ?d" using clientsNow_same [of D now' c] by (cases "clientsNow D now' c") (auto simp: same_account_def)
  with st(1) have "same_account ?d c'" by (simp add: same_account_def)
  moreover have "creds_inv D now' ?d" using assms(1,2) by (simp add: clientsNow_inv creds_inv_later)
  ultimately show ?thesis using st by (blast intro: creds_inv_cong)
qed

lemma creds_reach_inv: "creds_reach D (newCredentials u p dir sr) now c \<Longrightarrow>
  creds_inv D now c \<and> same_account (newCredentials u p dir sr) c"
proof (induction rule: creds_reach.induct)
  case (start now)
  then show ?case by (simp add: creds_inv_def newCredentials_def same_account_def)
next
  case (load now c now')
  then show ?case using clientsNow_same [of D now' c] clientsNow_inv [of D now c now']
    by (cases "clientsNow D now' c") (auto simp: same_account_def)
next
  case (check now c now' user pass rf b)
  obtain r c' b' where v: "creds_check D now' user pass rf (c, b) = (r, c', b')" by (metis prod.exhaust)
  from creds_check_state [OF v] creds_check_inv [OF _ _ v] check show ?case by (auto simp: v same_account_def)
qed

lemma clientsNow_fresh:
  assumes "creds_inv D now c" "now \<le> now'" "cr_dir c \<noteq> []" "readable D (cr_dir c) (cr_sharedUser c)"
  shows "\<exists>t \<le> now'. now' < t + redfishClientsReload \<and> readClientsDir D t (cr_dir c) (cr_sharedUser c) = Inr (fst (clientsNow D now' c))"
proof (cases "cr_clients c \<noteq> None \<and> now' - cr_loadedAt c < redfishClientsReload")
  case True
  then obtain m where "cr_clients c = Some m" by blast
  with True assms show ?thesis by (intro exI [of _ "cr_loadedAt c"]) (auto simp: clientsNow_def creds_inv_def)
next
  case False
  obtain m where "readClientsDir D now' (cr_dir c) (cr_sharedUser c) = Inr m"
    using assms(4) by (metis obj_sumE readable_def)
  with False assms(3) show ?thesis
    by (intro exI [of _ now']) (auto simp: clientsNow_def Let_def load_clients_def redfishClientsReload_def second_def)
qed

text \<open>
  C27: A Redfish password is the directory's, at most 15 seconds old. With a clients directory that can be
  read, after any sequence of loads and checks, a check on a Redfish path accepts exactly what the
  specification \<open>accepted\<close> accepts for the directory as it was less than 15 seconds ago: a client
  named in it by that client's password alone, anyone else only as the shared account and only while that
  is allowed on Redfish. A rotated or withdrawn Secret thus takes effect within 15 seconds.
\<close>

theorem redfish_password_in_force:
  assumes "creds_reach D (newCredentials u p dir sr) now c" "now \<le> now'" "dir \<noteq> []" "readable D dir u"
    "creds_check D now' user pass True (c, b) = ((ok, reason), c', b')"
  shows "\<exists>t m. t \<le> now' \<and> now' < t + 15 * second \<and> readClientsDir D t dir u = Inr m
    \<and> ok = accepted (newCredentials u p dir sr) m user pass True"
proof -
  from creds_reach_inv [OF assms(1)] have inv: "creds_inv D now c" and same: "same_account (newCredentials u p dir sr) c" by auto
  then have "cr_dir c = dir" "cr_sharedUser c = u" by (simp_all add: same_account_def newCredentials_def)
  with clientsNow_fresh [OF inv assms(2)] assms(3,4) obtain t where "t \<le> now'" "now' < t + redfishClientsReload"
    "readClientsDir D t dir u = Inr (fst (clientsNow D now' c))" by auto
  with creds_check_accepts [OF assms(5)] accepted_same [OF same] show ?thesis by (auto simp: redfishClientsReload_def)
qed

definition demo_auth_dir :: auth_dir where
  "demo_auth_dir = \<lparr>ad_ReadDir = (\<lambda>_ _. Inr [''..data'', ''node1'']), ad_ReadFile = (\<lambda>_ _. Inr (''secret'' @ [CHR 0x0A]))\<rparr>"

definition demo_creds :: credentials where
  "demo_creds = newCredentials ''admin'' ''pw'' ''/c'' True"

lemma demo_creds_check: "fst (creds_check demo_auth_dir 5 ''node1'' ''secret'' True (demo_creds, defaultBus)) = (True, [])"
  by code_simp

lemma demo_readable: "readable demo_auth_dir dir u"
  by (simp add: readable_def readClientsDir_def demo_auth_dir_def)

theorem redfish_password_in_force_witness:
  "\<exists>t m. t \<le> 5 \<and> 5 < t + 15 * second \<and> readClientsDir demo_auth_dir t ''/c'' ''admin'' = Inr m
    \<and> True = accepted demo_creds m ''node1'' ''secret'' True"
proof -
  obtain c' b' where v: "creds_check demo_auth_dir 5 ''node1'' ''secret'' True (newCredentials ''admin'' ''pw'' ''/c'' True, defaultBus) = ((True, []), c', b')"
    using demo_creds_check by (metis demo_creds_def prod.collapse)
  show ?thesis unfolding demo_creds_def
    by (rule redfish_password_in_force [OF creds_reach.start [where now = 5] _ _ demo_readable v]) simp_all
qed

section \<open>No account without a password\<close>

text \<open>The credentials as \<open>main\<close> makes them from the loaded configuration.\<close>

definition gateway_credentials :: "config \<Rightarrow> credentials" where
  "gateway_credentials cf = newCredentials (ac_Username (cf_Auth cf)) (ac_Password (cf_Auth cf))
     (ac_RedfishClientsDir (cf_Auth cf)) (\<not> ac_DisableSharedRedfish (cf_Auth cf))"

definition listed :: "string \<Rightarrow> (string, string) fmap \<Rightarrow> bool" where
  "listed sharedUser m \<longleftrightarrow> (\<forall>name pass. fmlookup m name = Some pass \<longrightarrow>
     pass \<noteq> [] \<and> name \<noteq> sharedUser \<and> \<not> HasPrefix name ''.'')"

lemma client_entry_listed: "listed u m \<Longrightarrow> listed u (client_entry D now dir u name m)"
  by (cases "ad_ReadFile D now (path_Join [dir, name])") (simp_all add: client_entry_def listed_def Let_def)

lemma readClientsDir_listed:
  assumes "readClientsDir D now dir u = Inr m"
  shows "listed u m"
proof -
  have "listed u m0 \<Longrightarrow> listed u (fold (client_entry D now dir u) names m0)" for names m0
    by (induction names arbitrary: m0) (simp_all add: client_entry_listed)
  moreover have "listed u fmempty" by (simp add: listed_def)
  moreover obtain names where "m = fold (client_entry D now dir u) names fmempty"
    using assms by (auto simp: readClientsDir_def split: sum.splits)
  ultimately show ?thesis by simp
qed

lemma clientsNow_listed:
  assumes "creds_inv D now c" "now \<le> now'"
  shows "listed (cr_sharedUser c) (fst (clientsNow D now' c))"
proof (cases "cr_dir c = []")
  case True
  then show ?thesis by (simp add: clientsNow_def listed_def)
next
  case False
  obtain m c' where m: "clientsNow D now' c = (m, c')" by fastforce
  with clientsNow_inv [OF assms] have "creds_inv D now' c'" by simp
  moreover have "cr_clients c' = Some m" using m False
    by (auto simp: clientsNow_def Let_def load_clients_def split: sum.splits)
  moreover have "same_account c c'" using m by (rule clientsNow_same)
  ultimately show ?thesis using m readClientsDir_listed by (auto simp: creds_inv_def same_account_def listed_def) blast+
qed

text \<open>
  No account works without a password. With credentials made from any configuration that loads, in
  any state they reach, a check never accepts an empty user or password for the shared account, an empty
  password for a client, or the names of the directory's own bookkeeping entries; and whoever is accepted off the Redfish
  paths is the shared account.
\<close>

theorem no_account_without_password:
  assumes "config_Load C path = Inr cf" "creds_reach D (gateway_credentials cf) now c" "now \<le> now'"
    "creds_check D now' user pass rf (c, b) = ((True, reason), c', b')"
  shows "pass \<noteq> [] \<and> (user = ac_Username (cf_Auth cf) \<longrightarrow> user \<noteq> [])
    \<and> (user = ac_Username (cf_Auth cf) \<and> pass = ac_Password (cf_Auth cf) \<or> rf \<and> \<not> HasPrefix user ''.'')"
proof -
  from config_Load_Inr [OF assms(1)] have ne: "ac_Username (cf_Auth cf) \<noteq> []" "ac_Password (cf_Auth cf) \<noteq> []" by metis+
  from creds_reach_inv [OF assms(2) [unfolded gateway_credentials_def]]
  have inv: "creds_inv D now c" and same: "same_account (gateway_credentials cf) c" by (auto simp: gateway_credentials_def)
  let ?m = "fst (clientsNow D now' c)"
  from creds_check_accepts [OF assms(4)] accepted_same [OF same]
  have acc: "accepted (gateway_credentials cf) ?m user pass rf" by simp
  have "listed (cr_sharedUser c) ?m" using clientsNow_listed [OF inv assms(3)] .
  then have "fmlookup ?m user = Some pass \<Longrightarrow> pass \<noteq> [] \<and> user \<noteq> ac_Username (cf_Auth cf) \<and> \<not> HasPrefix user ''.''"
    using same by (simp add: listed_def same_account_def gateway_credentials_def newCredentials_def)
  with acc ne show ?thesis
    by (auto simp: accepted_def gateway_credentials_def newCredentials_def split: option.splits if_splits)
qed

theorem no_account_without_password_witness:
  "''pw'' \<noteq> [] \<and> ''admin'' = ac_Username (cf_Auth demo_config) \<and> ''pw'' = ac_Password (cf_Auth demo_config)"
proof -
  have v: "creds_check demo_auth_dir 0 ''admin'' ''pw'' False (gateway_credentials demo_config, defaultBus)
      = ((True, []), gateway_credentials demo_config, defaultBus)" by code_simp
  from no_account_without_password [OF demo_config creds_reach.start [where now = 0] order_refl v] show ?thesis by blast
qed

section \<open>What a middleware lets through\<close>

text \<open>Nothing but the activity bus differs.\<close>

definition only_bus :: "gw \<Rightarrow> gw \<Rightarrow> bool" where
  "only_bus g g' \<longleftrightarrow> (\<exists>b. g' = gw_bus b g)"

lemma gw_bus_bus [simp]: "gw_bus b' (gw_bus b g) = gw_bus b' g"
  by (simp add: gw_bus_def)

lemma only_bus_simps [simp]: "only_bus g g" "only_bus g (gw_bus b g)" "only_bus g (gw_act h op m d g)" "only_bus g (unless_reading op user rq g)"
proof -
  have "gw_bus (w_bus (g_w g)) g = g" by (simp add: gw_bus_def)
  then show "only_bus g g" by (metis only_bus_def)
  then show "only_bus g (unless_reading op user rq g)" by (auto simp: unless_reading_def gw_act_def only_bus_def)
qed (auto simp: only_bus_def gw_act_def)

lemma only_bus_act: "only_bus g g' \<Longrightarrow> only_bus g (gw_act h op m d g')"
  by (auto simp: only_bus_def gw_act_def)

definition exempt :: "request \<Rightarrow> bool" where
  "exempt rq \<longleftrightarrow> isHealthz (rq_Path rq) \<or> rq_Method rq = ''GET'' \<and> isPublicRedfishRoot (rq_Path rq)"

lemma basicAuth_exempt: "exempt rq \<Longrightarrow> basicAuth D nxt rq cg = serve nxt rq cg"
  by (auto simp: basicAuth_def exempt_def)

lemma basicAuth_missing: "\<not> exempt rq \<Longrightarrow> rq_BasicAuth rq = None \<Longrightarrow> basicAuth D nxt rq cg = basic_deny rq ''missing'' [] cg"
  by (auto simp: basicAuth_def exempt_def)

lemma basicAuth_checked:
  assumes "\<not> exempt rq" "rq_BasicAuth rq = Some (u, p)"
    "creds_check D (gw_now g) u p (isRedfishPath (rq_Path rq)) (c, w_bus (g_w g)) = ((ok, reason), c', b')"
  shows "basicAuth D nxt rq (c, g) =
    (if ok then serve nxt (rq\<lparr>rq_Client := u\<rparr>) (c', gw_bus b' g) else basic_deny rq reason u (c', gw_bus b' g))"
proof -
  have n: "isHealthz (rq_Path rq) = False" "(rq_Method rq = ''GET'' \<and> isPublicRedfishRoot (rq_Path rq)) = False"
    using assms(1) by (auto simp: exempt_def)
  show ?thesis
    by (cases ok) (simp_all only: basicAuth_def n assms(2,3) fst_conv snd_conv option.case prod.case if_False if_True not_True_eq_False not_False_eq_True)
qed

lemma basic_deny_denies:
  "basic_deny rq reason u (s, g) = (rep, s', g') \<Longrightarrow>
     rp_Code rep = 401 \<and> map_of (rp_Header rep) ''WWW-Authenticate'' \<noteq> None \<and> (\<exists>b. g' = gw_bus b g)"
  by (auto simp: basic_deny_def authenticate_def gw_act_def)

text \<open>
  C22: Basic Auth lets nobody else through. Whatever handler it guards and whatever state it is in, a
  request off the health check and the Redfish roots reaches that handler only with a user and password
  that the specification accepts for the clients then in force, and it arrives with that user as its
  client; every other such request is answered 401 with a challenge, and of the gateway's state only the
  activity log changes.
\<close>

theorem basic_auth_guards:
  "case basicAuth D nxt rq (c, g) of (rep, c', g') \<Rightarrow>
     let clients = fst (clientsNow D (gw_now g) c) in
     case rq_BasicAuth rq of
       Some (u, p) \<Rightarrow>
         if exempt rq then (rep, g') = nxt rq g
         else if accepted c clients u p (isRedfishPath (rq_Path rq))
         then \<exists>g1. only_bus g g1 \<and> (rep, g') = nxt (rq\<lparr>rq_Client := u\<rparr>) g1
         else rp_Code rep = 401 \<and> map_of (rp_Header rep) ''WWW-Authenticate'' \<noteq> None \<and> only_bus g g'
     | None \<Rightarrow>
         if exempt rq then (rep, g') = nxt rq g
         else rp_Code rep = 401 \<and> map_of (rp_Header rep) ''WWW-Authenticate'' \<noteq> None \<and> only_bus g g'"
proof (cases "exempt rq")
  case True
  then show ?thesis by (simp add: basicAuth_exempt serve_def split: option.split prod.split)
next
  case False
  show ?thesis
  proof (cases "rq_BasicAuth rq")
    case None
    obtain rep s' g' where d: "basic_deny rq ''missing'' [] (c, g) = (rep, s', g')" by (metis prod.exhaust)
    with basic_deny_denies [OF d] None False show ?thesis by (auto simp: basicAuth_missing only_bus_def)
  next
    case (Some up)
    obtain u p where up: "up = (u, p)" by fastforce
    obtain ok reason c' b' where v: "creds_check D (gw_now g) u p (isRedfishPath (rq_Path rq)) (c, w_bus (g_w g)) = ((ok, reason), c', b')"
      by (metis prod.exhaust)
    obtain rep s' g' where d: "basic_deny rq reason u (c', gw_bus b' g) = (rep, s', g')" by (metis prod.exhaust)
    from basicAuth_checked [OF False _ v] Some up creds_check_accepts [OF v] False d basic_deny_denies [OF d] show ?thesis
      by (auto simp: serve_def only_bus_def split: prod.split intro!: exI [of _ "gw_bus b' g"])
  qed
qed

section \<open>Token reviewers\<close>

text \<open>
  The interface \<open>tokenReviewer\<close> and what \<open>tokenAuth\<close> needs of it: reviews keep \<open>ok\<close>, which says that
  the state is one the reviewer has at that time, and a token that is accepted is vouched for.
\<close>

locale token_reviewer =
  fixes review :: "int \<Rightarrow> string \<Rightarrow> 's \<Rightarrow> (string \<times> rev_err option) \<times> 's"
    and ok :: "int \<Rightarrow> 's \<Rightarrow> bool"
    and vouched_for :: "int \<Rightarrow> string \<Rightarrow> string \<Rightarrow> 's \<Rightarrow> bool"
  assumes review_ok: "ok t s \<Longrightarrow> t \<le> now \<Longrightarrow> review now token s = (r, s') \<Longrightarrow> ok now s'"
    and review_vouched: "ok t s \<Longrightarrow> t \<le> now \<Longrightarrow> review now token s = ((user, None), s') \<Longrightarrow> vouched_for now token user s'"
begin

lemma tokenAuth_lets_through:
  assumes "ok t s" "t \<le> gw_now g" "\<not> isHealthz (rq_Path rq)" "tokenAuth review nxt rq (s, g) = (rep, s', g')"
  shows "rp_Code rep \<in> {401, 403, 503} \<and> only_bus g g' \<or>
    (\<exists>token user g1. bearer rq = (token, True) \<and> TrimSpace token \<noteq> [] \<and> vouched_for (gw_now g) (TrimSpace token) user s'
      \<and> only_bus g g1 \<and> (rep, g') = nxt (identified user rq) g1)"
proof -
  obtain token b where tb: "bearer rq = (token, b)" by fastforce
  show ?thesis
  proof (cases "\<not> b \<or> TrimSpace token = []")
    case True
    with tb assms(3,4) show ?thesis by (auto simp: tokenAuth_def token_fail_def authenticate_def)
  next
    case False
    obtain user e s1 where r: "review (gw_now g) (TrimSpace token) s = ((user, e), s1)" by (metis prod.exhaust)
    show ?thesis
    proof (cases e)
      case None
      let ?g = "unless_reading ''api'' user (identified user rq) g"
      from tb False r None assms(3,4) have "s' = s1" "(rep, g') = nxt (identified user rq) ?g"
        by (auto simp: tokenAuth_def serve_def split: prod.splits)
      moreover have "vouched_for (gw_now g) (TrimSpace token) user s1"
        using review_vouched [OF assms(1,2)] r None by simp
      ultimately show ?thesis using tb False by (intro disjI2 exI [of _ token] exI [of _ user] exI [of _ ?g]) simp
    next
      case (Some err)
      with tb False r assms(3,4) show ?thesis
        by (cases err) (auto simp: tokenAuth_def token_fail_def authenticate_def)
    qed
  qed
qed

lemma tokenAuth_keeps_ok:
  assumes "ok t s" "t \<le> gw_now g" "tokenAuth review nxt rq (s, g) = (rep, s', g')"
  shows "ok (gw_now g) s' \<or> s' = s"
proof -
  obtain token b where tb: "bearer rq = (token, b)" by fastforce
  obtain r s1 where r: "review (gw_now g) (TrimSpace token) s = (r, s1)" by fastforce
  with review_ok [OF assms(1,2)] have "ok (gw_now g) s1" by blast
  with tb r assms(3) show ?thesis
    by (auto simp: tokenAuth_def token_fail_def serve_def split: if_splits prod.splits option.splits rev_err.splits)
qed

end

interpretation kube_tokens: token_reviewer "Review V" "\<lambda>now rh. review_reach V (review_New base attrs) now rh"
    "\<lambda>now token user rh. vouched V (review_New base attrs) now token user (snd rh)" for V base attrs
proof
  fix t s now token r s'
  assume "review_reach V (review_New base attrs) t s" "t \<le> now" "Review V now token s = (r, s')"
  then show "review_reach V (review_New base attrs) now s'"
    using review_reach.review [of V "review_New base attrs" t s now token] by simp
next
  fix t s now token user s'
  assume a: "review_reach V (review_New base attrs) t s" "t \<le> now" "Review V now token s = ((user, None), s')"
  obtain r h r' h' where s: "s = (r, h)" "s' = (r', h')" by fastforce
  from review_reach_inv [OF a(1)] s have inv: "cache_inv V t (r, h)" and same: "same_reviewer (review_New base attrs) r" by auto
  from Review_vouched [OF cache_inv_later [OF inv a(2)]] a(3) s have "vouched V r now token user h'" by blast
  with grant_same [OF same] same s show "vouched V (review_New base attrs) now token user (snd s')"
    by (simp add: vouched_def same_reviewer_def)
qed

lemma forwardedUser_identified: "forwardedUser (identified user rq) = TrimSpace user"
  by (auto simp: forwardedUser_def identified_def headerForwardedUser_def headerForwardedEmail_def Let_def)

text \<open>
  C23: The API listener forwards only vouched callers, under their own name. Behind the Kubernetes
  reviewer, a request off the health check either is answered 401, 403 or 503, with only the activity log
  changed, or carries a bearer token whose user the API server named and allowed within the last 30
  seconds; then the guarded handler runs with exactly that user as forwarded user, whatever identity
  headers the caller sent.
\<close>

theorem token_auth_forwards_vouched:
  assumes "review_reach V (review_New base attrs) t s" "t \<le> gw_now g" "\<not> isHealthz (rq_Path rq)"
    "tokenAuth (Review V) nxt rq (s, g) = (rep, s', g')"
  shows "rp_Code rep \<in> {401, 403, 503} \<and> only_bus g g' \<or>
    (\<exists>token user rq' g1. bearer rq = (token, True) \<and> vouched V (review_New base attrs) (gw_now g) (TrimSpace token) user (snd s')
      \<and> forwardedUser rq' = TrimSpace user \<and> header_get rq' headerForwardedEmail = [] \<and> rq_Path rq' = rq_Path rq
      \<and> only_bus g g1 \<and> (rep, g') = nxt rq' g1)"
proof -
  have "header_get (identified user rq) headerForwardedEmail = []" "rq_Path (identified user rq) = rq_Path rq" for user
    by (auto simp: identified_def headerForwardedUser_def headerForwardedEmail_def) (simp add: header_set_def header_del_def)
  with kube_tokens.tokenAuth_lets_through [OF assms] forwardedUser_identified show ?thesis by metis
qed

definition demo_next :: server where
  "demo_next rq g = (WriteHeader 200, g)"

definition demo_token_rq :: request where
  "demo_token_rq = (demo_rq ''POST'' ''/api/v1/vcenters'' [])\<lparr>rq_Header := [(''Authorization'', ''Bearer tok''), (''X-Forwarded-User'', ''mallory'')]\<rparr>"

definition demo_reviewer :: "reviewer \<times> rhist" where
  "demo_reviewer = (review_New ''k/'' demo_attrs, [])"

theorem token_auth_forwards_vouched_witness:
  "case tokenAuth (Review demo_rev) demo_next demo_token_rq (demo_reviewer, demo_gw) of (rep, s', g') \<Rightarrow>
     rp_Code rep = 200 \<and> (rp_Code rep \<in> {401, 403, 503} \<and> only_bus demo_gw g' \<or>
    (\<exists>token user rq' g1. bearer demo_token_rq = (token, True)
      \<and> vouched demo_rev (review_New ''k/'' demo_attrs) (gw_now demo_gw) (TrimSpace token) user (snd s')
      \<and> forwardedUser rq' = TrimSpace user \<and> header_get rq' headerForwardedEmail = [] \<and> rq_Path rq' = rq_Path demo_token_rq
      \<and> only_bus demo_gw g1 \<and> (rep, g') = demo_next rq' g1))"
proof -
  obtain rep s' g' where v: "tokenAuth (Review demo_rev) demo_next demo_token_rq (demo_reviewer, demo_gw) = (rep, s', g')"
    by (metis prod.exhaust)
  have "rp_Code (fst (tokenAuth (Review demo_rev) demo_next demo_token_rq (demo_reviewer, demo_gw))) = 200" by code_simp
  moreover have "review_reach demo_rev (review_New ''k/'' demo_attrs) (gw_now demo_gw) demo_reviewer"
    unfolding demo_reviewer_def by (rule review_reach.start)
  moreover have "\<not> isHealthz (rq_Path demo_token_rq)" by code_simp
  ultimately have "rp_Code rep = 200"
    and "rp_Code rep \<in> {401, 403, 503} \<and> only_bus demo_gw g' \<or>
      (\<exists>token user rq' g1. bearer demo_token_rq = (token, True)
        \<and> vouched demo_rev (review_New ''k/'' demo_attrs) (gw_now demo_gw) (TrimSpace token) user (snd s')
        \<and> forwardedUser rq' = TrimSpace user \<and> header_get rq' headerForwardedEmail = [] \<and> rq_Path rq' = rq_Path demo_token_rq
        \<and> only_bus demo_gw g1 \<and> (rep, g') = demo_next rq' g1)"
    using token_auth_forwards_vouched [OF _ order_refl _ v] by (simp only: v fst_conv, blast)
  then show ?thesis by (simp only: v prod.case simp_thms)
qed

section \<open>The break-glass entry\<close>

text \<open>
  The htpasswd entry names its user. When \<open>writeHtpasswd\<close> succeeds, it has written the one file
  asked for, with one entry that splits at its first colon into exactly the user and the bcrypt hash of
  the password; when it fails, it has written nothing.
\<close>

theorem htpasswd_entry_names_its_user:
  "case writeHtpasswd bcrypt write path user pass of
     (None, fs) \<Rightarrow> (\<exists>hash content. bcrypt pass = Inr hash \<and> fs = [(path, content)] \<and> user \<noteq> [] \<and> pass \<noteq> []
       \<and> CutChar content CHR '':'' = (user, hash @ [CHR 0x0A], True))
   | (Some e, fs) \<Rightarrow> fs = []"
proof -
  have cut: "CutChar (user @ CHR '':'' # r) CHR '':'' = (user, r, True)" if "\<not> Contains user '':''" for r
  proof -
    have "CHR '':'' \<notin> set user"
    proof
      assume "CHR '':'' \<in> set user"
      then obtain a b where "user = a @ CHR '':'' # b" by (meson split_list)
      then have "Contains user '':''" by (auto simp: Contains_def sublist_def)
      with that show False ..
    qed
    then show ?thesis by (rule CutChar_at)
  qed
  show ?thesis
    by (auto simp: writeHtpasswd_def Let_def cut split: sum.split option.split)
qed

end
