(* ===== verification/Vcsync.thy ===== *)
theory Vcsync
  imports Redfish
begin

text \<open>
  vCenter definitions in ConfigMaps (\<open>internal/vcsync/vcsync.go\<close>): loaded into the store at startup,
  written back for vCenters made in the UI. \<open>yaml.Marshal\<close> and \<open>yaml.Unmarshal\<close> are parameters; the
  \<open>log\<close> lines are left out. Errors are \<open>kube_err\<close>s, which keep whether \<open>errors.Is(err, ErrNotFound)\<close>.
\<close>

section \<open>Data\<close>

definition LabelVCenter :: string where "LabelVCenter = ''rf2vc.dasmlab.org/vcenter''"
definition LabelOrigin :: string where "LabelOrigin = ''rf2vc.dasmlab.org/origin''"
definition DataKey :: string where "DataKey = ''vcenter.yaml''"
definition namePrefix :: string where "namePrefix = ''rf2vc-vc-''"
definition defaultPassKey :: string where "defaultPassKey = ''password''"

record spec =
  sp_ID :: string
  sp_Name :: string
  sp_URL :: string
  sp_Username :: string
  sp_Insecure :: bool
  sp_Datacenter :: string
  sp_Datastore :: string
  sp_Folder :: string
  sp_ISOFolder :: string
  sp_Notes :: string
  sp_DryRun :: "bool option"
  sp_CredentialsSecret :: "secret_ref option"

text \<open>Decoding gives the error, if any, and what was filled in up to then.\<close>

record yaml_env =
  ye_Unmarshal :: "string \<Rightarrow> string option \<times> spec"
  ye_Marshal :: "spec \<Rightarrow> string"

type_synonym 'a sio = "(kube_err, 'a) gio"

text \<open>\<open>SyncEnv\<close>: the gateway's environment, the YAML library and the Kubernetes client.\<close>

record sync_env =
  sy_gw :: gw_env
  sy_yaml :: yaml_env
  sy_kc :: kube_client

definition sync_K :: "sync_env \<Rightarrow> kube_env" where
  "sync_K S = ge_kube (sy_gw S)"

definition map_errE :: "('e \<Rightarrow> 'f) \<Rightarrow> ('s, 'e, 'a) eio \<Rightarrow> ('s, 'f, 'a) eio" where
  "map_errE f m = tryE m (\<lambda>r. case r of Inl e \<Rightarrow> failE (f e) | Inr x \<Rightarrow> retE x)"

definition sync_write :: "sync_env \<Rightarrow> (store_env \<Rightarrow> store \<Rightarrow> 'a store_result) \<Rightarrow> 'a sio" where
  "sync_write S f = map_errE kube_errorf (store_write (sy_gw S) f)"

definition cm_label :: "configmap \<Rightarrow> string \<Rightarrow> string" where
  "cm_label cm k = map_get (om_Labels (cm_Metadata cm)) k"

section \<open>Names\<close>

definition dns_char :: "char \<Rightarrow> bool" where
  "dns_char c = (let n = of_char c :: nat in (97 \<le> n \<and> n \<le> 122) \<or> (48 \<le> n \<and> n \<le> 57) \<or> c = CHR ''-'')"

text \<open>\<open>ReplaceAllString\<close> of every longest run of \<open>P\<close> by one dash.\<close>

fun dash_runs :: "(char \<Rightarrow> bool) \<Rightarrow> string \<Rightarrow> string" where
  "dash_runs P [] = []"
| "dash_runs P (c # cs) =
     (if \<not> P c then c # dash_runs P cs
      else if cs \<noteq> [] \<and> P (hd cs) then dash_runs P cs
      else CHR ''-'' # dash_runs P cs)"

definition slug :: "string \<Rightarrow> string \<Rightarrow> string" where
  "slug name fallback =
     (let s = dash_runs (\<lambda>c. \<not> dns_char c) (ToLower (TrimSpace name));
          s = TrimChar (dash_runs ((=) CHR ''-'') s) CHR ''-'';
          s = (if 40 < length s then trim_right ((=) CHR ''-'') (take 40 s) else s)
      in if s = [] then fallback else s)"

section \<open>Writing\<close>

definition vc_spec :: "vcenter \<Rightarrow> secret_ref \<Rightarrow> spec" where
  "vc_spec vc ref = \<lparr>sp_ID = vc_ID vc, sp_Name = vc_Name vc, sp_URL = vc_URL vc, sp_Username = vc_Username vc,
     sp_Insecure = vc_Insecure vc, sp_Datacenter = vc_Datacenter vc, sp_Datastore = vc_Datastore vc,
     sp_Folder = vc_Folder vc, sp_ISOFolder = vc_ISOFolder vc, sp_Notes = vc_Notes vc,
     sp_DryRun = (if vc_DryRun vc then Some True else None), sp_CredentialsSecret = Some ref\<rparr>"

definition pass_key :: "secret_ref \<Rightarrow> string" where
  "pass_key ref = (if sr_PasswordKey ref = [] then defaultPassKey else sr_PasswordKey ref)"

definition render_note :: "secret_ref \<Rightarrow> string" where
  "render_note ref =
     ''Written by rf2vc for a vCenter defined in the UI. The password is not stored here: put it in Secret ''
     @ sr_Name ref @ '' (key '' @ pass_key ref @ ''), e.g. via VSO. To manage this vCenter from Git, commit this ConfigMap with label ''
     @ LabelOrigin @ '': gitops.''"

definition Render :: "yaml_env \<Rightarrow> vcenter \<Rightarrow> string \<Rightarrow> secret_ref \<Rightarrow> configmap" where
  "Render Y vc name ref = \<lparr>cm_APIVersion = [], cm_Kind = [],
     cm_Metadata = \<lparr>om_Name = name, om_Namespace = [],
       om_Labels = fmap_of_list [(''app'', ''rf2vc''), (LabelVCenter, ''true''), (LabelOrigin, OriginRuntime)],
       om_Annotations = fmap_of_list [(''rf2vc.dasmlab.org/note'', render_note ref)], om_ResourceVersion = []\<rparr>,
     cm_Data = fmap_of_list [(DataKey, ye_Marshal Y (vc_spec vc ref))]\<rparr>"

fun free_among :: "sync_env \<Rightarrow> vcenter \<Rightarrow> string list \<Rightarrow> (string \<times> configmap option) sio" where
  "free_among S vc [] = failE (kube_errorf (''no free ConfigMap name for vCenter '' @ go_quote (vc_Name vc)))"
| "free_among S vc (name # names) = tryE (on_kube (GetConfigMap (sync_K S) (sy_kc S) name)) (\<lambda>r. case r of
       Inl e \<Rightarrow> if ke_NotFound e then retE (name, None) else failE e
     | Inr cm \<Rightarrow>
         if sp_ID (snd (ye_Unmarshal (sy_yaml S) (map_get (cm_Data cm) DataKey))) = vc_ID vc
           \<and> cm_label cm LabelOrigin = OriginRuntime
         then retE (name, Some cm) else free_among S vc names)"

definition freeName :: "sync_env \<Rightarrow> vcenter \<Rightarrow> (string \<times> configmap option) sio" where
  "freeName S vc = (let base = namePrefix @ slug (vc_Name vc) (vc_ID vc) in
     free_among S vc [base, base @ ''-'' @ take 6 (vc_ID vc)])"

definition not_owned :: "string \<Rightarrow> kube_err" where
  "not_owned name = kube_errorf (''ConfigMap '' @ name @ '' is not rf2vc-owned (no '' @ LabelOrigin @ ''=runtime label); not overwriting'')"

definition own_name :: "sync_env \<Rightarrow> string \<Rightarrow> (string \<times> configmap option) sio" where
  "own_name S name = tryE (on_kube (GetConfigMap (sync_K S) (sy_kc S) name)) (\<lambda>r. case r of
       Inr cm \<Rightarrow> if cm_label cm LabelOrigin \<noteq> OriginRuntime then failE (not_owned name) else retE (name, Some cm)
     | Inl e \<Rightarrow> if ke_NotFound e then retE (name, None) else failE e)"

definition write_cm :: "sync_env \<Rightarrow> configmap option \<Rightarrow> configmap \<Rightarrow> string sio" where
  "write_cm S existing cm = (case existing of
       Some ex \<Rightarrow> bindE (on_kube (UpdateConfigMap (sync_K S) (sy_kc S)
          (cm\<lparr>cm_Metadata := (cm_Metadata cm)\<lparr>om_ResourceVersion := om_ResourceVersion (cm_Metadata ex)\<rparr>\<rparr>))) (\<lambda>_. retE ''updated'')
     | None \<Rightarrow> bindE (on_kube (CreateConfigMap (sync_K S) (sy_kc S) cm)) (\<lambda>_. retE ''created''))"

definition secret_for :: "vcenter \<Rightarrow> string \<Rightarrow> secret_ref" where
  "secret_for vc name = (case vc_CredentialsSecret vc of
       Some ref \<Rightarrow> ref
     | None \<Rightarrow> \<lparr>sr_Name = name, sr_PasswordKey = defaultPassKey, sr_UsernameKey = []\<rparr>)"

definition export :: "sync_env \<Rightarrow> vcenter \<Rightarrow> unit sio" where
  "export S vc =
     bindE (if vc_ConfigMap vc = [] then freeName S vc else own_name S (vc_ConfigMap vc)) (\<lambda>(name, existing).
       let ref = secret_for vc name in
       bindE (write_cm S existing (Render (sy_yaml S) vc name ref)) (\<lambda>verb.
       thenE (sync_write S (\<lambda>se. SetVCenterConfigMap se (vc_ID vc) name OriginRuntime (Some ref)))
         (gact act_Run ''configmap'' (''runtime ConfigMap '' @ verb)
           [(''configMap'', AStr name), (''name'', AStr (vc_Name vc)), (''vcenterId'', AStr (vc_ID vc))])))"

section \<open>Reading\<close>

text \<open>The password, a note about the Secret and the record, whose username the Secret may replace.\<close>

definition sync_credentials :: "sync_env \<Rightarrow> secret_ref option \<Rightarrow> vcenter \<Rightarrow> (string \<times> string \<times> vcenter) sio" where
  "sync_credentials S r vc = (case r of
       None \<Rightarrow> retE ([], [], vc)
     | Some ref \<Rightarrow>
         if sr_Name ref = [] then retE ([], [], vc)
         else tryE (on_kube (GetSecretData (sync_K S) (sy_kc S) (sr_Name ref))) (\<lambda>r. case r of
             Inl e \<Rightarrow> if ke_NotFound e then retE ([], ''Secret '' @ sr_Name ref @ '' not found'', vc) else retE ([], ke_text e, vc)
           | Inr data \<Rightarrow>
               let u = (if sr_UsernameKey ref \<noteq> [] then TrimSpace (map_get data (sr_UsernameKey ref)) else []);
                   vc = (if u \<noteq> [] then vc\<lparr>vc_Username := u\<rparr> else vc);
                   pw = map_get data (pass_key ref)
               in if pw = [] then retE ([], ''Secret '' @ sr_Name ref @ '' has no key '' @ go_quote (pass_key ref), vc)
                  else retE (pw, [], vc)))"

definition passwordState :: "vcenter \<Rightarrow> string" where
  "passwordState vc = (if \<not> vc_HasPassword vc then ''missing''
     else if vc_PasswordSource vc = PasswordFromSecret then ''from secret'' else ''manual (UI)'')"

definition cm_origin :: "configmap \<Rightarrow> string" where
  "cm_origin cm = (if cm_label cm LabelOrigin = OriginRuntime then OriginRuntime else OriginGitOps)"

definition cm_vcenter :: "configmap \<Rightarrow> spec \<Rightarrow> vcenter" where
  "cm_vcenter cm sp = vcenter_zero\<lparr>vc_ID := sp_ID sp, vc_Name := sp_Name sp, vc_URL := sp_URL sp, vc_Username := sp_Username sp,
     vc_Insecure := sp_Insecure sp, vc_Datacenter := sp_Datacenter sp, vc_Datastore := sp_Datastore sp, vc_Folder := sp_Folder sp,
     vc_ISOFolder := sp_ISOFolder sp, vc_Notes := sp_Notes sp, vc_ConfigMap := om_Name (cm_Metadata cm),
     vc_ConfigOrigin := cm_origin cm, vc_CredentialsSecret := sp_CredentialsSecret sp\<rparr>"

definition apply_cm :: "sync_env \<Rightarrow> configmap \<Rightarrow> vcenter sio" where
  "apply_cm S cm = (case fmlookup (cm_Data cm) DataKey of
       None \<Rightarrow> failE (kube_errorf (''missing data key '' @ go_quote DataKey))
     | Some raw \<Rightarrow> (case ye_Unmarshal (sy_yaml S) raw of
         (Some e, _) \<Rightarrow> failE (kube_errorf (''parse '' @ DataKey @ '': '' @ e))
       | (None, sp) \<Rightarrow>
           bindE (sync_credentials S (sp_CredentialsSecret sp) (cm_vcenter cm sp)) (\<lambda>(password, note, inp).
           bindE (sync_write S (\<lambda>se. ApplyConfigVCenter se inp (sp_DryRun sp) password)) (\<lambda>vc.
           thenE (gact act_Run ''configmap'' ''vCenter loaded from ConfigMap''
              ([(''configMap'', AStr (om_Name (cm_Metadata cm))), (''origin'', AStr (cm_origin cm)), (''name'', AStr (vc_Name vc)),
                (''vcenterId'', AStr (vc_ID vc)), (''password'', AStr (passwordState vc))]
               @ (if note \<noteq> [] then [(''secret'', AStr note)] else [])))
             (retE vc)))))"

section \<open>The operations\<close>

text \<open>The two loops of \<open>Startup\<close>: a ConfigMap or vCenter that fails is reported and skipped.\<close>

fun apply_all :: "sync_env \<Rightarrow> configmap list \<Rightarrow> string list sio" where
  "apply_all S [] = retE []"
| "apply_all S (cm # cms) = tryE (apply_cm S cm) (\<lambda>r. case r of
       Inl e \<Rightarrow> thenE (gact act_RunErr ''configmap'' (ke_text e) [(''configMap'', AStr (om_Name (cm_Metadata cm)))]) (apply_all S cms)
     | Inr vc \<Rightarrow> bindE (apply_all S cms) (\<lambda>ids. retE (vc_ID vc # ids)))"

definition export_one :: "sync_env \<Rightarrow> vcenter \<Rightarrow> unit sio" where
  "export_one S vc =
     thenE (if vc_ConfigMap vc \<noteq> [] then gact act_RunWarn ''configmap'' ''ConfigMap is gone; writing it again as runtime''
          [(''configMap'', AStr (vc_ConfigMap vc)), (''name'', AStr (vc_Name vc))] else retE ())
       (tryE (export S vc) (\<lambda>r. case r of
          Inl e \<Rightarrow> gact act_RunErr ''configmap'' (ke_text e) [(''vcenterId'', AStr (vc_ID vc)), (''name'', AStr (vc_Name vc))]
        | Inr _ \<Rightarrow> retE ()))"

fun export_all :: "sync_env \<Rightarrow> string list \<Rightarrow> vcenter list \<Rightarrow> unit sio" where
  "export_all S fromCM [] = retE ()"
| "export_all S fromCM (vc # vcs) =
     (if vc_ID vc \<in> set fromCM then export_all S fromCM vcs
      else thenE (export_one S vc) (export_all S fromCM vcs))"

definition Startup :: "sync_env \<Rightarrow> unit sio" where
  "Startup S =
     bindE (map_errE (\<lambda>e. KErr (ke_NotFound e) (''list vCenter ConfigMaps: '' @ ke_text e))
         (on_kube (ListConfigMaps (sync_K S) (sy_kc S) (LabelVCenter @ ''=true'')))) (\<lambda>cms.
     bindE (apply_all S cms) (\<lambda>fromCM.
     bindE (store_list (sy_gw S) (\<lambda>se. ListVCenters (se_vorder se))) (\<lambda>vcs. export_all S fromCM vcs)))"

definition Saved :: "sync_env \<Rightarrow> string \<Rightarrow> unit sio" where
  "Saved S vid = bindE (store_read (GetVCenter vid)) (\<lambda>v. case v of
       None \<Rightarrow> retE ()
     | Some vc \<Rightarrow> if vc_ConfigOrigin vc = OriginGitOps then retE () else export S vc)"

definition CheckDelete :: "string \<Rightarrow> unit sio" where
  "CheckDelete vid = bindE (store_read (GetVCenter vid)) (\<lambda>v. case v of
       Some vc \<Rightarrow> if vc_ConfigOrigin vc = OriginGitOps
         then failE (kube_errorf (''vCenter '' @ go_quote (vc_Name vc) @ '' is defined in ConfigMap '' @ vc_ConfigMap vc @ '' (GitOps); remove it there''))
         else retE ()
     | None \<Rightarrow> retE ())"

definition Deleted :: "sync_env \<Rightarrow> vcenter \<Rightarrow> unit sio" where
  "Deleted S vc =
     (if vc_ConfigOrigin vc \<noteq> OriginRuntime \<or> vc_ConfigMap vc = [] then retE ()
      else thenE (on_kube (DeleteConfigMap (sync_K S) (sy_kc S) (vc_ConfigMap vc)))
        (gact act_Run ''configmap'' ''runtime ConfigMap deleted'' [(''configMap'', AStr (vc_ConfigMap vc)), (''name'', AStr (vc_Name vc))]))"

section \<open>What the Kubernetes API sees\<close>

text \<open>\<open>kube_steps P h h'\<close>: the history grew, and every new exchange satisfies \<open>P\<close> after those before it.\<close>

definition kube_steps :: "(khist \<Rightarrow> kcall \<times> (string + int) \<Rightarrow> bool) \<Rightarrow> khist \<Rightarrow> khist \<Rightarrow> bool" where
  "kube_steps P h h' \<longleftrightarrow> (\<exists>l. h' = h @ l \<and> (\<forall>a x b. l = a @ x # b \<longrightarrow> P (h @ a) x))"

lemma kube_steps_refl [simp]: "kube_steps P h h"
  by (simp add: kube_steps_def)

lemma kube_steps_one: "P h x \<Longrightarrow> kube_steps P h (h @ [x])"
  unfolding kube_steps_def by (intro exI [of _ "[x]"]) (auto simp: append_eq_Cons_conv Cons_eq_append_conv)

lemma kube_steps_trans:
  assumes "kube_steps P h h1" "kube_steps P h1 h2"
  shows "kube_steps P h h2"
proof -
  from assms obtain l l' where l: "h1 = h @ l" "\<And>a x b. l = a @ x # b \<Longrightarrow> P (h @ a) x"
    "h2 = h1 @ l'" "\<And>a x b. l' = a @ x # b \<Longrightarrow> P (h1 @ a) x" by (auto simp: kube_steps_def)
  have "P (h @ a) x" if e: "l @ l' = a @ x # b" for a x b
  proof (cases "length a < length l")
    case True
    then have "take (Suc (length a)) (l @ l') = take (Suc (length a)) l" by simp
    moreover have "take (Suc (length a)) (a @ x # b) = a @ [x]" by simp
    ultimately have "l = (a @ [x]) @ drop (Suc (length a)) l" using e by (metis append_take_drop_id)
    then show ?thesis using l(2) [of a x "drop (Suc (length a)) l"] by simp
  next
    case False
    with e obtain c where c: "a = l @ c" "l' = c @ x # b" by (auto simp: append_eq_append_conv2 Cons_eq_append_conv)
    from l(4) [OF c(2)] show ?thesis by (simp add: c(1) l(1))
  qed
  with l show ?thesis unfolding kube_steps_def by (intro exI [of _ "l @ l'"]) auto
qed

definition kube_rel :: "(khist \<Rightarrow> kcall \<times> (string + int) \<Rightarrow> bool) \<Rightarrow> gw \<Rightarrow> gw \<Rightarrow> bool" where
  "kube_rel P g g' \<longleftrightarrow> kube_steps P (g_kube g) (g_kube g')"

lemma kube_rel_preorder [simp, keeps_intro]: "preorder_rel (kube_rel P)"
  by (auto simp: preorder_rel_def reflp_def transp_def kube_rel_def intro: kube_steps_trans)

lemma keeps_map_errE [keeps_intro]: "preorder_rel R \<Longrightarrow> keeps R m \<Longrightarrow> keeps R (map_errE f m)"
  unfolding map_errE_def by (intro keeps_tryE keeps_case_sum keeps_retE keeps_failE)

named_theorems kube_intro \<open>the exchanges of the primitives\<close>

lemma kube_rel_local [kube_intro]:
  "keeps (kube_rel P) (gact h op m d)" "keeps (kube_rel P) (store_read f)" "keeps (kube_rel P) (store_list G f')"
  "keeps (kube_rel P) (store_write G f'')"
  by (simp_all add: keeps_def kube_rel_def store_list_def store_write_def split: prod.split)

lemma sync_write_local [kube_intro]: "keeps (kube_rel P) (sync_write S f)"
  unfolding sync_write_def by (intro keeps_map_errE kube_intro kube_rel_preorder)

lemma kube_rel_on_kube:
  assumes "\<And>h r h'. m h = (r, h') \<Longrightarrow> kube_steps P h h'"
  shows "keeps (kube_rel P) (on_kube m)"
proof -
  have "kube_steps P h (snd (m h))" for h using assms [of h] by (cases "m h") simp
  then show ?thesis by (simp add: keeps_def kube_rel_def on_kube_def split: prod.split) (metis snd_conv)
qed

lemma kube_do_steps:
  assumes "kube_do K c meth path body d h = (r, h')" "\<And>s. P h (KCall meth (kc_base c @ path) body, s)"
  shows "kube_steps P h h'"
  using kube_do_calls [OF assms(1)] assms(2) by (auto intro: kube_steps_one)

section \<open>Only its own ConfigMaps\<close>

definition cm_url :: "sync_env \<Rightarrow> string \<Rightarrow> string" where
  "cm_url S name = kc_base (sy_kc S) @ cmPath (sy_kc S) name"

definition get_call :: "sync_env \<Rightarrow> string \<Rightarrow> kcall" where
  "get_call S name = KCall ''GET'' (cm_url S name) None"

text \<open>
  \<open>found S name existing h\<close>: the last exchange in \<open>h\<close> read the ConfigMap \<open>name\<close>, and it was
  \<open>existing\<close>, owned by the gateway, or was not there.
\<close>

definition found :: "sync_env \<Rightarrow> string \<Rightarrow> configmap option \<Rightarrow> khist \<Rightarrow> bool" where
  "found S name existing h \<longleftrightarrow> (case existing of
       None \<Rightarrow> \<exists>h0. h = h0 @ [(get_call S name, Inr 404)]
     | Some old \<Rightarrow> \<exists>h0 resp. h = h0 @ [(get_call S name, Inr (kr_Status resp))]
         \<and> ke_Do (sync_K S) h0 (get_call S name) = Inr resp \<and> kr_ConfigMap resp = Inr old
         \<and> cm_label old LabelOrigin = OriginRuntime)"

definition labelled :: "configmap \<Rightarrow> bool" where
  "labelled cm \<longleftrightarrow> cm_label cm LabelVCenter = ''true'' \<and> cm_label cm LabelOrigin = OriginRuntime"

definition owned_call :: "sync_env \<Rightarrow> khist \<Rightarrow> kcall \<times> (string + int) \<Rightarrow> bool" where
  "owned_call S h x \<longleftrightarrow> kc_method (fst x) = ''GET'' \<and> kc_body (fst x) = None \<or>
     (\<exists>cm existing. kc_body (fst x) = Some cm \<and> labelled cm \<and> found S (om_Name (cm_Metadata cm)) existing h \<and>
        (case existing of
           None \<Rightarrow> kc_method (fst x) = ''POST'' \<and> kc_url (fst x) = cm_url S []
         | Some old \<Rightarrow> kc_method (fst x) = ''PUT'' \<and> kc_url (fst x) = cm_url S (om_Name (cm_Metadata cm))
             \<and> om_ResourceVersion (cm_Metadata cm) = om_ResourceVersion (cm_Metadata old)))"

lemma reads_owned [kube_intro]:
  "keeps (kube_rel (owned_call S)) (on_kube (GetConfigMap K c name))"
  "keeps (kube_rel (owned_call S)) (on_kube (ListConfigMaps K c sel))"
  "keeps (kube_rel (owned_call S)) (on_kube (GetSecretData K c name))"
  unfolding GetConfigMap_def ListConfigMaps_def GetSecretData_def
  by (rule kube_rel_on_kube, erule kube_do_steps, simp add: owned_call_def)+

lemma GetConfigMap_found:
  assumes "on_kube (GetConfigMap (sync_K S) (sy_kc S) name) g = (r, g')"
  shows "(\<forall>cm. r = Inr cm \<longrightarrow> cm_label cm LabelOrigin = OriginRuntime \<longrightarrow> found S name (Some cm) (g_kube g'))
    \<and> (\<forall>e. r = Inl e \<longrightarrow> ke_NotFound e \<longrightarrow> found S name None (g_kube g'))"
proof -
  obtain h' where m: "GetConfigMap (sync_K S) (sy_kc S) name (g_kube g) = (r, h')" "g_kube g' = h'"
    using assms by (auto simp: on_kube_def split: prod.splits)
  have "found S name (Some cm) h'" if "r = Inr cm" "cm_label cm LabelOrigin = OriginRuntime" for cm
  proof -
    have "kube_do (sync_K S) (sy_kc S) ''GET'' (cmPath (sy_kc S) name) None (\<lambda>r. decoded (kr_ConfigMap r)) (g_kube g) = (Inr cm, h')"
      using m(1) that(1) by (simp add: GetConfigMap_def)
    then show ?thesis
      by (rule kube_do_Inr) (use that(2) in \<open>auto simp: found_def get_call_def cm_url_def decoded_Inr\<close>)
  qed
  moreover have "found S name None h'" if "r = Inl e" "ke_NotFound e" for e
  proof -
    have k: "kube_do (sync_K S) (sy_kc S) ''GET'' (cmPath (sy_kc S) name) None (\<lambda>r. decoded (kr_ConfigMap r)) (g_kube g) = (Inl e, h')"
      using m(1) that(1) by (simp add: GetConfigMap_def)
    have "h' = g_kube g @ [(KCall ''GET'' (kc_base (sy_kc S) @ cmPath (sy_kc S) name) None, Inr 404)]"
      by (rule kube_do_NotFound [OF k that(2)]) (rule decoded_not_found)
    then show ?thesis by (simp add: found_def get_call_def cm_url_def)
  qed
  ultimately show ?thesis using m(2) by blast
qed

lemma free_among_found: "free_among S vc names g = (Inr (name, existing), g') \<Longrightarrow> found S name existing (g_kube g')"
proof (induction names arbitrary: g)
  case (Cons n names)
  obtain r g1 where m: "on_kube (GetConfigMap (sync_K S) (sy_kc S) n) g = (r, g1)" by fastforce
  from GetConfigMap_found [OF m] Cons m show ?case
    by (auto simp: tryE_def retE_def failE_def split: sum.splits if_splits)
qed (simp add: failE_def)

lemma own_name_found: "own_name S n g = (Inr (name, existing), g') \<Longrightarrow> found S name existing (g_kube g')"
proof -
  assume a: "own_name S n g = (Inr (name, existing), g')"
  obtain r g1 where m: "on_kube (GetConfigMap (sync_K S) (sy_kc S) n) g = (r, g1)" by fastforce
  from GetConfigMap_found [OF m] a m show ?thesis
    by (auto simp: own_name_def tryE_def retE_def failE_def split: sum.splits if_splits)
qed

lemma free_among_owned [kube_intro]: "keeps (kube_rel (owned_call S)) (free_among S vc names)"
proof (induction names)
  case Nil
  then show ?case by (simp add: keeps_failE)
next
  case (Cons name names)
  then show ?case
    unfolding free_among.simps by (intro keeps_intro kube_intro kube_rel_preorder)
qed

lemma own_name_owned [kube_intro]: "keeps (kube_rel (owned_call S)) (own_name S name)"
  unfolding own_name_def by (intro keeps_intro kube_intro kube_rel_preorder)

lemma Render_labelled: "labelled (Render Y vc name ref)" "om_Name (cm_Metadata (Render Y vc name ref)) = name"
  by (simp_all add: labelled_def Render_def cm_label_def map_get_def LabelVCenter_def LabelOrigin_def)

lemma labelled_stamped [simp]:
  "labelled (stamped c cm) = labelled cm" "om_Name (cm_Metadata (stamped c cm)) = om_Name (cm_Metadata cm)"
  "om_ResourceVersion (cm_Metadata (stamped c cm)) = om_ResourceVersion (cm_Metadata cm)"
  by (simp_all add: labelled_def stamped_def cm_label_def)

text \<open>The one exchange that writes, given what was found under the name.\<close>

definition written_call :: "sync_env \<Rightarrow> string \<Rightarrow> configmap option \<Rightarrow> kcall \<Rightarrow> bool" where
  "written_call S name existing c \<longleftrightarrow> (\<exists>cm. kc_body c = Some cm \<and> labelled cm \<and> om_Name (cm_Metadata cm) = name \<and>
     (case existing of
        None \<Rightarrow> kc_method c = ''POST'' \<and> kc_url c = cm_url S []
      | Some old \<Rightarrow> kc_method c = ''PUT'' \<and> kc_url c = cm_url S name
          \<and> om_ResourceVersion (cm_Metadata cm) = om_ResourceVersion (cm_Metadata old)))"

lemma kube_steps_mono: "kube_steps P h h' \<Longrightarrow> (\<And>a x. P a x \<Longrightarrow> Q a x) \<Longrightarrow> kube_steps Q h h'"
  unfolding kube_steps_def by blast

lemma write_cm_written:
  "kube_rel (\<lambda>h x. h = g_kube g \<and> written_call S name existing (fst x)) g (snd (write_cm S existing (Render Y vc name ref) g))"
proof -
  let ?cm = "Render Y vc name ref"
  let ?P = "\<lambda>h x. h = g_kube g \<and> written_call S name existing (fst x)"
  have on: "kube_steps ?P (g_kube g) (g_kube g')"
    if "on_kube (kube_do (sync_K S) (sy_kc S) meth path (Some cm) d) g = (r, g')"
      "written_call S name existing (KCall meth (kc_base (sy_kc S) @ path) (Some cm))" for meth path cm d r g'
    using that by (auto simp: on_kube_def split: prod.splits intro: kube_do_steps)
  show ?thesis
  proof (cases existing)
    case None
    obtain r g' where m: "on_kube (CreateConfigMap (sync_K S) (sy_kc S) ?cm) g = (r, g')" by fastforce
    have "kube_steps ?P (g_kube g) (g_kube g')"
      by (rule on [OF m [unfolded CreateConfigMap_def]]) (use None in \<open>auto simp: written_call_def Render_labelled cm_url_def\<close>)
    with m None show ?thesis by (auto simp: write_cm_def bindE_def tryE_def retE_def failE_def kube_rel_def split: sum.split)
  next
    case (Some old)
    let ?cm = "?cm\<lparr>cm_Metadata := (cm_Metadata ?cm)\<lparr>om_ResourceVersion := om_ResourceVersion (cm_Metadata old)\<rparr>\<rparr>"
    have lab: "labelled ?cm" "om_Name (cm_Metadata ?cm) = name"
      using Render_labelled [of Y vc name ref] by (simp_all add: labelled_def cm_label_def)
    obtain r g' where m: "on_kube (UpdateConfigMap (sync_K S) (sy_kc S) ?cm) g = (r, g')" by fastforce
    have "kube_steps ?P (g_kube g) (g_kube g')"
      by (rule on [OF m [unfolded UpdateConfigMap_def]]) (use Some lab in \<open>auto simp: written_call_def cm_url_def\<close>)
    with m Some show ?thesis by (auto simp: write_cm_def bindE_def tryE_def retE_def failE_def kube_rel_def split: sum.split)
  qed
qed

lemma written_owned: "found S name existing h \<Longrightarrow> written_call S name existing (fst x) \<Longrightarrow> owned_call S h x"
  by (auto simp: owned_call_def written_call_def)

lemma write_cm_owned:
  "found S name existing (g_kube g) \<Longrightarrow> kube_rel (owned_call S) g (snd (write_cm S existing (Render Y vc name ref) g))"
  using write_cm_written [of g S name existing Y vc ref] written_owned unfolding kube_rel_def by (auto elim: kube_steps_mono)

lemma keeps_bindE_post:
  assumes "preorder_rel R" "keeps R m" "\<And>s x s'. m s = (Inr x, s') \<Longrightarrow> R s' (snd (f x s'))"
  shows "keeps R (bindE m f)"
  unfolding keeps_def
proof
  fix s
  obtain r s' where m: "m s = (r, s')" by fastforce
  with assms(2) have "R s s'" by (rule keepsD)
  with m assms(1,3) show "R s (snd (bindE m f s))"
    by (cases r) (auto simp: bindE_def tryE_def failE_def preorder_rel_def dest: transpD)
qed

lemma bindE_post:
  assumes "preorder_rel R" "R s (snd (m s))" "\<And>x. keeps R (f x)"
  shows "R s (snd (bindE m f s))"
proof -
  obtain r s' where m: "m s = (r, s')" by fastforce
  have "R s' (snd (f x s'))" for x using assms(3) by (simp add: keeps_def)
  with m assms(1,2) show ?thesis
    by (cases r) (auto simp: bindE_def tryE_def failE_def preorder_rel_def dest: transpD)
qed

lemma export_owned [kube_intro]: "keeps (kube_rel (owned_call S)) (export S vc)"
  unfolding export_def
proof (rule keeps_bindE_post, goal_cases)
  case 2
  then show ?case unfolding freeName_def Let_def by (intro keeps_intro kube_intro)
next
  case (3 g x g')
  obtain name existing where x: "x = (name, existing)" by fastforce
  from 3 x have "found S name existing (g_kube g')"
    by (auto simp: freeName_def Let_def simp del: free_among.simps split: if_splits intro: free_among_found own_name_found)
  then show ?case unfolding x prod.case Let_def
    by (intro bindE_post [OF kube_rel_preorder write_cm_owned] keeps_thenE kube_intro kube_rel_preorder)
qed simp

lemma apply_cm_owned [kube_intro]: "keeps (kube_rel (owned_call S)) (apply_cm S cm)"
  unfolding apply_cm_def sync_credentials_def sync_write_def Let_def
  by (intro keeps_intro kube_intro kube_rel_preorder)

lemma apply_all_owned [kube_intro]: "keeps (kube_rel (owned_call S)) (apply_all S cms)"
proof (induction cms)
  case (Cons cm cms)
  then show ?case unfolding apply_all.simps by (intro keeps_intro kube_intro kube_rel_preorder)
qed (simp add: keeps_retE)

lemma export_all_owned [kube_intro]: "keeps (kube_rel (owned_call S)) (export_all S ids vcs)"
proof (induction vcs)
  case (Cons vc vcs)
  then show ?case unfolding export_all.simps export_one_def by (intro keeps_intro kube_intro kube_rel_preorder)
qed (simp add: keeps_retE)

lemma kube_steps_list_all:
  assumes "kube_steps P h h'"
  shows "prefix h h' \<and> list_all (\<lambda>i. P (take i h') (h' ! i)) [length h ..< length h']"
proof -
  from assms obtain l where l: "h' = h @ l" "\<And>a x b. l = a @ x # b \<Longrightarrow> P (h @ a) x" by (auto simp: kube_steps_def)
  have "P (take i h') (h' ! i)" if "length h \<le> i" "i < length h'" for i
  proof -
    let ?j = "i - length h"
    have "l = take ?j l @ l ! ?j # drop (Suc ?j) l" using that l(1) by (intro id_take_nth_drop) simp
    from l(2) [OF this] show ?thesis using that l(1) by (simp add: nth_append)
  qed
  with l(1) show ?thesis by (simp add: list_all_iff)
qed

text \<open>
  C19: The gateway writes only ConfigMaps it owns. In every exchange of \<open>Startup\<close> and of \<open>Saved\<close> with the
  Kubernetes API, whatever the API answers: nothing but reading and the writing of ConfigMaps labelled as
  the gateway's own; a ConfigMap is replaced only directly after it was read and found labelled runtime,
  and with the resource version then read, so a concurrent edit is not lost; and one is created only
  directly after its name was found free. ConfigMaps of GitOps are never written.
\<close>

theorem sync_writes_only_its_own:
  "(let h = g_kube g; h' = g_kube (snd (Startup S g)) in
      prefix h h' \<and> list_all (\<lambda>i. owned_call S (take i h') (h' ! i)) [length h ..< length h'])
   \<and> (let h = g_kube g; h' = g_kube (snd (Saved S vid g)) in
      prefix h h' \<and> list_all (\<lambda>i. owned_call S (take i h') (h' ! i)) [length h ..< length h'])"
proof -
  have "keeps (kube_rel (owned_call S)) (Startup S)"
    unfolding Startup_def by (intro keeps_intro kube_intro kube_rel_preorder)
  then have 1: "kube_steps (owned_call S) (g_kube g) (g_kube (snd (Startup S g)))" by (simp add: keeps_def kube_rel_def)
  have "keeps (kube_rel (owned_call S)) (Saved S vid)"
    unfolding Saved_def by (intro keeps_intro kube_intro kube_rel_preorder)
  then have 2: "kube_steps (owned_call S) (g_kube g) (g_kube (snd (Saved S vid g)))" by (simp add: keeps_def kube_rel_def)
  from kube_steps_list_all [OF 1] kube_steps_list_all [OF 2] show ?thesis by (simp only: Let_def simp_thms)
qed

section \<open>Names are DNS labels\<close>

definition dns_label :: "nat \<Rightarrow> string \<Rightarrow> bool" where
  "dns_label n s \<longleftrightarrow> s \<noteq> [] \<and> length s \<le> n \<and> list_all dns_char s \<and> hd s \<noteq> CHR ''-'' \<and> last s \<noteq> CHR ''-''"

lemma set_dash_runs: "set (dash_runs P s) \<subseteq> insert CHR ''-'' {c \<in> set s. \<not> P c}"
  by (induction P s rule: dash_runs.induct) auto

lemma set_trim: "set (trim_right P s) \<subseteq> set s" "set (trim_left P s) \<subseteq> set s"
  by (auto simp: trim_right_def trim_left_def dest: set_dropWhileD)

lemma trim_right_last: "trim_right P s \<noteq> [] \<Longrightarrow> \<not> P (last (trim_right P s))"
  using hd_dropWhile [of P "rev s"] by (simp add: trim_right_def last_rev)

lemma trim_right_hd: "trim_right P s \<noteq> [] \<Longrightarrow> hd (trim_right P s) = hd s"
  using hd_prefix [OF trim_right_prefix] by blast

lemma TrimChar_ends:
  assumes "TrimChar s c \<noteq> []"
  shows "hd (TrimChar s c) \<noteq> c" "last (TrimChar s c) \<noteq> c" "set (TrimChar s c) \<subseteq> set s"
proof -
  have "trim_left ((=) c) s \<noteq> []" using assms by (auto simp: TrimChar_def)
  then have "hd (trim_left ((=) c) s) \<noteq> c" using hd_dropWhile [of "(=) c" s] by (auto simp: trim_left_def)
  with assms show "hd (TrimChar s c) \<noteq> c" by (simp add: TrimChar_def trim_right_hd)
  show "last (TrimChar s c) \<noteq> c" using trim_right_last [of "(=) c" "trim_left ((=) c) s"] assms by (auto simp: TrimChar_def)
  show "set (TrimChar s c) \<subseteq> set s" unfolding TrimChar_def by (meson order_trans set_trim)
qed

text \<open>
  A ConfigMap's name is well formed. Whatever a vCenter is called, the slug made of its name is either
  the fallback, its id, or a DNS label of at most 40 characters: lower-case letters, digits and inner
  dashes. With the prefix and the six characters of an id the name stays below the limit of 63.
\<close>

theorem slug_is_dns_label:
  "(slug name fallback = fallback \<or> dns_label 40 (slug name fallback))
   \<and> length namePrefix + 40 + length (''-'' @ take 6 vid) \<le> 63"
proof
  let ?s = "TrimChar (dash_runs ((=) CHR ''-'') (dash_runs (\<lambda>c. \<not> dns_char c) (ToLower (TrimSpace name)))) CHR ''-''"
  let ?t = "if 40 < length ?s then trim_right ((=) CHR ''-'') (take 40 ?s) else ?s"
  have "dns_char CHR ''-''" by (simp add: dns_char_def)
  then have dns: "list_all dns_char ?s" if "?s \<noteq> []"
    using TrimChar_ends(3) [OF that] set_dash_runs [of "(=) CHR ''-''" "dash_runs (\<lambda>c. \<not> dns_char c) (ToLower (TrimSpace name))"]
      set_dash_runs [of "\<lambda>c. \<not> dns_char c" "ToLower (TrimSpace name)"] unfolding list_all_iff by blast
  have "dns_label 40 ?t" if "?t \<noteq> []"
  proof (cases "40 < length ?s")
    case True
    then have ne: "?s \<noteq> []" "take 40 ?s \<noteq> []" by auto
    have t: "trim_right ((=) CHR ''-'') (take 40 ?s) \<noteq> []" using that True by simp
    moreover have "length (trim_right ((=) CHR ''-'') (take 40 ?s)) \<le> 40"
      using prefix_length_le [OF trim_right_prefix, of "(=) CHR ''-''" "take 40 ?s"] by simp
    moreover have "hd (trim_right ((=) CHR ''-'') (take 40 ?s)) \<noteq> CHR ''-''"
      using trim_right_hd [OF t] TrimChar_ends(1) [OF ne(1)] ne by simp
    moreover have "list_all dns_char (trim_right ((=) CHR ''-'') (take 40 ?s))"
      using dns [OF ne(1)] set_trim(1) [of "(=) CHR ''-''" "take 40 ?s"] set_take_subset [of 40 ?s] by (auto simp: list_all_iff)
    ultimately show ?thesis using True trim_right_last [OF t] by (auto simp: dns_label_def)
  next
    case False
    with that have "?s \<noteq> []" by simp
    with False dns TrimChar_ends [of _ "CHR ''-''"] show ?thesis by (simp add: dns_label_def)
  qed
  then show "slug name fallback = fallback \<or> dns_label 40 (slug name fallback)"
    unfolding slug_def Let_def by simp
qed (simp add: namePrefix_def)

section \<open>Written and read back\<close>

text \<open>What the Secret of a reference holds, read at the point \<open>h\<close> of the exchanges; nothing if it cannot be read.\<close>

definition secret_data :: "sync_env \<Rightarrow> secret_ref \<Rightarrow> khist \<Rightarrow> (string, string) fmap" where
  "secret_data S ref h = (if sr_Name ref = [] then fmempty
     else case fst (GetSecretData (sync_K S) (sy_kc S) (sr_Name ref) h) of Inr d \<Rightarrow> d | Inl _ \<Rightarrow> fmempty)"

definition secret_username :: "secret_ref \<Rightarrow> string \<Rightarrow> (string, string) fmap \<Rightarrow> string" where
  "secret_username ref user d = (if sr_UsernameKey ref \<noteq> [] \<and> TrimSpace (map_get d (sr_UsernameKey ref)) \<noteq> []
     then TrimSpace (map_get d (sr_UsernameKey ref)) else user)"

lemma sync_credentials_run:
  "\<exists>note g'. sync_credentials S (Some ref) vc g =
      (Inr (map_get (secret_data S ref (g_kube g)) (pass_key ref), note,
        vc\<lparr>vc_Username := secret_username ref (vc_Username vc) (secret_data S ref (g_kube g))\<rparr>), g') \<and> g_store g' = g_store g"
proof -
  have none: "map_get fmempty k = []" for k by (simp add: map_get_def)
  moreover have "TrimSpace [] = []" by code_simp
  ultimately have user: "secret_username ref u fmempty = u" for u by (simp add: secret_username_def)
  show ?thesis
  proof (cases "sr_Name ref = []")
    case True
    then show ?thesis by (simp add: sync_credentials_def retE_def secret_data_def none user)
  next
    case False
    obtain r h where m: "GetSecretData (sync_K S) (sy_kc S) (sr_Name ref) (g_kube g) = (r, h)" by fastforce
    show ?thesis
    proof (cases r)
      case (Inl e)
      with False m show ?thesis
        by (simp add: sync_credentials_def tryE_def retE_def on_kube_def secret_data_def none user)
    next
      case (Inr d)
      with False m show ?thesis
        by (auto simp: sync_credentials_def tryE_def retE_def on_kube_def secret_data_def secret_username_def Let_def)
    qed
  qed
qed

lemma sync_write_Inr:
  assumes "sync_write S f g = (Inr x, g')"
  shows "\<exists>st. f (ge_store (sy_gw S) (g_ops g) (g_store g)) (g_store g) = (Inr x, st) \<and> g_store g' = st"
  using assms
  by (auto simp: sync_write_def map_errE_def tryE_def retE_def failE_def store_write_def split: sum.splits prod.splits)

text \<open>A vCenter as the store keeps it: with an id, the required fields and no defaults left to fill in.\<close>

definition settled :: "vcenter \<Rightarrow> bool" where
  "settled vc \<longleftrightarrow> vc_ID vc \<noteq> [] \<and> vc_Name vc \<noteq> [] \<and> vc_URL vc \<noteq> [] \<and> vc_Datacenter vc \<noteq> [] \<and> vc_ISOFolder vc \<noteq> []
     \<and> normalizeDatastore (vc_Datastore vc) = vc_Datastore vc"

text \<open>The record the store keeps for \<open>vc\<close> read from its ConfigMap \<open>name\<close>, when the Secret \<open>ref\<close> holds \<open>d\<close>.\<close>

definition restored :: "vcenter \<Rightarrow> string \<Rightarrow> secret_ref \<Rightarrow> (string, string) fmap \<Rightarrow> vcenter" where
  "restored vc name ref d = (let pw = map_get d (pass_key ref) in
     vc\<lparr>vc_Username := secret_username ref (vc_Username vc) d, vc_Password := pw,
       vc_PasswordSource := (if pw = [] then [] else PasswordFromSecret), vc_HasPassword := False,
       vc_ConfigMap := name, vc_ConfigOrigin := OriginRuntime, vc_CredentialsSecret := Some ref\<rparr>)"

lemma apply_into_empty:
  assumes "settled vc" "s_vcenters s = fmempty" "se_write env = None" "se_rename env = None"
  shows "\<exists>s'. ApplyConfigVCenter env ((cm_vcenter (Render Y vc name ref) (vc_spec vc ref))
        \<lparr>vc_Username := secret_username ref (vc_Username vc) d\<rparr>) (sp_DryRun (vc_spec vc ref)) (map_get d (pass_key ref)) s
      = (Inr (redact (restored vc name ref d)), s')
    \<and> s_vcenters s' = fmupd (vc_ID vc) (restored vc name ref d) fmempty"
proof -
  let ?cm = "Render Y vc name ref"
  let ?inp = "(cm_vcenter ?cm (vc_spec vc ref))\<lparr>vc_Username := secret_username ref (vc_Username vc) d\<rparr>"
  let ?pw = "map_get d (pass_key ref)"
  have none: "config_match env i s = None" for i
  proof -
    have "go_range ord (fmempty :: (string, vcenter) fmap) = []" for ord :: "string list" by (induction ord) auto
    then show ?thesis using assms(2) by (simp add: config_match_def Let_def)
  qed
  have orig: "cm_origin ?cm = OriginRuntime" using Render_labelled(1) by (simp add: cm_origin_def labelled_def)
  have url: "vc_URL ?inp \<noteq> []" "vc_Datacenter ?inp \<noteq> []"
    using assms(1) by (simp_all add: cm_vcenter_def vc_spec_def settled_def)
  have dflt: "config_defaults ?inp = ?inp"
    using assms(1) by (simp add: config_defaults_def cm_vcenter_def vc_spec_def settled_def Let_def)
  have kept: "(config_password None ?pw (config_identity env None (sp_DryRun (vc_spec vc ref)) ?inp))\<lparr>vc_HasPassword := False\<rparr>
      = restored vc name ref d"
    using assms(1) orig Render_labelled(2) [of Y vc name ref]
    by (intro vcenter.equality)
      (simp_all add: restored_def config_password_def config_identity_def cm_vcenter_def vc_spec_def settled_def Let_def vcenter_zero_def)
  have id: "vc_ID (restored vc name ref d) = vc_ID vc" by (simp add: restored_def Let_def)
  obtain s' where p: "persist_return env (redact (restored vc name ref d))
      (s\<lparr>s_vcenters := fmupd (vc_ID vc) (restored vc name ref d) (s_vcenters s)\<rparr>) = (Inr (redact (restored vc name ref d)), s')"
    using persist_healthy(2) [OF assms(3,4), where x = "redact (restored vc name ref d)"
      and s = "s\<lparr>s_vcenters := fmupd (vc_ID vc) (restored vc name ref d) (s_vcenters s)\<rparr>"] by (elim exE)
  have "s_vcenters s' = fmupd (vc_ID vc) (restored vc name ref d) fmempty"
    using persist_return_Inr [OF p] assms(2) by auto
  with p url show ?thesis unfolding ApplyConfigVCenter_def Let_def dflt none kept id by simp
qed

text \<open>
  C31: A written vCenter comes back. With a YAML library that reads back the document it wrote and a disk
  that takes the write, reading the ConfigMap that was rendered for a vCenter into a store without
  vCenters, as after the loss of the data volume, succeeds whatever the cluster answers about the Secret,
  and the store then holds exactly that vCenter: the same id, name, URL, datacenter, datastore, folders, notes
  and flags, bound to the ConfigMap and its Secret. Its password, which the ConfigMap never holds, is the
  Secret's (empty if it cannot be read), and so is its username if the reference names a key for it that
  the Secret fills.
\<close>

theorem rendered_vcenter_comes_back:
  assumes "ye_Unmarshal (sy_yaml S) (ye_Marshal (sy_yaml S) (vc_spec vc ref)) = (None, vc_spec vc ref)"
    "settled vc" "s_vcenters (g_store g) = fmempty"
    "\<And>n st. se_write (ge_store (sy_gw S) n st) = None \<and> se_rename (ge_store (sy_gw S) n st) = None"
  shows "\<exists>g'. apply_cm S (Render (sy_yaml S) vc name ref) g = (Inr (redact (restored vc name ref (secret_data S ref (g_kube g)))), g')
    \<and> s_vcenters (g_store g') = fmupd (vc_ID vc) (restored vc name ref (secret_data S ref (g_kube g))) fmempty"
proof -
  let ?cm = "Render (sy_yaml S) vc name ref"
  let ?sp = "vc_spec vc ref"
  let ?d = "secret_data S ref (g_kube g)"
  let ?inp = "(cm_vcenter ?cm ?sp)\<lparr>vc_Username := secret_username ref (vc_Username vc) ?d\<rparr>"
  have raw: "fmlookup (cm_Data ?cm) DataKey = Some (ye_Marshal (sy_yaml S) ?sp)" by (simp add: Render_def)
  have ref: "sp_CredentialsSecret ?sp = Some ref" "vc_Username (cm_vcenter ?cm ?sp) = vc_Username vc"
    by (simp_all add: vc_spec_def cm_vcenter_def)
  obtain nt g1 where c: "sync_credentials S (Some ref) (cm_vcenter ?cm ?sp) g = (Inr (map_get ?d (pass_key ref), nt, ?inp), g1)"
    "g_store g1 = g_store g"
    using sync_credentials_run [of S ref "cm_vcenter ?cm ?sp" g] unfolding ref(2) by blast
  obtain st where w: "ApplyConfigVCenter (ge_store (sy_gw S) (g_ops g1) (g_store g)) ?inp (sp_DryRun ?sp) (map_get ?d (pass_key ref)) (g_store g)
      = (Inr (redact (restored vc name ref ?d)), st)" "s_vcenters st = fmupd (vc_ID vc) (restored vc name ref ?d) fmempty"
    using apply_into_empty [OF assms(2,3), of "ge_store (sy_gw S) (g_ops g1) (g_store g)"] assms(4) by blast
  have "apply_cm S ?cm g = bindE (sync_credentials S (Some ref) (cm_vcenter ?cm ?sp)) (\<lambda>(password, note, inp).
      bindE (sync_write S (\<lambda>se. ApplyConfigVCenter se inp (sp_DryRun ?sp) password)) (\<lambda>vc.
      thenE (gact act_Run ''configmap'' ''vCenter loaded from ConfigMap''
         ([(''configMap'', AStr (om_Name (cm_Metadata ?cm))), (''origin'', AStr (cm_origin ?cm)), (''name'', AStr (vc_Name vc)),
           (''vcenterId'', AStr (vc_ID vc)), (''password'', AStr (passwordState vc))]
          @ (if note \<noteq> [] then [(''secret'', AStr note)] else []))) (retE vc))) g"
    by (simp only: apply_cm_def raw option.case assms(1) prod.case ref(1))
  then show ?thesis
    using c w by (simp add: bindE_run sync_write_def map_errE_def tryE_def retE_def store_write_def)
qed

definition demo_ref :: secret_ref where
  "demo_ref = \<lparr>sr_Name = ''rf2vc-vc-lab'', sr_PasswordKey = ''password'', sr_UsernameKey = []\<rparr>"

definition demo_sync :: sync_env where
  "demo_sync = \<lparr>sy_gw = demo_genv, sy_yaml = \<lparr>ye_Unmarshal = (\<lambda>_. (None, vc_spec demo_gw_vc demo_ref)), ye_Marshal = (\<lambda>_. ''doc'')\<rparr>,
     sy_kc = kube_New ''https://k'' ''ns''\<rparr>"

definition demo_empty :: gw where
  "demo_empty = demo_gw\<lparr>g_store := demo_store\<rparr>"

theorem rendered_vcenter_comes_back_witness:
  "case apply_cm demo_sync (Render (sy_yaml demo_sync) demo_gw_vc ''rf2vc-vc-lab'' demo_ref) demo_empty of
     (Inr vc', g') \<Rightarrow> s_vcenters (g_store g') = fmupd ''1'' (demo_gw_vc\<lparr>vc_Password := [], vc_ConfigMap := ''rf2vc-vc-lab'',
        vc_ConfigOrigin := OriginRuntime, vc_CredentialsSecret := Some demo_ref\<rparr>) fmempty
   | (Inl e, _) \<Rightarrow> False"
proof -
  have "settled demo_gw_vc" by code_simp
  moreover have "s_vcenters (g_store demo_empty) = fmempty" by (simp add: demo_empty_def demo_store_def)
  moreover have "ye_Unmarshal (sy_yaml demo_sync) (ye_Marshal (sy_yaml demo_sync) (vc_spec demo_gw_vc demo_ref)) = (None, vc_spec demo_gw_vc demo_ref)"
    "\<And>n st. se_write (ge_store (sy_gw demo_sync) n st) = None \<and> se_rename (ge_store (sy_gw demo_sync) n st) = None"
    by (simp_all add: demo_sync_def demo_genv_def demo_env_def)
  ultimately obtain g' where r: "apply_cm demo_sync (Render (sy_yaml demo_sync) demo_gw_vc ''rf2vc-vc-lab'' demo_ref) demo_empty
      = (Inr (redact (restored demo_gw_vc ''rf2vc-vc-lab'' demo_ref (secret_data demo_sync demo_ref (g_kube demo_empty)))), g')"
    "s_vcenters (g_store g') = fmupd (vc_ID demo_gw_vc) (restored demo_gw_vc ''rf2vc-vc-lab'' demo_ref (secret_data demo_sync demo_ref (g_kube demo_empty))) fmempty"
    using rendered_vcenter_comes_back [of demo_sync demo_gw_vc demo_ref demo_empty "''rf2vc-vc-lab''"] by blast
  have d: "secret_data demo_sync demo_ref (g_kube demo_empty) = fmempty"
    by (simp add: secret_data_def demo_ref_def demo_sync_def demo_empty_def demo_gw_def sync_K_def demo_genv_def GetSecretData_def kube_do_def
        kube_exchange_def bindE_def tryE_def failE_def retE_def getE_def kube_New_def Let_def)
  have "restored demo_gw_vc ''rf2vc-vc-lab'' demo_ref fmempty = demo_gw_vc\<lparr>vc_Password := [], vc_ConfigMap := ''rf2vc-vc-lab'',
        vc_ConfigOrigin := OriginRuntime, vc_CredentialsSecret := Some demo_ref\<rparr>"
    by (simp add: restored_def demo_gw_vc_def vcenter_zero_def map_get_def demo_ref_def secret_username_def Let_def)
  then show ?thesis using r by (simp add: d demo_gw_vc_def)
qed

section \<open>The interface of the API server\<close>

text \<open>Only the store and its use changed, every record is the same up to its ConfigMap, and time has not gone back.\<close>

definition same_definition :: "vcenter \<Rightarrow> vcenter \<Rightarrow> bool" where
  "same_definition vc vc' \<longleftrightarrow> (\<exists>cm origin ref. vc' = vc\<lparr>vc_ConfigMap := cm, vc_ConfigOrigin := origin, vc_CredentialsSecret := ref\<rparr>)"

definition sync_frame :: "gw \<Rightarrow> gw \<Rightarrow> bool" where
  "sync_frame g g' \<longleftrightarrow> w_calls (g_w g') = w_calls (g_w g) \<and> w_clock (g_w g) \<le> w_clock (g_w g') \<and> g_pool g' = g_pool g
     \<and> s_byUUID (g_store g') = s_byUUID (g_store g) \<and> s_settings (g_store g') = s_settings (g_store g)
     \<and> (\<forall>k. rel_option same_definition (fmlookup (s_vcenters (g_store g)) k) (fmlookup (s_vcenters (g_store g')) k))"

definition gitops_owned :: "string \<Rightarrow> store \<Rightarrow> bool" where
  "gitops_owned vid st \<longleftrightarrow> (case fmlookup (s_vcenters st) vid of Some vc \<Rightarrow> vc_ConfigOrigin vc = OriginGitOps | None \<Rightarrow> False)"

text \<open>
  What the API server relies on when it mirrors a change through its interface \<open>VCenterSync\<close>: saving and
  deleting leave the definitions, the mappings, the pool and vSphere alone, and the check before a
  deletion changes nothing and refuses exactly what GitOps owns.
\<close>

locale vcenter_sync =
  fixes saved :: "string \<Rightarrow> (kube_err, unit) gio"
    and check_delete :: "string \<Rightarrow> (kube_err, unit) gio"
    and deleted :: "vcenter \<Rightarrow> (kube_err, unit) gio"
  assumes saved_frame: "keeps sync_frame (saved vid)"
    and deleted_frame: "keeps sync_frame (deleted vc)"
    and check_pure: "snd (check_delete vid g) = g"
    and check_refuses: "fst (check_delete vid g) \<noteq> Inr () \<longleftrightarrow> gitops_owned vid (g_store g)"

lemma same_definition_refl [simp]: "same_definition vc vc"
  unfolding same_definition_def by (intro exI [of _ "vc_ConfigMap vc"] exI [of _ "vc_ConfigOrigin vc"] exI [of _ "vc_CredentialsSecret vc"]) simp

lemma same_definition_trans: "same_definition a b \<Longrightarrow> same_definition b c \<Longrightarrow> same_definition a c"
  unfolding same_definition_def by force

lemma sync_frame_preorder [simp, keeps_intro]: "preorder_rel sync_frame"
proof -
  have "rel_option same_definition v v" for v by (cases v) auto
  moreover have "rel_option same_definition u v \<Longrightarrow> rel_option same_definition v w \<Longrightarrow> rel_option same_definition u w" for u v w
    by (cases u; cases v; cases w) (auto intro: same_definition_trans)
  ultimately show ?thesis
    unfolding preorder_rel_def reflp_def transp_def sync_frame_def by auto metis+
qed

named_theorems frame_intro \<open>primitives that keep the definitions\<close>

lemma frame_local [frame_intro]:
  "keeps sync_frame (gact h op m d)" "keeps sync_frame (store_read f)" "keeps sync_frame (on_kube k)"
  using sync_frame_preorder
  by (auto simp: keeps_def sync_frame_def preorder_rel_def reflp_def on_kube_def split: prod.split)

lemma frame_SetVCenterConfigMap [frame_intro]: "keeps sync_frame (sync_write S (\<lambda>se. SetVCenterConfigMap se vid cm origin ref))"
proof -
  have rel: "rel_option same_definition v v" for v by (cases v) auto
  have "same_definition vc (vc\<lparr>vc_ConfigMap := cm, vc_ConfigOrigin := origin, vc_CredentialsSecret := ref\<rparr>)" for vc
    by (auto simp: same_definition_def)
  with rel show ?thesis
    unfolding sync_write_def keeps_def
    by (auto simp: map_errE_def tryE_def retE_def failE_def store_write_def sync_frame_def SetVCenterConfigMap_def Let_def
        split: sum.splits prod.splits option.splits dest!: arg_cong [where f = snd])
qed

lemma gitops_owned_redact: "(case GetVCenter vid st of Some vc \<Rightarrow> vc_ConfigOrigin vc = OriginGitOps | None \<Rightarrow> False) = gitops_owned vid st"
  by (simp add: GetVCenter_def gitops_owned_def split: option.split)

lemma export_frame: "keeps sync_frame (export S vc)"
proof -
  have free: "keeps sync_frame (free_among S vc names)" for names
  proof (induction names)
    case (Cons name names)
    then show ?case unfolding free_among.simps by (intro keeps_intro frame_intro sync_frame_preorder)
  qed (simp add: keeps_failE)
  show ?thesis
    unfolding export_def freeName_def own_name_def write_cm_def Let_def
    by (intro keeps_intro frame_intro free sync_frame_preorder)
qed

lemma Saved_frame: "keeps sync_frame (Saved S vid)"
  unfolding Saved_def by (intro keeps_intro frame_intro export_frame sync_frame_preorder)

interpretation configmap_sync: vcenter_sync "Saved S" CheckDelete "Deleted S" for S
proof
  fix vid g and vc :: vcenter
  show "keeps sync_frame (Saved S vid)" by (rule Saved_frame)
  show "keeps sync_frame (Deleted S vc)"
    unfolding Deleted_def by (intro keeps_intro frame_intro sync_frame_preorder)
  show "snd (CheckDelete vid g) = g"
    by (simp add: CheckDelete_def retE_def failE_def split: option.split)
  show "fst (CheckDelete vid g) \<noteq> Inr () \<longleftrightarrow> gitops_owned vid (g_store g)"
    using gitops_owned_redact [of vid "g_store g"]
    by (auto simp: CheckDelete_def retE_def failE_def split: option.splits if_splits)
qed

section \<open>Deleting trusts the record\<close>

text \<open>
  \<open>Deleted\<close> decides by the origin the store remembers and never looks at the ConfigMap: the only exchange
  it makes is the deletion, also of a ConfigMap that has been labelled for GitOps since.
\<close>

theorem delete_ignores_current_label:
  assumes "vc_ConfigOrigin vc = OriginRuntime" "vc_ConfigMap vc \<noteq> []" "Deleted S vc g = (r, g')"
  shows "g_kube g' = g_kube g \<or> (\<exists>s. g_kube g' = g_kube g @ [(KCall ''DELETE'' (cm_url S (vc_ConfigMap vc)) None, s)])"
proof -
  obtain d h' where d: "kube_do (sync_K S) (sy_kc S) ''DELETE'' (cmPath (sy_kc S) (vc_ConfigMap vc)) None (\<lambda>_. Inr ()) (g_kube g) = (d, h')"
    by fastforce
  from kube_do_calls [OF d] assms d show ?thesis
    by (auto simp: Deleted_def thenE_def bindE_def tryE_def retE_def failE_def on_kube_def DeleteConfigMap_def cm_url_def
        split: sum.splits if_splits)
qed

end
