(* ===== verification/Sync_Flight.thy ===== *)
theory Sync_Flight
  imports Vcsync
begin

text \<open>
  The mirror under concurrent edits (\<open>internal/vcsync/vcsync.go\<close>): \<open>Saved\<close> takes no lock, so between its steps other
  requests read, write and delete. A call is the stretches it makes, each one access to the store or one exchange
  with the API server; alone it is \<open>Saved\<close>, and interleaved it still writes only what is the gateway's own.
\<close>

section \<open>Stretches\<close>

text \<open>Where a call is: what it has read so far, and what comes next.\<close>

datatype sync_stage =
    SyncRead string
  | SyncFree vcenter "string list"
  | SyncOwn vcenter
  | SyncWrite vcenter string "configmap option"
  | SyncNote vcenter string string
  | SyncDone "kube_err + unit"

definition free_names :: "vcenter \<Rightarrow> string list" where
  "free_names vc = (let base = namePrefix @ slug (vc_Name vc) (vc_ID vc) in [base, base @ ''-'' @ take 6 (vc_ID vc)])"

definition read_stretch :: "string \<Rightarrow> sync_stage sio" where
  "read_stretch vid = bindE (store_read (GetVCenter vid)) (\<lambda>v. retE (case v of
       None \<Rightarrow> SyncDone (Inr ())
     | Some vc \<Rightarrow> if vc_ConfigOrigin vc = OriginGitOps then SyncDone (Inr ())
         else if vc_ConfigMap vc = [] then SyncFree vc (free_names vc) else SyncOwn vc))"

definition free_stretch :: "sync_env \<Rightarrow> vcenter \<Rightarrow> string list \<Rightarrow> sync_stage sio" where
  "free_stretch S vc names = (case names of
       [] \<Rightarrow> retE (SyncDone (Inl (kube_errorf (''no free ConfigMap name for vCenter '' @ go_quote (vc_Name vc)))))
     | name # names \<Rightarrow> tryE (on_kube (GetConfigMap (sync_K S) (sy_kc S) name)) (\<lambda>r. retE (case r of
           Inl e \<Rightarrow> if ke_NotFound e then SyncWrite vc name None else SyncDone (Inl e)
         | Inr cm \<Rightarrow>
             if sp_ID (snd (ye_Unmarshal (sy_yaml S) (map_get (cm_Data cm) DataKey))) = vc_ID vc
               \<and> cm_label cm LabelOrigin = OriginRuntime
             then SyncWrite vc name (Some cm) else SyncFree vc names)))"

definition own_stretch :: "sync_env \<Rightarrow> vcenter \<Rightarrow> sync_stage sio" where
  "own_stretch S vc = tryE (own_name S (vc_ConfigMap vc)) (\<lambda>r. retE (case r of
       Inl e \<Rightarrow> SyncDone (Inl e)
     | Inr (name, existing) \<Rightarrow> SyncWrite vc name existing))"

definition write_stretch :: "sync_env \<Rightarrow> vcenter \<Rightarrow> string \<Rightarrow> configmap option \<Rightarrow> sync_stage sio" where
  "write_stretch S vc name existing =
     tryE (write_cm S existing (Render (sy_yaml S) vc name (secret_for vc name))) (\<lambda>r. retE (case r of
       Inl e \<Rightarrow> SyncDone (Inl e)
     | Inr verb \<Rightarrow> SyncNote vc name verb))"

definition note_stretch :: "sync_env \<Rightarrow> vcenter \<Rightarrow> string \<Rightarrow> string \<Rightarrow> sync_stage sio" where
  "note_stretch S vc name verb =
     tryE (thenE (sync_write S (\<lambda>se. SetVCenterConfigMap se (vc_ID vc) name OriginRuntime (Some (secret_for vc name))))
       (gact act_Run ''configmap'' (''runtime ConfigMap '' @ verb)
         [(''configMap'', AStr name), (''name'', AStr (vc_Name vc)), (''vcenterId'', AStr (vc_ID vc))])) (\<lambda>r. retE (SyncDone r))"

definition sync_stretch :: "sync_env \<Rightarrow> sync_stage \<Rightarrow> sync_stage sio" where
  "sync_stretch S st = (case st of
       SyncRead vid \<Rightarrow> read_stretch vid
     | SyncFree vc names \<Rightarrow> free_stretch S vc names
     | SyncOwn vc \<Rightarrow> own_stretch S vc
     | SyncWrite vc name existing \<Rightarrow> write_stretch S vc name existing
     | SyncNote vc name verb \<Rightarrow> note_stretch S vc name verb
     | SyncDone r \<Rightarrow> retE (SyncDone r))"

text \<open>Turns with nobody in between.\<close>

fun sync_turns :: "sync_env \<Rightarrow> nat \<Rightarrow> sync_stage \<Rightarrow> sync_stage sio" where
  "sync_turns S 0 st = retE st"
| "sync_turns S (Suc n) st = bindE (sync_stretch S st) (sync_turns S n)"

section \<open>A call that runs alone\<close>

text \<open>What is left to do at a stage, as the code composes it.\<close>

definition write_rest :: "sync_env \<Rightarrow> vcenter \<Rightarrow> string \<times> configmap option \<Rightarrow> unit sio" where
  "write_rest S vc = (\<lambda>(name, existing). let ref = secret_for vc name in
     bindE (write_cm S existing (Render (sy_yaml S) vc name ref)) (\<lambda>verb.
     thenE (sync_write S (\<lambda>se. SetVCenterConfigMap se (vc_ID vc) name OriginRuntime (Some ref)))
       (gact act_Run ''configmap'' (''runtime ConfigMap '' @ verb)
         [(''configMap'', AStr name), (''name'', AStr (vc_Name vc)), (''vcenterId'', AStr (vc_ID vc))])))"

definition sync_rest :: "sync_env \<Rightarrow> sync_stage \<Rightarrow> unit sio" where
  "sync_rest S st = (case st of
       SyncRead vid \<Rightarrow> Saved S vid
     | SyncFree vc names \<Rightarrow> bindE (free_among S vc names) (write_rest S vc)
     | SyncOwn vc \<Rightarrow> bindE (own_name S (vc_ConfigMap vc)) (write_rest S vc)
     | SyncWrite vc name existing \<Rightarrow> write_rest S vc (name, existing)
     | SyncNote vc name verb \<Rightarrow> thenE (sync_write S (\<lambda>se. SetVCenterConfigMap se (vc_ID vc) name OriginRuntime (Some (secret_for vc name))))
         (gact act_Run ''configmap'' (''runtime ConfigMap '' @ verb)
           [(''configMap'', AStr name), (''name'', AStr (vc_Name vc)), (''vcenterId'', AStr (vc_ID vc))])
     | SyncDone (Inl e) \<Rightarrow> failE e
     | SyncDone (Inr u) \<Rightarrow> retE u)"

lemma export_rest: "export S vc = bindE (if vc_ConfigMap vc = [] then free_among S vc (free_names vc) else own_name S (vc_ConfigMap vc)) (write_rest S vc)"
  by (simp add: export_def write_rest_def freeName_def free_names_def Let_def del: free_among.simps)

lemma bindE_retE [simp]: "bindE (retE x) f = f x"
  by (simp add: io_simps)

lemma bindE_tryE_retE: "bindE (tryE m (\<lambda>r. retE (f r))) k = tryE m (\<lambda>r. k (f r))"
  by (simp add: bindE_def tryE_def retE_def case_prod_beta)

lemma bindE_result: "m s = (r, s') \<Longrightarrow> bindE m f s = (case r of Inl e \<Rightarrow> (Inl e, s') | Inr x \<Rightarrow> f x s')"
  by (auto simp: bindE_def tryE_def failE_def split: sum.split)

lemma tryE_run: "m s = (r, s') \<Longrightarrow> tryE m f s = f r s'"
  by (simp add: tryE_def)

lemma bindE_assoc_retE: "bindE (bindE m (\<lambda>x. retE (f x))) k = bindE m (\<lambda>x. k (f x))"
  by (rule ext) (auto simp: bindE_def tryE_def retE_def failE_def split: prod.split sum.split)

lemma bindE_read: "bindE (store_read f) k g = k (f (g_store g)) g"
  by (simp add: store_read_def bindE_def tryE_def getE_def)

lemma read_rest: "sync_rest S (SyncRead vid) g = bindE (read_stretch vid) (sync_rest S) g"
  by (simp add: sync_rest_def Saved_def read_stretch_def bindE_assoc_retE bindE_read export_rest split: option.split del: free_among.simps)

lemma free_rest: "sync_rest S (SyncFree vc names) g = bindE (free_stretch S vc names) (sync_rest S) g"
proof (cases names)
  case Nil
  then show ?thesis by (simp add: sync_rest_def free_stretch_def) (simp add: bindE_def tryE_def failE_def)
next
  case (Cons name names)
  obtain r g1 where "on_kube (GetConfigMap (sync_K S) (sy_kc S) name) g = (r, g1)" by fastforce
  with Cons show ?thesis
    by (cases r) (auto simp: sync_rest_def free_stretch_def bindE_tryE_retE tryE_run bindE_def failE_def retE_def tryE_def)
qed

lemma own_rest: "sync_rest S (SyncOwn vc) g = bindE (own_stretch S vc) (sync_rest S) g"
proof -
  obtain r g1 where "own_name S (vc_ConfigMap vc) g = (r, g1)" by fastforce
  then show ?thesis
    by (cases r) (auto simp: sync_rest_def own_stretch_def bindE_tryE_retE tryE_run bindE_result failE_def)
qed

lemma write_stage_rest: "sync_rest S (SyncWrite vc name existing) g = bindE (write_stretch S vc name existing) (sync_rest S) g"
proof -
  obtain r g1 where "write_cm S existing (Render (sy_yaml S) vc name (secret_for vc name)) g = (r, g1)" by fastforce
  then show ?thesis
    by (cases r) (auto simp: sync_rest_def write_stretch_def write_rest_def bindE_tryE_retE tryE_run bindE_result failE_def Let_def)
qed

lemma note_rest: "sync_rest S (SyncNote vc name verb) g = bindE (note_stretch S vc name verb) (sync_rest S) g"
proof -
  let ?m = "thenE (sync_write S (\<lambda>se. SetVCenterConfigMap se (vc_ID vc) name OriginRuntime (Some (secret_for vc name))))
       (gact act_Run ''configmap'' (''runtime ConfigMap '' @ verb)
         [(''configMap'', AStr name), (''name'', AStr (vc_Name vc)), (''vcenterId'', AStr (vc_ID vc))])"
  obtain r g1 where m: "?m g = (r, g1)" by fastforce
  have "sync_rest S (SyncNote vc name verb) = ?m" by (simp only: sync_rest_def sync_stage.case)
  moreover have "bindE (note_stretch S vc name verb) (sync_rest S) = tryE ?m (\<lambda>r. sync_rest S (SyncDone r))"
    by (simp only: note_stretch_def bindE_tryE_retE)
  moreover have "sync_rest S (SyncDone r) g1 = (r, g1)" by (cases r) (simp_all add: sync_rest_def failE_def retE_def)
  ultimately show ?thesis using m by (simp only: tryE_run)
qed

lemma stretch_rest: "sync_rest S st g = bindE (sync_stretch S st) (sync_rest S) g"
  by (cases st) (simp_all add: sync_stretch_def read_rest free_rest own_rest write_stage_rest note_rest)

lemma turns_rest: "sync_rest S st g = bindE (sync_turns S n st) (sync_rest S) g"
proof (induction n arbitrary: st g)
  case (Suc n)
  obtain r g1 where m: "sync_stretch S st g = (r, g1)" by fastforce
  have rest: "sync_rest S st g = (case r of Inl e \<Rightarrow> (Inl e, g1) | Inr x \<Rightarrow> sync_rest S x g1)"
    unfolding stretch_rest [of S st g] using m by (rule bindE_result)
  show ?case
  proof (cases r)
    case (Inl e)
    with rest m show ?thesis by (simp add: bindE_def tryE_def failE_def)
  next
    case (Inr x)
    obtain q g2 where t: "sync_turns S n x g1 = (q, g2)" by fastforce
    have "sync_turns S (Suc n) st g = (q, g2)" using t m Inr by (simp add: bindE_result)
    then have "bindE (sync_turns S (Suc n) st) (sync_rest S) g = (case q of Inl e \<Rightarrow> (Inl e, g2) | Inr y \<Rightarrow> sync_rest S y g2)"
      by (rule bindE_result)
    moreover have "bindE (sync_turns S n x) (sync_rest S) g1 = (case q of Inl e \<Rightarrow> (Inl e, g2) | Inr y \<Rightarrow> sync_rest S y g2)"
      using t by (rule bindE_result)
    ultimately show ?thesis using rest Inr Suc.IH [of x g1] by (simp only: sum.case)
  qed
qed simp

text \<open>Every stretch brings a call closer to its end.\<close>

fun turns_left :: "sync_stage \<Rightarrow> nat" where
  "turns_left (SyncRead vid) = 6"
| "turns_left (SyncFree vc names) = 3 + length names"
| "turns_left (SyncOwn vc) = 3"
| "turns_left (SyncWrite vc name existing) = 2"
| "turns_left (SyncNote vc name verb) = 1"
| "turns_left (SyncDone r) = 0"

lemma stretch_lowers: "sync_stretch S st g = (r, g') \<Longrightarrow>
    \<exists>st'. r = Inr st' \<and> (turns_left st' < turns_left st \<or> st' = st \<and> turns_left st = 0)"
  by (cases st)
    (auto simp: sync_stretch_def read_stretch_def free_stretch_def own_stretch_def write_stretch_def note_stretch_def free_names_def
      bindE_def tryE_def retE_def failE_def store_read_def getE_def Let_def
      split: option.splits list.splits prod.splits sum.splits if_splits)

lemma turns_end: "turns_left st \<le> n \<Longrightarrow> sync_turns S n st g = (r, g') \<Longrightarrow> \<exists>q. r = Inr (SyncDone q)"
proof (induction n arbitrary: st g)
  case 0
  then show ?case by (cases st) (auto simp: retE_def)
next
  case (Suc n)
  obtain r1 g1 where m: "sync_stretch S st g = (r1, g1)" by fastforce
  from stretch_lowers [OF m] Suc.prems(1) obtain st' where st': "r1 = Inr st'" "turns_left st' \<le> n" by auto
  show ?case by (rule Suc.IH [OF st'(2), of g1]) (use Suc.prems(2) m st'(1) in \<open>simp add: bindE_result\<close>)
qed

text \<open>
  A call that nobody interrupts is \<open>Saved\<close>. Six turns of its stretches, with no other step in between, end it with
  the outcome of \<open>Saved\<close> and leave the store, the exchanges with the API server and all else as \<open>Saved\<close> does.
\<close>

theorem lone_sync_is_Saved:
  "sync_turns S 6 (SyncRead vid) g = (Inr (SyncDone (fst (Saved S vid g))), snd (Saved S vid g))"
proof -
  obtain r g' where t: "sync_turns S 6 (SyncRead vid) g = (r, g')" by fastforce
  then obtain q where q: "r = Inr (SyncDone q)" using turns_end [OF _ t] by auto
  have "Saved S vid g = bindE (sync_turns S 6 (SyncRead vid)) (sync_rest S) g"
    using turns_rest [of S "SyncRead vid" g 6] by (simp only: sync_rest_def sync_stage.case)
  also have "\<dots> = sync_rest S (SyncDone q) g'" using t q by (simp only: bindE_result sum.case)
  also have "\<dots> = (q, g')" by (cases q) (simp_all add: sync_rest_def failE_def retE_def)
  finally show ?thesis using t q by simp
qed

section \<open>Calls that interleave\<close>

text \<open>
  From \<open>g0\<close>: calls begin and take turns in any order; between the turns other requests do what they do to the store, the
  pool and vSphere (\<open>elsewhere\<close>), and vCenters are deleted together with their ConfigMaps.
\<close>

inductive sync_reach :: "sync_env \<Rightarrow> gw \<Rightarrow> gw \<Rightarrow> sync_stage list \<Rightarrow> bool"
  for S :: sync_env and g0 :: gw where
  start: "sync_reach S g0 g0 []"
| begin_call: "sync_reach S g0 g ts \<Longrightarrow> sync_reach S g0 g (ts @ [SyncRead vid])"
| turn: "sync_reach S g0 g ts \<Longrightarrow> i < length ts \<Longrightarrow> sync_stretch S (ts ! i) g = (Inr st, g') \<Longrightarrow> sync_reach S g0 g' (ts[i := st])"
| elsewhere: "sync_reach S g0 g ts \<Longrightarrow> g_kube g' = g_kube g \<Longrightarrow> sync_reach S g0 g' ts"
| deleted: "sync_reach S g0 g ts \<Longrightarrow> Deleted S vc g = (r, g') \<Longrightarrow> sync_reach S g0 g' ts"

text \<open>
  Reading, deleting, or a write allowed by what was found at some moment before: not necessarily by the last exchange, as
  it is when the call runs alone.
\<close>

definition traced_call :: "sync_env \<Rightarrow> khist \<Rightarrow> kcall \<times> (string + int) \<Rightarrow> bool" where
  "traced_call S h x \<longleftrightarrow> kc_body (fst x) = None \<and> kc_method (fst x) \<in> {''GET'', ''DELETE''}
     \<or> (\<exists>h1 name existing. prefix h1 h \<and> found S name existing h1 \<and> written_call S name existing (fst x))"

definition stage_ok :: "sync_env \<Rightarrow> khist \<Rightarrow> sync_stage \<Rightarrow> bool" where
  "stage_ok S h st \<longleftrightarrow> (case st of SyncWrite vc name existing \<Rightarrow> (\<exists>h1. prefix h1 h \<and> found S name existing h1) | _ \<Rightarrow> True)"

lemma kube_steps_prefix: "kube_steps P h h' \<Longrightarrow> prefix h h'"
  by (auto simp: kube_steps_def)

lemma stage_ok_grows: "stage_ok S h st \<Longrightarrow> prefix h h' \<Longrightarrow> stage_ok S h' st"
  by (auto simp: stage_ok_def split: sync_stage.splits intro: prefix_order.trans)

lemma GetConfigMap_traced: "keeps (kube_rel (traced_call S)) (on_kube (GetConfigMap K c name))"
  unfolding GetConfigMap_def by (rule kube_rel_on_kube, erule kube_do_steps, simp add: traced_call_def)

lemma stretch_traced:
  assumes "sync_stretch S st g = (r, g')" "stage_ok S (g_kube g) st"
  shows "kube_steps (traced_call S) (g_kube g) (g_kube g') \<and> (\<forall>st'. r = Inr st' \<longrightarrow> stage_ok S (g_kube g') st')"
proof (cases st)
  case (SyncRead vid)
  with assms(1) show ?thesis
    by (auto simp: sync_stretch_def read_stretch_def bindE_read retE_def stage_ok_def split: option.splits)
next
  case (SyncFree vc names)
  show ?thesis
  proof (cases names)
    case Nil
    with SyncFree assms(1) show ?thesis by (auto simp: sync_stretch_def free_stretch_def retE_def stage_ok_def)
  next
    case (Cons name names)
    obtain q g1 where m: "on_kube (GetConfigMap (sync_K S) (sy_kc S) name) g = (q, g1)" by fastforce
    have "kube_steps (traced_call S) (g_kube g) (g_kube g1)" using keepsD [OF GetConfigMap_traced m] by (simp add: kube_rel_def)
    with GetConfigMap_found [OF m] SyncFree Cons assms(1) show ?thesis
      by (auto simp: sync_stretch_def free_stretch_def tryE_run [where m = "on_kube (GetConfigMap (sync_K S) (sy_kc S) name)", OF m] retE_def stage_ok_def
          split: sum.splits if_splits)
  qed
next
  case (SyncOwn vc)
  obtain q g1 where m: "on_kube (GetConfigMap (sync_K S) (sy_kc S) (vc_ConfigMap vc)) g = (q, g1)" by fastforce
  have "kube_steps (traced_call S) (g_kube g) (g_kube g1)" using keepsD [OF GetConfigMap_traced m] by (simp add: kube_rel_def)
  with GetConfigMap_found [OF m] SyncOwn m assms(1) show ?thesis
    by (auto simp: sync_stretch_def own_stretch_def own_name_def tryE_def retE_def failE_def stage_ok_def split: sum.splits if_splits)
next
  case (SyncWrite vc name existing)
  then obtain h1 where h1: "prefix h1 (g_kube g)" "found S name existing h1" using assms(2) by (auto simp: stage_ok_def)
  let ?ref = "secret_for vc name"
  obtain q g1 where m: "write_cm S existing (Render (sy_yaml S) vc name ?ref) g = (q, g1)" by fastforce
  have "kube_steps (traced_call S) (g_kube g) (g_kube g1)"
    using write_cm_written [of g S name existing "sy_yaml S" vc ?ref] h1 m
    by (auto simp: kube_rel_def traced_call_def elim!: kube_steps_mono)
  with SyncWrite m assms(1) show ?thesis
    by (auto simp: sync_stretch_def write_stretch_def tryE_def retE_def stage_ok_def split: sum.splits)
next
  case (SyncNote vc name verb)
  let ?m = "thenE (sync_write S (\<lambda>se. SetVCenterConfigMap se (vc_ID vc) name OriginRuntime (Some (secret_for vc name))))
       (gact act_Run ''configmap'' (''runtime ConfigMap '' @ verb)
         [(''configMap'', AStr name), (''name'', AStr (vc_Name vc)), (''vcenterId'', AStr (vc_ID vc))])"
  have k: "keeps (kube_rel (traced_call S)) ?m" by (intro keeps_thenE kube_intro kube_rel_preorder)
  obtain q g1 where m: "?m g = (q, g1)" by fastforce
  have "note_stretch S vc name verb g = (Inr (SyncDone q), g1)"
    unfolding note_stretch_def using m by (simp only: tryE_run retE_def)
  with SyncNote assms(1) keepsD [OF k m] show ?thesis by (auto simp: sync_stretch_def stage_ok_def kube_rel_def)
next
  case (SyncDone q)
  with assms(1) show ?thesis by (auto simp: sync_stretch_def retE_def stage_ok_def)
qed

lemma Deleted_traced: "keeps (kube_rel (traced_call S)) (Deleted S vc)"
proof -
  have "keeps (kube_rel (traced_call S)) (on_kube (DeleteConfigMap (sync_K S) (sy_kc S) name))" for name
  proof (rule kube_rel_on_kube)
    fix h r h'
    assume d: "DeleteConfigMap (sync_K S) (sy_kc S) name h = (r, h')"
    obtain q h1 where m: "kube_do (sync_K S) (sy_kc S) ''DELETE'' (cmPath (sy_kc S) name) None (\<lambda>_. Inr ()) h = (q, h1)" by fastforce
    have "h' = h1" using d m by (auto simp: DeleteConfigMap_def tryE_def retE_def failE_def split: sum.splits if_splits)
    with m show "kube_steps (traced_call S) h h'" by (auto simp: traced_call_def intro: kube_do_steps)
  qed
  then show ?thesis unfolding Deleted_def by (intro keeps_intro kube_intro kube_rel_preorder)
qed

lemma sync_reach_traced:
  "sync_reach S g0 g ts \<Longrightarrow> kube_steps (traced_call S) (g_kube g0) (g_kube g) \<and> (\<forall>st \<in> set ts. stage_ok S (g_kube g) st)"
proof (induction rule: sync_reach.induct)
  case (turn g ts i st g')
  then have ok: "stage_ok S (g_kube g) (ts ! i)" by simp
  from stretch_traced [OF turn.hyps(3) ok] have s: "kube_steps (traced_call S) (g_kube g) (g_kube g')" "stage_ok S (g_kube g') st" by auto
  with turn.IH have "\<forall>x \<in> set ts. stage_ok S (g_kube g') x" by (blast intro: stage_ok_grows kube_steps_prefix)
  with s turn.IH show ?case by (auto intro: kube_steps_trans dest: set_update_subset_insert [THEN subsetD])
next
  case (deleted g ts vc r g')
  then have "kube_steps (traced_call S) (g_kube g) (g_kube g')" using keepsD [OF Deleted_traced] by (auto simp: kube_rel_def)
  with deleted.IH show ?case by (blast intro: kube_steps_trans stage_ok_grows kube_steps_prefix)
qed (auto simp: stage_ok_def)

text \<open>
  C20: Interleaved calls still write only what is the gateway's own. Whatever calls of \<open>Saved\<close> run at the same time, with edits
  and deletions in between and whatever the API server answers: every write carries a ConfigMap labelled as the gateway's
  own, and the same name was read before and found free, for a creation, or labelled runtime, for a
  replacement, which carries the resource version then read, so the API server refuses it if the ConfigMap changed since.
\<close>

theorem interleaved_syncs_write_only_their_own:
  assumes "sync_reach S g0 g ts"
  shows "let h = g_kube g0; h' = g_kube g in
    prefix h h' \<and> list_all (\<lambda>i. traced_call S (take i h') (h' ! i)) [length h ..< length h']"
  using kube_steps_list_all [of "traced_call S"] sync_reach_traced [OF assms] by (simp only: Let_def)

section \<open>An edit that is lost\<close>

text \<open>
  An API server with optimistic locking: it has one ConfigMap, labelled runtime, whose resource version counts the
  replacements accepted, and refuses a replacement made from another version. The document is the URL.
\<close>

definition puts :: "khist \<Rightarrow> nat" where
  "puts h = length (filter (\<lambda>(c, s). kc_method c = ''PUT'' \<and> s = Inr 200) h)"

definition demo_kept_cm :: "nat \<Rightarrow> configmap" where
  "demo_kept_cm v = \<lparr>cm_APIVersion = ''v1'', cm_Kind = ''ConfigMap'',
     cm_Metadata = \<lparr>om_Name = ''cm'', om_Namespace = ''ns'', om_Labels = fmupd LabelOrigin OriginRuntime fmempty, om_Annotations = fmempty,
       om_ResourceVersion = nat_digits v\<rparr>, cm_Data = fmempty\<rparr>"

definition demo_resp :: "int \<Rightarrow> nat \<Rightarrow> kresp" where
  "demo_resp status v = \<lparr>kr_Status = status, kr_Text = [], kr_Message = None, kr_ConfigMap = Inr (demo_kept_cm v), kr_List = Inl [], kr_Secret = Inl []\<rparr>"

definition demo_server :: kube_env where
  "demo_server = \<lparr>ke_badURL = (\<lambda>_. None), ke_token = (\<lambda>_. Inr ''t''), ke_Do = (\<lambda>h c. case kc_body c of
       None \<Rightarrow> Inr (demo_resp 200 (puts h))
     | Some cm \<Rightarrow> Inr (demo_resp (if om_ResourceVersion (cm_Metadata cm) = nat_digits (puts h) then 200 else 409) (Suc (puts h))))\<rparr>"

definition demo_mirror :: sync_env where
  "demo_mirror = \<lparr>sy_gw = demo_genv\<lparr>ge_kube := demo_server\<rparr>, sy_yaml = \<lparr>ye_Unmarshal = (\<lambda>_. (None, vc_spec demo_gw_vc demo_ref)), ye_Marshal = sp_URL\<rparr>,
     sy_kc = kube_New ''https://k'' ''ns''\<rparr>"

definition demo_mirrored :: "string \<Rightarrow> vcenter" where
  "demo_mirrored url = demo_gw_vc\<lparr>vc_URL := url, vc_ConfigMap := ''cm'', vc_ConfigOrigin := OriginRuntime, vc_CredentialsSecret := Some demo_ref\<rparr>"

definition demo_edited :: "string \<Rightarrow> gw \<Rightarrow> gw" where
  "demo_edited url g = g\<lparr>g_store := (g_store g)\<lparr>s_vcenters := fmupd ''1'' (demo_mirrored url) (s_vcenters (g_store g))\<rparr>\<rparr>"

definition demo_doc :: "string \<Rightarrow> nat \<Rightarrow> configmap" where
  "demo_doc url v = (let cm = stamped (sy_kc demo_mirror) (Render (sy_yaml demo_mirror) (redact (demo_mirrored url)) ''cm'' demo_ref)
     in cm\<lparr>cm_Metadata := (cm_Metadata cm)\<lparr>om_ResourceVersion := nat_digits v\<rparr>\<rparr>)"

lemma demo_doc_data: "fmlookup (cm_Data (demo_doc url v)) DataKey = Some url"
proof -
  have "cm_Data (demo_doc url v) = cm_Data (Render (sy_yaml demo_mirror) (redact (demo_mirrored url)) ''cm'' demo_ref)"
    by (simp add: demo_doc_def stamped_def Let_def)
  moreover have "ye_Marshal (sy_yaml demo_mirror) = sp_URL" by (simp add: demo_mirror_def)
  moreover have "vc_URL (redact (demo_mirrored url)) = url" by (simp add: redact_def demo_mirrored_def)
  ultimately show ?thesis by (simp add: Render_def vc_spec_def)
qed

lemma demo_read:
  assumes "fmlookup (s_vcenters (g_store g)) ''1'' = Some (demo_mirrored url)"
  shows "sync_stretch demo_mirror (SyncRead ''1'') g = (Inr (SyncOwn (redact (demo_mirrored url))), g)"
  using assms by (simp add: sync_stretch_def read_stretch_def bindE_read GetVCenter_def retE_def redact_def demo_mirrored_def
      OriginRuntime_def OriginGitOps_def)

lemma demo_own:
  "sync_stretch demo_mirror (SyncOwn (redact (demo_mirrored url))) g =
     (Inr (SyncWrite (redact (demo_mirrored url)) ''cm'' (Some (demo_kept_cm (puts (g_kube g))))),
      g\<lparr>g_kube := g_kube g @ [(get_call demo_mirror ''cm'', Inr 200)]\<rparr>)"
proof -
  have "vc_ConfigMap (redact (demo_mirrored url)) = ''cm''" by (simp add: redact_def demo_mirrored_def)
  moreover have "own_name demo_mirror ''cm'' g = (Inr (''cm'', Some (demo_kept_cm (puts (g_kube g)))), g\<lparr>g_kube := g_kube g @ [(get_call demo_mirror ''cm'', Inr 200)]\<rparr>)"
    by (simp add: own_name_def on_kube_def GetConfigMap_def kube_do_def kube_exchange_def check_status_def decoded_def demo_mirror_def demo_genv_def
        sync_K_def demo_server_def demo_resp_def io_simps Let_def get_call_def cm_url_def cm_label_def map_get_def demo_kept_cm_def)
  ultimately show ?thesis by (simp add: sync_stretch_def own_stretch_def tryE_def retE_def)
qed

lemma demo_write:
  assumes "puts (g_kube g) = v"
  shows "sync_stretch demo_mirror (SyncWrite (redact (demo_mirrored url)) ''cm'' (Some (demo_kept_cm v))) g =
     (Inr (SyncNote (redact (demo_mirrored url)) ''cm'' ''updated''),
      g\<lparr>g_kube := g_kube g @ [(KCall ''PUT'' (cm_url demo_mirror ''cm'') (Some (demo_doc url v)), Inr 200)]\<rparr>)"
proof -
  let ?vc = "redact (demo_mirrored url)"
  let ?cm = "Render (sy_yaml demo_mirror) ?vc ''cm'' demo_ref"
  have ref: "secret_for ?vc ''cm'' = demo_ref" by (simp add: secret_for_def redact_def demo_mirrored_def)
  have name: "om_Name (cm_Metadata ?cm) = ''cm''" by (rule Render_labelled)
  have doc: "stamped (sy_kc demo_mirror) (?cm\<lparr>cm_Metadata := (cm_Metadata ?cm)\<lparr>om_ResourceVersion := nat_digits v\<rparr>\<rparr>) = demo_doc url v"
    by (simp add: demo_doc_def stamped_def)
  have rv: "om_ResourceVersion (cm_Metadata (demo_doc url v)) = nat_digits v" by (simp add: demo_doc_def Let_def)
  have K: "sync_K demo_mirror = demo_server" by (simp add: sync_K_def demo_mirror_def)
  have "write_cm demo_mirror (Some (demo_kept_cm v)) ?cm g = (Inr ''updated'',
      g\<lparr>g_kube := g_kube g @ [(KCall ''PUT'' (cm_url demo_mirror ''cm'') (Some (demo_doc url v)), Inr 200)]\<rparr>)"
    using assms rv name
    by (simp add: write_cm_def on_kube_def UpdateConfigMap_def K doc demo_kept_cm_def kube_do_def kube_exchange_def check_status_def decoded_def
        demo_server_def demo_resp_def io_simps Let_def cm_url_def)
  then show ?thesis by (simp add: sync_stretch_def write_stretch_def ref tryE_def retE_def)
qed

lemma demo_note:
  assumes "fmlookup (s_vcenters (g_store g)) ''1'' = Some (demo_mirrored new)"
  obtains g' where "sync_stretch demo_mirror (SyncNote (redact (demo_mirrored url)) ''cm'' verb) g = (Inr (SyncDone (Inr ())), g')"
    "g_kube g' = g_kube g" "fmlookup (s_vcenters (g_store g')) ''1'' = Some (demo_mirrored new)"
proof -
  let ?vc = "redact (demo_mirrored url)"
  let ?r = "sync_stretch demo_mirror (SyncNote ?vc ''cm'' verb) g"
  have vc: "secret_for ?vc ''cm'' = demo_ref" "vc_ID ?vc = ''1''" "vc_ID (demo_mirrored url) = ''1''" by (simp_all add: secret_for_def redact_def demo_mirrored_def demo_gw_vc_def)
  have same: "demo_mirrored new\<lparr>vc_ConfigMap := ''cm'', vc_ConfigOrigin := OriginRuntime, vc_CredentialsSecret := Some demo_ref\<rparr> = demo_mirrored new"
    by (simp add: demo_mirrored_def)
  have healthy: "se_write (demo_env a b c) = None" "se_rename (demo_env a b c) = None" for a b c by (simp_all add: demo_env_def)
  obtain st where st: "SetVCenterConfigMap (demo_env [''1''] [''1''] [''aa-bb'']) ''1'' ''cm'' OriginRuntime (Some demo_ref) (g_store g) = (Inr (), st)"
    "fmlookup (s_vcenters st) ''1'' = Some (demo_mirrored new)"
    using assms persist_healthy(1) [OF healthy]
    by (auto simp: SetVCenterConfigMap_def same persistLocked_def Let_def healthy)
  have "ge_store (sy_gw demo_mirror) n s = demo_env [''1''] [''1''] [''aa-bb'']" for n s by (simp add: demo_mirror_def demo_genv_def)
  with st have r: "fst ?r = Inr (SyncDone (Inr ()))" "g_kube (snd ?r) = g_kube g" "fmlookup (s_vcenters (g_store (snd ?r))) ''1'' = Some (demo_mirrored new)"
    by (simp_all add: sync_stretch_def note_stretch_def vc sync_write_def map_errE_def store_write_def gact_def io_simps)
  from r(1) have "?r = (Inr (SyncDone (Inr ())), snd ?r)" by (metis prod.collapse)
  from that [OF this r(2,3)] show thesis .
qed

lemma reach_turn:
  "sync_reach S g0 g ts \<Longrightarrow> i < length ts \<Longrightarrow> ts ! i = st \<Longrightarrow> sync_stretch S st g = (Inr st', g') \<Longrightarrow> ts' = ts[i := st'] \<Longrightarrow> sync_reach S g0 g' ts'"
  using sync_reach.turn by blast

lemma puts_GET [simp]: "puts (h @ [(get_call S name, s)]) = puts h"
  by (simp add: puts_def get_call_def)

lemma demo_finishes:
  assumes "sync_reach demo_mirror g0 g ts" "i < length ts" "ts ! i = SyncOwn (redact (demo_mirrored url))"
    and "fmlookup (s_vcenters (g_store g)) ''1'' = Some (demo_mirrored new)"
  obtains g' where "sync_reach demo_mirror g0 g' (ts[i := SyncDone (Inr ())])"
    "g_kube g' = g_kube g @ [(get_call demo_mirror ''cm'', Inr 200),
       (KCall ''PUT'' (cm_url demo_mirror ''cm'') (Some (demo_doc url (puts (g_kube g)))), Inr 200)]"
    "fmlookup (s_vcenters (g_store g')) ''1'' = Some (demo_mirrored new)"
proof -
  let ?vc = "redact (demo_mirrored url)"
  let ?v = "puts (g_kube g)"
  define ts1 where "ts1 = ts[i := SyncWrite ?vc ''cm'' (Some (demo_kept_cm ?v))]"
  define g1 where "g1 = g\<lparr>g_kube := g_kube g @ [(get_call demo_mirror ''cm'', Inr 200)]\<rparr>"
  have r1: "sync_reach demo_mirror g0 g1 ts1"
    unfolding g1_def ts1_def by (rule reach_turn [OF assms(1-3) demo_own refl])
  define ts2 where "ts2 = ts1[i := SyncNote ?vc ''cm'' ''updated'']"
  define g2 where "g2 = g1\<lparr>g_kube := g_kube g1 @ [(KCall ''PUT'' (cm_url demo_mirror ''cm'') (Some (demo_doc url ?v)), Inr 200)]\<rparr>"
  have "puts (g_kube g1) = ?v" by (simp add: g1_def)
  from reach_turn [OF r1 _ _ demo_write [OF this] ts2_def] have r2: "sync_reach demo_mirror g0 g2 ts2"
    using assms(2) by (simp add: ts1_def g2_def)
  have "fmlookup (s_vcenters (g_store g2)) ''1'' = Some (demo_mirrored new)" using assms(4) by (simp add: g2_def g1_def)
  from demo_note [OF this, of url "''updated''"] obtain g3 where n: "sync_stretch demo_mirror (SyncNote ?vc ''cm'' ''updated'') g2 = (Inr (SyncDone (Inr ())), g3)"
    "g_kube g3 = g_kube g2" "fmlookup (s_vcenters (g_store g3)) ''1'' = Some (demo_mirrored new)" .
  have "sync_reach demo_mirror g0 g3 (ts[i := SyncDone (Inr ())])"
  proof (rule reach_turn [OF r2 _ _ n(1)])
    show "i < length ts2" "ts2 ! i = SyncNote ?vc ''cm'' ''updated''" "ts[i := SyncDone (Inr ())] = ts2[i := SyncDone (Inr ())]"
      by (simp_all add: ts2_def ts1_def assms(2))
  qed
  with n(2,3) show thesis by (intro that) (simp_all add: g2_def g1_def)
qed

text \<open>
  Two edits of one vCenter at the same time: the first call reads the vCenter, then the second edit changes it and its call
  writes the ConfigMap, then the first goes on: it reads the ConfigMap with its newest resource version, so the API
  server accepts what it writes, the vCenter as it was before the second edit. Both calls succeed, the store has the second
  edit and the ConfigMap the first, which the next start loads.
\<close>

theorem older_edit_overwrites_newer:
  "\<exists>g. sync_reach demo_mirror (demo_edited ''https://first'' demo_gw) g [SyncDone (Inr ()), SyncDone (Inr ())]
     \<and> fmlookup (s_vcenters (g_store g)) ''1'' = Some (demo_mirrored ''https://second'')
     \<and> last (g_kube g) = (KCall ''PUT'' (cm_url demo_mirror ''cm'') (Some (demo_doc ''https://first'' 1)), Inr 200)
     \<and> fmlookup (cm_Data (demo_doc ''https://first'' 1)) DataKey = Some ''https://first''"
proof -
  let ?S = demo_mirror
  let ?one = "redact (demo_mirrored ''https://first'')" and ?two = "redact (demo_mirrored ''https://second'')"
  define g0 where "g0 = demo_edited ''https://first'' demo_gw"
  define g1 where "g1 = demo_edited ''https://second'' g0"
  have k: "g_kube g0 = []" "g_kube g1 = []" by (simp_all add: g0_def g1_def demo_edited_def demo_gw_def)
  have v: "fmlookup (s_vcenters (g_store g0)) ''1'' = Some (demo_mirrored ''https://first'')"
    "fmlookup (s_vcenters (g_store g1)) ''1'' = Some (demo_mirrored ''https://second'')"
    by (simp_all add: g0_def g1_def demo_edited_def)
  have "sync_reach ?S g0 g0 [SyncRead ''1'']" using sync_reach.begin_call [OF sync_reach.start] by simp
  then have "sync_reach ?S g0 g0 [SyncOwn ?one]" by (rule reach_turn [where i = 0, OF _ _ _ demo_read [OF v(1)]]) simp_all
  then have "sync_reach ?S g0 g1 [SyncOwn ?one]" by (rule sync_reach.elsewhere) (simp add: k)
  then have "sync_reach ?S g0 g1 [SyncOwn ?one, SyncRead ''1'']" using sync_reach.begin_call by fastforce
  then have "sync_reach ?S g0 g1 [SyncOwn ?one, SyncOwn ?two]" by (rule reach_turn [where i = 1, OF _ _ _ demo_read [OF v(2)]]) simp_all
  from demo_finishes [where i = 1 and url = "''https://second''", OF this _ _ v(2)] obtain g2 where r2: "sync_reach ?S g0 g2 [SyncOwn ?one, SyncDone (Inr ())]"
    "g_kube g2 = [(get_call ?S ''cm'', Inr 200), (KCall ''PUT'' (cm_url ?S ''cm'') (Some (demo_doc ''https://second'' 0)), Inr 200)]"
    "fmlookup (s_vcenters (g_store g2)) ''1'' = Some (demo_mirrored ''https://second'')"
    by (auto simp: k puts_def)
  have "puts (g_kube g2) = 1" by (simp add: r2(2) puts_def get_call_def)
  moreover have i: "0 < length [SyncOwn ?one, SyncDone (Inr ())]" "[SyncOwn ?one, SyncDone (Inr ())] ! 0 = SyncOwn ?one" by simp_all
  from demo_finishes [OF r2(1) i r2(3)] obtain g3 where "sync_reach ?S g0 g3 ([SyncOwn ?one, SyncDone (Inr ())][0 := SyncDone (Inr ())])"
    "g_kube g3 = g_kube g2 @ [(get_call ?S ''cm'', Inr 200),
       (KCall ''PUT'' (cm_url ?S ''cm'') (Some (demo_doc ''https://first'' (puts (g_kube g2)))), Inr 200)]"
    "fmlookup (s_vcenters (g_store g3)) ''1'' = Some (demo_mirrored ''https://second'')" .
  ultimately have "sync_reach ?S g0 g3 [SyncDone (Inr ()), SyncDone (Inr ())]"
    "last (g_kube g3) = (KCall ''PUT'' (cm_url ?S ''cm'') (Some (demo_doc ''https://first'' 1)), Inr 200)"
    "fmlookup (s_vcenters (g_store g3)) ''1'' = Some (demo_mirrored ''https://second'')"
    by simp_all
  moreover have "fmlookup (cm_Data (demo_doc ''https://first'' 1)) DataKey = Some ''https://first''" by (rule demo_doc_data)
  ultimately show ?thesis unfolding g0_def by blast
qed

theorem interleaved_syncs_write_only_their_own_witness:
  "\<exists>g. sync_reach demo_mirror (demo_edited ''https://first'' demo_gw) g [SyncDone (Inr ()), SyncDone (Inr ())]
     \<and> kc_method (fst (last (g_kube g))) = ''PUT''
     \<and> list_all (\<lambda>i. traced_call demo_mirror (take i (g_kube g)) (g_kube g ! i)) [0 ..< length (g_kube g)]"
proof -
  obtain g where g: "sync_reach demo_mirror (demo_edited ''https://first'' demo_gw) g [SyncDone (Inr ()), SyncDone (Inr ())]"
    "last (g_kube g) = (KCall ''PUT'' (cm_url demo_mirror ''cm'') (Some (demo_doc ''https://first'' 1)), Inr 200)"
    using older_edit_overwrites_newer by blast
  have k: "g_kube (demo_edited ''https://first'' demo_gw) = []" by (simp add: demo_edited_def demo_gw_def)
  note all = interleaved_syncs_write_only_their_own [OF g(1), unfolded k Let_def list.size(3)]
  have "kc_method (fst (last (g_kube g))) = ''PUT''" by (simp only: g(2) fst_conv kcall.sel(1))
  with g(1) all show ?thesis by blast
qed

section \<open>A deletion that does not last\<close>

text \<open>An API server that answers 404 for a ConfigMap that has been deleted.\<close>

definition gone_server :: kube_env where
  "gone_server = \<lparr>ke_badURL = (\<lambda>_. None), ke_token = (\<lambda>_. Inr ''t''), ke_Do = (\<lambda>h c.
     Inr (demo_resp (if kc_method c = ''GET'' \<and> list_ex (\<lambda>x. kc_method (fst x) = ''DELETE'') h then 404 else 200) 0))\<rparr>"

definition gone_mirror :: sync_env where
  "gone_mirror = demo_mirror\<lparr>sy_gw := demo_genv\<lparr>ge_kube := gone_server\<rparr>\<rparr>"

definition gone_doc :: "string \<Rightarrow> configmap" where
  "gone_doc url = stamped (sy_kc gone_mirror) (Render (sy_yaml gone_mirror) (redact (demo_mirrored url)) ''cm'' demo_ref)"

lemma gone_fields: "sync_K gone_mirror = gone_server" "sy_kc gone_mirror = kube_New ''https://k'' ''ns''" "ye_Marshal (sy_yaml gone_mirror) = sp_URL"
    "ge_store (sy_gw gone_mirror) n s = demo_env [''1''] [''1''] [''aa-bb'']"
    "vc_ConfigMap (demo_mirrored url) = ''cm''" "vc_ConfigOrigin (demo_mirrored url) = OriginRuntime"
    "vc_ID (demo_mirrored url) = ''1''" "secret_for (redact (demo_mirrored url)) ''cm'' = demo_ref"
  by (simp_all add: sync_K_def gone_mirror_def demo_mirror_def demo_genv_def redact_def demo_mirrored_def demo_gw_vc_def secret_for_def)

lemma gone_deleted:
  "\<exists>g'. Deleted gone_mirror (redact (demo_mirrored url)) g = (Inr (), g') \<and> g_store g' = g_store g
     \<and> g_kube g' = g_kube g @ [(KCall ''DELETE'' (cm_url gone_mirror ''cm'') None, Inr 200)]"
  by (simp add: Deleted_def gone_fields OriginRuntime_def on_kube_def DeleteConfigMap_def kube_do_def kube_exchange_def check_status_def gone_server_def
      demo_resp_def io_simps Let_def cm_url_def gact_def)

lemma gone_own:
  assumes "list_ex (\<lambda>x. kc_method (fst x) = ''DELETE'') (g_kube g)"
  shows "\<exists>g'. sync_stretch gone_mirror (SyncOwn (redact (demo_mirrored url))) g = (Inr (SyncWrite (redact (demo_mirrored url)) ''cm'' None), g')
     \<and> g_store g' = g_store g \<and> g_kube g' = g_kube g @ [(get_call gone_mirror ''cm'', Inr 404)]"
  using assms
  by (simp add: sync_stretch_def own_stretch_def gone_fields own_name_def on_kube_def GetConfigMap_def kube_do_def kube_exchange_def check_status_def
      gone_server_def demo_resp_def io_simps Let_def get_call_def cm_url_def)

lemma gone_write:
  "\<exists>g'. sync_stretch gone_mirror (SyncWrite (redact (demo_mirrored url)) ''cm'' None) g = (Inr (SyncNote (redact (demo_mirrored url)) ''cm'' ''created''), g')
     \<and> g_store g' = g_store g \<and> g_kube g' = g_kube g @ [(KCall ''POST'' (cm_url gone_mirror []) (Some (gone_doc url)), Inr 200)]"
  by (simp add: sync_stretch_def write_stretch_def gone_fields write_cm_def on_kube_def CreateConfigMap_def kube_do_def kube_exchange_def check_status_def
      decoded_def gone_server_def demo_resp_def io_simps Let_def cm_url_def gone_doc_def)

lemma gone_note:
  assumes "fmlookup (s_vcenters (g_store g)) ''1'' = None"
  shows "\<exists>e g'. sync_stretch gone_mirror (SyncNote (redact (demo_mirrored url)) ''cm'' verb) g = (Inr (SyncDone (Inl e)), g')
     \<and> g_store g' = g_store g \<and> g_kube g' = g_kube g"
  using assms
  by (simp add: sync_stretch_def note_stretch_def gone_fields sync_write_def map_errE_def store_write_def SetVCenterConfigMap_def gact_def io_simps)

text \<open>
  A vCenter is deleted while a call of an edit is under way: the call has read the vCenter, finds its ConfigMap gone and
  creates it again. Only then it learns from the store that the vCenter is no more; the ConfigMap stays, with the label
  the next start looks for, and brings the deleted vCenter back.
\<close>

theorem deleted_vcenter_comes_back:
  "\<exists>g e. sync_reach gone_mirror (demo_edited ''https://vc'' demo_gw) g [SyncDone (Inl e)]
     \<and> fmlookup (s_vcenters (g_store g)) ''1'' = None
     \<and> (KCall ''DELETE'' (cm_url gone_mirror ''cm'') None, Inr 200) \<in> set (g_kube g)
     \<and> last (g_kube g) = (KCall ''POST'' (cm_url gone_mirror []) (Some (gone_doc ''https://vc'')), Inr 200)
     \<and> labelled (gone_doc ''https://vc'')"
proof -
  let ?S = gone_mirror and ?vc = "redact (demo_mirrored ''https://vc'')"
  define g0 where "g0 = demo_edited ''https://vc'' demo_gw"
  have k: "g_kube g0 = []" by (simp add: g0_def demo_edited_def demo_gw_def)
  have v: "fmlookup (s_vcenters (g_store g0)) ''1'' = Some (demo_mirrored ''https://vc'')" by (simp add: g0_def demo_edited_def)
  have "sync_stretch ?S (SyncRead ''1'') g0 = (Inr (SyncOwn ?vc), g0)" using demo_read [OF v] by (simp add: sync_stretch_def)
  moreover have "sync_reach ?S g0 g0 [SyncRead ''1'']" using sync_reach.begin_call [OF sync_reach.start] by simp
  ultimately have r0: "sync_reach ?S g0 g0 [SyncOwn ?vc]" using reach_turn [where i = 0] by fastforce
  define g1 where "g1 = g0\<lparr>g_store := (g_store g0)\<lparr>s_vcenters := fmdrop ''1'' (s_vcenters (g_store g0))\<rparr>\<rparr>"
  have r1: "sync_reach ?S g0 g1 [SyncOwn ?vc]" using r0 by (rule sync_reach.elsewhere) (simp add: g1_def)
  from gone_deleted obtain g2 where g2: "Deleted ?S ?vc g1 = (Inr (), g2)" "g_store g2 = g_store g1"
    "g_kube g2 = g_kube g1 @ [(KCall ''DELETE'' (cm_url ?S ''cm'') None, Inr 200)]" by blast
  from r1 g2(1) have r2: "sync_reach ?S g0 g2 [SyncOwn ?vc]" by (rule sync_reach.deleted)
  have "list_ex (\<lambda>x. kc_method (fst x) = ''DELETE'') (g_kube g2)" by (simp add: g2(3))
  from gone_own [OF this] obtain g3 where g3: "sync_stretch ?S (SyncOwn ?vc) g2 = (Inr (SyncWrite ?vc ''cm'' None), g3)" "g_store g3 = g_store g2"
    "g_kube g3 = g_kube g2 @ [(get_call ?S ''cm'', Inr 404)]" by blast
  have r3: "sync_reach ?S g0 g3 [SyncWrite ?vc ''cm'' None]" by (rule reach_turn [where i = 0, OF r2 _ _ g3(1)]) simp_all
  from gone_write obtain g4 where g4: "sync_stretch ?S (SyncWrite ?vc ''cm'' None) g3 = (Inr (SyncNote ?vc ''cm'' ''created''), g4)" "g_store g4 = g_store g3"
    "g_kube g4 = g_kube g3 @ [(KCall ''POST'' (cm_url ?S []) (Some (gone_doc ''https://vc'')), Inr 200)]" by blast
  have r4: "sync_reach ?S g0 g4 [SyncNote ?vc ''cm'' ''created'']" by (rule reach_turn [where i = 0, OF r3 _ _ g4(1)]) simp_all
  have none: "fmlookup (s_vcenters (g_store g4)) ''1'' = None" by (simp add: g4 g3 g2 g1_def)
  from gone_note [OF none] obtain e g5 where g5: "sync_stretch ?S (SyncNote ?vc ''cm'' ''created'') g4 = (Inr (SyncDone (Inl e)), g5)"
    "g_store g5 = g_store g4" "g_kube g5 = g_kube g4" by blast
  have "sync_reach ?S g0 g5 [SyncDone (Inl e)]" by (rule reach_turn [where i = 0, OF r4 _ _ g5(1)]) simp_all
  moreover have "labelled (gone_doc ''https://vc'')" by (simp add: gone_doc_def Render_labelled)
  ultimately show ?thesis
    unfolding g0_def using none by (intro exI [of _ g5] exI [of _ e]) (simp add: g5(2,3) g4(3) g3(3) g2(3))
qed

end
