(* ===== verification/Api.thy ===== *)
theory Api
  imports Vcsync
begin

text \<open>
  The admin API (\<open>internal/api/api.go\<close>): one definition per handler over the gateway state. The mirror to
  ConfigMaps is the interface \<open>VCenterSync\<close>, a record of functions that may be absent. Time formatting,
  the order in which the ISO listing ranges over its map and what a second JSON decoder still finds in a
  body are parameters. JSON objects are written with the keys in the order of the source.
\<close>

section \<open>The server\<close>

record sync_interface =
  vy_Saved :: "string \<Rightarrow> (kube_err, unit) gio"
  vy_CheckDelete :: "string \<Rightarrow> (kube_err, unit) gio"
  vy_Deleted :: "vcenter \<Rightarrow> (kube_err, unit) gio"

record api_server =
  ap_gw :: gw_env
  ap_version :: string
  ap_sync :: "sync_interface option"
  ap_time :: "int \<Rightarrow> string"
  ap_order :: "gw \<Rightarrow> string list"
  ap_reread :: "request \<Rightarrow> request"

definition api_New :: "gw_env \<Rightarrow> string \<Rightarrow> (int \<Rightarrow> string) \<Rightarrow> (gw \<Rightarrow> string list) \<Rightarrow> (request \<Rightarrow> request) \<Rightarrow> api_server" where
  "api_New G version time order reread = \<lparr>ap_gw = G, ap_version = version, ap_sync = None, ap_time = time, ap_order = order, ap_reread = reread\<rparr>"

definition SetSync :: "sync_interface \<Rightarrow> api_server \<Rightarrow> api_server" where
  "SetSync y A = A\<lparr>ap_sync := Some y\<rparr>"

section \<open>JSON\<close>

definition omitempty :: "string \<Rightarrow> string \<Rightarrow> (string \<times> json) list" where
  "omitempty k v = (if v = [] then [] else [(k, JStr v)])"

definition omitfalse :: "string \<Rightarrow> bool \<Rightarrow> (string \<times> json) list" where
  "omitfalse k b = (if b then [(k, JBool True)] else [])"

definition omitzero :: "string \<Rightarrow> int \<Rightarrow> (string \<times> json) list" where
  "omitzero k i = (if i = 0 then [] else [(k, JInt i)])"

definition secret_ref_json :: "secret_ref \<Rightarrow> json" where
  "secret_ref_json r = JObj ([(''name'', JStr (sr_Name r))] @ omitempty ''passwordKey'' (sr_PasswordKey r)
     @ omitempty ''usernameKey'' (sr_UsernameKey r))"

definition vcenter_json :: "vcenter \<Rightarrow> json" where
  "vcenter_json vc = JObj ([(''id'', JStr (vc_ID vc)), (''name'', JStr (vc_Name vc)), (''url'', JStr (vc_URL vc)),
       (''username'', JStr (vc_Username vc)), (''password'', JStr (vc_Password vc)), (''insecure'', JBool (vc_Insecure vc)),
       (''datacenter'', JStr (vc_Datacenter vc)), (''datastore'', JStr (vc_Datastore vc))]
     @ omitempty ''folder'' (vc_Folder vc) @ [(''isoFolder'', JStr (vc_ISOFolder vc))] @ omitempty ''notes'' (vc_Notes vc)
     @ omitfalse ''dryRun'' (vc_DryRun vc) @ omitempty ''configMap'' (vc_ConfigMap vc) @ omitempty ''configOrigin'' (vc_ConfigOrigin vc)
     @ (case vc_CredentialsSecret vc of Some r \<Rightarrow> [(''credentialsSecret'', secret_ref_json r)] | None \<Rightarrow> [])
     @ omitempty ''passwordSource'' (vc_PasswordSource vc) @ [(''hasPassword'', JBool (vc_HasPassword vc))])"

definition mapping_json :: "mapping \<Rightarrow> json" where
  "mapping_json m = JObj ([(''uuid'', JStr (mp_UUID m)), (''vcenterId'', JStr (mp_VCenterID m))]
     @ omitempty ''name'' (mp_Name m) @ omitempty ''notes'' (mp_Notes m))"

definition settings_json :: "settings \<Rightarrow> json" where
  "settings_json s = JObj [(''dryRun'', JBool (set_DryRun s))]"

fun aval_json :: "aval \<Rightarrow> json" where
  "aval_json (AStr s) = JStr s"
| "aval_json (ABool b) = JBool b"
| "aval_json (AInt i) = JInt i"
| "aval_json (AStrs ss) = JArr (map JStr ss)"

definition event_json :: "(int \<Rightarrow> string) \<Rightarrow> event \<Rightarrow> json" where
  "event_json time ev = JObj ([(''id'', JInt (sint (ev_ID ev))), (''ts'', JStr (time (ev_TS ev))), (''channel'', JStr (ev_Channel ev)),
       (''level'', JStr (ev_Level ev)), (''op'', JStr (ev_Op ev)), (''message'', JStr (ev_Message ev))]
     @ (if ev_Detail ev = [] then [] else [(''detail'', JObj (map (\<lambda>(k, v). (k, aval_json v)) (ev_Detail ev)))])
     @ omitfalse ''dryRun'' (ev_DryRun ev))"

fun light_string :: "light \<Rightarrow> string" where
  "light_string LightGreen = ''green''"
| "light_string LightYellow = ''yellow''"
| "light_string LightRed = ''red''"
| "light_string LightBlue = ''blue''"

definition folder_vm_json :: "folder_vm \<Rightarrow> json" where
  "folder_vm_json v = JObj ([(''uuid'', JStr (fv_UUID v)), (''name'', JStr (fv_Name v))] @ omitempty ''path'' (fv_Path v)
     @ omitempty ''powerState'' (fv_PowerState v) @ [(''light'', JStr (light_string (fv_Light v)))])"

definition health_json :: "health_probe \<Rightarrow> json" where
  "health_json h = JObj ([(''connection'', JStr (light_string (hp_Connection h))), (''connectionDetail'', JStr (hp_ConnDetail h)),
       (''isoCache'', JStr (light_string (hp_ISOCache h))), (''isoCacheDetail'', JStr (hp_ISODetail h)), (''folderOk'', JBool (hp_FolderOK h))]
     @ omitempty ''folderPath'' (hp_FolderPath h) @ [(''ok'', JBool (hp_OK h))])"

definition mapping_status_json :: "mapping_status \<Rightarrow> json" where
  "mapping_status_json s = JObj ([(''uuid'', JStr (mst_UUID s)), (''found'', JBool (mst_Found s)), (''light'', JStr (light_string (mst_Light s)))]
     @ omitempty ''powerState'' (mst_PowerState s) @ omitempty ''name'' (mst_Name s) @ omitempty ''path'' (mst_Path s)
     @ [(''cdromIso'', JStr (mst_CDROMISO s))] @ omitempty ''error'' (mst_Error s))"

definition check_json :: "check_result \<Rightarrow> json" where
  "check_json c = JObj ([(''name'', JStr (cr_Name c)), (''ok'', JBool (cr_OK c))] @ omitfalse ''skip'' (cr_Skip c) @ omitempty ''detail'' (cr_Detail c))"

definition connection_test_json :: "connection_test \<Rightarrow> json" where
  "connection_test_json t = JObj ([(''ok'', JBool (ct_OK t))] @ omitempty ''error'' (ct_Error t) @ [(''checks'', JArr (map check_json (ct_Checks t)))])"

definition iso_entry_json :: "iso_entry \<Rightarrow> json" where
  "iso_entry_json e = JObj ([(''name'', JStr (ie_Name e)), (''datastorePath'', JStr (ie_DatastorePath e)), (''onDatastore'', JBool (ie_OnDatastore e))]
     @ omitzero ''datastoreSize'' (ie_DatastoreSize e) @ [(''localCached'', JBool (ie_LocalCached e))]
     @ omitzero ''localSize'' (ie_LocalSize e) @ omitempty ''localPath'' (ie_LocalPath e))"

definition iso_status_json :: "iso_status \<Rightarrow> json" where
  "iso_status_json s = JObj ([(''datastore'', JStr (is_Datastore s)), (''isoFolder'', JStr (is_ISOFolder s)), (''localCache'', JStr (is_LocalCache s)),
       (''reachable'', JBool (is_Reachable s))] @ omitempty ''error'' (is_Error s)
     @ [(''files'', JArr (map iso_entry_json (is_Files s))), (''datastoreCount'', JInt (int (is_DatastoreCount s))),
        (''localCacheCount'', JInt (int (is_LocalCacheCount s)))])"

subsection \<open>Bodies of requests\<close>

definition secret_ref_fields :: "(string \<times> secret_ref field_decoder) list" where
  "secret_ref_fields = (let f = (\<lambda>k put. (k, str_field ''SecretRef'' (''credentialsSecret.'' @ k) put)) in
     [f ''name'' (\<lambda>s r. r\<lparr>sr_Name := s\<rparr>), f ''passwordKey'' (\<lambda>s r. r\<lparr>sr_PasswordKey := s\<rparr>), f ''usernameKey'' (\<lambda>s r. r\<lparr>sr_UsernameKey := s\<rparr>)])"

definition vcenter_fields :: "(string \<times> vcenter field_decoder) list" where
  "vcenter_fields =
     (let s = (\<lambda>k put. (k, str_field ''VCenter'' k put)); b = (\<lambda>k put. (k, bool_field ''VCenter'' k put)) in
      [s ''id'' (\<lambda>x v. v\<lparr>vc_ID := x\<rparr>), s ''name'' (\<lambda>x v. v\<lparr>vc_Name := x\<rparr>), s ''url'' (\<lambda>x v. v\<lparr>vc_URL := x\<rparr>),
       s ''username'' (\<lambda>x v. v\<lparr>vc_Username := x\<rparr>), s ''password'' (\<lambda>x v. v\<lparr>vc_Password := x\<rparr>), b ''insecure'' (\<lambda>x v. v\<lparr>vc_Insecure := x\<rparr>),
       s ''datacenter'' (\<lambda>x v. v\<lparr>vc_Datacenter := x\<rparr>), s ''datastore'' (\<lambda>x v. v\<lparr>vc_Datastore := x\<rparr>), s ''folder'' (\<lambda>x v. v\<lparr>vc_Folder := x\<rparr>),
       s ''isoFolder'' (\<lambda>x v. v\<lparr>vc_ISOFolder := x\<rparr>), s ''notes'' (\<lambda>x v. v\<lparr>vc_Notes := x\<rparr>), b ''dryRun'' (\<lambda>x v. v\<lparr>vc_DryRun := x\<rparr>),
       s ''configMap'' (\<lambda>x v. v\<lparr>vc_ConfigMap := x\<rparr>), s ''configOrigin'' (\<lambda>x v. v\<lparr>vc_ConfigOrigin := x\<rparr>),
       (''credentialsSecret'', ptr_field ''VCenter'' ''credentialsSecret'' ''store.SecretRef'' secret_ref_fields
          \<lparr>sr_Name = [], sr_PasswordKey = [], sr_UsernameKey = []\<rparr> vc_CredentialsSecret (\<lambda>x v. v\<lparr>vc_CredentialsSecret := x\<rparr>)),
       s ''passwordSource'' (\<lambda>x v. v\<lparr>vc_PasswordSource := x\<rparr>), b ''hasPassword'' (\<lambda>x v. v\<lparr>vc_HasPassword := x\<rparr>)])"

definition mapping_fields :: "(string \<times> mapping field_decoder) list" where
  "mapping_fields = (let s = (\<lambda>k put. (k, str_field ''Mapping'' k put)) in
     [s ''uuid'' (\<lambda>x m. m\<lparr>mp_UUID := x\<rparr>), s ''vcenterId'' (\<lambda>x m. m\<lparr>mp_VCenterID := x\<rparr>), s ''name'' (\<lambda>x m. m\<lparr>mp_Name := x\<rparr>), s ''notes'' (\<lambda>x m. m\<lparr>mp_Notes := x\<rparr>)])"

definition mapping_zero :: mapping where
  "mapping_zero = \<lparr>mp_UUID = [], mp_VCenterID = [], mp_Name = [], mp_Notes = []\<rparr>"

text \<open>\<open>if err := Decode(&x); err != nil { 400 }\<close>.\<close>

definition with_body :: "string \<Rightarrow> (string \<times> 'r field_decoder) list \<Rightarrow> 'r \<Rightarrow> request \<Rightarrow> ('r \<Rightarrow> handler) \<Rightarrow> handler" where
  "with_body ty fs zero rq k = (case decode_body ty fs rq zero of
       (Some e, _, _) \<Rightarrow> retE (http_Error e 400)
     | (None, x, _) \<Rightarrow> k x)"

definition decode_vcenter :: "request \<Rightarrow> vcenter \<Rightarrow> string option \<times> vcenter \<times> request" where
  "decode_vcenter rq vc = decode_body ''store.VCenter'' vcenter_fields rq vc"

text \<open>\<open>strconv.Atoi\<close> and \<open>ParseInt(_, 10, 64)\<close> with the error dropped: 0 on a syntax error, clamped when out of range.\<close>

definition digit_value :: "char \<Rightarrow> int option" where
  "digit_value c = (let n = of_char c :: nat in if 48 \<le> n \<and> n \<le> 57 then Some (int n - 48) else None)"

definition digits_value :: "string \<Rightarrow> int option" where
  "digits_value s = (if s = [] then None
     else fold (\<lambda>c v. case (v, digit_value c) of (Some a, Some d) \<Rightarrow> Some (10 * a + d) | _ \<Rightarrow> None) s (Some 0))"

definition parse_int64 :: "string \<Rightarrow> int" where
  "parse_int64 s =
     (let neg = (s \<noteq> [] \<and> hd s = CHR ''-''); body = (if s \<noteq> [] \<and> hd s \<in> {CHR ''-'', CHR ''+''} then tl s else s) in
      case digits_value body of None \<Rightarrow> 0
      | Some n \<Rightarrow> if neg then max (- (2 ^ 63)) (- n) else min (2 ^ 63 - 1) n)"

section \<open>Handlers\<close>

definition api_JSON :: "nat \<Rightarrow> json \<Rightarrow> reply" where
  "api_JSON code v = \<lparr>rp_Code = code, rp_Header = [(''Content-Type'', ''application/json; charset=utf-8'')], rp_Body = JSONBody v\<rparr>"

definition not_allowed :: handler where
  "not_allowed = retE (http_Error ''method not allowed'' 405)"

definition api_now :: "('e, int) gio" where
  "api_now = getE (\<lambda>g. w_clock (g_w g))"

text \<open>\<open>synced\<close>: a failing ConfigMap write is reported, never undone.\<close>

definition synced :: "api_server \<Rightarrow> string \<Rightarrow> vcenter \<Rightarrow> (reply, vcenter) gio" where
  "synced A vid fallback = (case ap_sync A of
       None \<Rightarrow> retE fallback
     | Some y \<Rightarrow> tryE (vy_Saved y vid) (\<lambda>r.
         thenE (case r of
             Inl e \<Rightarrow> gact act_RunErr ''configmap'' (ke_text e) [(''vcenterId'', AStr vid), (''name'', AStr (vc_Name fallback))]
           | Inr _ \<Rightarrow> retE ())
         (bindE (store_read (GetVCenter vid)) (\<lambda>v. retE (case v of Some vc \<Rightarrow> vc | None \<Rightarrow> fallback)))))"

definition synced_reply :: "api_server \<Rightarrow> nat \<Rightarrow> string \<Rightarrow> vcenter \<Rightarrow> handler" where
  "synced_reply A code vid out = bindE (synced A vid out) (\<lambda>vc. retE (api_JSON code (vcenter_json vc)))"

text \<open>A store operation whose error becomes the reply.\<close>

definition stored :: "api_server \<Rightarrow> nat \<Rightarrow> (store_env \<Rightarrow> store \<Rightarrow> 'a store_result) \<Rightarrow> ('a \<Rightarrow> handler) \<Rightarrow> handler" where
  "stored A code f k = or_reply (store_write (ap_gw A) f) (\<lambda>e. retE (http_Error e code)) k"

definition api_status :: "api_server \<Rightarrow> request \<Rightarrow> handler" where
  "api_status A rq =
     (if rq_Method rq \<noteq> ''GET'' then not_allowed
      else bindE (store_read Stats) (\<lambda>(vc, mp). bindE (store_read GetSettings) (\<lambda>st. bindE api_now (\<lambda>now.
        retE (api_JSON 200 (JObj [(''service'', JStr ''rf2vc''), (''version'', JStr (ap_version A)), (''vcenters'', JInt (int vc)),
          (''mappings'', JInt (int mp)), (''dryRun'', JBool (set_DryRun st)), (''time'', JStr (ap_time A now))]))))))"

definition dry_ptr_fields :: "(string \<times> bool option field_decoder) list" where
  "dry_ptr_fields = [(''dryRun'', bool_ptr_field [] ''dryRun'' (\<lambda>b _. b))]"

definition api_settings :: "api_server \<Rightarrow> request \<Rightarrow> handler" where
  "api_settings A rq =
     (if rq_Method rq = ''GET'' then bindE (store_read GetSettings) (\<lambda>s. retE (api_JSON 200 (settings_json s)))
      else if rq_Method rq \<in> {''PUT'', ''PATCH''} then
        with_body (''struct { DryRun *bool '' @ go_tag ''dryRun'' @ '' }'') dry_ptr_fields None rq (\<lambda>b. case b of
            None \<Rightarrow> retE (http_Error ''dryRun required'' 400)
          | Some on \<Rightarrow> stored A 500 (\<lambda>se. SetGlobalDryRun se on) (\<lambda>out.
              thenE (gact act_Run ''settings'' ''global dry-run set'' [(''dryRun'', ABool (set_DryRun out))])
                (retE (api_JSON 200 (settings_json out)))))
      else not_allowed)"

definition api_activity :: "api_server \<Rightarrow> request \<Rightarrow> handler" where
  "api_activity A rq =
     (if rq_Method rq \<noteq> ''GET'' then not_allowed
      else let ch = TrimSpace (query_get rq ''channel''); limit = parse_int64 (query_get rq ''limit'');
               after = parse_int64 (query_get rq ''after'') in
        bindE (getE (\<lambda>g. let b = w_bus (g_w g) in
            if 0 < after then Since (word_of_int after) ch limit b else Snapshot ch limit b)) (\<lambda>events.
          retE (api_JSON 200 (JObj [(''events'', JArr (map (event_json (ap_time A)) events)), (''count'', JInt (int (length events)))]))))"

definition api_vcenters :: "api_server \<Rightarrow> request \<Rightarrow> handler" where
  "api_vcenters A rq =
     (if rq_Method rq = ''GET'' then
        bindE (store_list (ap_gw A) (\<lambda>se. ListVCenters (se_vorder se))) (\<lambda>vcs. retE (api_JSON 200 (JArr (map vcenter_json vcs))))
      else if rq_Method rq = ''POST'' then
        with_body ''store.VCenter'' vcenter_fields vcenter_zero rq (\<lambda>vc.
          stored A 400 (\<lambda>se. UpsertVCenter se (vc\<lparr>vc_ID := []\<rparr>)) (\<lambda>out. synced_reply A 201 (vc_ID out) out))
      else not_allowed)"

definition override_str :: "(vcenter \<Rightarrow> string) \<Rightarrow> (string \<Rightarrow> vcenter \<Rightarrow> vcenter) \<Rightarrow> vcenter \<Rightarrow> vcenter \<Rightarrow> vcenter" where
  "override_str get put new vc = (if get new \<noteq> [] then put (get new) vc else vc)"

definition applyVCOverrides :: "vcenter \<Rightarrow> vcenter \<Rightarrow> vcenter" where
  "applyVCOverrides vc new =
     (let vc = override_str vc_URL (\<lambda>x v. v\<lparr>vc_URL := x\<rparr>) new vc;
          vc = override_str vc_Username (\<lambda>x v. v\<lparr>vc_Username := x\<rparr>) new vc;
          vc = override_str vc_Password (\<lambda>x v. v\<lparr>vc_Password := x\<rparr>) new vc;
          vc = override_str vc_Datacenter (\<lambda>x v. v\<lparr>vc_Datacenter := x\<rparr>) new vc;
          vc = override_str vc_Datastore (\<lambda>x v. v\<lparr>vc_Datastore := NormalizeDatastore x\<rparr>) new vc;
          vc = override_str vc_Folder (\<lambda>x v. v\<lparr>vc_Folder := x\<rparr>) new vc;
          vc = override_str vc_ISOFolder (\<lambda>x v. v\<lparr>vc_ISOFolder := x\<rparr>) new vc
      in vc\<lparr>vc_Insecure := vc_Insecure vc \<or> vc_Insecure new\<rparr>)"

text \<open>The endpoint the probes log in to: no id, cache or allowlist.\<close>

definition probe_ep :: "vcenter \<Rightarrow> endpoint" where
  "probe_ep vc = \<lparr>ep_ID = [], ep_URL = vc_URL vc, ep_Username = vc_Username vc, ep_Password = vc_Password vc,
     ep_Insecure = vc_Insecure vc, ep_Datacenter = vc_Datacenter vc, ep_Datastore = vc_Datastore vc, ep_Folder = vc_Folder vc,
     ep_ISOFolder = vc_ISOFolder vc, ep_ISOCache = [], ep_Allowlist = []\<rparr>"

definition run_test :: "api_server \<Rightarrow> vcenter \<Rightarrow> handler" where
  "run_test A vc =
     (let vc = vc\<lparr>vc_Datastore := NormalizeDatastore (vc_Datastore vc)\<rparr> in
      if vc_URL vc = [] \<or> vc_Username vc = [] \<or> vc_Password vc = [] \<or> vc_Datacenter vc = [] then
        retE (api_JSON 200 (connection_test_json \<lparr>ct_OK = False,
          ct_Error = ''url, username, password, and datacenter are required to test'',
          ct_Checks = [\<lparr>cr_Name = ''Settings'', cr_OK = False, cr_Skip = False, cr_Detail = ''missing required fields''\<rparr>]\<rparr>))
      else
        let vc = (if vc_ISOFolder vc = [] then vc\<lparr>vc_ISOFolder := ''rf2vc/isos''\<rparr> else vc) in
        bindE (on_world (RunConnectionTest (ge_vs (ap_gw A)) (probe_ep vc))) (\<lambda>t. retE (api_JSON 200 (connection_test_json t))))"

definition testVCenterBody :: "api_server \<Rightarrow> request \<Rightarrow> vcenter \<Rightarrow> handler" where
  "testVCenterBody A rq vc =
     (if vc_URL vc = [] then
        (case decode_vcenter rq vc of
           (Some e, _, _) \<Rightarrow> retE (http_Error e 400)
         | (None, vc, _) \<Rightarrow> run_test A vc)
      else run_test A vc)"

definition with_secret :: "string \<Rightarrow> (vcenter \<Rightarrow> handler) \<Rightarrow> handler" where
  "with_secret vid k = bindE (store_read (GetVCenterSecret vid)) (\<lambda>v. case v of
       None \<Rightarrow> retE (http_Error ''not found'' 404)
     | Some vc \<Rightarrow> k vc)"

definition testVCenter :: "api_server \<Rightarrow> request \<Rightarrow> string \<Rightarrow> handler" where
  "testVCenter A rq vid = with_secret vid (\<lambda>vc.
     case decode_vcenter rq vcenter_zero of
       (_, new, rq') \<Rightarrow> testVCenterBody A (ap_reread A rq') (applyVCOverrides vc new))"

definition isoStatus :: "api_server \<Rightarrow> string \<Rightarrow> handler" where
  "isoStatus A vid = with_secret vid (\<lambda>vc.
     or_reply (pooled (ap_gw A) vc) (\<lambda>e. retE (http_Error (err_text e) 500)) (\<lambda>kc.
     bindE (getE (ap_order A)) (\<lambda>ord.
     or_reply (on_client kc (ISOCacheStatus (ge_vs (ap_gw A)) ord)) (\<lambda>e. retE (http_Error (err_text e) 500)) (\<lambda>st.
       retE (api_JSON 200 (iso_status_json st))))))"

definition vcHealth :: "api_server \<Rightarrow> string \<Rightarrow> handler" where
  "vcHealth A vid = with_secret vid (\<lambda>vc.
     bindE (on_world (ProbeHealth (ge_vs (ap_gw A)) (probe_ep vc))) (\<lambda>h. retE (api_JSON 200 (health_json h))))"

definition dry_fields :: "(string \<times> bool field_decoder) list" where
  "dry_fields = [(''dryRun'', bool_field [] ''dryRun'' (\<lambda>b _. b))]"

definition vcDryRun :: "api_server \<Rightarrow> request \<Rightarrow> string \<Rightarrow> handler" where
  "vcDryRun A rq vid =
     with_body (''struct { DryRun bool '' @ go_tag ''dryRun'' @ '' }'') dry_fields False rq (\<lambda>on.
       stored A 404 (\<lambda>se. SetVCenterDryRun se vid on) (\<lambda>out.
         thenE (gact act_Run ''settings'' ''vcenter dry-run set''
             [(''vcenterId'', AStr vid), (''name'', AStr (vc_Name out)), (''dryRun'', ABool (vc_DryRun out))])
           (synced_reply A 200 vid out)))"

definition vcFolderVMs :: "api_server \<Rightarrow> string \<Rightarrow> handler" where
  "vcFolderVMs A vid = with_secret vid (\<lambda>vc.
     if TrimSpace (vc_Folder vc) = [] then
       thenE (gact act_RunWarn ''folder-scan'' ''folder not set on vCenter'' [(''vcenterId'', AStr vid), (''name'', AStr (vc_Name vc))])
         (retE (api_JSON 200 (JObj [(''folder'', JStr []), (''recursive'', JBool True), (''vms'', JArr []), (''count'', JInt 0),
            (''message'', JStr ''set Folder (GOVC_FOLDER) to discover VMs'')])))
     else
       thenE (gact act_Run ''folder-scan'' ''API refresh requested''
           [(''vcenterId'', AStr vid), (''name'', AStr (vc_Name vc)), (''folder'', AStr (vc_Folder vc))])
         (or_reply (pooled (ap_gw A) vc)
           (\<lambda>e. thenE (gact act_RunErr ''folder-scan'' (err_text e) [(''vcenterId'', AStr vid)]) (retE (http_Error (err_text e) 500)))
           (\<lambda>kc. or_reply (on_client kc (ListFolderVMs (ge_vs (ap_gw A))))
             (\<lambda>e. retE (api_JSON 502 (JObj [(''folder'', JStr (vc_Folder vc)), (''ok'', JBool False), (''error'', JStr (err_text e)),
                 (''vms'', JArr []), (''count'', JInt 0)])))
             (\<lambda>vms. retE (api_JSON 200 (JObj [(''folder'', JStr (vc_Folder vc)), (''recursive'', JBool True),
                 (''vms'', JArr (map folder_vm_json vms)), (''count'', JInt (int (length vms))), (''ok'', JBool True)]))))))"

definition putVCenter :: "api_server \<Rightarrow> request \<Rightarrow> string \<Rightarrow> handler" where
  "putVCenter A rq vid =
     with_body ''store.VCenter'' vcenter_fields vcenter_zero rq (\<lambda>vc.
       stored A 400 (\<lambda>se. UpsertVCenter se (vc\<lparr>vc_ID := vid\<rparr>)) (\<lambda>out.
         thenE (invalidate (ap_gw A) vid) (synced_reply A 200 vid out)))"

definition check_delete_call :: "api_server \<Rightarrow> string \<Rightarrow> (kube_err, unit) gio" where
  "check_delete_call A vid = (case ap_sync A of None \<Rightarrow> retE () | Some y \<Rightarrow> vy_CheckDelete y vid)"

definition mirror_delete :: "api_server \<Rightarrow> string \<Rightarrow> vcenter \<Rightarrow> (reply, unit) gio" where
  "mirror_delete A vid vc = (case ap_sync A of
       None \<Rightarrow> retE ()
     | Some y \<Rightarrow> tryE (vy_Deleted y vc) (\<lambda>r. case r of
         Inl e \<Rightarrow> gact act_RunErr ''configmap'' (ke_text e) [(''vcenterId'', AStr vid), (''configMap'', AStr (vc_ConfigMap vc))]
       | Inr _ \<Rightarrow> retE ()))"

definition deleteVCenter :: "api_server \<Rightarrow> string \<Rightarrow> handler" where
  "deleteVCenter A vid =
     or_reply (check_delete_call A vid) (\<lambda>e. retE (http_Error (ke_text e) 409)) (\<lambda>_.
     bindE (store_read (GetVCenter vid)) (\<lambda>v.
     stored A 404 (\<lambda>se. DeleteVCenter se vid) (\<lambda>_.
       thenE (invalidate (ap_gw A) vid)
         (thenE (mirror_delete A vid (case v of Some vc \<Rightarrow> vc | None \<Rightarrow> vcenter_zero)) (retE (WriteHeader 204))))))"

definition vcenter_root :: "api_server \<Rightarrow> request \<Rightarrow> string \<Rightarrow> handler" where
  "vcenter_root A rq vid =
     (if rq_Method rq = ''GET'' then bindE (store_read (GetVCenter vid)) (\<lambda>v. case v of
          None \<Rightarrow> retE (http_Error ''not found'' 404)
        | Some vc \<Rightarrow> retE (api_JSON 200 (vcenter_json vc)))
      else if rq_Method rq = ''PUT'' then putVCenter A rq vid
      else if rq_Method rq = ''DELETE'' then deleteVCenter A vid
      else not_allowed)"

definition api_vcenterItem :: "api_server \<Rightarrow> request \<Rightarrow> handler" where
  "api_vcenterItem A rq =
     (let path = TrimChar (TrimPrefix (rq_Path rq) ''/api/v1/vcenters/'') CHR ''/''; parts = SplitChar CHR ''/'' path; vid = hd parts;
          sub = (\<lambda>name. length parts = 2 \<and> parts ! 1 = name) in
      if path = [] then retE http_NotFound
      else if length parts = 1 \<and> vid = ''test'' \<and> rq_Method rq = ''POST'' then testVCenterBody A rq vcenter_zero
      else if sub ''test'' \<and> rq_Method rq = ''POST'' then testVCenter A rq vid
      else if sub ''iso-status'' \<and> rq_Method rq = ''GET'' then isoStatus A vid
      else if sub ''health'' \<and> rq_Method rq = ''GET'' then vcHealth A vid
      else if sub ''vms'' \<and> rq_Method rq = ''GET'' then vcFolderVMs A vid
      else if sub ''dry-run'' \<and> rq_Method rq \<in> {''PUT'', ''POST''} then vcDryRun A rq vid
      else if length parts \<noteq> 1 then retE http_NotFound
      else vcenter_root A rq vid)"

definition api_mappings :: "api_server \<Rightarrow> request \<Rightarrow> handler" where
  "api_mappings A rq =
     (if rq_Method rq = ''GET'' then
        bindE (store_list (ap_gw A) (\<lambda>se. ListMappings (se_morder se))) (\<lambda>ms. retE (api_JSON 200 (JArr (map mapping_json ms))))
      else if rq_Method rq = ''POST'' then
        with_body ''store.Mapping'' mapping_fields mapping_zero rq (\<lambda>m.
          stored A 400 (\<lambda>se. UpsertMapping se m) (\<lambda>out. retE (api_JSON 201 (mapping_json out))))
      else not_allowed)"

definition api_mappingStatus :: "api_server \<Rightarrow> string \<Rightarrow> handler" where
  "api_mappingStatus A uuid =
     or_reply (pooled_for_uuid (ap_gw A) uuid)
       (\<lambda>e. retE (api_JSON 200 (mapping_status_json \<lparr>mst_UUID = uuid, mst_Found = False, mst_Light = LightRed, mst_PowerState = [],
          mst_Name = [], mst_Path = [], mst_CDROMISO = [], mst_Error = err_text e\<rparr>)))
       (\<lambda>kc. or_reply (on_client kc (MappingStatus (ge_vs (ap_gw A)) uuid)) (\<lambda>e. retE (http_Error (err_text e) 500)) (\<lambda>st.
         thenE (gact act_Run ''uuid-status'' ''probed mapping''
             [(''uuid'', AStr uuid), (''found'', ABool (mst_Found st)), (''power'', AStr (mst_PowerState st)),
              (''light'', AStr (light_string (mst_Light st))), (''error'', AStr (mst_Error st))])
           (retE (api_JSON 200 (mapping_status_json st)))))"

text \<open>The pooled client as earlier uses in the same handler left it.\<close>

definition client_now :: "string \<times> client \<Rightarrow> ('e, string \<times> client) gio" where
  "client_now kc = getE (\<lambda>g. (fst kc, case fmlookup (p_clients (g_pool g)) (fst kc) of Some c \<Rightarrow> c | None \<Rightarrow> snd kc))"

definition power_fields :: "(string \<times> string field_decoder) list" where
  "power_fields = [(''resetType'', str_field [] ''resetType'' (\<lambda>s _. s))]"

definition api_mappingPower :: "api_server \<Rightarrow> request \<Rightarrow> string \<Rightarrow> handler" where
  "api_mappingPower A rq uuid =
     with_body (''struct { ResetType string '' @ go_tag ''resetType'' @ '' }'') power_fields [] rq (\<lambda>resetType.
       let rt = TrimSpace resetType; detail = [(''uuid'', AStr uuid), (''resetType'', AStr rt)] in
       if rt \<noteq> ''On'' \<and> rt \<noteq> ''ForceOff'' then retE (http_Error (''resetType must be '' @ go_quote ''On'' @ '' or '' @ go_quote ''ForceOff'') 400)
       else bindE (store_read (DryRunForUUID uuid)) (\<lambda>dry.
         if dry then
           thenE (gact act_OutDry ''admin-power'' ''would power VM from UI (dry-run)'' detail)
             (retE (api_JSON 200 (JObj [(''ok'', JBool True), (''dryRun'', JBool True),
                (''message'', JStr ''dry-run: power action not sent to vSphere'')])))
         else or_reply (pooled_for_uuid (ap_gw A) uuid) (\<lambda>e. retE (http_Error (err_text e) 404)) (\<lambda>kc.
           thenE (gact act_Out ''admin-power'' ''applying power from UI'' detail)
             (or_reply (on_client kc (Reset (ge_vs (ap_gw A)) uuid rt))
               (\<lambda>e. thenE (gact act_OutErr ''admin-power'' (err_text e) detail)
                  (retE (api_JSON 502 (JObj [(''ok'', JBool False), (''error'', JStr (err_text e))]))))
               (\<lambda>_. bindE (client_now kc) (\<lambda>kc.
                  or_reply (on_client kc (MappingStatus (ge_vs (ap_gw A)) uuid)) (\<lambda>e. retE (http_Error (err_text e) 500)) (\<lambda>st.
                  retE (api_JSON 200 (JObj [(''ok'', JBool True), (''status'', mapping_status_json st)])))))))))"

definition mapping_root :: "api_server \<Rightarrow> request \<Rightarrow> string \<Rightarrow> handler" where
  "mapping_root A rq uuid =
     (if rq_Method rq = ''PUT'' then
        with_body ''store.Mapping'' mapping_fields mapping_zero rq (\<lambda>m.
          stored A 400 (\<lambda>se. UpsertMapping se (m\<lparr>mp_UUID := uuid\<rparr>)) (\<lambda>out. retE (api_JSON 200 (mapping_json out))))
      else if rq_Method rq = ''DELETE'' then stored A 404 (\<lambda>se. DeleteMapping se uuid) (\<lambda>_. retE (WriteHeader 204))
      else not_allowed)"

definition api_mappingItem :: "api_server \<Rightarrow> request \<Rightarrow> handler" where
  "api_mappingItem A rq =
     (let path = TrimChar (TrimPrefix (rq_Path rq) ''/api/v1/mappings/'') CHR ''/''; parts = SplitChar CHR ''/'' path; uuid = hd parts;
          sub = (\<lambda>name. length parts = 2 \<and> parts ! 1 = name) in
      if path = [] then retE http_NotFound
      else if sub ''status'' \<and> rq_Method rq = ''GET'' then api_mappingStatus A uuid
      else if sub ''power'' \<and> rq_Method rq = ''POST'' then api_mappingPower A rq uuid
      else if length parts \<noteq> 1 then retE http_NotFound
      else mapping_root A rq uuid)"

section \<open>Routing\<close>

definition api_mount :: "api_server \<Rightarrow> request \<Rightarrow> handler option" where
  "api_mount A rq =
     (let p = rq_Path rq in
      if p = ''/api/v1/status'' then Some (api_status A rq)
      else if p = ''/api/v1/settings'' then Some (api_settings A rq)
      else if p = ''/api/v1/activity'' then Some (api_activity A rq)
      else if p = ''/api/v1/vcenters'' then Some (api_vcenters A rq)
      else if HasPrefix p ''/api/v1/vcenters/'' then Some (api_vcenterItem A rq)
      else if p = ''/api/v1/mappings'' then Some (api_mappings A rq)
      else if HasPrefix p ''/api/v1/mappings/'' then Some (api_mappingItem A rq)
      else None)"

text \<open>The interface as \<open>vcsync\<close> provides it.\<close>

definition sync_of :: "sync_env \<Rightarrow> sync_interface" where
  "sync_of S = \<lparr>vy_Saved = Saved S, vy_CheckDelete = CheckDelete, vy_Deleted = Deleted S\<rparr>"

definition mirrored :: "api_server \<Rightarrow> bool" where
  "mirrored A \<longleftrightarrow> ap_sync A = None \<or> (\<exists>S. ap_sync A = Some (sync_of S))"

section \<open>Clients of the mirror\<close>

context vcenter_sync
begin

abbreviation (input) iface :: sync_interface where
  "iface \<equiv> \<lparr>vy_Saved = saved, vy_CheckDelete = check_delete, vy_Deleted = deleted\<rparr>"

lemma synced_frame: "ap_sync A = Some iface \<Longrightarrow> keeps sync_frame (synced A vid out)"
  unfolding synced_def
  by (simp, intro keeps_intro frame_intro saved_frame sync_frame_preorder)

lemma mirror_delete_frame: "ap_sync A = Some iface \<Longrightarrow> keeps sync_frame (mirror_delete A vid vc)"
  unfolding mirror_delete_def
  by (simp, intro keeps_intro frame_intro deleted_frame sync_frame_preorder)

lemma check_delete_frame: "ap_sync A = Some iface \<Longrightarrow> snd (check_delete_call A vid g) = g"
  by (simp add: check_delete_call_def check_pure)

lemma owned_is_refused:
  assumes "ap_sync A = Some iface" "gitops_owned vid (g_store g)"
  shows "\<exists>e. deleteVCenter A vid g = (Inl (http_Error e 409), g) \<or> deleteVCenter A vid g = (Inr (http_Error e 409), g)"
proof -
  obtain r where "check_delete vid g = (r, g)" using check_pure [of vid g] by (metis prod.collapse)
  moreover from this assms(2) obtain e where "r = Inl e"
    using check_refuses [of vid g] by (cases r) auto
  ultimately show ?thesis using assms(1)
    by (auto simp: deleteVCenter_def check_delete_call_def or_reply_run bindE_def tryE_def retE_def failE_def)
qed

lemma unowned_is_checked:
  assumes "ap_sync A = Some iface" "\<not> gitops_owned vid (g_store g)"
  shows "check_delete_call A vid g = (Inr (), g)"
  using assms check_pure [of vid g] check_refuses [of vid g] by (simp add: check_delete_call_def prod_eq_iff)

end

lemma mirrored_cases:
  assumes "mirrored A"
  obtains "ap_sync A = None" | S where "ap_sync A = Some (sync_of S)"
  using assms by (auto simp: mirrored_def)

lemma mirror_frames:
  assumes "mirrored A"
  shows "keeps sync_frame (synced A vid out)" "keeps sync_frame (mirror_delete A vid vc)" "snd (check_delete_call A vid g) = g"
proof -
  have "keeps sync_frame (synced A vid out) \<and> keeps sync_frame (mirror_delete A vid vc) \<and> snd (check_delete_call A vid g) = g"
  proof (rule mirrored_cases [OF assms])
    assume "ap_sync A = None"
    then show ?thesis by (simp add: synced_def mirror_delete_def check_delete_call_def keeps_retE) (simp add: retE_def)
  next
    fix S
    assume "ap_sync A = Some (sync_of S)"
    then have s: "ap_sync A = Some \<lparr>vy_Saved = Saved S, vy_CheckDelete = CheckDelete, vy_Deleted = Deleted S\<rparr>"
      by (simp add: sync_of_def)
    from configmap_sync.synced_frame [OF s] configmap_sync.mirror_delete_frame [OF s] configmap_sync.check_delete_frame [OF s]
    show ?thesis by blast
  qed
  then show "keeps sync_frame (synced A vid out)" "keeps sync_frame (mirror_delete A vid vc)" "snd (check_delete_call A vid g) = g"
    by blast+
qed

section \<open>Which requests change vSphere\<close>

lemma gw_grows_preorder [simp, keeps_intro]: "preorder_rel (gw_grows P)"
  by (auto simp: preorder_rel_def gw_grows_def reflp_def transp_def)

lemma gw_calls_grows: "keeps (gw_calls P) m \<Longrightarrow> keeps (gw_grows P) m"
  by (simp add: keeps_def gw_calls_def)

lemma sync_frame_grows: "keeps sync_frame m \<Longrightarrow> keeps (gw_grows P) m"
  by (simp add: keeps_def sync_frame_def gw_grows_def)

abbreviation api_reads :: "('e, 'a) gio \<Rightarrow> bool" where
  "api_reads \<equiv> keeps (gw_grows (\<lambda>c. \<not> mutating c))"

named_theorems api_intro \<open>handlers that only read vSphere\<close>

lemma api_reads_primitives [api_intro]:
  "api_reads (gact h op m d)" "api_reads (store_read f)" "api_reads (store_list G f')" "api_reads (pooled G vc)" "api_reads (pooled_for_uuid G u)"
  by (rule gw_calls_grows, rule gw_intro)+

lemma api_reads_store_write [api_intro]: "api_reads (store_write G f)"
  by (auto simp: keeps_def store_write_def gw_grows_def split: prod.split)

lemma api_reads_getE [api_intro]: "api_reads (getE f)" "api_reads api_now"
  unfolding api_now_def by (rule keeps_getE, simp)+

lemma api_reads_on_client [api_intro]: "read_only m \<Longrightarrow> api_reads (on_client kc m)"
  by (rule gw_calls_grows, rule keeps_on_client)

lemma api_reads_on_world [api_intro]:
  assumes "\<And>w. world_reads w (snd (f w))"
  shows "api_reads (on_world f)"
  unfolding keeps_def
proof
  fix g :: gw
  obtain x w where "f (g_w g) = (x, w)" by fastforce
  with assms [of "g_w g"] show "gw_grows (\<lambda>c. \<not> mutating c) g (snd (on_world f g))"
    by (simp add: on_world_def world_reads_def gw_grows_def)
qed

lemma api_reads_probes [api_intro]: "api_reads (on_world (ProbeHealth E ep))" "api_reads (on_world (RunConnectionTest E ep))"
  using ProbeHealth_reads RunConnectionTest_reads by (blast intro: api_reads_on_world prod.collapse [symmetric])+

lemma api_reads_invalidate [api_intro]: "api_reads (invalidate G vid)"
proof -
  have "world_reads w w'" if "pool_Invalidate E vid (p, w) = (p', w')" for E p p' w w'
    using that close_client_reads by (auto simp: pool_Invalidate_def split: option.splits)
  then show ?thesis by (auto simp: invalidate_def keeps_def modE_def gw_grows_def world_reads_def split: prod.split)
qed

lemma api_reads_synced [api_intro]:
  assumes "mirrored A"
  shows "api_reads (synced A vid out)" "api_reads (mirror_delete A vid vc)" "api_reads (check_delete_call A vid)"
proof -
  show "api_reads (synced A vid out)" "api_reads (mirror_delete A vid vc)"
    using mirror_frames(1,2) [OF assms] by (blast intro: sync_frame_grows)+
  show "api_reads (check_delete_call A vid)" using mirror_frames(3) [OF assms]
    by (simp add: keeps_def gw_grows_def)
qed

lemma keeps_with_body [keeps_intro]: "preorder_rel R \<Longrightarrow> (\<And>x. keeps R (k x)) \<Longrightarrow> keeps R (with_body ty fs zero rq k)"
  unfolding with_body_def by (auto split: prod.split option.split intro: keeps_retE)

lemma keeps_stored [keeps_intro]:
  "preorder_rel R \<Longrightarrow> keeps R (store_write (ap_gw A) f) \<Longrightarrow> (\<And>x. keeps R (k x)) \<Longrightarrow> keeps R (stored A code f k)"
  unfolding stored_def by (intro keeps_intro)

lemma keeps_with_secret [keeps_intro]:
  "preorder_rel R \<Longrightarrow> (\<And>vc. keeps R (k vc)) \<Longrightarrow> keeps R (with_secret vid k)"
  unfolding with_secret_def store_read_def by (intro keeps_intro)

lemma api_tests_read [api_intro]: "api_reads (run_test A vc)" "api_reads (testVCenterBody A rq vc)" "api_reads (testVCenter A rq vid)"
proof -
  show r: "api_reads (run_test A vc)" for vc
    unfolding run_test_def Let_def by (intro keeps_intro api_intro gw_grows_preorder)
  show b: "api_reads (testVCenterBody A rq vc)" for rq vc
    unfolding testVCenterBody_def by (auto split: prod.split option.split intro: r keeps_retE)
  show "api_reads (testVCenter A rq vid)"
    unfolding testVCenter_def by (intro keeps_intro api_intro b gw_grows_preorder)
qed

lemma api_vcenter_handlers_read [api_intro]:
  assumes "mirrored A"
  shows "api_reads (api_vcenters A rq)" "api_reads (api_vcenterItem A rq)"
  unfolding api_vcenters_def api_vcenterItem_def isoStatus_def vcHealth_def vcFolderVMs_def vcDryRun_def vcenter_root_def
    putVCenter_def deleteVCenter_def synced_reply_def not_allowed_def Let_def
  by (intro keeps_intro api_intro gw_grows_preorder assms read_only_intro)+

lemma api_other_handlers_read [api_intro]:
  "api_reads (api_status A rq)" "api_reads (api_settings A rq)" "api_reads (api_activity A rq)" "api_reads (api_mappings A rq)"
  "api_reads (mapping_root A rq uuid)" "api_reads (api_mappingStatus A uuid)"
  unfolding api_status_def api_settings_def api_activity_def api_mappings_def mapping_root_def api_mappingStatus_def not_allowed_def Let_def
  by (intro keeps_intro api_intro gw_grows_preorder read_only_intro)+

text \<open>Like \<open>guarded\<close>, without the store.\<close>

definition power_guarded :: "string \<Rightarrow> gw \<Rightarrow> gw \<Rightarrow> bool" where
  "power_guarded uuid g g' \<longleftrightarrow> gw_grows (\<lambda>c. mutating c \<longrightarrow> may_change uuid (g_store g)) g g'"

lemma gw_grows_mono: "gw_grows P g g' \<Longrightarrow> (\<And>c. P c \<Longrightarrow> Q c) \<Longrightarrow> gw_grows Q g g'"
  by (fastforce simp: gw_grows_def list_all_iff)

lemma mappingPower_guarded: "power_guarded uuid g (snd (api_mappingPower A rq uuid g))"
proof (cases "may_change uuid (g_store g)")
  case True
  have any: "keeps (gw_grows (\<lambda>_. True)) m" if "api_reads m" for m :: "('e, 'a) gio"
    using that by (auto simp: keeps_def intro: gw_grows_mono)
  have reset: "keeps (gw_grows (\<lambda>_. True)) (on_client kc (Reset E uuid rt))" for kc E rt
    by (rule gw_calls_grows, rule keeps_on_client, rule changing_grows)
  then have "keeps (gw_grows (\<lambda>_. True)) (api_mappingPower A rq uuid)"
    unfolding api_mappingPower_def client_now_def Let_def
    by (intro keeps_intro any [OF api_reads_primitives(1)] any [OF api_reads_primitives(2)] any [OF api_reads_primitives(5)]
        any [OF api_reads_on_client [OF MappingStatus_read_only]] reset gw_grows_preorder)
  with True show ?thesis by (simp add: keeps_def power_guarded_def)
next
  case False
  then have "DryRunForUUID uuid (g_store g) \<or> LookupUUID uuid (g_store g) = None" unfolding may_change_def by blast
  moreover have "gw_grows P g (g\<lparr>g_w := (g_w g)\<lparr>w_bus := b\<rparr>\<rparr>)" "gw_grows P g g" for P b by (simp_all add: gw_grows_def)
  ultimately show ?thesis
    by (auto simp: power_guarded_def api_mappingPower_def with_body_def Let_def or_reply_run pooled_for_uuid_unmapped
        bindE_def tryE_def thenE_def retE_def failE_def split: prod.split option.split)
qed

definition item_parts :: "string \<Rightarrow> request \<Rightarrow> string list" where
  "item_parts base rq = SplitChar CHR ''/'' (TrimChar (TrimPrefix (rq_Path rq) base) CHR ''/'')"

definition power_request :: "request \<Rightarrow> string \<Rightarrow> bool" where
  "power_request rq uuid \<longleftrightarrow> rq_Method rq = ''POST'' \<and> item_parts ''/api/v1/mappings/'' rq = [uuid, ''power'']"

lemma mappingItem_guarded:
  "(\<exists>uuid. power_request rq uuid \<and> power_guarded uuid g (snd (api_mappingItem A rq g)))
   \<or> gw_grows (\<lambda>c. \<not> mutating c) g (snd (api_mappingItem A rq g))"
proof -
  let ?path = "TrimChar (TrimPrefix (rq_Path rq) ''/api/v1/mappings/'') CHR ''/''"
  let ?parts = "SplitChar CHR ''/'' ?path"
  let ?power = "?path \<noteq> [] \<and> length ?parts = 2 \<and> ?parts ! 1 = ''power'' \<and> rq_Method rq = ''POST''"
  show ?thesis
  proof (cases ?power)
    case True
    then have "?parts = [hd ?parts, ''power'']" by (cases ?parts) (auto simp: length_Suc_conv numeral_2_eq_2)
    then have "power_request rq (hd ?parts)" using True by (simp add: power_request_def item_parts_def)
    moreover have "api_mappingItem A rq = api_mappingPower A rq (hd ?parts)"
      using True by (simp add: api_mappingItem_def Let_def)
    ultimately show ?thesis using mappingPower_guarded by metis
  next
    case False
    have "api_reads (retE http_NotFound :: handler)" by (rule keeps_retE) simp
    with False have "api_reads (api_mappingItem A rq)"
      unfolding api_mappingItem_def Let_def by (auto intro: api_other_handlers_read)
    then show ?thesis by (simp add: keeps_def)
  qed
qed

lemma gw_grows_new: "gw_grows P g g' \<Longrightarrow> (c, e) \<in> set (gw_new g g') \<Longrightarrow> P c"
  by (auto simp: gw_grows_def gw_new_def list_all_iff)

lemma run_handler_snd: "run_handler h g = (rep, g') \<Longrightarrow> snd (h g) = g'"
  by (auto simp: run_handler_def split: prod.splits)

text \<open>
  C24: The admin API changes vSphere only by a power request. Whatever the request and whatever the state,
  with the mirror off or on: if any call the API makes would change vSphere, the request is POST on
  \<open>mappings/<uuid>/power\<close>, that UUID is mapped, and neither the global nor its vCenter's dry run is on.
  Looking at, testing, editing and deleting vCenters and mappings never touches a VM.
\<close>

theorem api_changes_vsphere_only_by_power:
  assumes "mirrored A" "api_mount A rq = Some h" "run_handler h g = (rep, g')" "(c, e) \<in> set (gw_new g g')" "mutating c"
  shows "\<exists>uuid. power_request rq uuid \<and> \<not> DryRunForUUID uuid (g_store g) \<and> LookupUUID uuid (g_store g) \<noteq> None"
proof -
  have g': "snd (h g) = g'" using assms(3) by (rule run_handler_snd)
  have no: "\<not> api_reads h"
  proof
    assume "api_reads h"
    then have "gw_grows (\<lambda>c. \<not> mutating c) g g'" using g' by (auto simp: keeps_def)
    from gw_grows_new [OF this assms(4)] assms(5) show False by simp
  qed
  from assms(2) have "h \<in> {api_status A rq, api_settings A rq, api_activity A rq, api_vcenters A rq, api_vcenterItem A rq,
      api_mappings A rq, api_mappingItem A rq}" by (auto simp: api_mount_def Let_def split: if_splits)
  with no api_other_handlers_read api_vcenter_handlers_read [OF assms(1)] have h: "h = api_mappingItem A rq" by auto
  from mappingItem_guarded [of rq g A] consider (power) uuid where "power_request rq uuid" "power_guarded uuid g g'"
    | (reads) "gw_grows (\<lambda>c. \<not> mutating c) g g'" using g' h by metis
  then show ?thesis
  proof cases
    case power
    from gw_grows_new [OF power(2) [unfolded power_guarded_def] assms(4)] assms(5) power(1) show ?thesis
      by (auto simp: may_change_def)
  next
    case reads
    from gw_grows_new [OF reads assms(4)] assms(5) show ?thesis by simp
  qed
qed

definition demo_api :: api_server where
  "demo_api = SetSync (sync_of demo_sync) (api_New demo_genv ''1.0'' (\<lambda>_. ''t'') (\<lambda>_. []) (\<lambda>rq. rq))"

definition demo_power :: request where
  "demo_power = demo_rq ''POST'' ''/api/v1/mappings/AA-BB/power'' [JObj [(''resetType'', JStr ''ForceOff'')]]"

lemma demo_force_off:
  assumes "w_clock w = 0" "w_calls w = []"
  shows "fst (Reset demo_vs ''AA-BB'' ''ForceOff'' \<lparr>v_cl = demo_conn, v_w = w\<rparr>) = Inr ()"
    "(CPowerOff ''vm-1'', None) \<in> set (w_calls (v_w (snd (Reset demo_vs ''AA-BB'' ''ForceOff'' \<lparr>v_cl = demo_conn, v_w = w\<rparr>))))"
proof -
  have u: "ToLower (TrimSpace ''AA-BB'') = ''aa-bb''" "ToLower ''ForceOff'' = ''forceoff''" by code_simp+
  have f: "findByUUID demo_vs ''AA-BB'' \<lparr>v_cl = demo_conn, v_w = w\<rparr> = (Inr demo_at, \<lparr>v_cl = demo_conn, v_w = w\<rparr>)"
    using assms(1) u by (intro findByUUID_cached) (simp_all add: demo_conn_def cached_entry_def demo_at_def uuidCacheTTL_def second_def)
  have step: "Reset demo_vs ''AA-BB'' ''ForceOff'' \<lparr>v_cl = demo_conn, v_w = w\<rparr> =
      bindE (infoFromVM demo_vs demo_at) (\<lambda>info. bindE (cl_get cl_ep) (\<lambda>ep.
        if \<not> allow ep (si_Name info) then failE (errorf (''system '' @ ''AA-BB'' @ '' not allowed''))
        else reset_switch demo_vs demo_at ''ForceOff'')) \<lparr>v_cl = demo_conn, v_w = w\<rparr>"
    by (simp add: Reset_def bindE_run f)
  show "fst (Reset demo_vs ''AA-BB'' ''ForceOff'' \<lparr>v_cl = demo_conn, v_w = w\<rparr>) = Inr ()"
    "(CPowerOff ''vm-1'', None) \<in> set (w_calls (v_w (snd (Reset demo_vs ''AA-BB'' ''ForceOff'' \<lparr>v_cl = demo_conn, v_w = w\<rparr>))))"
    unfolding step by (simp_all add: reset_switch_def u infoFromVM_def vm_Properties_def powerOff_def vm_PowerState_def
        ensureMsgAutoAnswer_def task_Wait_def task_result_def answerPendingQuestions_def waitTask_def io_simps do_call_def
        record_call_def outcome_def demo_vs_def demo_conn_def demo_client_def demo_ep_def demo_at_def Let_def assms)
qed

lemma mirrored_demo: "mirrored demo_api"
  by (simp add: mirrored_def demo_api_def SetSync_def) blast

lemma demo_power_run:
  "\<exists>rep g'. run_handler (api_mappingItem demo_api demo_power) demo_gw = (rep, g') \<and> (CPowerOff ''vm-1'', None) \<in> set (gw_new demo_gw g')"
proof -
  have parts: "TrimChar (TrimPrefix ''/api/v1/mappings/AA-BB/power'' ''/api/v1/mappings/'') CHR ''/'' = ''AA-BB/power''"
    "SplitChar CHR ''/'' ''AA-BB/power'' = [''AA-BB'', ''power'']" by code_simp+
  have item: "api_mappingItem demo_api demo_power = api_mappingPower demo_api demo_power ''AA-BB''"
    by (simp add: api_mappingItem_def demo_power_def demo_rq_def parts Let_def)
  have d: "decode_body ty power_fields demo_power [] = (None, ''ForceOff'', demo_power\<lparr>rq_Body := []\<rparr>)" for ty
    by (simp add: decode_body_def decode_struct_def power_fields_def find_field_def str_field_def demo_power_def demo_rq_def)
  have trim: "TrimSpace ''ForceOff'' = ''ForceOff''" by code_simp
  have w0: "w_clock (g_w demo_gw) = 0" "w_calls (g_w demo_gw) = []" by (simp_all add: demo_gw_def demo_world_def)
  have env: "ap_gw demo_api = demo_genv" "ge_vs demo_genv = demo_vs" by (simp_all add: demo_api_def SetSync_def api_New_def demo_genv_def)
  let ?b = "act_Out 0 ''admin-power'' ''applying power from UI'' [(''uuid'', AStr ''AA-BB''), (''resetType'', AStr ''ForceOff'')] (w_bus (g_w demo_gw))"
  let ?w = "(g_w demo_gw)\<lparr>w_bus := ?b\<rparr>"
  have w1: "w_clock ?w = 0" "w_calls ?w = []" using w0 by simp_all
  define t where "t = snd (Reset demo_vs ''AA-BB'' ''ForceOff'' \<lparr>v_cl = demo_conn, v_w = ?w\<rparr>)"
  have reset: "Reset demo_vs ''AA-BB'' ''ForceOff'' \<lparr>v_cl = demo_conn, v_w = ?w\<rparr> = (Inr (), t)"
      "(CPowerOff ''vm-1'', None) \<in> set (w_calls (v_w t))"
    using demo_force_off [OF w1] by (simp_all add: t_def prod_eq_iff)
  let ?g = "demo_gw\<lparr>g_pool := pool_put ''1'' (v_cl t) (g_pool demo_gw), g_w := v_w t\<rparr>"
  define rest where "rest = bindE (client_now (''1'', demo_conn)) (\<lambda>kc.
      or_reply (on_client kc (MappingStatus demo_vs ''AA-BB'')) (\<lambda>e. retE (http_Error (err_text e) 500)) (\<lambda>st.
      retE (api_JSON 200 (JObj [(''ok'', JBool True), (''status'', mapping_status_json st)]))))"
  have "api_reads rest" unfolding rest_def client_now_def
    by (intro keeps_intro api_intro read_only_intro gw_grows_preorder)
  then have "gw_grows (\<lambda>c. \<not> mutating c) ?g (snd (rest ?g))" by (simp add: keeps_def)
  with reset(2) have "(CPowerOff ''vm-1'', None) \<in> set (w_calls (g_w (snd (rest ?g))))" by (auto simp: gw_grows_def)
  moreover have "api_mappingPower demo_api demo_power ''AA-BB'' demo_gw = rest ?g"
    using demo_gw_pooled [OF refl refl] demo_gw_lookup(2) reset(1) w0
    by (simp add: api_mappingPower_def with_body_def d trim env or_reply_run on_client_def rest_def Let_def)
  ultimately have "(CPowerOff ''vm-1'', None) \<in> set (gw_new demo_gw (snd (api_mappingPower demo_api demo_power ''AA-BB'' demo_gw)))"
    by (simp only: gw_new_def w0 list.size drop_0)
  then show ?thesis unfolding item by (simp add: run_handler_def case_prod_beta)
qed

theorem api_changes_vsphere_only_by_power_witness:
  "\<exists>uuid. power_request demo_power uuid \<and> \<not> DryRunForUUID uuid (g_store demo_gw) \<and> LookupUUID uuid (g_store demo_gw) \<noteq> None"
proof -
  obtain rep g' where r: "run_handler (api_mappingItem demo_api demo_power) demo_gw = (rep, g')"
    "(CPowerOff ''vm-1'', None) \<in> set (gw_new demo_gw g')" using demo_power_run by blast
  have "HasPrefix ''/api/v1/mappings/AA-BB/power'' ''/api/v1/mappings/''" "\<not> HasPrefix ''/api/v1/mappings/AA-BB/power'' ''/api/v1/vcenters/''"
    by code_simp+
  then have "api_mount demo_api demo_power = Some (api_mappingItem demo_api demo_power)"
    by (simp add: api_mount_def demo_power_def demo_rq_def Let_def)
  from api_changes_vsphere_only_by_power [OF mirrored_demo this r] show ?thesis by simp
qed

section \<open>Deleting what GitOps owns\<close>

lemma item_path:
  assumes "rq_Path rq = base @ vid" "vid \<noteq> []" "CHR ''/'' \<notin> set vid"
  shows "TrimChar (TrimPrefix (rq_Path rq) base) CHR ''/'' = vid" "SplitChar CHR ''/'' vid = [vid]"
proof -
  have "hd vid \<noteq> CHR ''/''" "last vid \<noteq> CHR ''/''" using assms(2,3) by (metis hd_in_set, metis last_in_set)
  then have "dropWhile ((=) CHR ''/'') vid = vid" "dropWhile ((=) CHR ''/'') (rev vid) = rev vid"
    by (intro dropWhile_fixed; simp add: hd_rev)+
  then have "TrimChar vid CHR ''/'' = vid" by (simp add: TrimChar_def trim_left_def trim_right_def)
  with assms(1) show "TrimChar (TrimPrefix (rq_Path rq) base) CHR ''/'' = vid" by simp
  show "SplitChar CHR ''/'' vid = [vid]" using assms(3) by (rule SplitChar_no_sep)
qed

lemma vcenterItem_root:
  assumes "rq_Path rq = ''/api/v1/vcenters/'' @ vid" "vid \<noteq> []" "CHR ''/'' \<notin> set vid" "rq_Method rq \<noteq> ''POST''"
  shows "api_vcenterItem A rq = vcenter_root A rq vid"
  using item_path [OF assms(1-3)] assms(2,4) by (simp add: api_vcenterItem_def Let_def)

text \<open>
  C26: The API never deletes what GitOps owns. With the mirror on, DELETE on a vCenter whose ConfigMap
  belongs to GitOps is answered 409 and nothing at all changes: not the store with its mappings, not the
  pool, not a ConfigMap, not a log line.
\<close>

theorem gitops_vcenter_is_not_deleted:
  assumes "ap_sync A = Some (sync_of S)" "gitops_owned vid (g_store g)"
    "rq_Method rq = ''DELETE''" "rq_Path rq = ''/api/v1/vcenters/'' @ vid" "vid \<noteq> []" "CHR ''/'' \<notin> set vid"
    "run_handler (api_vcenterItem A rq) g = (rep, g')"
  shows "rp_Code rep = 409 \<and> g' = g"
proof -
  have "ap_sync A = Some \<lparr>vy_Saved = Saved S, vy_CheckDelete = CheckDelete, vy_Deleted = Deleted S\<rparr>"
    using assms(1) by (simp add: sync_of_def)
  from configmap_sync.owned_is_refused [OF this assms(2)] obtain e where
    "deleteVCenter A vid g = (Inl (http_Error e 409), g) \<or> deleteVCenter A vid g = (Inr (http_Error e 409), g)" by blast
  moreover have "api_vcenterItem A rq = deleteVCenter A vid"
    using vcenterItem_root [OF assms(4-6)] assms(3) by (simp add: vcenter_root_def)
  ultimately show ?thesis using assms(7) by (auto simp: run_handler_def)
qed

definition demo_owned :: gw where
  "demo_owned = demo_gw\<lparr>g_store := (g_store demo_gw)\<lparr>s_vcenters := fmupd ''1'' (demo_gw_vc\<lparr>vc_ConfigOrigin := OriginGitOps\<rparr>) fmempty\<rparr>\<rparr>"

theorem gitops_vcenter_is_not_deleted_witness:
  "\<exists>rep. run_handler (api_vcenterItem demo_api (demo_rq ''DELETE'' ''/api/v1/vcenters/1'' [])) demo_owned = (rep, demo_owned) \<and> rp_Code rep = 409"
proof -
  obtain rep g' where r: "run_handler (api_vcenterItem demo_api (demo_rq ''DELETE'' ''/api/v1/vcenters/1'' [])) demo_owned = (rep, g')"
    by (metis prod.collapse)
  have s: "ap_sync demo_api = Some (sync_of demo_sync)" by (simp add: demo_api_def SetSync_def)
  have o: "gitops_owned ''1'' (g_store demo_owned)" by (simp add: gitops_owned_def demo_owned_def)
  have "rp_Code rep = 409 \<and> g' = demo_owned"
    by (rule gitops_vcenter_is_not_deleted [OF s o _ _ _ _ r]) (simp_all add: demo_rq_def)
  with r show ?thesis by blast
qed

end
