(* ===== verification/Api_Laws.thy ===== *)
theory Api_Laws
  imports Api "HOL-Library.List_Lexorder"
begin

text \<open>
  What the admin API promises about the store: every request is at most one step of an abstract registry
  of vCenters and bound UUIDs, and an edit is accepted and takes effect on the next connection.
\<close>

section \<open>The registry\<close>

text \<open>
  The abstract state: the dry-run flag of each known vCenter, the vCenter each UUID is bound to, and the
  global dry run.
\<close>

record registry =
  rg_vcs :: "string \<Rightarrow> bool option"
  rg_bound :: "string \<Rightarrow> string option"
  rg_dry :: bool

definition registry_of :: "store \<Rightarrow> registry" where
  "registry_of st = \<lparr>rg_vcs = (\<lambda>i. map_option vc_DryRun (fmlookup (s_vcenters st) i)),
     rg_bound = (\<lambda>u. map_option mp_VCenterID (fmlookup (s_byUUID st) u)), rg_dry = set_DryRun (s_settings st)\<rparr>"

inductive registry_step :: "registry \<Rightarrow> registry \<Rightarrow> bool" where
  put: "registry_step r (r\<lparr>rg_vcs := (rg_vcs r)(i \<mapsto> d)\<rparr>)"
| remove: "rg_vcs r i \<noteq> None \<Longrightarrow>
    registry_step r (r\<lparr>rg_vcs := (rg_vcs r)(i := None), rg_bound := (\<lambda>u. if rg_bound r u = Some i then None else rg_bound r u)\<rparr>)"
| bind: "rg_vcs r i \<noteq> None \<Longrightarrow> registry_step r (r\<lparr>rg_bound := (rg_bound r)(u \<mapsto> i)\<rparr>)"
| unbind: "rg_bound r u \<noteq> None \<Longrightarrow> registry_step r (r\<lparr>rg_bound := (rg_bound r)(u := None)\<rparr>)"
| dry_run: "registry_step r (r\<lparr>rg_dry := b\<rparr>)"

text \<open>Who may be changed, in the registry's terms.\<close>

definition registry_allows :: "registry \<Rightarrow> string \<Rightarrow> bool" where
  "registry_allows r u \<longleftrightarrow> \<not> rg_dry r \<and> (case rg_bound r u of None \<Rightarrow> False | Some i \<Rightarrow> rg_vcs r i \<noteq> Some True)"

lemma registry_allows_iff: "registry_allows (registry_of st) (NormalizeUUID uuid) \<longleftrightarrow> may_change uuid st"
  by (auto simp: registry_allows_def registry_of_def may_change_def DryRunForUUID_def LookupUUID_def
      split: option.split)

definition registry_ok :: "registry \<Rightarrow> bool" where
  "registry_ok r \<longleftrightarrow> (\<forall>u i. rg_bound r u = Some i \<longrightarrow> rg_vcs r i \<noteq> None)"

lemma registry_step_ok: "registry_step r r' \<Longrightarrow> registry_ok r \<Longrightarrow> registry_ok r'"
  by (induction rule: registry_step.induct) (auto simp: registry_ok_def)

section \<open>At most one step\<close>

definition same_registry :: "gw \<Rightarrow> gw \<Rightarrow> bool" where
  "same_registry g g' \<longleftrightarrow> registry_of (g_store g') = registry_of (g_store g)"

lemma same_registry_preorder [simp, keeps_intro]: "preorder_rel same_registry"
  by (auto simp: preorder_rel_def reflp_def transp_def same_registry_def)

lemma same_store_registry: "(\<And>g. g_store (snd (m g)) = g_store g) \<Longrightarrow> keeps same_registry m"
  by (simp add: keeps_def same_registry_def)

named_theorems same_intro \<open>primitives that leave the store alone\<close>

lemma same_store_primitives:
  "g_store (snd (gact h op m d g)) = g_store g" "g_store (snd (store_read f g)) = g_store g" "g_store (snd (store_list G f' g)) = g_store g"
  "g_store (snd (pooled G vc g)) = g_store g" "g_store (snd (pooled_for_uuid G u g)) = g_store g" "g_store (snd (on_client kc c g)) = g_store g"
  "g_store (snd (on_world w g)) = g_store g" "g_store (snd (invalidate G vid g)) = g_store g" "g_store (snd (getE e g)) = g_store g"
  "g_store (snd (api_now g)) = g_store g"
  by (simp_all add: store_list_def pooled_def pooled_for_uuid_def on_client_def on_world_def invalidate_def modE_def getE_def api_now_def split: prod.split)

lemma same_registry_primitives [same_intro]:
  "keeps same_registry (gact h op m d)" "keeps same_registry (store_read f)" "keeps same_registry (store_list G f')"
  "keeps same_registry (pooled G vc)" "keeps same_registry (pooled_for_uuid G u)" "keeps same_registry (on_client kc c)"
  "keeps same_registry (on_world w)" "keeps same_registry (invalidate G vid)" "keeps same_registry (getE e)" "keeps same_registry api_now"
  by (rule same_store_registry, rule same_store_primitives)+

lemma sync_frame_registry:
  assumes "sync_frame g g'"
  shows "same_registry g g'"
proof -
  have "map_option vc_DryRun (fmlookup (s_vcenters (g_store g')) k) = map_option vc_DryRun (fmlookup (s_vcenters (g_store g)) k)" for k
  proof -
    have "rel_option same_definition (fmlookup (s_vcenters (g_store g)) k) (fmlookup (s_vcenters (g_store g')) k)"
      using assms by (simp add: sync_frame_def)
    then show ?thesis by (cases rule: option.rel_cases) (auto simp: same_definition_def)
  qed
  with assms show ?thesis by (simp add: same_registry_def registry_of_def sync_frame_def)
qed

lemma keeps_frame_registry: "keeps sync_frame m \<Longrightarrow> keeps same_registry m"
  by (auto simp: keeps_def intro: sync_frame_registry)

lemma mirror_registry [same_intro]:
  assumes "mirrored A"
  shows "keeps same_registry (synced A vid out)" "keeps same_registry (mirror_delete A vid vc)" "keeps same_registry (check_delete_call A vid)"
  using mirror_frames [OF assms] by (auto intro: keeps_frame_registry) (simp add: keeps_def same_registry_def)

definition steps :: "('e, 'a) gio \<Rightarrow> bool" where
  "steps m \<longleftrightarrow> (\<forall>g. registry_step\<^sup>=\<^sup>= (registry_of (g_store g)) (registry_of (g_store (snd (m g)))))"

named_theorems steps_intro \<open>handlers that make at most one step\<close>

lemma steps_same: "keeps same_registry m \<Longrightarrow> steps m"
  by (simp add: steps_def keeps_def same_registry_def)

lemma steps_tryE [steps_intro]:
  assumes "keeps same_registry m" "\<And>r. steps (k r)"
  shows "steps (tryE m k)"
  unfolding steps_def
proof
  fix g :: gw
  obtain r g1 where m: "m g = (r, g1)" by fastforce
  with assms(1) have "registry_of (g_store g1) = registry_of (g_store g)" by (metis keeps_def same_registry_def snd_conv)
  with assms(2) [of r] m show "registry_step\<^sup>=\<^sup>= (registry_of (g_store g)) (registry_of (g_store (snd (tryE m k g))))"
    unfolding steps_def tryE_def by (metis prod.case)
qed

lemma steps_ret [steps_intro]: "steps (retE x)" "steps (failE e)"
  by (simp_all add: steps_def retE_def failE_def)

lemma steps_bindE [steps_intro]: "keeps same_registry m \<Longrightarrow> (\<And>x. steps (k x)) \<Longrightarrow> steps (bindE m k)"
  unfolding bindE_def by (rule steps_tryE) (auto split: sum.split intro: steps_ret)

lemma steps_thenE [steps_intro]: "keeps same_registry m \<Longrightarrow> steps k \<Longrightarrow> steps (thenE m k)"
  unfolding thenE_def by (rule steps_bindE)

lemma steps_or_reply [steps_intro]:
  assumes "keeps same_registry m" "\<And>e. keeps same_registry (f e)" "\<And>x. steps (k x)"
  shows "steps (or_reply m f k)"
  unfolding or_reply_def
  by (rule steps_tryE [OF assms(1)]) (auto split: sum.split intro!: steps_same keeps_bindE keeps_failE assms)

lemma steps_split [steps_intro]:
  "(b \<Longrightarrow> steps m) \<Longrightarrow> (\<not> b \<Longrightarrow> steps k) \<Longrightarrow> steps (if b then m else k)"
  "steps m \<Longrightarrow> (\<And>x. steps (f x)) \<Longrightarrow> steps (case v of None \<Rightarrow> m | Some x \<Rightarrow> f x)"
  "(\<And>x y. steps (f' x y)) \<Longrightarrow> steps (case p of (x, y) \<Rightarrow> f' x y)"
  by (auto split: option.split prod.split)

lemma steps_with [steps_intro]:
  "(\<And>x. steps (k x)) \<Longrightarrow> steps (with_body ty fs zero rq k)" "(\<And>vc. steps (k' vc)) \<Longrightarrow> steps (with_secret vid k')"
proof -
  show "(\<And>x. steps (k x)) \<Longrightarrow> steps (with_body ty fs zero rq k)"
    unfolding with_body_def by (intro steps_intro)
  assume k: "\<And>vc. steps (k' vc)"
  show "steps (with_secret vid k')"
    unfolding with_secret_def
    by (rule steps_bindE [OF same_registry_primitives(2)]) (auto split: option.split intro: steps_ret k)
qed

text \<open>A store operation whose every outcome, a failed write included, is a step.\<close>

definition store_steps :: "api_server \<Rightarrow> (store_env \<Rightarrow> store \<Rightarrow> 'a store_result) \<Rightarrow> bool" where
  "store_steps A f \<longleftrightarrow> (\<forall>n st. registry_step\<^sup>=\<^sup>= (registry_of st) (registry_of (snd (f (ge_store (ap_gw A) n st) st))))"

lemma steps_stored [steps_intro]:
  assumes "store_steps A f" "\<And>x. keeps same_registry (k x)"
  shows "steps (stored A code f k)"
  unfolding steps_def
proof
  fix g :: gw
  obtain r g1 where m: "store_write (ap_gw A) f g = (r, g1)" by fastforce
  have step: "registry_step\<^sup>=\<^sup>= (registry_of (g_store g)) (registry_of (g_store g1))"
    using assms(1) m by (auto simp: store_steps_def store_write_def split: prod.splits) (metis snd_conv)+
  have "registry_of (g_store (snd (k x g1))) = registry_of (g_store g1)" for x
    using assms(2) [of x] by (simp add: keeps_def same_registry_def)
  with m step show "registry_step\<^sup>=\<^sup>= (registry_of (g_store g)) (registry_of (g_store (snd (stored A code f k g))))"
    by (cases r) (simp_all add: stored_def or_reply_run bindE_def tryE_def retE_def failE_def)
qed

section \<open>The operations of the store\<close>

lemma registry_of_snd [simp]:
  "registry_of (snd (persistLocked env s)) = registry_of s" "registry_of (snd (persist_return env x s)) = registry_of s"
  by (simp_all add: registry_of_def)

lemma put_step: "registry_step (registry_of s) (registry_of (s\<lparr>s_vcenters := fmupd k vc (s_vcenters s)\<rparr>))"
proof -
  have "registry_of (s\<lparr>s_vcenters := fmupd k vc (s_vcenters s)\<rparr>) = (registry_of s)\<lparr>rg_vcs := (rg_vcs (registry_of s))(k \<mapsto> vc_DryRun vc)\<rparr>"
    by (auto simp: registry_of_def)
  then show ?thesis by (simp add: put)
qed

definition result_steps :: "store \<Rightarrow> 'a store_result \<Rightarrow> bool" where
  "result_steps s r \<longleftrightarrow> registry_step\<^sup>=\<^sup>= (registry_of s) (registry_of (snd r))"

lemma result_steps_intro:
  "result_steps s (Inl e, s)"
  "result_steps s (persist_return env x (s\<lparr>s_vcenters := fmupd k vc (s_vcenters s)\<rparr>))"
  "(b \<Longrightarrow> result_steps s r) \<Longrightarrow> (\<not> b \<Longrightarrow> result_steps s r') \<Longrightarrow> result_steps s (if b then r else r')"
  "result_steps s r \<Longrightarrow> (\<And>x. result_steps s (f x)) \<Longrightarrow> result_steps s (case v of None \<Rightarrow> r | Some x \<Rightarrow> f x)"
  "(\<And>x. result_steps s (g x)) \<Longrightarrow> result_steps s (Let c g)"
  by (simp_all add: result_steps_def put_step split: option.split)

lemma upsert_steps: "registry_step\<^sup>=\<^sup>= (registry_of s) (registry_of (snd (UpsertVCenter env vc s)))"
proof -
  have "result_steps s (UpsertVCenter env vc s)"
    unfolding UpsertVCenter_def by (intro result_steps_intro)
  then show ?thesis by (simp add: result_steps_def)
qed

lemma dry_steps: "registry_step\<^sup>=\<^sup>= (registry_of s) (registry_of (snd (SetVCenterDryRun env vid on s)))"
  "registry_step\<^sup>=\<^sup>= (registry_of s) (registry_of (snd (SetGlobalDryRun env on s)))"
proof -
  show "registry_step\<^sup>=\<^sup>= (registry_of s) (registry_of (snd (SetVCenterDryRun env vid on s)))"
    by (auto simp: SetVCenterDryRun_def Let_def put_step split: option.split)
  have "registry_of (s\<lparr>s_settings := (s_settings s)\<lparr>set_DryRun := on\<rparr>\<rparr>) = (registry_of s)\<lparr>rg_dry := on\<rparr>"
    by (simp add: registry_of_def)
  then show "registry_step\<^sup>=\<^sup>= (registry_of s) (registry_of (snd (SetGlobalDryRun env on s)))"
    by (simp add: SetGlobalDryRun_def Let_def dry_run)
qed

lemma mapping_steps: "registry_step\<^sup>=\<^sup>= (registry_of s) (registry_of (snd (UpsertMapping env m s)))"
  "registry_step\<^sup>=\<^sup>= (registry_of s) (registry_of (snd (DeleteMapping env u s)))"
proof -
  have b: "registry_of (s\<lparr>s_byUUID := fmupd k mp (s_byUUID s)\<rparr>) = (registry_of s)\<lparr>rg_bound := (rg_bound (registry_of s))(k \<mapsto> mp_VCenterID mp)\<rparr>" for k mp
    by (auto simp: registry_of_def)
  have "fmlookup (s_vcenters s) (mp_VCenterID mp) \<noteq> None \<Longrightarrow> registry_step (registry_of s) (registry_of (s\<lparr>s_byUUID := fmupd k mp (s_byUUID s)\<rparr>))" for k mp
    unfolding b by (rule bind) (simp add: registry_of_def)
  then show "registry_step\<^sup>=\<^sup>= (registry_of s) (registry_of (snd (UpsertMapping env m s)))"
    by (auto simp: UpsertMapping_def Let_def split: option.split)
  have u: "registry_of (s\<lparr>s_byUUID := fmdrop k (s_byUUID s)\<rparr>) = (registry_of s)\<lparr>rg_bound := (rg_bound (registry_of s))(k := None)\<rparr>" for k
    by (auto simp: registry_of_def)
  have "fmlookup (s_byUUID s) k \<noteq> None \<Longrightarrow> registry_step (registry_of s) (registry_of (s\<lparr>s_byUUID := fmdrop k (s_byUUID s)\<rparr>))" for k
    unfolding u by (rule unbind) (simp add: registry_of_def)
  then show "registry_step\<^sup>=\<^sup>= (registry_of s) (registry_of (snd (DeleteMapping env u s)))"
    by (auto simp: DeleteMapping_def Let_def split: option.split)
qed

lemma delete_steps:
  assumes "iter_order (se_mscan env) (s_byUUID s)"
  shows "registry_step\<^sup>=\<^sup>= (registry_of s) (registry_of (snd (DeleteVCenter env vid s)))"
proof (cases "fmlookup (s_vcenters s) vid")
  case None
  then show ?thesis by (simp add: DeleteVCenter_def)
next
  case (Some vc)
  let ?s = "s\<lparr>s_byUUID := drop_mappings_of vid (se_mscan env) (s_byUUID s), s_vcenters := fmdrop vid (s_vcenters s)\<rparr>"
  have all: "u \<in> set (se_mscan env)" if "fmlookup (s_byUUID s) u = Some m" for u m
    using assms that by (auto simp: iter_order_def fmdom'I)
  have eq: "registry_of ?s = (registry_of s)\<lparr>rg_vcs := (rg_vcs (registry_of s))(vid := None),
      rg_bound := (\<lambda>u. if rg_bound (registry_of s) u = Some vid then None else rg_bound (registry_of s) u)\<rparr>"
    using all by (auto simp: registry_of_def drop_mappings_lookup fun_eq_iff split: option.split)
  have "rg_vcs (registry_of s) vid \<noteq> None" using Some by (simp add: registry_of_def)
  then have "registry_step (registry_of s) (registry_of ?s)" unfolding eq by (rule remove)
  moreover have "snd (DeleteVCenter env vid s) = snd (persistLocked env ?s)" using Some by (simp add: DeleteVCenter_def)
  ultimately show ?thesis by simp
qed

definition scans_all :: "gw_env \<Rightarrow> bool" where
  "scans_all G \<longleftrightarrow> (\<forall>n st. iter_order (se_mscan (ge_store G n st)) (s_byUUID st))"

lemma store_steps_all [steps_intro]:
  "store_steps A (\<lambda>se. UpsertVCenter se vc)" "store_steps A (\<lambda>se. SetVCenterDryRun se vid on)" "store_steps A (\<lambda>se. SetGlobalDryRun se on)"
  "store_steps A (\<lambda>se. UpsertMapping se m)" "store_steps A (\<lambda>se. DeleteMapping se u)"
  unfolding store_steps_def using upsert_steps dry_steps mapping_steps by blast+

lemma store_steps_delete [steps_intro]: "scans_all (ap_gw A) \<Longrightarrow> store_steps A (\<lambda>se. DeleteVCenter se vid)"
  unfolding store_steps_def scans_all_def using delete_steps by blast

lemma keeps_with_registry: "(\<And>x. keeps same_registry (k x)) \<Longrightarrow> keeps same_registry (with_body ty fs zero rq k)"
  by (rule keeps_with_body) simp_all

lemma tests_same [same_intro]: "keeps same_registry (run_test A vc)" "keeps same_registry (testVCenterBody A rq vc)" "keeps same_registry (testVCenter A rq vid)"
proof -
  show r: "keeps same_registry (run_test A vc)" for vc
    unfolding run_test_def Let_def by (intro keeps_intro same_intro same_registry_preorder)
  show b: "keeps same_registry (testVCenterBody A rq vc)" for rq vc
    unfolding testVCenterBody_def by (auto split: prod.split option.split intro: r keeps_retE)
  show "keeps same_registry (testVCenter A rq vid)"
    unfolding testVCenter_def by (intro keeps_intro same_intro b same_registry_preorder)
qed

lemma reading_same [same_intro]:
  "keeps same_registry (isoStatus A vid)" "keeps same_registry (vcHealth A vid)" "keeps same_registry (vcFolderVMs A vid)"
  "keeps same_registry (api_status A rq)" "keeps same_registry (api_activity A rq)" "keeps same_registry (api_mappingStatus A uuid)"
  "keeps same_registry (api_mappingPower A rq uuid)" "keeps same_registry not_allowed"
  unfolding isoStatus_def vcHealth_def vcFolderVMs_def api_status_def api_activity_def api_mappingStatus_def api_mappingPower_def
    client_now_def not_allowed_def Let_def
  by (intro keeps_intro same_intro same_registry_preorder)+

lemma synced_reply_same [same_intro]: "mirrored A \<Longrightarrow> keeps same_registry (synced_reply A code vid out)"
  unfolding synced_reply_def by (intro keeps_intro same_intro same_registry_preorder)

lemma get_handlers_same:
  assumes "rq_Method rq = ''GET''"
  shows "keeps same_registry (api_settings A rq)" "keeps same_registry (api_vcenters A rq)" "keeps same_registry (api_vcenterItem A rq)"
    "keeps same_registry (api_mappings A rq)" "keeps same_registry (api_mappingItem A rq)"
proof -
  note g = assms api_settings_def api_vcenters_def api_vcenterItem_def vcenter_root_def api_mappings_def api_mappingItem_def mapping_root_def
  have m: "''GET'' \<noteq> ''PUT''" "''GET'' \<noteq> ''POST''" "''GET'' \<noteq> ''DELETE''" "''GET'' \<notin> {''PUT'', ''POST''}" by simp_all
  show "keeps same_registry (api_settings A rq)"
    by (simp only: g m simp_thms if_False if_True Let_def) (intro keeps_intro same_intro same_registry_preorder)
  show "keeps same_registry (api_vcenters A rq)"
    by (simp only: g m simp_thms if_False if_True Let_def) (intro keeps_intro same_intro same_registry_preorder)
  show "keeps same_registry (api_vcenterItem A rq)"
    by (simp only: g m simp_thms if_False if_True Let_def) (intro keeps_intro same_intro same_registry_preorder)
  show "keeps same_registry (api_mappings A rq)"
    by (simp only: g m simp_thms if_False if_True Let_def) (intro keeps_intro same_intro same_registry_preorder)
  show "keeps same_registry (api_mappingItem A rq)"
    by (simp only: g m simp_thms if_False if_True Let_def) (intro keeps_intro same_intro same_registry_preorder)
qed

lemma handlers_step:
  assumes "mirrored A" "scans_all (ap_gw A)"
  shows "steps (api_settings A rq)" "steps (api_vcenters A rq)" "steps (api_vcenterItem A rq)" "steps (api_mappings A rq)" "steps (api_mappingItem A rq)"
  unfolding api_settings_def api_vcenters_def api_vcenterItem_def vcenter_root_def putVCenter_def deleteVCenter_def vcDryRun_def
    api_mappings_def api_mappingItem_def mapping_root_def Let_def
  by (intro steps_intro keeps_intro same_intro assms same_registry_preorder
      steps_same [OF tests_same(2)] steps_same [OF tests_same(3)] steps_same [OF reading_same(1)] steps_same [OF reading_same(2)]
      steps_same [OF reading_same(3)] steps_same [OF reading_same(6)] steps_same [OF reading_same(7)] steps_same [OF reading_same(8)])+

text \<open>
  C5: The admin API implements the registry. Whatever the request and the state, with the mirror off or
  on and even when writing the state file fails: handling it is at most one step of the abstract registry,
  the creation or edit of one vCenter, the removal of one together with every binding to it, binding a
  UUID to a known vCenter, releasing one, or switching the global dry run; a GET is no step at all. That
  every bound UUID has its vCenter therefore carries over, and the registry decides who may be changed
  exactly as the store does.
\<close>

theorem api_refines_registry:
  assumes "mirrored A" "scans_all (ap_gw A)" "api_mount A rq = Some h" "run_handler h g = (rep, g')"
  shows "registry_step\<^sup>=\<^sup>= (registry_of (g_store g)) (registry_of (g_store g'))
    \<and> (rq_Method rq = ''GET'' \<longrightarrow> registry_of (g_store g') = registry_of (g_store g))
    \<and> (registry_ok (registry_of (g_store g)) \<longrightarrow> registry_ok (registry_of (g_store g')))
    \<and> registry_allows (registry_of (g_store g')) (NormalizeUUID uuid) = may_change uuid (g_store g')"
proof -
  from assms(3) have h: "h \<in> {api_status A rq, api_settings A rq, api_activity A rq, api_vcenters A rq, api_vcenterItem A rq,
      api_mappings A rq, api_mappingItem A rq}" by (auto simp: api_mount_def Let_def split: if_splits)
  with handlers_step [OF assms(1,2)] reading_same(4,5) have "steps h" by (auto intro: steps_same)
  with run_handler_snd [OF assms(4)] have step: "registry_step\<^sup>=\<^sup>= (registry_of (g_store g)) (registry_of (g_store g'))"
    by (auto simp: steps_def)
  have "keeps same_registry h" if "rq_Method rq = ''GET''"
    using h get_handlers_same [OF that] reading_same(4,5) by (elim insertE emptyE) simp_all
  with run_handler_snd [OF assms(4)] have "rq_Method rq = ''GET'' \<longrightarrow> registry_of (g_store g') = registry_of (g_store g)"
    unfolding keeps_def same_registry_def by blast
  moreover have "registry_ok (registry_of (g_store g)) \<longrightarrow> registry_ok (registry_of (g_store g'))"
    using step registry_step_ok by fastforce
  ultimately show ?thesis using step by (simp only: registry_allows_iff simp_thms)
qed

text \<open>A gateway whose scans of the mappings are in sorted order.\<close>

definition demo_scans :: gw_env where
  "demo_scans = demo_genv\<lparr>ge_store := (\<lambda>_ st. (demo_env [''1''] [''1''] [''aa-bb''])\<lparr>se_mscan := sorted_list_of_fset (fmdom (s_byUUID st))\<rparr>)\<rparr>"

definition demo_plain :: api_server where
  "demo_plain = api_New demo_scans ''1.0'' (\<lambda>_. ''t'') (\<lambda>_. []) (\<lambda>rq. rq)"

lemma demo_plain_ok: "mirrored demo_plain" "scans_all (ap_gw demo_plain)"
  by (simp_all add: mirrored_def scans_all_def demo_plain_def api_New_def demo_scans_def demo_genv_def iter_order_def
      sorted_list_of_fset.rep_eq fmdom'_alt_def)

theorem api_refines_registry_witness:
  "\<exists>g'. run_handler (api_vcenterItem demo_plain (demo_rq ''DELETE'' ''/api/v1/vcenters/1'' [])) demo_gw = (WriteHeader 204, g')
     \<and> registry_step\<^sup>=\<^sup>= (registry_of (g_store demo_gw)) (registry_of (g_store g')) \<and> rg_bound (registry_of (g_store g')) ''aa-bb'' = None"
proof -
  let ?rq = "demo_rq ''DELETE'' ''/api/v1/vcenters/1'' []"
  have item: "api_vcenterItem demo_plain ?rq = deleteVCenter demo_plain ''1''"
    by (subst vcenterItem_root [of _ "''1''"]) (simp_all add: vcenter_root_def demo_rq_def)
  have p: "HasPrefix ''/api/v1/vcenters/1'' ''/api/v1/vcenters/''" by code_simp
  then have m: "api_mount demo_plain ?rq = Some (api_vcenterItem demo_plain ?rq)"
    by (simp add: api_mount_def demo_rq_def Let_def)
  obtain rep g' where r: "run_handler (api_vcenterItem demo_plain ?rq) demo_gw = (rep, g')" by (metis prod.collapse)
  from r have "rep = WriteHeader 204" "rg_bound (registry_of (g_store g')) ''aa-bb'' = None"
    unfolding item
    by (auto simp: run_handler_def deleteVCenter_def check_delete_call_def mirror_delete_def stored_def or_reply_run
        demo_plain_def api_New_def demo_scans_def demo_genv_def demo_gw_def demo_store_def store_write_def DeleteVCenter_def
        persistLocked_def demo_env_def invalidate_def modE_def thenE_def bindE_def tryE_def retE_def failE_def
        registry_of_def drop_mappings_lookup Let_def split: prod.splits)
  with api_refines_registry [OF demo_plain_ok m r] r show ?thesis by blast
qed

section \<open>Editing a vCenter\<close>

definition edited :: "vcenter \<Rightarrow> vcenter \<Rightarrow> vcenter \<Rightarrow> bool" where
  "edited old new vc \<longleftrightarrow> vc_ID vc = vc_ID old \<and> vc_URL vc = vc_URL new \<and> vc_Username vc = vc_Username new
     \<and> vc_Password vc = (if vc_Password new = [] then vc_Password old else vc_Password new)
     \<and> vc_Insecure vc = vc_Insecure new \<and> vc_Datacenter vc = vc_Datacenter new
     \<and> vc_Datastore vc = NormalizeDatastore (vc_Datastore new) \<and> vc_Folder vc = vc_Folder new \<and> vc_DryRun vc = vc_DryRun old
     \<and> vc_Name vc = (if vc_Name new = [] then vc_URL new else vc_Name new)
     \<and> vc_ISOFolder vc = (if vc_ISOFolder new = [] then ''rf2vc/isos'' else vc_ISOFolder new) \<and> vc_Notes vc = vc_Notes new
     \<and> vc_PasswordSource vc = (if vc_Password new = [] then vc_PasswordSource old else PasswordManual)"

definition complete :: "vcenter \<Rightarrow> bool" where
  "complete vc \<longleftrightarrow> vc_URL vc \<noteq> [] \<and> vc_Username vc \<noteq> [] \<and> vc_Datacenter vc \<noteq> []"

definition disk_works :: "gw_env \<Rightarrow> bool" where
  "disk_works G \<longleftrightarrow> (\<forall>n st. se_write (ge_store G n st) = None \<and> se_rename (ge_store G n st) = None)"

lemma upsert_existing:
  assumes "fmlookup (s_vcenters s) vid = Some old" "vc_ID old = vid" "vid \<noteq> []" "complete new" "se_write env = None" "se_rename env = None"
  shows "\<exists>v s'. UpsertVCenter env (new\<lparr>vc_ID := vid\<rparr>) s = (Inr (redact v), s') \<and> fmlookup (s_vcenters s') vid = Some v \<and> edited old new v"
proof -
  have "\<exists>v. UpsertVCenter env (new\<lparr>vc_ID := vid\<rparr>) s = persist_return env (redact v) (s\<lparr>s_vcenters := fmupd vid v (s_vcenters s)\<rparr>) \<and> edited old new v"
    using assms(1-4)
    by (cases "vc_Name new = []"; cases "vc_ISOFolder new = []"; cases "vc_Password new = []")
      (auto simp: UpsertVCenter_def complete_def edited_def normalizeDatastore_same default_iso_def Let_def)
  then obtain v where v: "UpsertVCenter env (new\<lparr>vc_ID := vid\<rparr>) s = persist_return env (redact v) (s\<lparr>s_vcenters := fmupd vid v (s_vcenters s)\<rparr>)"
    "edited old new v" by blast
  obtain s' where s': "persist_return env (redact v) (s\<lparr>s_vcenters := fmupd vid v (s_vcenters s)\<rparr>) = (Inr (redact v), s')"
    using persist_healthy(2) [OF assms(5,6), where x = "redact v" and s = "s\<lparr>s_vcenters := fmupd vid v (s_vcenters s)\<rparr>"] by (elim exE)
  have "fmlookup (s_vcenters s') vid = Some v" using persist_return_Inr [OF s'] by simp
  with v s' show ?thesis by auto
qed

lemma invalidate_forgets: "fmlookup (p_clients (g_pool (snd (invalidate G vid g)))) vid = None"
  "g_store (snd (invalidate G vid g)) = g_store g" "fst (invalidate G vid g) = Inr ()"
  by (auto simp: invalidate_def modE_def pool_Invalidate_def split: prod.split option.split)

lemma synced_runs: "\<exists>v. fst (synced A vid out g) = Inr v"
  by (cases "ap_sync A"; cases "fst (vy_Saved (the (ap_sync A)) vid g)")
    (simp_all add: synced_def tryE_def thenE_def bindE_def retE_def case_prod_beta)

lemma synced_reply_code: "replies (\<lambda>r. rp_Code r = code) (synced_reply A code vid out)"
  unfolding replies_def
proof
  fix g :: gw
  obtain v g' where "synced A vid out g = (Inr v, g')" using synced_runs [of A vid out g] by (metis prod.collapse)
  then show "rp_Code (reply_of (fst (synced_reply A code vid out g))) = code"
    by (simp add: synced_reply_def bindE_def tryE_def retE_def api_JSON_def)
qed

text \<open>
  C25: A valid edit of a known vCenter is accepted and takes effect. With a disk that can be written, a PUT
  whose body decodes and names URL, user and datacenter is answered 200, whether or not its ConfigMap can
  be written. From then on the store hands out the new settings, each of them (URL, name, user, datacenter,
  datastore, both folders, notes, TLS): an omitted name is the URL, an omitted ISO folder the default, an omitted
  password the old one with its source, and the dry run stays as it was. No pooled client is left that was
  made from the old settings.
\<close>

theorem edit_takes_effect:
  assumes "mirrored A" "disk_works (ap_gw A)"
    "rq_Method rq = ''PUT''" "rq_Path rq = ''/api/v1/vcenters/'' @ vid" "vid \<noteq> []" "CHR ''/'' \<notin> set vid"
    "decode_vcenter rq vcenter_zero = (None, new, rq')" "complete new"
    "fmlookup (s_vcenters (g_store g)) vid = Some old" "vc_ID old = vid"
    "run_handler (api_vcenterItem A rq) g = (rep, g')"
  shows "rp_Code rep = 200 \<and> (\<exists>vc. GetVCenterSecret vid (g_store g') = Some vc \<and> edited old new vc)
    \<and> fmlookup (p_clients (g_pool g')) vid = None"
proof -
  let ?se = "ge_store (ap_gw A) (g_ops g) (g_store g)"
  obtain v s' where u: "UpsertVCenter ?se (new\<lparr>vc_ID := vid\<rparr>) (g_store g) = (Inr (redact v), s')"
    "fmlookup (s_vcenters s') vid = Some v" "edited old new v"
    using upsert_existing [OF assms(9,10,5,8)] assms(2) by (metis disk_works_def)
  define g1 where "g1 = g\<lparr>g_store := s', g_ops := Suc (g_ops g)\<rparr>"
  define g2 where "g2 = snd (invalidate (ap_gw A) vid g1 :: (reply + unit) \<times> gw)"
  have g2: "invalidate (ap_gw A) vid g1 = (Inr () :: reply + unit, g2)" by (simp add: g2_def invalidate_forgets prod_eq_iff)
  have "api_vcenterItem A rq = putVCenter A rq vid" using vcenterItem_root [OF assms(4-6)] assms(3) by (simp add: vcenter_root_def)
  then have "api_vcenterItem A rq g = synced_reply A 200 vid (redact v) g2"
    using assms(7) u(1) g2 by (simp add: putVCenter_def with_body_def decode_vcenter_def stored_def store_write_def or_reply_run
        thenE_def bindE_def tryE_def g1_def)
  then have r: "rep = reply_of (fst (synced_reply A 200 vid (redact v) g2))" "g' = snd (synced_reply A 200 vid (redact v) g2)"
    using assms(11) by (simp_all add: run_handler_def case_prod_beta)
  have "keeps sync_frame (synced_reply A 200 vid (redact v))"
    unfolding synced_reply_def by (intro keeps_intro mirror_frames(1) [OF assms(1)] sync_frame_preorder)
  then have f: "sync_frame g2 g'" unfolding r(2) by (simp add: keeps_def)
  have "fmlookup (s_vcenters (g_store g2)) vid = Some v" using u(2) by (simp add: g2_def invalidate_forgets g1_def)
  moreover have "rel_option same_definition (fmlookup (s_vcenters (g_store g2)) vid) (fmlookup (s_vcenters (g_store g')) vid)"
    using f by (simp add: sync_frame_def)
  ultimately obtain w where w: "fmlookup (s_vcenters (g_store g')) vid = Some w" "same_definition v w"
    by (cases "fmlookup (s_vcenters (g_store g')) vid") auto
  have "edited old new (w\<lparr>vc_Datastore := normalizeDatastore (vc_Datastore w)\<rparr>)"
  proof -
    obtain cm origin ref where "w = v\<lparr>vc_ConfigMap := cm, vc_ConfigOrigin := origin, vc_CredentialsSecret := ref\<rparr>"
      using w(2) unfolding same_definition_def by blast
    then show ?thesis using u(3) by (simp add: edited_def normalizeDatastore_same)
  qed
  moreover have "fmlookup (p_clients (g_pool g')) vid = None" using f by (simp add: sync_frame_def g2_def invalidate_forgets)
  moreover have "rp_Code rep = 200" using synced_reply_code [of 200 A vid "redact v"] by (simp add: r(1) replies_def)
  ultimately show ?thesis using w(1) by (simp add: GetVCenterSecret_def)
qed

definition demo_edit :: request where
  "demo_edit = demo_rq ''PUT'' ''/api/v1/vcenters/1'' [JObj [(''url'', JStr ''https://new''), (''username'', JStr ''admin''),
     (''datacenter'', JStr ''DC2'')]]"

theorem edit_takes_effect_witness:
  "\<exists>rep g' vc. run_handler (api_vcenterItem demo_plain demo_edit) demo_gw = (rep, g') \<and> rp_Code rep = 200
     \<and> GetVCenterSecret ''1'' (g_store g') = Some vc \<and> vc_URL vc = ''https://new'' \<and> vc_Password vc = vc_Password demo_gw_vc"
proof -
  let ?new = "vcenter_zero\<lparr>vc_URL := ''https://new'', vc_Username := ''admin'', vc_Datacenter := ''DC2''\<rparr>"
  obtain rep g' where r: "run_handler (api_vcenterItem demo_plain demo_edit) demo_gw = (rep, g')" by (metis prod.collapse)
  have d: "decode_vcenter demo_edit vcenter_zero = (None, ?new, demo_edit\<lparr>rq_Body := []\<rparr>)"
    by (simp add: decode_vcenter_def decode_body_def decode_struct_def vcenter_fields_def find_field_def str_field_def bool_field_def
        ptr_field_def demo_edit_def demo_rq_def Let_def)
  have w: "disk_works (ap_gw demo_plain)"
    by (simp add: disk_works_def demo_plain_def api_New_def demo_scans_def demo_genv_def demo_env_def)
  have "rp_Code rep = 200 \<and> (\<exists>vc. GetVCenterSecret ''1'' (g_store g') = Some vc \<and> edited demo_gw_vc ?new vc)
      \<and> fmlookup (p_clients (g_pool g')) ''1'' = None"
    by (rule edit_takes_effect [OF demo_plain_ok(1) w _ _ _ _ d _ _ _ r])
      (simp_all add: demo_edit_def demo_rq_def complete_def demo_gw_def demo_gw_vc_def)
  then obtain vc where "rp_Code rep = 200" "GetVCenterSecret ''1'' (g_store g') = Some vc" "edited demo_gw_vc ?new vc" by blast
  with r show ?thesis by (auto simp: edited_def vcenter_zero_def)
qed

section \<open>Two surprises\<close>

text \<open>
  A delete whose write to the state file fails is answered 404, yet the vCenter is gone from memory, its
  pooled client stays and the mirror is not told.
\<close>

theorem failed_delete_still_deletes:
  assumes "check_delete_call A vid g = (Inr (), g)" "fmlookup (s_vcenters (g_store g)) vid = Some vc"
    "se_write (ge_store (ap_gw A) (g_ops g) (g_store g)) = Some e"
    "run_handler (deleteVCenter A vid) g = (rep, g')"
  shows "rep = http_Error e 404 \<and> fmlookup (s_vcenters (g_store g')) vid = None \<and> g_pool g' = g_pool g \<and> g_kube g' = g_kube g"
  using assms
  by (auto simp: deleteVCenter_def stored_def store_write_def or_reply_run run_handler_def DeleteVCenter_def persistLocked_def
      bindE_def tryE_def retE_def failE_def Let_def)

text \<open>A PATCH that disables the boot override but names the CD sets the CD all the same.\<close>

theorem disabled_override_still_boots_cd:
  "patchBoot G sid \<lparr>bo_Target = ''Cd'', bo_Enabled = ''Disabled''\<rparr> =
     (let detail = [(''uuid'', AStr sid), (''bootTarget'', AStr ''cd''), (''bootEnabled'', AStr ''disabled'')] in
      unless_dry sid ''BootOverride'' ''would set boot CD once (dry-run)'' detail
        (apply_change G sid ''BootOverride'' ''set boot CD once'' detail (SetBootCDOnce (ge_vs G) sid)))"
proof -
  have "ToLower ''Cd'' = ''cd''" "ToLower ''Disabled'' = ''disabled''" by code_simp+
  then show ?thesis by (simp add: patchBoot_def cd_targets_def Let_def)
qed

end
