(* ===== verification/Gateway.thy ===== *)
theory Gateway
  imports Api_Laws Gw_Auth
begin

text \<open>
  The process (\<open>cmd/gateway/main.go\<close>): what \<open>main\<close> sets up from the configuration, which routes each
  listener serves behind which middleware, and what serving one request does. \<open>http.ServeMux\<close> is a list
  of patterns with their handlers. The file server of the embedded assets, how a URL is written out and
  the disk and network around the process are parameters; timeouts, TLS and \<open>log\<close> lines are left out.
\<close>

section \<open>Routes\<close>

type_synonym mux = "(string \<times> (request \<Rightarrow> handler)) list"

definition pattern_covers :: "string \<Rightarrow> string \<Rightarrow> bool" where
  "pattern_covers pat path \<longleftrightarrow> path = pat \<or> HasSuffix pat ''/'' \<and> HasPrefix path pat"

text \<open>The longest pattern wins.\<close>

fun mux_find :: "mux \<Rightarrow> string \<Rightarrow> (string \<times> (request \<Rightarrow> handler)) option" where
  "mux_find [] path = None"
| "mux_find ((pat, h) # mux) path = (let rest = mux_find mux path in
     if pattern_covers pat path \<and> (case rest of None \<Rightarrow> True | Some (q, _) \<Rightarrow> length q < length pat)
     then Some (pat, h) else rest)"

definition mux_cleanPath :: "string \<Rightarrow> string" where
  "mux_cleanPath p =
     (if p = [] then ''/''
      else let p = (if hd p = CHR ''/'' then p else CHR ''/'' # p); np = path_Clean p in
        if last p = CHR ''/'' \<and> np \<noteq> ''/'' then np @ ''/'' else np)"

definition has_pattern :: "mux \<Rightarrow> string \<Rightarrow> bool" where
  "has_pattern mux pat \<longleftrightarrow> pat \<in> set (map fst mux)"

definition html_char :: "char \<Rightarrow> string" where
  "html_char c = (if c = CHR ''&'' then ''&amp;'' else if c = CHR ''<'' then ''&lt;'' else if c = CHR ''>'' then ''&gt;''
     else if c = CHR 0x22 then ''&#34;'' else if c = CHR 0x27 then ''&#39;'' else [c])"

definition moved :: "string \<Rightarrow> request \<Rightarrow> reply" where
  "moved location rq = \<lparr>rp_Code = 301, rp_Header = (''Location'', location) #
       (if rq_Method rq \<in> {''GET'', ''HEAD''} then [(''Content-Type'', ''text/html; charset=utf-8'')] else []),
     rp_Body = (if rq_Method rq = ''GET''
       then TextBody (''<a href='' @ go_quote (concat (map html_char location)) @ ''>Moved Permanently</a>.'' @ [CHR 0x0A, CHR 0x0A])
       else NoBody)\<rparr>"

text \<open>The path that is matched: cleaned, except for CONNECT. \<open>url path rq\<close> writes out the request's URL with another path.\<close>

definition mux_path :: "request \<Rightarrow> string" where
  "mux_path rq = (if rq_Method rq = ''CONNECT'' then rq_Path rq else mux_cleanPath (rq_Path rq))"

definition mux_handler :: "(string \<Rightarrow> request \<Rightarrow> string) \<Rightarrow> mux \<Rightarrow> request \<Rightarrow> handler" where
  "mux_handler url mux rq =
     (let path = mux_path rq in
      if \<not> has_pattern mux path \<and> \<not> HasSuffix path ''/'' \<and> has_pattern mux (path @ ''/'') then retE (moved (url (path @ ''/'') rq) rq)
      else if path \<noteq> rq_Path rq then retE (moved (url path rq) rq)
      else case mux_find mux path of
          None \<Rightarrow> retE http_NotFound
        | Some (_, h) \<Rightarrow> h rq)"

section \<open>The process and its surroundings\<close>

record process_env =
  gm_gw :: gw_env
  gm_config :: config_env
  gm_open :: store_env
  gm_file :: "string \<Rightarrow> state_file"
  gm_world :: world
  gm_dir :: auth_dir
  gm_pod :: pod
  gm_yaml :: yaml_env
  gm_review :: review_env
  gm_version :: string
  gm_time :: "int \<Rightarrow> string"
  gm_order :: "gw \<Rightarrow> string list"
  gm_reread :: "request \<Rightarrow> request"
  gm_url :: "string \<Rightarrow> request \<Rightarrow> string"
  gm_static :: "request \<Rightarrow> reply"
  gm_index :: "string + string"

record process =
  gt_main :: mux
  gt_token :: "mux option"
  gt_ui :: "mux option"

record process_state =
  st_gw :: gw
  st_creds :: credentials
  st_review :: "(reviewer \<times> rhist) option"

definition healthz :: "request \<Rightarrow> handler" where
  "healthz rq = retE \<lparr>rp_Code = 200, rp_Header = [], rp_Body = TextBody ''ok''\<rparr>"

definition redfish_routes :: "gw_env \<Rightarrow> mux" where
  "redfish_routes G = [(''/redfish/v1/'', rf_route G), (''/redfish/v1'', rf_redirect)]"

definition api_routes :: "api_server \<Rightarrow> mux" where
  "api_routes A = [(''/api/v1/status'', api_status A), (''/api/v1/settings'', api_settings A), (''/api/v1/activity'', api_activity A),
     (''/api/v1/vcenters'', api_vcenters A), (''/api/v1/vcenters/'', api_vcenterItem A),
     (''/api/v1/mappings'', api_mappings A), (''/api/v1/mappings/'', api_mappingItem A)]"

definition mountAPI :: "api_server \<Rightarrow> string \<Rightarrow> mux" where
  "mountAPI A mode = api_routes A @ [(''/api/v1/whoami'', \<lambda>rq. retE (gw_whoami mode rq))]"

definition index_page :: "process_env \<Rightarrow> request \<Rightarrow> handler" where
  "index_page E rq =
     (if rq_Path rq \<noteq> ''/'' then retE http_NotFound
      else case gm_index E of
          Inl e \<Rightarrow> retE (http_Error e 500)
        | Inr b \<Rightarrow> retE \<lparr>rp_Code = 200, rp_Header = [(''Content-Type'', ''text/html; charset=utf-8'')], rp_Body = TextBody b\<rparr>)"

definition mountUI :: "process_env \<Rightarrow> api_server \<Rightarrow> string \<Rightarrow> mux" where
  "mountUI E A mode = mountAPI A mode @ [(''/static/'', \<lambda>rq. retE (gm_static E rq)), (''/'', index_page E)]"

section \<open>Starting\<close>

text \<open>\<open>Inl\<close>: what \<open>log.Fatalf\<close> ends the process with.\<close>

definition startVCenterSync :: "process_env \<Rightarrow> string \<Rightarrow> (string, sync_env option) gio" where
  "startVCenterSync E mode =
     (if mode = ''off'' then retE None
      else case kube_InCluster (gm_pod E) of
          Inl e \<Rightarrow> if mode = ''on'' then failE (''vCenter ConfigMaps: '' @ e) else retE None
        | Inr kc \<Rightarrow> (let S = \<lparr>sy_gw = gm_gw E, sy_yaml = gm_yaml E, sy_kc = kc\<rparr> in
            tryE (Startup S) (\<lambda>r. case r of
              Inl e \<Rightarrow> thenE (gact act_RunErr ''configmap'' (ke_text e) [(''namespace'', AStr (kc_Namespace kc))]) (retE (Some S))
            | Inr _ \<Rightarrow> retE (Some S))))"

definition start_api :: "process_env \<Rightarrow> config \<Rightarrow> (string, api_server) gio" where
  "start_api E cfg = bindE (startVCenterSync E (cf_VCenterConfigMaps cfg)) (\<lambda>vcs.
     let A = api_New (gm_gw E) (gm_version E) (gm_time E) (gm_order E) (gm_reread E) in
     retE (case vcs of Some S \<Rightarrow> SetSync (sync_of S) A | None \<Rightarrow> A))"

definition start_credentials :: "process_env \<Rightarrow> config \<Rightarrow> int \<Rightarrow> credentials" where
  "start_credentials E cfg now =
     (let creds = gateway_credentials cfg in
      if ac_RedfishClientsDir (cf_Auth cfg) \<noteq> [] then snd (clientsNow (gm_dir E) now creds) else creds)"

definition start_reviewer :: "process_env \<Rightarrow> config \<Rightarrow> string + reviewer option" where
  "start_reviewer E cfg =
     (if cf_APIListen cfg = [] then Inr None
      else case review_InCluster (gm_pod E) \<lparr>ra_Namespace = [], ra_Verb = ''get'', ra_Group = [], ra_Resource = ''services'',
             ra_Name = ac_APIService (cf_Auth cfg)\<rparr> of
          Inl e \<Rightarrow> Inl (''apiListen: '' @ e)
        | Inr r \<Rightarrow> Inr (Some r))"

definition process_routes :: "process_env \<Rightarrow> config \<Rightarrow> api_server \<Rightarrow> process" where
  "process_routes E cfg A =
     (let health = (''/healthz'', healthz); main = health # redfish_routes (gm_gw E) in
      \<lparr>gt_main = (if cf_UIListen cfg = [] then main @ mountUI E A ''basic'' else main),
       gt_token = (if cf_APIListen cfg = [] then None else Some (health # mountAPI A ''token'')),
       gt_ui = (if cf_UIListen cfg = [] then None else Some (health # mountUI E A ''oauth''))\<rparr>)"

definition initial_gw :: "process_env \<Rightarrow> config \<Rightarrow> store \<Rightarrow> gw" where
  "initial_gw E cfg st = \<lparr>g_store = st, g_ops = 0, g_pool = NewPool (cf_ISOCacheDir cfg),
     g_w = (gm_world E)\<lparr>w_bus := defaultBus, w_calls := []\<rparr>, g_kube = []\<rparr>"

definition announce :: "process_env \<Rightarrow> config \<Rightarrow> (string, unit) gio" where
  "announce E cfg = bindE (store_read Stats) (\<lambda>(vc, mp). bindE (store_read GetSettings) (\<lambda>s.
     gact act_Run ''startup'' ''gateway listening''
       [(''version'', AStr (gm_version E)), (''listen'', AStr (cf_Listen cfg)), (''vcenters'', AInt (int vc)),
        (''mappings'', AInt (int mp)), (''dryRun'', ABool (set_DryRun s))]))"

definition seed :: "process_env \<Rightarrow> (string, bool) gio" where
  "seed E = tryE (store_write (gm_gw E) (\<lambda>se. SeedFromGOVC se (ce_getenv (gm_config E)))) (\<lambda>r. case r of
     Inl e \<Rightarrow> failE (''govc seed: '' @ e) | Inr b \<Rightarrow> retE b)"

text \<open>\<open>main\<close> up to the listeners: the routes, the API server behind them and the first state.\<close>

definition gateway_main :: "process_env \<Rightarrow> string \<Rightarrow> string + (config \<times> api_server \<times> process \<times> process_state)" where
  "gateway_main E path = (case config_Load (gm_config E) path of
       Inl e \<Rightarrow> Inl (''config: '' @ e)
     | Inr cfg \<Rightarrow> (let file = path_Join [cf_DataDir cfg, ''state.json''] in
         case store_Open (gm_open E) file (gm_file E file) of
           Inl e \<Rightarrow> Inl (''store: '' @ e)
         | Inr st \<Rightarrow> (case bindE (seed E) (\<lambda>_. start_api E cfg) (initial_gw E cfg st) of
             (Inl e, _) \<Rightarrow> Inl e
           | (Inr A, g) \<Rightarrow> (case start_reviewer E cfg of
               Inl e \<Rightarrow> Inl e
             | Inr reviewer \<Rightarrow> Inr (cfg, A, process_routes E cfg A,
                 \<lparr>st_gw = snd (announce E cfg g), st_creds = start_credentials E cfg (gw_now g),
                  st_review = map_option (\<lambda>r. (r, [])) reviewer\<rparr>)))))"

section \<open>Serving\<close>

datatype listener = MainListener | TokenListener | UIListener

definition mux_serve :: "process_env \<Rightarrow> mux \<Rightarrow> server" where
  "mux_serve E mux rq g = run_handler (mux_handler (gm_url E) mux rq) g"

text \<open>\<open>None\<close>: the process has no such listener.\<close>

definition process_serve :: "process_env \<Rightarrow> process \<Rightarrow> listener \<Rightarrow> request \<Rightarrow> process_state \<Rightarrow> (reply \<times> process_state) option" where
  "process_serve E gt lst rq st = (case lst of
       MainListener \<Rightarrow> (case basicAuth (gm_dir E) (mux_serve E (gt_main gt)) rq (st_creds st, st_gw st) of
           (rep, c, g) \<Rightarrow> Some (rep, st\<lparr>st_gw := g, st_creds := c\<rparr>))
     | TokenListener \<Rightarrow> (case (gt_token gt, st_review st) of
           (Some mux, Some rh) \<Rightarrow> (case tokenAuth (Review (gm_review E)) (mux_serve E mux) rq (rh, st_gw st) of
              (rep, rh, g) \<Rightarrow> Some (rep, st\<lparr>st_gw := g, st_review := Some rh\<rparr>))
         | _ \<Rightarrow> None)
     | UIListener \<Rightarrow> (case gt_ui gt of
           Some mux \<Rightarrow> (case proxyAuth (mux_serve E mux) rq (st_gw st) of (rep, g) \<Rightarrow> Some (rep, st\<lparr>st_gw := g\<rparr>))
         | None \<Rightarrow> None))"

text \<open>The deferred \<open>pool.CloseAll\<close>, which ranges over the clients.\<close>

definition process_stop :: "process_env \<Rightarrow> string list \<Rightarrow> process_state \<Rightarrow> process_state" where
  "process_stop E order st = (case pool_CloseAll (ge_vs (gm_gw E)) order (g_pool (st_gw st), g_w (st_gw st)) of
     (p, w) \<Rightarrow> st\<lparr>st_gw := (st_gw st)\<lparr>g_pool := p, g_w := w\<rparr>\<rparr>)"

section \<open>The one-shot modes\<close>

text \<open>\<open>asset\<close> is \<open>web.OAuthTemplates.ReadFile\<close>, \<open>write\<close> the outcome of \<open>os.WriteFile\<close>; with what was written.\<close>

fun write_templates :: "(string \<Rightarrow> string + string) \<Rightarrow> (string \<Rightarrow> string \<Rightarrow> string option) \<Rightarrow> string \<Rightarrow> string list
    \<Rightarrow> string option \<times> (string \<times> string) list" where
  "write_templates asset write dir [] = (None, [])"
| "write_templates asset write dir (name # names) = (case asset (''oauth/'' @ name) of
       Inl e \<Rightarrow> (Some e, [])
     | Inr b \<Rightarrow> (let file = path_Join [dir, name] in
         case write file b of
           Some e \<Rightarrow> (Some e, [])
         | None \<Rightarrow> (case write_templates asset write dir names of (e, out) \<Rightarrow> (e, (file, b) # out))))"

definition writeOAuthTemplates :: "(string \<Rightarrow> string + string) \<Rightarrow> (string \<Rightarrow> string \<Rightarrow> string option) \<Rightarrow> string
    \<Rightarrow> string option \<times> (string \<times> string) list" where
  "writeOAuthTemplates asset write dir = write_templates asset write dir [''sign_in.html'', ''error.html'']"

text \<open>\<open>None\<close>: neither flag is given and the gateway starts; else the fatal error, if any, and the files.\<close>

definition one_shot :: "(string \<Rightarrow> string + string) \<Rightarrow> (string \<Rightarrow> string + string) \<Rightarrow> (string \<Rightarrow> string \<Rightarrow> string option)
    \<Rightarrow> (string \<Rightarrow> string) \<Rightarrow> string \<Rightarrow> string \<Rightarrow> (string option \<times> (string \<times> string) list) option" where
  "one_shot bcrypt asset write getenv htpasswdOut templatesOut =
     (if htpasswdOut = [] \<and> templatesOut = [] then None
      else Some (case (if htpasswdOut = [] then (None, [])
          else writeHtpasswd bcrypt write htpasswdOut (getenv ''RF2VC_AUTH_USERNAME'') (getenv ''RF2VC_AUTH_PASSWORD'')) of
        (Some e, out) \<Rightarrow> (Some (''write-htpasswd: '' @ e), out)
      | (None, out) \<Rightarrow> (if templatesOut = [] then (None, out)
          else case writeOAuthTemplates asset write templatesOut of
            (Some e, out') \<Rightarrow> (Some (''write-oauth-templates: '' @ e), out @ out')
          | (None, out') \<Rightarrow> (None, out @ out'))))"

end
