(* ===== verification/Gateway_Laws.thy ===== *)
theory Gateway_Laws
  imports Gateway
begin

text \<open>
  What holds of the whole process, on every listener and in every state it can reach: the store stays well
  formed, nobody changes vSphere without the listener's credentials, the main listener serves only Redfish
  once the dashboard has its own, and health checks are always answered.
\<close>

section \<open>Routing\<close>

lemma mux_find_Some: "mux_find mux path = Some (pat, h) \<Longrightarrow> (pat, h) \<in> set mux \<and> pattern_covers pat path"
  by (induction mux) (auto simp: Let_def split: if_splits)

lemma mux_handler_cases:
  obtains (found) pat h where "(pat, h) \<in> set mux" "pattern_covers pat (rq_Path rq)" "mux_handler url mux rq = h rq"
  | (moved) location where "mux_handler url mux rq = retE (moved location rq)"
  | (missing) "mux_handler url mux rq = retE http_NotFound"
proof -
  let ?path = "mux_path rq"
  consider (slash) "\<not> has_pattern mux ?path \<and> \<not> HasSuffix ?path ''/'' \<and> has_pattern mux (?path @ ''/'')"
    | (clean) "\<not> (\<not> has_pattern mux ?path \<and> \<not> HasSuffix ?path ''/'' \<and> has_pattern mux (?path @ ''/''))" "?path \<noteq> rq_Path rq"
    | (exact) "\<not> (\<not> has_pattern mux ?path \<and> \<not> HasSuffix ?path ''/'' \<and> has_pattern mux (?path @ ''/''))" "?path = rq_Path rq"
    by blast
  then show thesis
  proof cases
    case slash
    then show thesis using moved unfolding mux_handler_def Let_def by simp
  next
    case clean
    then show thesis using moved unfolding mux_handler_def Let_def by (simp only: if_False not_False_eq_True if_True)
  next
    case exact
    then have h: "mux_handler url mux rq = (case mux_find mux (rq_Path rq) of None \<Rightarrow> retE http_NotFound | Some (_, h) \<Rightarrow> h rq)"
      unfolding mux_handler_def Let_def by (simp only: if_False not_True_eq_False simp_thms)
    show thesis
    proof (cases "mux_find mux (rq_Path rq)")
      case None
      with h missing show thesis by simp
    next
      case (Some ph)
      obtain pat f where "ph = (pat, f)" by fastforce
      with Some h mux_find_Some [of mux "rq_Path rq" pat f] show thesis by (intro found [of pat f]) simp_all
    qed
  qed
qed

lemma mux_handler_keeps:
  assumes "preorder_rel R" "\<And>pat h. (pat, h) \<in> set mux \<Longrightarrow> keeps R (h rq)"
  shows "keeps R (mux_handler url mux rq)"
  by (rule mux_handler_cases [of mux rq url]) (auto intro: assms keeps_retE)

lemma run_mux: "snd (mux_serve E mux rq g) = snd (mux_handler (gm_url E) mux rq g)"
  by (simp add: mux_serve_def run_handler_def case_prod_beta)

text \<open>The routes of the API are those \<open>api_mount\<close> decides by.\<close>

lemma api_routes_mount: "map_option (\<lambda>(_, h). h rq) (mux_find (api_routes A) (rq_Path rq)) = api_mount A rq"
proof -
  have sfx: "\<not> HasSuffix ''/api/v1/status'' ''/''" "\<not> HasSuffix ''/api/v1/settings'' ''/''" "\<not> HasSuffix ''/api/v1/activity'' ''/''"
    "\<not> HasSuffix ''/api/v1/vcenters'' ''/''" "\<not> HasSuffix ''/api/v1/mappings'' ''/''" "HasSuffix ''/api/v1/vcenters/'' ''/''"
    "HasSuffix ''/api/v1/mappings/'' ''/''" by code_simp+
  have v: "\<not> HasPrefix ''/api/v1/status'' ''/api/v1/vcenters/''" "\<not> HasPrefix ''/api/v1/settings'' ''/api/v1/vcenters/''"
    "\<not> HasPrefix ''/api/v1/activity'' ''/api/v1/vcenters/''" "\<not> HasPrefix ''/api/v1/vcenters'' ''/api/v1/vcenters/''"
    "\<not> HasPrefix ''/api/v1/mappings'' ''/api/v1/vcenters/''" by code_simp+
  have m: "\<not> HasPrefix ''/api/v1/status'' ''/api/v1/mappings/''" "\<not> HasPrefix ''/api/v1/settings'' ''/api/v1/mappings/''"
    "\<not> HasPrefix ''/api/v1/activity'' ''/api/v1/mappings/''" "\<not> HasPrefix ''/api/v1/vcenters'' ''/api/v1/mappings/''"
    "\<not> HasPrefix ''/api/v1/mappings'' ''/api/v1/mappings/''" by code_simp+
  have vm: "\<not> HasPrefix p ''/api/v1/mappings/''" if "HasPrefix p ''/api/v1/vcenters/''" for p
    using that by (auto simp: HasPrefix_def prefix_def)
  have self: "HasPrefix ''/api/v1/vcenters/'' ''/api/v1/vcenters/''" "HasPrefix ''/api/v1/mappings/'' ''/api/v1/mappings/''" by code_simp+
  let ?p = "rq_Path rq"
  show ?thesis
  proof (cases "?p \<in> {''/api/v1/status'', ''/api/v1/settings'', ''/api/v1/activity'', ''/api/v1/vcenters'', ''/api/v1/mappings''}")
    case True
    then show ?thesis
      by (elim insertE emptyE) (simp_all add: api_routes_def api_mount_def pattern_covers_def sfx v m Let_def)
  next
    case False
    then show ?thesis using vm [of ?p] self
      by (cases "HasPrefix ?p ''/api/v1/vcenters/''"; cases "HasPrefix ?p ''/api/v1/mappings/''")
        (auto simp: api_routes_def api_mount_def pattern_covers_def sfx Let_def)
  qed
qed

lemma process_routes_set:
  assumes "mux = gt_main (process_routes E cfg A) \<or> gt_token (process_routes E cfg A) = Some mux \<or> gt_ui (process_routes E cfg A) = Some mux"
    "(pat, h) \<in> set mux"
  shows "h = healthz \<and> pat = ''/healthz'' \<or> (pat, h) \<in> set (redfish_routes (gm_gw E)) \<and> mux = gt_main (process_routes E cfg A)
    \<or> (pat, h) \<in> set (api_routes A) \<or> (\<exists>f. h = (\<lambda>rq. retE (f rq))) \<or> h = index_page E"
  using assms by (auto simp: process_routes_def mountAPI_def mountUI_def Let_def split: if_splits)

section \<open>What \<open>main\<close> sets up\<close>

lemma start_api_server: "start_api E cfg g = (Inr A, g') \<Longrightarrow> mirrored A \<and> ap_gw A = gm_gw E"
  by (auto simp: start_api_def bindE_def tryE_def retE_def failE_def mirrored_def SetSync_def api_New_def Let_def
      split: prod.splits sum.splits option.splits)

lemma gateway_main_Inr:
  assumes "gateway_main E path = Inr (cfg, A, gt, st)"
  obtains s g1 g2 where "config_Load (gm_config E) path = Inr cfg" "store_Open (gm_open E) (path_Join [cf_DataDir cfg, ''state.json''])
      (gm_file E (path_Join [cf_DataDir cfg, ''state.json''])) = Inr s"
    "g1 = snd (seed E (initial_gw E cfg s))" "start_api E cfg g1 = (Inr A, g2)" "gt = process_routes E cfg A"
    "st_gw st = snd (announce E cfg g2)" "st_creds st = start_credentials E cfg (gw_now g2)" "st_review st = None \<longleftrightarrow> cf_APIListen cfg = []"
  using assms
  by (auto simp: gateway_main_def Let_def bindE_def tryE_def failE_def start_reviewer_def split: sum.splits prod.splits if_splits)

inductive process_reach :: "process_env \<Rightarrow> process \<Rightarrow> process_state \<Rightarrow> process_state \<Rightarrow> bool"
  for E :: process_env and gt :: process and st0 :: process_state where
  start: "process_reach E gt st0 st0"
| request: "process_reach E gt st0 st \<Longrightarrow> process_serve E gt lst rq st = Some (rep, st') \<Longrightarrow> process_reach E gt st0 st'"
| time: "process_reach E gt st0 st \<Longrightarrow> w_clock (g_w (st_gw st)) \<le> t \<Longrightarrow>
    process_reach E gt st0 (st\<lparr>st_gw := (st_gw st)\<lparr>g_w := (g_w (st_gw st))\<lparr>w_clock := t\<rparr>\<rparr>\<rparr>)"

text \<open>A fact about the gateway's state that its handlers keep and the middleware cannot break.\<close>

definition through_bus :: "(gw \<Rightarrow> gw \<Rightarrow> bool) \<Rightarrow> bool" where
  "through_bus R \<longleftrightarrow> preorder_rel R \<and> (\<forall>g b. R g (gw_bus b g))"

lemma through_only_bus: "through_bus R \<Longrightarrow> only_bus g g' \<Longrightarrow> R g g'"
  by (auto simp: through_bus_def only_bus_def)

lemma through_trans: "through_bus R \<Longrightarrow> R a b \<Longrightarrow> R b c \<Longrightarrow> R a c"
  by (auto simp: through_bus_def preorder_rel_def dest: transpD)

text \<open>
  The middleware either answers itself, with only the activity log changed, or calls the handler after
  that; which callers get through is said by \<open>let_in\<close>, over the shared account and the clients in force.
\<close>

definition let_in :: "process_env \<Rightarrow> credentials \<Rightarrow> listener \<Rightarrow> request \<Rightarrow> process_state \<Rightarrow> bool" where
  "let_in E account lst rq st = (case lst of
       MainListener \<Rightarrow> (case rq_BasicAuth rq of None \<Rightarrow> False
         | Some (u, p) \<Rightarrow> accepted account (fst (clientsNow (gm_dir E) (gw_now (st_gw st)) (st_creds st))) u p (isRedfishPath (rq_Path rq)))
     | TokenListener \<Rightarrow> (case st_review st of None \<Rightarrow> False
         | Some rh \<Rightarrow> snd (bearer rq) \<and> snd (fst (Review (gm_review E) (gw_now (st_gw st)) (TrimSpace (fst (bearer rq))) rh)) = None)
     | UIListener \<Rightarrow> forwardedUser rq \<noteq> [])"

definition listener_mux :: "process \<Rightarrow> listener \<Rightarrow> mux option" where
  "listener_mux gt lst = (case lst of MainListener \<Rightarrow> Some (gt_main gt) | TokenListener \<Rightarrow> gt_token gt | UIListener \<Rightarrow> gt_ui gt)"

definition same_request :: "request \<Rightarrow> request \<Rightarrow> bool" where
  "same_request rq rq' \<longleftrightarrow> rq_Method rq' = rq_Method rq \<and> rq_Path rq' = rq_Path rq \<and> rq_Query rq' = rq_Query rq"

lemma same_request_simps [simp]: "same_request rq rq" "same_request rq (rq\<lparr>rq_Client := u\<rparr>)" "same_request rq (identified u rq)"
  by (simp_all add: same_request_def identified_def header_set_def header_del_def)

lemma serve_iff [simp]: "serve nxt rq (s, g) = (rep, s', g') \<longleftrightarrow> s' = s \<and> nxt rq g = (rep, g')"
  by (auto simp: serve_def split: prod.split)

lemma basicAuth_cases:
  assumes "basicAuth D nxt rq (c, g) = (rep, c', g')"
  shows "same_account c c' \<and> (rp_Code rep = 401 \<and> only_bus g g' \<or>
    (\<exists>rq' g1. (exempt rq \<or> (case rq_BasicAuth rq of None \<Rightarrow> False
        | Some (u, p) \<Rightarrow> accepted c (fst (clientsNow D (gw_now g) c)) u p (isRedfishPath (rq_Path rq))))
      \<and> same_request rq rq' \<and> only_bus g g1 \<and> nxt rq' g1 = (rep, g')))"
proof (cases "exempt rq")
  case True
  with assms show ?thesis by (auto simp: basicAuth_exempt same_account_def intro!: exI [of _ rq] exI [of _ g])
next
  case False
  show ?thesis
  proof (cases "rq_BasicAuth rq")
    case None
    with assms False have d: "basic_deny rq ''missing'' [] (c, g) = (rep, c', g')" by (simp add: basicAuth_missing)
    then have "c' = c" by (simp add: basic_deny_def)
    with basic_deny_denies [OF d] show ?thesis by (auto simp: only_bus_def same_account_def)
  next
    case (Some up)
    obtain u p where up: "up = (u, p)" by fastforce
    obtain ok reason c1 b1 where v: "creds_check D (gw_now g) u p (isRedfishPath (rq_Path rq)) (c, w_bus (g_w g)) = ((ok, reason), c1, b1)"
      by (metis prod.exhaust)
    from creds_check_state [OF v] have acc: "same_account c c1" by blast
    note b = basicAuth_checked [OF False Some [unfolded up] v, of nxt]
    show ?thesis
    proof (cases ok)
      case True
      with b assms have "serve nxt (rq\<lparr>rq_Client := u\<rparr>) (c1, gw_bus b1 g) = (rep, c', g')" by simp
      then have "c' = c1" "nxt (rq\<lparr>rq_Client := u\<rparr>) (gw_bus b1 g) = (rep, g')" by simp_all
      with creds_check_accepts [OF v] True Some up acc show ?thesis
        by (auto intro!: exI [of _ "rq\<lparr>rq_Client := u\<rparr>"] exI [of _ "gw_bus b1 g"])
    next
      case False
      with b assms have d: "basic_deny rq reason u (c1, gw_bus b1 g) = (rep, c', g')" by simp
      then have "c' = c1" by (simp add: basic_deny_def)
      with basic_deny_denies [OF d] acc show ?thesis by (auto simp: only_bus_def)
    qed
  qed
qed

lemma tokenAuth_cases:
  assumes "tokenAuth review nxt rq (s, g) = (rep, s', g')"
  shows "rp_Code rep \<in> {401, 403, 503} \<and> only_bus g g' \<or>
    (\<exists>rq' g1. (exempt rq \<or> snd (bearer rq) \<and> snd (fst (review (gw_now g) (TrimSpace (fst (bearer rq))) s)) = None)
      \<and> same_request rq rq' \<and> only_bus g g1 \<and> nxt rq' g1 = (rep, g'))"
proof -
  obtain token b where tb: "bearer rq = (token, b)" by fastforce
  obtain user e s1 where r: "review (gw_now g) (TrimSpace token) s = ((user, e), s1)" by (metis prod.exhaust)
  consider "isHealthz (rq_Path rq)" | "\<not> isHealthz (rq_Path rq)" "\<not> b \<or> TrimSpace token = []"
    | "\<not> isHealthz (rq_Path rq)" "b" "TrimSpace token \<noteq> []" by blast
  then show ?thesis
  proof cases
    case 1
    with assms show ?thesis by (auto simp: tokenAuth_def exempt_def intro!: exI [of _ rq] exI [of _ g])
  next
    case 2
    with assms tb show ?thesis by (auto simp: tokenAuth_def token_fail_def authenticate_def)
  next
    case 3
    show ?thesis
    proof (cases e)
      case None
      with 3 assms tb r show ?thesis
        by (auto simp: tokenAuth_def intro!: exI [of _ "identified user rq"] exI [of _ "unless_reading ''api'' user (identified user rq) g"])
    next
      case (Some err)
      with 3 assms tb r show ?thesis by (cases err) (auto simp: tokenAuth_def token_fail_def authenticate_def)
    qed
  qed
qed

lemma process_serve_cases:
  assumes "process_serve E gt lst rq st = Some (rep, st')"
  shows "same_account (st_creds st) (st_creds st')" "st_review st' = None \<longleftrightarrow> st_review st = None"
    "only_bus (st_gw st) (st_gw st') \<and> rp_Code rep \<in> {401, 403, 503} \<or>
     (\<exists>mux rq' g1. listener_mux gt lst = Some mux \<and> (exempt rq \<or> let_in E (st_creds st) lst rq st) \<and> same_request rq rq'
       \<and> only_bus (st_gw st) g1 \<and> mux_serve E mux rq' g1 = (rep, st_gw st'))"
proof -
  have "same_account (st_creds st) (st_creds st') \<and> (st_review st' = None \<longleftrightarrow> st_review st = None) \<and>
    (only_bus (st_gw st) (st_gw st') \<and> rp_Code rep \<in> {401, 403, 503} \<or>
     (\<exists>mux rq' g1. listener_mux gt lst = Some mux \<and> (exempt rq \<or> let_in E (st_creds st) lst rq st) \<and> same_request rq rq'
       \<and> only_bus (st_gw st) g1 \<and> mux_serve E mux rq' g1 = (rep, st_gw st')))"
  proof (cases lst)
    case MainListener
    obtain c g where b: "basicAuth (gm_dir E) (mux_serve E (gt_main gt)) rq (st_creds st, st_gw st) = (rep, c, g)"
      and st': "st' = st\<lparr>st_gw := g, st_creds := c\<rparr>"
      using assms MainListener by (auto simp: process_serve_def split: prod.splits)
    from basicAuth_cases [OF b] MainListener st' show ?thesis
      by (auto simp: listener_mux_def let_in_def split: option.splits)
  next
    case TokenListener
    obtain mux rh rh' g where m: "gt_token gt = Some mux" "st_review st = Some rh"
      and t: "tokenAuth (Review (gm_review E)) (mux_serve E mux) rq (rh, st_gw st) = (rep, rh', g)"
      and st': "st' = st\<lparr>st_gw := g, st_review := Some rh'\<rparr>"
      using assms TokenListener by (auto simp: process_serve_def split: prod.splits option.splits)
    from tokenAuth_cases [OF t] m TokenListener st' show ?thesis
      by (auto simp: listener_mux_def let_in_def same_account_def)
  next
    case UIListener
    obtain mux g where m: "gt_ui gt = Some mux" and p: "proxyAuth (mux_serve E mux) rq (st_gw st) = (rep, g)"
      and st': "st' = st\<lparr>st_gw := g\<rparr>"
      using assms UIListener by (auto simp: process_serve_def split: prod.splits option.splits)
    from p have "rp_Code rep = 401 \<and> g = st_gw st \<or>
      (\<exists>g1. (exempt rq \<or> forwardedUser rq \<noteq> []) \<and> only_bus (st_gw st) g1 \<and> mux_serve E mux rq g1 = (rep, g))"
      by (auto simp: proxyAuth_def exempt_def Let_def split: if_splits)
    with m UIListener st' show ?thesis
      by (auto simp: listener_mux_def let_in_def same_account_def)
  qed
  then show "same_account (st_creds st) (st_creds st')" "st_review st' = None \<longleftrightarrow> st_review st = None"
    "only_bus (st_gw st) (st_gw st') \<and> rp_Code rep \<in> {401, 403, 503} \<or>
     (\<exists>mux rq' g1. listener_mux gt lst = Some mux \<and> (exempt rq \<or> let_in E (st_creds st) lst rq st) \<and> same_request rq rq'
       \<and> only_bus (st_gw st) g1 \<and> mux_serve E mux rq' g1 = (rep, st_gw st'))" by blast+
qed

section \<open>The store stays well formed\<close>

definition stays_ok :: "gw \<Rightarrow> gw \<Rightarrow> bool" where
  "stays_ok g g' \<longleftrightarrow> (store_ok (g_store g) \<longrightarrow> store_ok (g_store g'))"

definition ids_random :: "gw_env \<Rightarrow> bool" where
  "ids_random G \<longleftrightarrow> (\<forall>n st. length (se_rand (ge_store G n st)) = 8)"

lemma stays_ok_preorder [simp, keeps_intro]: "preorder_rel stays_ok"
  by (auto simp: preorder_rel_def reflp_def transp_def stays_ok_def)

lemma stays_ok_through: "through_bus stays_ok"
  by (simp add: through_bus_def) (simp add: stays_ok_def gw_bus_def)

named_theorems ok_intro \<open>handlers that keep the store well formed\<close>

lemma stays_ok_same: "(\<And>g. g_store (snd (m g)) = g_store g) \<Longrightarrow> keeps stays_ok m"
  by (simp add: keeps_def stays_ok_def)

lemma stays_ok_frame: "keeps sync_frame m \<Longrightarrow> keeps stays_ok m"
proof -
  have "stays_ok g g'" if f: "sync_frame g g'" for g g'
    unfolding stays_ok_def store_ok_def
  proof (intro impI conjI allI)
    assume ok: "(\<forall>k vc. fmlookup (s_vcenters (g_store g)) k = Some vc \<longrightarrow> vcenter_ok k vc) \<and>
      (\<forall>u m. fmlookup (s_byUUID (g_store g)) u = Some m \<longrightarrow> mapping_ok u m)"
    show "vcenter_ok k vc" if v: "fmlookup (s_vcenters (g_store g')) k = Some vc" for k vc
    proof -
      have "rel_option same_definition (fmlookup (s_vcenters (g_store g)) k) (fmlookup (s_vcenters (g_store g')) k)"
        using f by (simp add: sync_frame_def)
      with v obtain vc' where "fmlookup (s_vcenters (g_store g)) k = Some vc'" "same_definition vc' vc"
        by (cases "fmlookup (s_vcenters (g_store g)) k") auto
      with ok show ?thesis by (fastforce simp: same_definition_def vcenter_ok_def)
    qed
    show "mapping_ok u m" if "fmlookup (s_byUUID (g_store g')) u = Some m" for u m
      using ok f that by (simp add: sync_frame_def)
  qed
  then show "keeps sync_frame m \<Longrightarrow> keeps stays_ok m" by (auto simp: keeps_def)
qed

lemma stays_ok_primitives [ok_intro]:
  "keeps stays_ok (gact h op m d)" "keeps stays_ok (store_read f)" "keeps stays_ok (store_list G f')"
  "keeps stays_ok (pooled G vc)" "keeps stays_ok (pooled_for_uuid G u)" "keeps stays_ok (on_client kc c)"
  "keeps stays_ok (on_world w)" "keeps stays_ok (invalidate G vid)" "keeps stays_ok (getE e)" "keeps stays_ok api_now"
  by (rule stays_ok_same, rule same_store_primitives)+

lemma stays_ok_on_kube [ok_intro]: "keeps stays_ok (on_kube k)"
  by (rule stays_ok_same) (simp add: on_kube_def split: prod.split)

lemma stays_ok_write: "(\<And>n st. store_ok st \<Longrightarrow> store_ok (snd (f (ge_store G n st) st))) \<Longrightarrow> keeps stays_ok (store_write G f)"
  by (auto simp: keeps_def stays_ok_def store_write_def split: prod.splits) (metis snd_conv)

lemma stays_ok_writes [ok_intro]:
  "keeps stays_ok (store_write G (\<lambda>se. SetVCenterDryRun se vid on))" "keeps stays_ok (store_write G (\<lambda>se. SetGlobalDryRun se on))"
  "keeps stays_ok (store_write G (\<lambda>se. UpsertMapping se m))" "keeps stays_ok (store_write G (\<lambda>se. DeleteMapping se u))"
  "keeps stays_ok (store_write G (\<lambda>se. DeleteVCenter se vid))"
  by (rule stays_ok_write, rule SetVCenterDryRun_ok SetGlobalDryRun_ok UpsertMapping_ok DeleteMapping_ok DeleteVCenter_ok, assumption)+

lemma stays_ok_new_ids [ok_intro]:
  assumes "ids_random G"
  shows "keeps stays_ok (store_write G (\<lambda>se. UpsertVCenter se vc))" "keeps stays_ok (store_write G (\<lambda>se. SeedFromGOVC se getenv))"
    "keeps stays_ok (store_write G (\<lambda>se. ApplyConfigVCenter se inp d pw))"
  by (rule stays_ok_write, rule UpsertVCenter_ok SeedFromGOVC_ok ApplyConfigVCenter_ok, assumption, simp add: assms [unfolded ids_random_def])+

lemma stays_ok_mirror [ok_intro]:
  assumes "mirrored A"
  shows "keeps stays_ok (synced A vid out)" "keeps stays_ok (mirror_delete A vid vc)" "keeps stays_ok (check_delete_call A vid)"
  using mirror_frames [OF assms] by (auto intro: stays_ok_frame) (simp add: keeps_def stays_ok_def)

lemma tests_stay_ok [ok_intro]:
  "keeps stays_ok (run_test A vc)" "keeps stays_ok (testVCenterBody A rq vc)" "keeps stays_ok (testVCenter A rq vid)"
proof -
  show r: "keeps stays_ok (run_test A vc)" for vc
    unfolding run_test_def Let_def by (intro keeps_intro ok_intro stays_ok_preorder)
  show b: "keeps stays_ok (testVCenterBody A rq vc)" for rq vc
    unfolding testVCenterBody_def by (auto split: prod.split option.split intro: r keeps_retE)
  show "keeps stays_ok (testVCenter A rq vid)"
    unfolding testVCenter_def by (intro keeps_intro ok_intro b stays_ok_preorder)
qed

lemma api_stays_ok:
  assumes "mirrored A" "ids_random (ap_gw A)" "(pat, h) \<in> set (api_routes A)"
  shows "keeps stays_ok (h rq)"
proof -
  have "keeps stays_ok (api_status A rq)" "keeps stays_ok (api_settings A rq)" "keeps stays_ok (api_activity A rq)"
    "keeps stays_ok (api_vcenters A rq)" "keeps stays_ok (api_vcenterItem A rq)" "keeps stays_ok (api_mappings A rq)"
    "keeps stays_ok (api_mappingItem A rq)"
    unfolding api_status_def api_settings_def api_activity_def api_vcenters_def api_vcenterItem_def isoStatus_def vcHealth_def
      vcFolderVMs_def vcDryRun_def vcenter_root_def putVCenter_def deleteVCenter_def synced_reply_def not_allowed_def
      api_mappings_def api_mappingItem_def api_mappingStatus_def api_mappingPower_def mapping_root_def client_now_def Let_def
    by (intro keeps_intro ok_intro stays_ok_preorder assms)+
  with assms(3) show ?thesis by (auto simp: api_routes_def)
qed

lemma redfish_stays_ok: "(pat, h) \<in> set (redfish_routes G) \<Longrightarrow> keeps stays_ok (h rq)"
proof -
  have "g_store (snd (rf_route G rq g)) = g_store g" for g
    using rf_route_guarded [of rq G] by (auto simp: keeps_def guarded_def gw_calls_def)
  then have "keeps stays_ok (rf_route G rq)" by (rule stays_ok_same)
  moreover have "keeps stays_ok (rf_redirect rq)" unfolding rf_redirect_def by (rule keeps_retE) simp
  ultimately show "(pat, h) \<in> set (redfish_routes G) \<Longrightarrow> keeps stays_ok (h rq)" by (auto simp: redfish_routes_def)
qed

lemma stays_ok_ret: "keeps stays_ok (retE x)"
  by (rule keeps_retE) simp

lemma process_stays_ok:
  assumes "mirrored A" "ids_random (ap_gw A)" "listener_mux (process_routes E cfg A) lst = Some mux"
  shows "stays_ok g (snd (mux_serve E mux rq g))"
proof -
  have m: "mux = gt_main (process_routes E cfg A) \<or> gt_token (process_routes E cfg A) = Some mux \<or> gt_ui (process_routes E cfg A) = Some mux"
    using assms(3) by (auto simp: listener_mux_def split: listener.splits)
  have "keeps stays_ok (h rq)" if "(pat, h) \<in> set mux" for pat h
    using process_routes_set [OF m that] api_stays_ok [OF assms(1,2)] redfish_stays_ok
    by (auto simp: healthz_def index_page_def split: sum.split intro: stays_ok_ret)
  then have "keeps stays_ok (mux_handler (gm_url E) mux rq)" by (intro mux_handler_keeps stays_ok_preorder)
  then show ?thesis by (simp add: run_mux keeps_def)
qed

lemma map_errE_keeps: "preorder_rel R \<Longrightarrow> keeps R m \<Longrightarrow> keeps R (map_errE f m)"
  unfolding map_errE_def by (intro keeps_intro)

lemma Startup_stays_ok: "ids_random (sy_gw S) \<Longrightarrow> keeps stays_ok (Startup S)"
proof -
  assume r: "ids_random (sy_gw S)"
  have applied1: "keeps stays_ok (apply_cm S cm)" for cm
    unfolding apply_cm_def sync_credentials_def sync_write_def Let_def
    by (intro keeps_intro ok_intro map_errE_keeps r stays_ok_preorder)
  have applied: "keeps stays_ok (apply_all S cms)" for cms
    by (induction cms) (simp_all, (intro keeps_intro ok_intro applied1 stays_ok_preorder; assumption)+)
  have exp1: "keeps stays_ok (export_one S vc)" for vc
    unfolding export_one_def by (intro keeps_intro ok_intro stays_ok_frame [OF export_frame] stays_ok_preorder)
  have exp: "keeps stays_ok (export_all S ids vcs)" for ids vcs
    by (induction vcs) (auto intro!: keeps_intro exp1 stays_ok_preorder)
  show "keeps stays_ok (Startup S)"
    unfolding Startup_def by (intro keeps_intro ok_intro map_errE_keeps applied exp stays_ok_preorder)
qed

lemma start_stays_ok:
  assumes "ids_random (gm_gw E)"
  shows "keeps stays_ok (seed E)" "keeps stays_ok (start_api E cfg)" "keeps stays_ok (announce E cfg)"
proof -
  have "keeps stays_ok (startVCenterSync E mode)" for mode
    unfolding startVCenterSync_def Let_def
    by (intro keeps_intro ok_intro Startup_stays_ok stays_ok_preorder) (simp add: assms)
  then show "keeps stays_ok (start_api E cfg)" unfolding start_api_def Let_def by (intro keeps_intro stays_ok_preorder)
  show "keeps stays_ok (seed E)" "keeps stays_ok (announce E cfg)"
    unfolding seed_def announce_def by (intro keeps_intro ok_intro assms stays_ok_preorder)+
qed

lemma gateway_main_ok:
  assumes "gateway_main E path = Inr (cfg, A, gt, st)" "ids_random (gm_gw E)"
  shows "store_ok (g_store (st_gw st)) \<and> same_account (gateway_credentials cfg) (st_creds st)
    \<and> (st_review st = None \<longleftrightarrow> gt_token gt = None) \<and> mirrored A \<and> ap_gw A = gm_gw E \<and> gt = process_routes E cfg A"
proof -
  obtain s g1 g2 where m: "store_Open (gm_open E) (path_Join [cf_DataDir cfg, ''state.json'']) (gm_file E (path_Join [cf_DataDir cfg, ''state.json''])) = Inr s"
    "g1 = snd (seed E (initial_gw E cfg s))" "start_api E cfg g1 = (Inr A, g2)" "gt = process_routes E cfg A"
    "st_gw st = snd (announce E cfg g2)" "st_creds st = start_credentials E cfg (gw_now g2)" "st_review st = None \<longleftrightarrow> cf_APIListen cfg = []"
    using assms(1) by (rule gateway_main_Inr)
  have "store_ok (g_store (initial_gw E cfg s))" using store_ok_Open [OF m(1)] by (simp add: initial_gw_def)
  with start_stays_ok [OF assms(2)] have "store_ok (g_store g1)" by (simp add: m(2) keeps_def stays_ok_def)
  with keepsD [OF start_stays_ok(2) [OF assms(2)] m(3)] have "store_ok (g_store g2)" by (simp add: stays_ok_def)
  with start_stays_ok(3) [OF assms(2)] have "store_ok (g_store (st_gw st))" by (simp add: m(5) keeps_def stays_ok_def)
  moreover have "same_account (gateway_credentials cfg) (st_creds st)"
    using clientsNow_same [of "gm_dir E" "gw_now g2" "gateway_credentials cfg"]
    by (cases "clientsNow (gm_dir E) (gw_now g2) (gateway_credentials cfg)")
      (auto simp: m(6) start_credentials_def same_account_def Let_def)
  ultimately show ?thesis
    using m(4,7) start_api_server [OF m(3)] by (simp add: process_routes_def Let_def)
qed

lemma process_reach_ok:
  assumes "process_reach E gt st0 st" "gateway_main E path = Inr (cfg, A, gt, st0)" "ids_random (gm_gw E)"
  shows "store_ok (g_store (st_gw st)) \<and> same_account (gateway_credentials cfg) (st_creds st) \<and> (st_review st = None \<longleftrightarrow> gt_token gt = None)"
  using assms
proof induction
  case start
  then show ?case using gateway_main_ok by blast
next
  case (request st lst rq rep st')
  from gateway_main_ok [OF request.prems] have A: "mirrored A" "ap_gw A = gm_gw E" "gt = process_routes E cfg A" by auto
  have "stays_ok (st_gw st) (st_gw st')"
    using process_serve_cases(3) [OF request.hyps(2)]
  proof (elim disjE exE)
    assume "only_bus (st_gw st) (st_gw st') \<and> rp_Code rep \<in> {401, 403, 503}"
    then show ?thesis by (simp add: through_only_bus [OF stays_ok_through])
  next
    fix mux rq' g1
    assume "listener_mux gt lst = Some mux \<and> (exempt rq \<or> let_in E (st_creds st) lst rq st) \<and> same_request rq rq'
       \<and> only_bus (st_gw st) g1 \<and> mux_serve E mux rq' g1 = (rep, st_gw st')"
    then have m: "listener_mux gt lst = Some mux" "only_bus (st_gw st) g1" "mux_serve E mux rq' g1 = (rep, st_gw st')" by simp_all
    from process_stays_ok [OF A(1) _ m(1) [unfolded A(3)], of g1 rq'] A(2) request.prems(2) m(3)
    have "stays_ok g1 (st_gw st')" by simp
    with through_only_bus [OF stays_ok_through m(2)] show ?thesis by (rule through_trans [OF stays_ok_through])
  qed
  with request.IH [OF request.prems] process_serve_cases(1,2) [OF request.hyps(2)] show ?case
    by (simp add: stays_ok_def same_account_def)
next
  case (time st t)
  from time.IH [OF time.prems] show ?case by simp
qed

section \<open>Who changes vSphere\<close>

definition names_system :: "request \<Rightarrow> string \<Rightarrow> bool" where
  "names_system rq uuid \<longleftrightarrow>
     HasPrefix (rq_Path rq) ''/redfish/v1/'' \<and> op_changes (rf_resolve (rq_Method rq) (rq_Path rq) (query_get rq ''system'')) = Some uuid
   \<or> HasPrefix (rq_Path rq) ''/api/v1/mappings/'' \<and> power_request rq uuid"

lemma names_system_same: "same_request rq rq' \<Longrightarrow> names_system rq' uuid = names_system rq uuid"
  by (simp add: names_system_def same_request_def power_request_def item_parts_def query_get_def)

lemma names_not_healthz: "names_system rq uuid \<Longrightarrow> \<not> isHealthz (rq_Path rq)"
proof
  assume n: "names_system rq uuid" and h: "isHealthz (rq_Path rq)"
  have "\<not> HasPrefix ''/healthz'' ''/redfish/v1/''" "\<not> HasPrefix ''/healthz'' ''/api/v1/mappings/''" by code_simp+
  with n h show False by (auto simp: isHealthz_def names_system_def)
qed

lemma exempt_names_nothing: "exempt rq \<Longrightarrow> \<not> names_system rq uuid"
proof
  assume e: "exempt rq" and n: "names_system rq uuid"
  have "\<not> HasPrefix ''/healthz'' ''/redfish/v1/''" "\<not> HasPrefix ''/healthz'' ''/api/v1/mappings/''" by code_simp+
  with e n have "rq_Method rq = ''GET''" by (auto simp: exempt_def isHealthz_def names_system_def)
  with n changes_by_method [of "''GET''" "rq_Path rq" "query_get rq ''system''"] show False
    by (auto simp: names_system_def power_request_def)
qed

lemma reads_nothing: "gw_grows P g (snd (retE x g))"
  by (simp add: retE_def gw_grows_def)

lemma route_guarded:
  assumes "mirrored A" "listener_mux (process_routes E cfg A) lst = Some mux" "(pat, h) \<in> set mux" "pattern_covers pat (rq_Path rq)"
  shows "(\<exists>uuid. names_system rq uuid \<and> gw_grows (\<lambda>c. mutating c \<longrightarrow> may_change uuid (g_store g)) g (snd (h rq g)))
    \<or> gw_grows (\<lambda>c. \<not> mutating c) g (snd (h rq g))"
proof -
  have m: "mux = gt_main (process_routes E cfg A) \<or> gt_token (process_routes E cfg A) = Some mux \<or> gt_ui (process_routes E cfg A) = Some mux"
    using assms(2) by (auto simp: listener_mux_def split: listener.splits)
  from process_routes_set [OF m assms(3)] consider "h = healthz" | "pat = ''/redfish/v1/''" "h = rf_route (gm_gw E)" | "h = rf_redirect"
    | "pat = ''/api/v1/mappings/''" "h = api_mappingItem A" | "api_reads (h rq)" | f where "h = (\<lambda>rq. retE (f rq))" | "h = index_page E"
    using api_other_handlers_read api_vcenter_handlers_read [OF assms(1)]
    by (auto simp: redfish_routes_def api_routes_def)
  then show ?thesis
  proof cases
    case 2
    then have pre: "HasPrefix (rq_Path rq) ''/redfish/v1/''" using assms(4) by (auto simp: pattern_covers_def HasPrefix_def)
    from rf_route_guarded [of rq "gm_gw E"] show ?thesis
    proof (elim disjE exE conjE)
      fix sid
      assume "op_changes (rf_resolve (rq_Method rq) (rq_Path rq) (query_get rq ''system'')) = Some sid" "keeps (guarded sid) (rf_route (gm_gw E) rq)"
      with pre 2 show ?thesis by (auto simp: names_system_def keeps_def guarded_def gw_calls_def)
    qed (use 2 in \<open>simp add: keeps_def gw_calls_def\<close>)
  next
    case 4
    then have pre: "HasPrefix (rq_Path rq) ''/api/v1/mappings/''" using assms(4) by (auto simp: pattern_covers_def HasPrefix_def)
    from mappingItem_guarded [of rq g A] pre 4 show ?thesis by (auto simp: names_system_def power_guarded_def)
  qed (simp_all add: reads_nothing healthz_def rf_redirect_def index_page_def keeps_def split: sum.split)
qed

lemma mux_guarded:
  assumes "mirrored A" "listener_mux (process_routes E cfg A) lst = Some mux" "mux_serve E mux rq g = (rep, g')"
  shows "(\<exists>uuid. names_system rq uuid \<and> gw_grows (\<lambda>c. mutating c \<longrightarrow> may_change uuid (g_store g)) g g')
    \<or> gw_grows (\<lambda>c. \<not> mutating c) g g'"
proof -
  have g': "g' = snd (mux_handler (gm_url E) mux rq g)" using run_mux [of E mux rq g] assms(3) by simp
  show ?thesis
  proof (rule mux_handler_cases [of mux rq "gm_url E"])
    fix pat h
    assume "(pat, h) \<in> set mux" "pattern_covers pat (rq_Path rq)" "mux_handler (gm_url E) mux rq = h rq"
    with route_guarded [OF assms(1,2), of pat h rq g] g' show ?thesis by simp
  qed (simp_all add: g' reads_nothing)
qed

lemma only_bus_calls: "only_bus g g1 \<Longrightarrow> g_store g1 = g_store g \<and> w_calls (g_w g1) = w_calls (g_w g)"
  by (auto simp: only_bus_def gw_bus_def)

text \<open>The reviewer of the process has only reviewed, at times up to now.\<close>

lemma gateway_main_reviewer:
  assumes "gateway_main E path = Inr (cfg, A, gt, st)" "st_review st = Some rh"
  obtains base attrs where "start_reviewer E cfg = Inr (Some (review_New base attrs))" "rh = (review_New base attrs, [])"
  using assms
  by (auto simp: gateway_main_def Let_def bindE_def tryE_def failE_def start_reviewer_def review_InCluster_def
      split: sum.splits prod.splits if_splits)

definition reviewer_ok :: "process_env \<Rightarrow> config \<Rightarrow> process_state \<Rightarrow> bool" where
  "reviewer_ok E cfg st \<longleftrightarrow> (\<forall>rh. st_review st = Some rh \<longrightarrow>
     (\<exists>base attrs t. start_reviewer E cfg = Inr (Some (review_New base attrs)) \<and> t \<le> gw_now (st_gw st)
        \<and> review_reach (gm_review E) (review_New base attrs) t rh))"

lemma reviewer_ok_later:
  assumes "reviewer_ok E cfg st" "st_review st' = st_review st" "gw_now (st_gw st) \<le> gw_now (st_gw st')"
  shows "reviewer_ok E cfg st'"
  unfolding reviewer_ok_def
proof (intro allI impI)
  fix rh
  assume "st_review st' = Some rh"
  then have "st_review st = Some rh" using assms(2) by simp
  with assms(1) obtain base attrs t where "start_reviewer E cfg = Inr (Some (review_New base attrs))" "t \<le> gw_now (st_gw st)"
    "review_reach (gm_review E) (review_New base attrs) t rh" unfolding reviewer_ok_def by blast
  then show "\<exists>base attrs t. start_reviewer E cfg = Inr (Some (review_New base attrs)) \<and> t \<le> gw_now (st_gw st')
      \<and> review_reach (gm_review E) (review_New base attrs) t rh" using order_trans [OF _ assms(3)] by blast
qed

lemma serve_time:
  assumes "mirrored A" "process_serve E (process_routes E cfg A) lst rq st = Some (rep, st')"
  shows "gw_now (st_gw st) \<le> gw_now (st_gw st')"
proof -
  from process_serve_cases(3) [OF assms(2)] consider (bus) "only_bus (st_gw st) (st_gw st')"
    | (served) mux rq' g1 where "listener_mux (process_routes E cfg A) lst = Some mux" "only_bus (st_gw st) g1"
        "mux_serve E mux rq' g1 = (rep, st_gw st')" by blast
  then show ?thesis
  proof cases
    case bus
    then show ?thesis by (auto simp: only_bus_def gw_bus_def gw_now_def)
  next
    case served
    from mux_guarded [OF assms(1) served(1,3)] served(2) show ?thesis
      by (auto simp: gw_grows_def only_bus_def gw_bus_def gw_now_def)
  qed
qed

lemma serve_reviewer_ok:
  assumes "mirrored A" "process_serve E (process_routes E cfg A) lst rq st = Some (rep, st')" "reviewer_ok E cfg st"
  shows "reviewer_ok E cfg st'"
proof -
  note time = serve_time [OF assms(1,2)]
  show ?thesis
  proof (cases "lst = TokenListener")
    case True
    obtain mux r0 r0' g where m: "st_review st = Some r0"
      and t: "tokenAuth (Review (gm_review E)) (mux_serve E mux) rq (r0, st_gw st) = (rep, r0', g)"
      and st': "st' = st\<lparr>st_gw := g, st_review := Some r0'\<rparr>"
      using assms(2) True by (auto simp: process_serve_def split: prod.splits option.splits)
    obtain base attrs u where r: "start_reviewer E cfg = Inr (Some (review_New base attrs))" "u \<le> gw_now (st_gw st)"
      "review_reach (gm_review E) (review_New base attrs) u r0" using assms(3) m unfolding reviewer_ok_def by blast
    from kube_tokens.tokenAuth_keeps_ok [OF r(3,2) t] r(2,3)
    have "\<exists>u \<le> gw_now (st_gw st). review_reach (gm_review E) (review_New base attrs) u r0'" by auto
    with r(1) m have "reviewer_ok E cfg (st\<lparr>st_review := Some r0'\<rparr>)" unfolding reviewer_ok_def by auto
    then show ?thesis by (rule reviewer_ok_later) (use st' time in simp_all)
  next
    case False
    then have "st_review st' = st_review st"
      using assms(2) by (auto simp: process_serve_def split: listener.splits prod.splits option.splits)
    with assms(3) time show ?thesis by (intro reviewer_ok_later [of E cfg st st'])
  qed
qed

lemma process_reach_reviewer:
  assumes "process_reach E gt st0 st" "gateway_main E path = Inr (cfg, A, gt, st0)" "ids_random (gm_gw E)"
  shows "reviewer_ok E cfg st"
  using assms
proof induction
  case start
  have "reviewer_ok E cfg st0"
    unfolding reviewer_ok_def by (metis gateway_main_reviewer [OF start(1)] order_refl review_reach.start)
  then show ?case .
next
  case (request st lst rq rep st')
  from gateway_main_ok [OF request.prems] have A: "mirrored A" "gt = process_routes E cfg A" by auto
  from serve_reviewer_ok [OF A(1) request.hyps(2) [unfolded A(2)] request.IH [OF request.prems]] show ?case .
next
  case (time st t)
  show ?case by (rule reviewer_ok_later [OF time.IH [OF time.prems]]) (use time.hyps(2) in \<open>simp_all add: gw_now_def\<close>)
qed

text \<open>
  Who a listener admits, apart from the code: on the main listener, the configured account or a client in
  force; on the API listener, the bearer of a token for which the API server itself, within the last 30
  seconds, named a user and allowed the configured access, in exchanges on the reviewer's record; on the
  dashboard's, whoever the proxy names.
\<close>

definition recently_granted :: "process_env \<Rightarrow> config \<Rightarrow> string \<Rightarrow> int \<Rightarrow> rhist \<Rightarrow> bool" where
  "recently_granted E cfg token now h \<longleftrightarrow> (\<exists>r t token' user. start_reviewer E cfg = Inr (Some r)
     \<and> grant (gm_review E) r t token' user h \<and> re_sha256 (gm_review E) token' = re_sha256 (gm_review E) token
     \<and> t \<le> now \<and> now < t + 30 * second)"

definition admitted :: "process_env \<Rightarrow> config \<Rightarrow> listener \<Rightarrow> request \<Rightarrow> process_state \<Rightarrow> process_state \<Rightarrow> bool" where
  "admitted E cfg lst rq st st' = (case lst of
       MainListener \<Rightarrow> (\<exists>u p. rq_BasicAuth rq = Some (u, p)
         \<and> accepted (gateway_credentials cfg) (fst (clientsNow (gm_dir E) (gw_now (st_gw st)) (st_creds st))) u p (isRedfishPath (rq_Path rq)))
     | TokenListener \<Rightarrow> (\<exists>token rh. bearer rq = (token, True) \<and> st_review st' = Some rh
         \<and> recently_granted E cfg (TrimSpace token) (gw_now (st_gw st)) (snd rh))
     | UIListener \<Rightarrow> forwardedUser rq \<noteq> [])"

lemma token_listener_admits:
  assumes "reviewer_ok E cfg st" "process_serve E gt TokenListener rq st = Some (rep, st')"
    "\<not> isHealthz (rq_Path rq)" "\<not> only_bus (st_gw st) (st_gw st')"
  shows "admitted E cfg TokenListener rq st st'"
proof -
  obtain mux r0 r0' g where m: "st_review st = Some r0"
    and t: "tokenAuth (Review (gm_review E)) (mux_serve E mux) rq (r0, st_gw st) = (rep, r0', g)"
    and st': "st' = st\<lparr>st_gw := g, st_review := Some r0'\<rparr>"
    using assms(2) by (auto simp: process_serve_def split: prod.splits option.splits)
  obtain base attrs u where r: "start_reviewer E cfg = Inr (Some (review_New base attrs))" "u \<le> gw_now (st_gw st)"
    "review_reach (gm_review E) (review_New base attrs) u r0" using assms(1) m unfolding reviewer_ok_def by blast
  from kube_tokens.tokenAuth_lets_through [OF r(3,2) assms(3) t] assms(4) st' obtain token user where
    b: "bearer rq = (token, True)" "vouched (gm_review E) (review_New base attrs) (gw_now (st_gw st)) (TrimSpace token) user (snd r0')"
    by auto
  then have "recently_granted E cfg (TrimSpace token) (gw_now (st_gw st)) (snd r0')"
    using r(1) unfolding recently_granted_def vouched_def by (force simp: review_New_def second_def)
  with b(1) st' show ?thesis by (simp add: admitted_def)
qed

text \<open>
  C1: Whoever changes vSphere was let in and has authority. In every state the process can reach, on every
  listener and for every request: if serving it makes a call that would change vSphere, the caller was
  admitted by that listener (the configured account or the password of a client in force; a bearer token
  whose user the API server named and allowed less than 30 seconds before, in exchanges on record, so that
  a token revoked since then can still pass for that long; an identity from the proxy), the request is a
  changing Redfish operation or an API power request for a system, and that system is mapped and under no
  dry run.
\<close>

theorem vsphere_changes_are_authorised:
  assumes "gateway_main E path = Inr (cfg, A, gt, st0)" "ids_random (gm_gw E)" "process_reach E gt st0 st"
    "process_serve E gt lst rq st = Some (rep, st')" "(c, e) \<in> set (gw_new (st_gw st) (st_gw st'))" "mutating c"
  shows "admitted E cfg lst rq st st'
    \<and> (\<exists>uuid. names_system rq uuid \<and> may_change uuid (g_store (st_gw st)))"
proof -
  from gateway_main_ok [OF assms(1,2)] have A: "mirrored A" "gt = process_routes E cfg A" by auto
  have changed: "\<not> only_bus (st_gw st) (st_gw st')" using assms(5) by (auto dest: only_bus_calls simp: gw_new_def)
  with process_serve_cases(3) [OF assms(4)] obtain mux rq' g1 where m: "listener_mux gt lst = Some mux"
      "exempt rq \<or> let_in E (st_creds st) lst rq st" "same_request rq rq'" "only_bus (st_gw st) g1" "mux_serve E mux rq' g1 = (rep, st_gw st')"
    by blast
  note g1 = only_bus_calls [OF m(4)]
  have new: "(c, e) \<in> set (gw_new g1 (st_gw st'))" using assms(5) g1 by (simp add: gw_new_def)
  from mux_guarded [OF A(1) m(1) [unfolded A(2)] m(5)] obtain uuid where u: "names_system rq' uuid" "may_change uuid (g_store g1)"
    using gw_grows_new [OF _ new] assms(6) by blast
  then have n: "names_system rq uuid" using names_system_same [OF m(3)] by simp
  with m(2) exempt_names_nothing have l: "let_in E (st_creds st) lst rq st" by blast
  have "accepted (st_creds st) = accepted (gateway_credentials cfg)"
    using accepted_same process_reach_ok [OF assms(3,1,2)] by blast
  moreover have "lst = TokenListener \<Longrightarrow> admitted E cfg TokenListener rq st st'"
    using token_listener_admits [OF process_reach_reviewer [OF assms(3,1,2)] _ names_not_healthz [OF n] changed] assms(4) by simp
  ultimately have "admitted E cfg lst rq st st'"
    using l by (cases lst) (auto simp: admitted_def let_in_def split: option.splits)
  with n u(2) g1 show ?thesis by auto
qed

text \<open>
  C18: The store is well formed in every state the process can reach, from any state file and whatever
  the requests, the disk and the cluster do: every vCenter is stored under its own id with a normalised
  datastore and an ISO folder, every mapping under its normalised UUID with a vCenter id, and the shared
  account is the configured one.
\<close>

theorem reachable_store_is_well_formed:
  assumes "gateway_main E path = Inr (cfg, A, gt, st0)" "ids_random (gm_gw E)" "process_reach E gt st0 st"
  shows "(\<forall>k vc. fmlookup (s_vcenters (g_store (st_gw st))) k = Some vc \<longrightarrow> vcenter_ok k vc)
    \<and> (\<forall>u m. fmlookup (s_byUUID (g_store (st_gw st))) u = Some m \<longrightarrow> mapping_ok u m)
    \<and> same_account (gateway_credentials cfg) (st_creds st)"
  using process_reach_ok [OF assms(3,1,2)] by (simp add: store_ok_def)

section \<open>What the main listener serves\<close>

text \<open>
  C32: With a dashboard listener configured, the main listener serves only Redfish: any request for
  another path than the Redfish service and the health check, the admin API and the dashboard included,
  is answered 401, 404 or with a redirect, and of the gateway's state only the activity log changes.
\<close>

theorem main_listener_serves_only_redfish:
  assumes "gateway_main E path = Inr (cfg, A, gt, st0)" "ids_random (gm_gw E)" "cf_UIListen cfg \<noteq> []"
    "rq_Path rq \<noteq> ''/healthz''" "rq_Path rq \<noteq> ''/redfish/v1''" "\<not> HasPrefix (rq_Path rq) ''/redfish/v1/''"
    "process_serve E gt MainListener rq st = Some (rep, st')"
  shows "rp_Code rep \<in> {301, 401, 404} \<and> only_bus (st_gw st) (st_gw st')"
proof -
  obtain c g where b: "basicAuth (gm_dir E) (mux_serve E (gt_main gt)) rq (st_creds st, st_gw st) = (rep, c, g)" "st_gw st' = g"
    using assms(7) by (auto simp: process_serve_def split: prod.splits)
  have main: "gt_main gt = (''/healthz'', healthz) # redfish_routes (gm_gw E)"
    using gateway_main_ok [OF assms(1,2)] assms(3) by (simp add: process_routes_def Let_def)
  have "rp_Code rep \<in> {301, 404} \<and> g = g1" if "same_request rq rq'" "mux_serve E (gt_main gt) rq' g1 = (rep, g)" for rq' g1
  proof (rule mux_handler_cases [of "gt_main gt" rq' "gm_url E"])
    fix pat h
    assume "(pat, h) \<in> set (gt_main gt)" "pattern_covers pat (rq_Path rq')"
    moreover have "\<not> HasSuffix ''/healthz'' ''/''" "\<not> HasSuffix ''/redfish/v1'' ''/''" "HasPrefix ''/redfish/v1/'' ''/redfish/v1/''" by code_simp+
    ultimately have False using that(1) assms(4-6) by (auto simp: main redfish_routes_def pattern_covers_def same_request_def)
    then show ?thesis ..
  qed (use that(2) in \<open>auto simp: mux_serve_def run_handler_def retE_def moved_def\<close>)
  with basicAuth_cases [OF b(1)] b(2) show ?thesis by auto
qed

section \<open>Health checks\<close>

lemma pattern_covers_length: "pattern_covers pat path \<Longrightarrow> pat \<noteq> path \<Longrightarrow> length pat < length path"
  by (auto simp: pattern_covers_def HasPrefix_def prefix_def)

lemma mux_find_own:
  assumes "\<not> has_pattern mux pat"
  shows "mux_find ((pat, h) # mux) pat = Some (pat, h)"
proof (cases "mux_find mux pat")
  case (Some qh)
  obtain q f where "qh = (q, f)" by fastforce
  with Some mux_find_Some [of mux pat q f] assms pattern_covers_length [of q pat] show ?thesis
    by (force simp: pattern_covers_def has_pattern_def)
qed (simp add: pattern_covers_def)

lemma health_route:
  assumes "\<not> has_pattern mux ''/healthz''" "rq_Path rq = ''/healthz''"
  shows "mux_serve E ((''/healthz'', healthz) # mux) rq g = (\<lparr>rp_Code = 200, rp_Header = [], rp_Body = TextBody ''ok''\<rparr>, g)"
proof -
  have "mux_cleanPath ''/healthz'' = ''/healthz''" by code_simp
  then have c: "mux_path rq = ''/healthz''" using assms(2) by (simp add: mux_path_def)
  have "mux_handler (gm_url E) ((''/healthz'', healthz) # mux) rq = healthz rq"
    using mux_find_own [OF assms(1), of healthz] unfolding mux_handler_def Let_def c by (simp add: has_pattern_def assms(2))
  then show ?thesis by (simp add: mux_serve_def run_handler_def healthz_def retE_def)
qed

text \<open>
  C16: A health check is always answered. On every listener the configuration asks for, in every state the
  process can reach, whatever credentials it carries or lacks and whatever vCenter and the cluster do:
  a request for /healthz is answered 200 at once, with no call made and the state left as it is.
\<close>

theorem health_check_is_always_answered:
  assumes "gateway_main E path = Inr (cfg, A, gt, st0)" "ids_random (gm_gw E)" "process_reach E gt st0 st" "rq_Path rq = ''/healthz''"
    "lst = MainListener \<or> lst = TokenListener \<and> cf_APIListen cfg \<noteq> [] \<or> lst = UIListener \<and> cf_UIListen cfg \<noteq> []"
  shows "\<exists>rep. process_serve E gt lst rq st = Some (rep, st) \<and> rp_Code rep = 200"
proof -
  from gateway_main_ok [OF assms(1,2)] have gt: "gt = process_routes E cfg A" by auto
  have none: "\<not> has_pattern (redfish_routes G) ''/healthz''" "\<not> has_pattern (mountAPI A mode) ''/healthz''"
    "\<not> has_pattern (redfish_routes G @ mountUI E A mode) ''/healthz''" "\<not> has_pattern (mountUI E A mode) ''/healthz''" for G mode
    by (simp_all add: has_pattern_def redfish_routes_def mountAPI_def mountUI_def api_routes_def)
  have h: "isHealthz (rq_Path rq)" using assms(4) by (simp add: isHealthz_def)
  note run = health_route [OF none(1) assms(4)] health_route [OF none(2) assms(4)] health_route [OF none(3) assms(4)] health_route [OF none(4) assms(4)]
  have rev: "st_review st = None \<longleftrightarrow> gt_token gt = None" using process_reach_ok [OF assms(3,1,2)] by blast
  from assms(5) show ?thesis
  proof (elim disjE conjE)
    assume "lst = MainListener"
    then show ?thesis using run h by (simp add: process_serve_def basicAuth_def serve_def gt process_routes_def Let_def)
  next
    assume l: "lst = TokenListener" "cf_APIListen cfg \<noteq> []"
    then have t: "gt_token gt = Some ((''/healthz'', healthz) # mountAPI A ''token'')" by (simp add: gt process_routes_def Let_def)
    with rev obtain rh where "st_review st = Some rh" by auto
    with l t run h show ?thesis by (simp add: process_serve_def tokenAuth_def serve_def)
  next
    assume "lst = UIListener" "cf_UIListen cfg \<noteq> []"
    then show ?thesis using run h by (simp add: process_serve_def proxyAuth_def gt process_routes_def Let_def)
  qed
qed

end
