(* ===== verification/Gateway_Demo.thy ===== *)
theory Gateway_Demo
  imports Gateway_Laws
begin

text \<open>
  A small gateway to evaluate the laws of the process on: a state file with one vCenter and one mapping, no
  cluster, and a vCenter that answers. From start to the change of a boot order.
\<close>

definition demo_penv :: "config_env \<Rightarrow> process_env" where
  "demo_penv C = \<lparr>gm_gw = demo_genv, gm_config = C, gm_open = demo_env [''1''] [''1''] [''aa-bb''],
     gm_file = (\<lambda>_. StateFile \<lparr>sd_VCenters = [demo_gw_vc],
       sd_Mappings = [\<lparr>mp_UUID = ''AA-BB'', mp_VCenterID = ''1'', mp_Name = ''node1'', mp_Notes = []\<rparr>], sd_Settings = \<lparr>set_DryRun = False\<rparr>\<rparr>),
     gm_world = demo_world, gm_dir = demo_auth_dir,
     gm_pod = \<lparr>po_getenv = (\<lambda>_. []), po_ReadFile = Inl, po_hasCerts = (\<lambda>_. False)\<rparr>,
     gm_yaml = sy_yaml demo_sync, gm_review = demo_rev,
     gm_version = ''dev'', gm_time = (\<lambda>_. ''t''), gm_order = (\<lambda>_. []), gm_reread = (\<lambda>rq. rq),
     gm_url = (\<lambda>p _. p), gm_static = (\<lambda>_. http_NotFound), gm_index = Inr ''<html>''\<rparr>"

lemma demo_config_fields: "cf_UIListen demo_config = []" "cf_APIListen demo_config = []" "cf_VCenterConfigMaps demo_config = ''auto''"
  "ac_RedfishClientsDir (cf_Auth demo_config) = []" "cf_ISOCacheDir demo_config = ''/data/iso-cache''"
  "ac_Username (cf_Auth demo_config) = ''admin''" "ac_Password (cf_Auth demo_config) = ''pw''" "ac_DisableSharedRedfish (cf_Auth demo_config) = False"
  by code_simp+

definition demo_psrv :: api_server where
  "demo_psrv = api_New demo_genv ''dev'' (\<lambda>_. ''t'') (\<lambda>_. []) (\<lambda>rq. rq)"

lemma demo_start:
  assumes "config_Load C ''f'' = Inr cfg" "ce_getenv C ''GOVC_URL'' = []" "cf_APIListen cfg = []" "cf_VCenterConfigMaps cfg = ''auto''"
    "ac_RedfishClientsDir (cf_Auth cfg) = []"
  obtains st where "gateway_main (demo_penv C) ''f'' = Inr (cfg, demo_psrv, process_routes (demo_penv C) cfg demo_psrv, st)"
    "s_vcenters (g_store (st_gw st)) = fmupd ''1'' demo_gw_vc fmempty" "set_DryRun (s_settings (g_store (st_gw st))) = False"
    "s_byUUID (g_store (st_gw st)) = fmupd ''aa-bb'' \<lparr>mp_UUID = ''aa-bb'', mp_VCenterID = ''1'', mp_Name = ''node1'', mp_Notes = []\<rparr> fmempty"
    "g_pool (st_gw st) = NewPool (cf_ISOCacheDir cfg)" "w_calls (g_w (st_gw st)) = []" "st_creds st = gateway_credentials cfg"
proof -
  have n: "NormalizeUUID ''AA-BB'' = ''aa-bb''" "normalizeDatastore ''DS'' = ''DS''" "TrimSpace [] = []" by code_simp+
  have v: "load_vcenter demo_gw_vc m = fmupd ''1'' demo_gw_vc m" for m
    by (simp add: load_vcenter_def demo_gw_vc_def n vcenter_zero_def)
  note E = demo_penv_def process_env.select_convs
  let ?file = "path_Join [cf_DataDir cfg, ''state.json'']"
  define s where "s = \<lparr>s_path = ?file, s_vcenters = fmupd ''1'' demo_gw_vc fmempty,
     s_byUUID = fmupd ''aa-bb'' \<lparr>mp_UUID = ''aa-bb'', mp_VCenterID = ''1'', mp_Name = ''node1'', mp_Notes = []\<rparr> fmempty,
     s_settings = \<lparr>set_DryRun = False\<rparr>, s_file = gm_file (demo_penv C) ?file\<rparr>"
  have s: "store_Open (gm_open (demo_penv C)) ?file (gm_file (demo_penv C) ?file) = Inr s"
    by (simp add: s_def E store_Open_def store_load_def demo_env_def load_mapping_def n v Let_def)
  define g0 where "g0 = initial_gw (demo_penv C) cfg s"
  have "SeedFromGOVC se (ce_getenv C) s = (Inr False, s)" for se
    by (simp add: SeedFromGOVC_def s_def go_len_def assms(2) n)
  then have "seed (demo_penv C) g0 = (Inr False, g0\<lparr>g_ops := 1\<rparr>)"
    by (simp add: seed_def store_write_def E g0_def initial_gw_def tryE_def retE_def)
  moreover have "start_api (demo_penv C) cfg g = (Inr demo_psrv, g)" for g
    by (simp add: start_api_def startVCenterSync_def assms E kube_InCluster_def pod_api_def demo_psrv_def bindE_def tryE_def retE_def Let_def)
  ultimately have g: "bindE (seed (demo_penv C)) (\<lambda>_. start_api (demo_penv C) cfg) g0 = (Inr demo_psrv, g0\<lparr>g_ops := 1\<rparr>)"
    by (simp add: bindE_def tryE_def)
  have r: "start_reviewer (demo_penv C) cfg = Inr None" by (simp add: start_reviewer_def assms)
  have c: "config_Load (gm_config (demo_penv C)) ''f'' = Inr cfg" using assms(1) by (simp add: E)
  let ?st = "\<lparr>st_gw = snd (announce (demo_penv C) cfg (g0\<lparr>g_ops := 1\<rparr>)), st_creds = start_credentials (demo_penv C) cfg (gw_now (g0\<lparr>g_ops := 1\<rparr>)),
      st_review = None\<rparr>"
  have a: "\<exists>b. snd (announce (demo_penv C) cfg g) = gw_bus b g" for g
    by (simp add: announce_def gw_bus_def case_prod_beta) blast
  then obtain b where b: "st_gw ?st = gw_bus b (g0\<lparr>g_ops := 1\<rparr>)" by (metis process_state.select_convs(1))
  show thesis
  proof (rule that)
    show "gateway_main (demo_penv C) ''f'' = Inr (cfg, demo_psrv, process_routes (demo_penv C) cfg demo_psrv, ?st)"
      using s g r by (simp add: gateway_main_def c Let_def g0_def)
    show "st_creds ?st = gateway_credentials cfg"
      by (simp add: start_credentials_def assms Let_def)
  qed (simp_all only: b, simp_all add: gw_bus_def g0_def initial_gw_def s_def assms)
qed

definition demo_new_client :: client where
  "demo_new_client = demo_client\<lparr>cl_ep := demo_ep\<lparr>ep_ISOCache := ''/data/iso-cache''\<rparr>\<rparr>"

lemma demo_pooled:
  assumes "s_vcenters (g_store g) = fmupd ''1'' demo_gw_vc fmempty" "g_pool g = NewPool ''/data/iso-cache''"
    "s_byUUID (g_store g) = fmupd ''aa-bb'' \<lparr>mp_UUID = ''aa-bb'', mp_VCenterID = ''1'', mp_Name = ''node1'', mp_Notes = []\<rparr> fmempty"
  shows "\<exists>p w. pooled_for_uuid demo_genv ''AA-BB'' g = (Inr (''1'', demo_new_client), g\<lparr>g_pool := p, g_w := w\<rparr>)"
proof -
  have v: "vc_ID demo_gw_vc = ''1''" "vc_Datastore demo_gw_vc = ''DS''"
    "demo_gw_vc\<lparr>vc_Datastore := ''DS''\<rparr> = demo_gw_vc" by (simp_all add: demo_gw_vc_def vcenter_zero_def)
  have n: "NormalizeDatastore ''DS'' = ''DS''" by code_simp
  have "\<exists>w'. NewClient demo_vs (endpointFrom (NewPool ''/data/iso-cache'') demo_gw_vc) w = (Inr demo_new_client, w')" for w
    by (simp add: NewClient_def endpointFrom_def NewPool_def demo_gw_vc_def vcenter_zero_def n demo_new_client_def demo_client_def demo_ep_def
        world_call_def demo_vs_def thenE_def bindE_def tryE_def retE_def Let_def split: prod.split)
  then obtain w' where "NewClient demo_vs (endpointFrom (NewPool ''/data/iso-cache'') demo_gw_vc) (g_w g) = (Inr demo_new_client, w')" by blast
  then show ?thesis
    using assms by (simp add: pooled_for_uuid_def ClientForUUID_def LookupUUID_def GetVCenterSecret_def demo_gw_uuid v pool_For_def
        pool_make_def NewPool_def demo_genv_def) blast
qed

lemma demo_new_boot:
  "fst (SetBootDiskFirst demo_vs ''AA-BB'' \<lparr>v_cl = demo_new_client, v_w = w\<rparr>) = Inr ()"
  "(CSetBootOptions ''vm-1'' [BootDevice ''disk''], None) \<in> set (w_calls (v_w (snd (SetBootDiskFirst demo_vs ''AA-BB'' \<lparr>v_cl = demo_new_client, v_w = w\<rparr>))))"
proof -
  have p: "in_folder ''/DC/vm/LAB'' ''/DC/vm/LAB/node1''" by code_simp
  have f: "TrimSpace ''/DC/vm/LAB'' = ''/DC/vm/LAB''" "NormalizeDatastore ''DS'' = ''DS''" "ToLower (TrimSpace ''AA-BB'') = ''aa-bb''" by code_simp+
  let ?f = "findByUUID demo_vs ''AA-BB'' \<lparr>v_cl = demo_new_client, v_w = w\<rparr>"
  have "fst ?f = Inr demo_at"
    by (simp add: findByUUID_def ensure_def cachedVM_def cached_entry_def findByUUIDSearchIndex_def checkFolder_def
        gate_path_def rememberUUID_def remember_entry_def io_simps do_call_def record_call_def demo_defs f p Let_def demo_new_client_def demo_at_def)
  then obtain t where t: "?f = (Inr demo_at, t)" by (metis prod.collapse)
  have step: "SetBootDiskFirst demo_vs ''AA-BB'' \<lparr>v_cl = demo_new_client, v_w = w\<rparr> = setBootDiskFirstVM demo_vs demo_at t"
    by (simp add: SetBootDiskFirst_def bindE_run t)
  show "fst (SetBootDiskFirst demo_vs ''AA-BB'' \<lparr>v_cl = demo_new_client, v_w = w\<rparr>) = Inr ()"
    "(CSetBootOptions ''vm-1'' [BootDevice ''disk''], None) \<in> set (w_calls (v_w (snd (SetBootDiskFirst demo_vs ''AA-BB'' \<lparr>v_cl = demo_new_client, v_w = w\<rparr>))))"
    unfolding step by (simp_all add: setBootDiskFirstVM_def setBootOrderVM_def vm_Device_def boot_order_def io_simps do_call_def
        record_call_def outcome_def demo_vs_def demo_devices_def demo_at_def Let_def)
qed

definition demo_mapped :: "gw \<Rightarrow> bool" where
  "demo_mapped g \<longleftrightarrow> s_vcenters (g_store g) = fmupd ''1'' demo_gw_vc fmempty \<and> set_DryRun (s_settings (g_store g)) = False
     \<and> s_byUUID (g_store g) = fmupd ''aa-bb'' \<lparr>mp_UUID = ''aa-bb'', mp_VCenterID = ''1'', mp_Name = ''node1'', mp_Notes = []\<rparr> fmempty
     \<and> g_pool g = NewPool ''/data/iso-cache''"

lemma demo_change:
  assumes "demo_mapped g"
  shows "(CSetBootOptions ''vm-1'' [BootDevice ''disk''], None) \<in>
    set (w_calls (g_w (snd (apply_change demo_genv ''AA-BB'' op msg detail (SetBootDiskFirst demo_vs ''AA-BB'') g))))"
proof -
  obtain p w where pl: "pooled_for_uuid demo_genv ''AA-BB'' g = (Inr (''1'', demo_new_client), g\<lparr>g_pool := p, g_w := w\<rparr>)"
    using demo_pooled [of g] assms unfolding demo_mapped_def by blast
  define w1 where "w1 = w\<lparr>w_bus := act_Out (w_clock w) op msg detail (w_bus w)\<rparr>"
  obtain t where t: "SetBootDiskFirst demo_vs ''AA-BB'' \<lparr>v_cl = demo_new_client, v_w = w1\<rparr> = (Inr (), t)"
    "(CSetBootOptions ''vm-1'' [BootDevice ''disk''], None) \<in> set (w_calls (v_w t))"
    using demo_new_boot [of w1] by (metis prod.collapse)
  then show ?thesis
    by (simp add: apply_change_def clientFor_def or_reply_run pl on_client_def retE_def flip: w1_def)
qed

lemma demo_patch_runs:
  assumes "demo_mapped g" "rq_Method rq = ''PATCH''" "rq_Path rq = ''/redfish/v1/Systems/AA-BB/''" "rq_Query rq = []"
    "rq_Body rq = rq_Body demo_patch"
  shows "(CSetBootOptions ''vm-1'' [BootDevice ''disk''], None) \<in> set (w_calls (g_w (snd (rf_route demo_genv rq g))))"
proof -
  have op: "rf_resolve ''PATCH'' ''/redfish/v1/Systems/AA-BB/'' [] = RfPatch ''AA-BB''" by code_simp
  have q: "query_get rq ''system'' = []" using assms(4) by (simp add: query_get_def assoc_get_def)
  have d: "decode_body ty patch_fields rq None = (None, Some \<lparr>bo_Target = ''Hdd'', bo_Enabled = []\<rparr>, rq\<lparr>rq_Body := []\<rparr>)" for ty
    using assms(5) by (simp add: decode_body_def decode_struct_def patch_fields_def boot_fields_def find_field_def ptr_field_def str_field_def
        demo_patch_def demo_rq_def)
  have t: "ToLower ''Hdd'' = ''hdd''" by code_simp
  have dry: "DryRunForUUID ''AA-BB'' (g_store g) = False"
    using assms(1) by (simp add: demo_mapped_def DryRunForUUID_def LookupUUID_def demo_gw_uuid demo_gw_vc_def vcenter_zero_def)
  have vs: "ge_vs demo_genv = demo_vs" by (simp add: demo_genv_def)
  show ?thesis
    by (simp add: rf_route_def op q assms(2,3) systemPatch_def d patchBoot_def t cd_targets_def disk_targets_def unless_dry_def dry vs Let_def)
      (rule demo_change, use assms(1) in \<open>simp add: demo_mapped_def\<close>)
qed

lemma demo_routes:
  assumes "rq_Path rq = ''/redfish/v1/Systems/AA-BB/''"
  shows "mux_handler url (gt_main (process_routes (demo_penv demo_config_env) demo_config A)) rq = rf_route demo_genv rq"
proof -
  let ?p = "''/redfish/v1/Systems/AA-BB/''"
  have c: "mux_cleanPath ?p = ?p" "HasSuffix ?p ''/''" by code_simp+
  have no: "\<not> pattern_covers ''/healthz'' ?p"
    "\<not> pattern_covers ''/redfish/v1'' ?p"
    "\<not> pattern_covers ''/api/v1/status'' ?p"
    "\<not> pattern_covers ''/api/v1/settings'' ?p"
    "\<not> pattern_covers ''/api/v1/activity'' ?p"
    "\<not> pattern_covers ''/api/v1/vcenters'' ?p"
    "\<not> pattern_covers ''/api/v1/vcenters/'' ?p"
    "\<not> pattern_covers ''/api/v1/mappings'' ?p"
    "\<not> pattern_covers ''/api/v1/mappings/'' ?p"
    "\<not> pattern_covers ''/api/v1/whoami'' ?p"
    "\<not> pattern_covers ''/static/'' ?p" by code_simp+
  have yes: "pattern_covers ''/redfish/v1/'' ?p" "pattern_covers ''/'' ?p" by code_simp+
  have "gm_gw (demo_penv demo_config_env) = demo_genv" by (simp add: demo_penv_def)
  then have "mux_find (gt_main (process_routes (demo_penv demo_config_env) demo_config A)) ?p = Some (''/redfish/v1/'', rf_route demo_genv)"
    by (simp add: process_routes_def demo_config_fields redfish_routes_def mountUI_def mountAPI_def api_routes_def no yes Let_def)
  with c assms show ?thesis by (simp add: mux_handler_def mux_path_def Let_def)
qed

definition demo_login :: request where
  "demo_login = demo_patch\<lparr>rq_BasicAuth := Some (''admin'', ''pw'')\<rparr>"

lemma demo_login_serve:
  assumes "st_creds st = gateway_credentials demo_config" "demo_mapped (st_gw st)"
  obtains rep st' where "process_serve (demo_penv demo_config_env) (process_routes (demo_penv demo_config_env) demo_config A) MainListener demo_login st = Some (rep, st')"
    "(CSetBootOptions ''vm-1'' [BootDevice ''disk''], None) \<in> set (w_calls (g_w (st_gw st')))"
proof -
  have rq: "rq_Path demo_login = ''/redfish/v1/Systems/AA-BB/''" "rq_Method demo_login = ''PATCH''" "rq_BasicAuth demo_login = Some (''admin'', ''pw'')"
    "rq_Query demo_login = []" "rq_Body demo_login = rq_Body demo_patch" by (simp_all add: demo_login_def demo_patch_def demo_rq_def)
  have ne: "\<not> exempt demo_login" by (simp add: exempt_def isHealthz_def rq)
  have v: "creds_check D now ''admin'' ''pw'' True (gateway_credentials demo_config, b) = ((True, []), gateway_credentials demo_config, b)" for D now b
    by (simp add: creds_check_def clientsNow_def gateway_credentials_def newCredentials_def demo_config_fields shared_check_def go_len_def fcard.rep_eq)
  have rf: "isRedfishPath ''/redfish/v1/Systems/AA-BB/''" by code_simp
  let ?mux = "gt_main (process_routes (demo_penv demo_config_env) demo_config A)"
  let ?rq = "demo_login\<lparr>rq_Client := ''admin''\<rparr>"
  have b: "basicAuth (gm_dir (demo_penv demo_config_env)) (mux_serve (demo_penv demo_config_env) ?mux) demo_login (st_creds st, st_gw st) =
      serve (mux_serve (demo_penv demo_config_env) ?mux) ?rq (gateway_credentials demo_config, st_gw st)"
    using basicAuth_checked [OF ne rq(3)] v rf rq(1) by (simp add: assms(1) gw_bus_def)
  define g where "g = snd (mux_serve (demo_penv demo_config_env) ?mux ?rq (st_gw st))"
  have "g = snd (rf_route demo_genv ?rq (st_gw st))"
    unfolding g_def run_mux by (subst demo_routes) (simp_all add: rq)
  then have c: "(CSetBootOptions ''vm-1'' [BootDevice ''disk''], None) \<in> set (w_calls (g_w g))"
    using demo_patch_runs [OF assms(2), of ?rq] by (simp add: rq)
  obtain rep where r: "mux_serve (demo_penv demo_config_env) ?mux ?rq (st_gw st) = (rep, g)" by (metis g_def prod.collapse)
  have "process_serve (demo_penv demo_config_env) (process_routes (demo_penv demo_config_env) demo_config A) MainListener demo_login st =
      Some (rep, st\<lparr>st_gw := g, st_creds := gateway_credentials demo_config\<rparr>)"
    using b r by (simp add: process_serve_def serve_def)
  then show thesis by (rule that) (simp add: c)
qed

theorem vsphere_changes_are_authorised_witness:
  "\<exists>st. process_reach (demo_penv demo_config_env) (process_routes (demo_penv demo_config_env) demo_config demo_psrv) st st
     \<and> (\<exists>st'. admitted (demo_penv demo_config_env) demo_config MainListener demo_login st st')
     \<and> (\<exists>uuid. names_system demo_login uuid \<and> may_change uuid (g_store (st_gw st)))"
proof -
  obtain st where st: "gateway_main (demo_penv demo_config_env) ''f'' = Inr (demo_config, demo_psrv, process_routes (demo_penv demo_config_env) demo_config demo_psrv, st)"
    "demo_mapped (st_gw st)" "w_calls (g_w (st_gw st)) = []" "st_creds st = gateway_credentials demo_config"
    using demo_start [OF demo_config _ demo_config_fields(2,3,4)] demo_config_fields(5) by (auto simp: demo_mapped_def demo_config_env_def)
  obtain rep st' where s: "process_serve (demo_penv demo_config_env) (process_routes (demo_penv demo_config_env) demo_config demo_psrv) MainListener demo_login st = Some (rep, st')"
    "(CSetBootOptions ''vm-1'' [BootDevice ''disk''], None) \<in> set (w_calls (g_w (st_gw st')))"
    using demo_login_serve [OF st(4,2)] .
  have r: "ids_random (gm_gw (demo_penv demo_config_env))" by (simp add: ids_random_def demo_penv_def demo_genv_def demo_env_def)
  have n: "(CSetBootOptions ''vm-1'' [BootDevice ''disk''], None) \<in> set (gw_new (st_gw st) (st_gw st'))"
    using s(2) st(3) by (simp add: gw_new_def)
  note reach = process_reach.start [of "demo_penv demo_config_env" "process_routes (demo_penv demo_config_env) demo_config demo_psrv" st]
  from vsphere_changes_are_authorised [OF st(1) r reach s(1) n] reach show ?thesis by auto
qed

theorem reachable_store_is_well_formed_witness:
  "\<exists>st. mapping_ok ''aa-bb'' \<lparr>mp_UUID = ''aa-bb'', mp_VCenterID = ''1'', mp_Name = ''node1'', mp_Notes = []\<rparr>
     \<and> process_reach (demo_penv demo_config_env) (process_routes (demo_penv demo_config_env) demo_config demo_psrv) st st"
proof -
  obtain st where st: "gateway_main (demo_penv demo_config_env) ''f'' = Inr (demo_config, demo_psrv, process_routes (demo_penv demo_config_env) demo_config demo_psrv, st)"
    "demo_mapped (st_gw st)" using demo_start [OF demo_config _ demo_config_fields(2,3,4)] demo_config_fields(5) by (auto simp: demo_mapped_def demo_config_env_def)
  have r: "ids_random (gm_gw (demo_penv demo_config_env))" by (simp add: ids_random_def demo_penv_def demo_genv_def demo_env_def)
  note reach = process_reach.start [of "demo_penv demo_config_env" "process_routes (demo_penv demo_config_env) demo_config demo_psrv" st]
  from reachable_store_is_well_formed [OF st(1) r reach] st(2) reach show ?thesis by (auto simp: demo_mapped_def split: if_splits)
qed

theorem health_check_is_always_answered_witness:
  "\<exists>st rep. process_serve (demo_penv demo_config_env) (process_routes (demo_penv demo_config_env) demo_config demo_psrv) MainListener (demo_rq ''GET'' ''/healthz'' []) st = Some (rep, st)
     \<and> rp_Code rep = 200"
proof -
  obtain st where st: "gateway_main (demo_penv demo_config_env) ''f'' = Inr (demo_config, demo_psrv, process_routes (demo_penv demo_config_env) demo_config demo_psrv, st)"
    using demo_start [OF demo_config _ demo_config_fields(2,3,4)] by (auto simp: demo_config_env_def)
  have r: "ids_random (gm_gw (demo_penv demo_config_env))" by (simp add: ids_random_def demo_penv_def demo_genv_def demo_env_def)
  have p: "rq_Path (demo_rq ''GET'' ''/healthz'' []) = ''/healthz''" by (simp add: demo_rq_def)
  from health_check_is_always_answered [OF st r process_reach.start p] show ?thesis by blast
qed

text \<open>A gateway with a dashboard listener.\<close>

definition demo_ui_env :: config_env where
  "demo_ui_env = demo_config_env\<lparr>ce_getenv := (\<lambda>n. if n = ''RF2VC_UI_LISTEN'' then ''127.0.0.1:8081'' else ce_getenv demo_config_env n)\<rparr>"

theorem main_listener_serves_only_redfish_witness:
  "\<exists>gt st rep st'. process_serve (demo_penv demo_ui_env) gt MainListener (demo_rq ''GET'' ''/api/v1/vcenters'' []) st = Some (rep, st')
     \<and> rp_Code rep \<in> {301, 401, 404} \<and> only_bus (st_gw st) (st_gw st')"
proof -
  define cfg where "cfg = config_fill (applyEnvOverrides (ce_getenv demo_ui_env) zero_config)"
  have ui: "config_Load demo_ui_env ''f'' = Inr (config_fill (applyEnvOverrides (ce_getenv demo_ui_env) zero_config))" by code_simp
  have f: "cf_APIListen (config_fill (applyEnvOverrides (ce_getenv demo_ui_env) zero_config)) = []"
    "cf_VCenterConfigMaps (config_fill (applyEnvOverrides (ce_getenv demo_ui_env) zero_config)) = ''auto''"
    "ac_RedfishClientsDir (cf_Auth (config_fill (applyEnvOverrides (ce_getenv demo_ui_env) zero_config))) = []"
    "cf_UIListen (config_fill (applyEnvOverrides (ce_getenv demo_ui_env) zero_config)) = ''127.0.0.1:8081''"
    by code_simp+
  have u: "ce_getenv demo_ui_env ''GOVC_URL'' = []" by code_simp
  note f = f [folded cfg_def]
  obtain st where st: "gateway_main (demo_penv demo_ui_env) ''f'' = Inr (cfg, demo_psrv, process_routes (demo_penv demo_ui_env) cfg demo_psrv, st)"
    using demo_start [OF ui [folded cfg_def] u f(1-3)] by metis
  have r: "ids_random (gm_gw (demo_penv demo_ui_env))" by (simp add: ids_random_def demo_penv_def demo_genv_def demo_env_def)
  let ?rq = "demo_rq ''GET'' ''/api/v1/vcenters'' []"
  obtain rep st' where s: "process_serve (demo_penv demo_ui_env) (process_routes (demo_penv demo_ui_env) cfg demo_psrv) MainListener ?rq st = Some (rep, st')"
    by (cases "basicAuth (gm_dir (demo_penv demo_ui_env)) (mux_serve (demo_penv demo_ui_env) (gt_main (process_routes (demo_penv demo_ui_env) cfg demo_psrv)))
      ?rq (st_creds st, st_gw st)") (simp add: process_serve_def)
  have p: "rq_Path ?rq \<noteq> ''/healthz''" "rq_Path ?rq \<noteq> ''/redfish/v1''" "\<not> HasPrefix (rq_Path ?rq) ''/redfish/v1/''"
    by (simp_all add: demo_rq_def) code_simp
  have i: "cf_UIListen cfg \<noteq> []" by (simp add: f(4))
  from main_listener_serves_only_redfish [OF st r i p s] s show ?thesis by blast
qed

end
