(* ===== verification/Gateway_Sessions.thy ===== *)
theory Gateway_Sessions
  imports Gateway_Laws Session_Books
begin

text \<open>
  The books of the whole process: the sessions opened, less those closed or given up, are the ones the clients in the
  pool hold. Handlers keep the balance because a pooled client is put back as its operation left it, because the pool closes
  a client before it forgets it, and because the clients of probes are closed on every path.
\<close>

section \<open>The pool\<close>

definition held_at :: "(string, client) fmap \<Rightarrow> string \<Rightarrow> int" where
  "held_at m k = (case fmlookup m k of Some c \<Rightarrow> held c | None \<Rightarrow> 0)"

definition pool_held :: "pool \<Rightarrow> int" where
  "pool_held p = (\<Sum>k \<in> fmdom' (p_clients p). held_at (p_clients p) k)"

lemma held_sum:
  assumes "finite K" "fmdom' m \<subseteq> K"
  shows "(\<Sum>k \<in> fmdom' m. held_at m k) = (\<Sum>k \<in> K. held_at m k)"
  using assms by (intro sum.mono_neutral_left) (auto simp: held_at_def split: option.splits intro: fmdom'I)

lemma pool_held_upd: "pool_held (p\<lparr>p_clients := fmupd k c (p_clients p)\<rparr>) = pool_held p - held_at (p_clients p) k + held c"
proof -
  let ?m = "p_clients p"
  let ?K = "insert k (fmdom' ?m)"
  have fin: "finite ?K" by simp
  have new: "(\<Sum>j \<in> ?K. held_at (fmupd k c ?m) j) = held c + (\<Sum>j \<in> fmdom' ?m - {k}. held_at ?m j)"
  proof -
    have "held_at (fmupd k c ?m) j = held_at ?m j" if "j \<in> fmdom' ?m - {k}" for j using that by (auto simp: held_at_def)
    then show ?thesis by (subst sum.insert_remove) (simp_all add: held_at_def [of _ k])
  qed
  have old: "(\<Sum>j \<in> ?K. held_at ?m j) = held_at ?m k + (\<Sum>j \<in> fmdom' ?m - {k}. held_at ?m j)"
    by (subst sum.insert_remove) auto
  have "pool_held p = (\<Sum>j \<in> ?K. held_at ?m j)"
    unfolding pool_held_def by (rule held_sum [OF fin]) auto
  moreover have "pool_held (p\<lparr>p_clients := fmupd k c ?m\<rparr>) = (\<Sum>j \<in> ?K. held_at (fmupd k c ?m) j)"
    by (simp add: pool_held_def)
  ultimately show ?thesis using new old by simp
qed

lemma pool_held_drop: "pool_held (p\<lparr>p_clients := fmdrop k (p_clients p)\<rparr>) = pool_held p - held_at (p_clients p) k"
proof -
  let ?m = "p_clients p"
  let ?K = "insert k (fmdom' ?m)"
  have fin: "finite ?K" by simp
  have new: "(\<Sum>j \<in> ?K. held_at (fmdrop k ?m) j) = (\<Sum>j \<in> fmdom' ?m - {k}. held_at ?m j)"
  proof -
    have "held_at (fmdrop k ?m) j = held_at ?m j" if "j \<in> fmdom' ?m - {k}" for j using that by (auto simp: held_at_def)
    then show ?thesis by (subst sum.insert_remove) (simp_all add: held_at_def [of _ k])
  qed
  have old: "(\<Sum>j \<in> ?K. held_at ?m j) = held_at ?m k + (\<Sum>j \<in> fmdom' ?m - {k}. held_at ?m j)"
    by (subst sum.insert_remove) auto
  have "pool_held p = (\<Sum>j \<in> ?K. held_at ?m j)"
    unfolding pool_held_def by (rule held_sum [OF fin]) auto
  moreover have "pool_held (p\<lparr>p_clients := fmdrop k ?m\<rparr>) = (\<Sum>j \<in> ?K. held_at (fmdrop k ?m) j)"
    unfolding pool_held_def using held_sum [OF fin, of "fmdrop k ?m"] by auto
  ultimately show ?thesis using new old by simp
qed

definition pool_books :: "pool \<times> world \<Rightarrow> int" where
  "pool_books pw = sessions (snd pw) - pool_held (fst pw)"

lemma pool_make_books:
  assumes "pool_make E vid ep (p, w) = (r, p', w')" "fmlookup (p_clients p) vid = None"
  shows "pool_books (p', w') = pool_books (p, w) \<and> (\<forall>c. r = Inr c \<longrightarrow> fmlookup (p_clients p') vid = Some c)"
  using assms
  by (auto simp: pool_make_def pool_books_def pool_held_upd held_at_def split: prod.splits sum.splits dest!: NewClient_sessions)

lemma pool_Invalidate_books: "pool_Invalidate E vid pw = pw' \<Longrightarrow> pool_books pw' = pool_books pw"
  by (auto simp: pool_Invalidate_def pool_books_def pool_held_drop held_at_def close_client_sessions split: prod.splits option.splits)

lemma pool_For_books:
  assumes "pool_For E vc (p, w) = (r, p', w')"
  shows "pool_books (p', w') = pool_books (p, w) \<and> (\<forall>c. r = Inr c \<longrightarrow> fmlookup (p_clients p') (vc_ID vc) = Some c)"
proof (cases "fmlookup (p_clients p) (vc_ID vc)")
  case None
  with assms show ?thesis by (auto simp: pool_For_def Let_def dest!: pool_make_books)
next
  case (Some c)
  show ?thesis
  proof (cases "sameEndpoint (cl_ep c) (endpointFrom p vc)")
    case True
    with assms Some show ?thesis by (auto simp: pool_For_def Let_def)
  next
    case False
    with assms Some have m: "pool_make E (vc_ID vc) (endpointFrom p vc)
        (p\<lparr>p_clients := fmdrop (vc_ID vc) (p_clients p)\<rparr>, close_client E c w) = (r, p', w')"
      by (simp add: pool_For_def Let_def)
    from pool_make_books [OF m] show ?thesis
      by (simp add: pool_books_def pool_held_drop close_client_sessions held_at_def Some)
  qed
qed

lemma pool_CloseAll_books: "pool_books (pool_CloseAll E order pw) = pool_books pw"
  unfolding pool_CloseAll_def by (induction order arbitrary: pw) (simp_all add: pool_Invalidate_books)

lemma pool_CloseAll_clients:
  "fmlookup (p_clients (fst (pool_CloseAll E order pw))) k =
     (if k \<in> set order then None else fmlookup (p_clients (fst pw)) k)"
  unfolding pool_CloseAll_def
  by (induction order arbitrary: pw) (auto simp: pool_Invalidate_def split: prod.splits option.splits)

lemma pool_held_empty: "fmdom' (p_clients p) = {} \<Longrightarrow> pool_held p = 0"
  by (simp add: pool_held_def)

lemma pool_held_count: "pool_held p = int (card {k \<in> fmdom' (p_clients p). \<exists>c. fmlookup (p_clients p) k = Some c \<and> cl_connected c})"
proof -
  have "pool_held p = (\<Sum>k \<in> {k \<in> fmdom' (p_clients p). \<exists>c. fmlookup (p_clients p) k = Some c \<and> cl_connected c}. 1)"
    unfolding pool_held_def
    by (rule sum.mono_neutral_cong_right) (auto simp: held_at_def held_def split: option.splits)
  then show ?thesis by simp
qed

section \<open>Probes\<close>

lemma with_client_sessions:
  assumes "with_client E c m w = (r, w')" "keeps same_books m"
  shows "sessions w' = sessions w - held c"
proof -
  obtain q s where m: "m \<lparr>v_cl = c, v_w = w\<rparr> = (q, s)" by fastforce
  obtain x t where t: "client_Close E s = (x, t)" by fastforce
  from assms(1) m t have "w' = v_w t" by (simp add: with_client_def)
  with keepsD [OF assms(2) m] keepsD [OF books_close t] close_closes [OF t] show ?thesis
    by (simp add: same_books_def held_def)
qed

lemma probe_sessions: "ProbeHealth E ep w = (out, w') \<Longrightarrow> sessions w' = sessions w"
  by (auto simp: ProbeHealth_def Let_def split: if_splits prod.splits sum.splits
      dest!: NewClient_sessions with_client_sessions [OF _ books_probe_session])

lemma probeEndpoint_sessions: "probeEndpoint E ep w = (r, w') \<Longrightarrow> sessions w' = sessions w"
  by (auto simp: probeEndpoint_def io_simps world_call_def sessions_call Let_def split: sum.splits prod.splits)

lemma test_sessions: "RunConnectionTest E ep w = (out, w') \<Longrightarrow> sessions w' = sessions w"
  by (auto simp: RunConnectionTest_def Let_def split: if_splits prod.splits sum.splits
      dest!: NewClient_sessions with_client_sessions [OF _ books_test_session] probeEndpoint_sessions)

section \<open>Handlers\<close>

definition gw_books :: "gw \<Rightarrow> int" where
  "gw_books g = sessions (g_w g) - pool_held (g_pool g)"

text \<open>From a well-formed store: the store stays well formed and the books stay as they are.\<close>

definition in_balance :: "gw \<Rightarrow> gw \<Rightarrow> bool" where
  "in_balance g g' \<longleftrightarrow> (store_ok (g_store g) \<longrightarrow> store_ok (g_store g') \<and> gw_books g' = gw_books g)"

lemma even_preorder [simp, keeps_intro]: "preorder_rel in_balance"
  by (auto simp: preorder_rel_def reflp_def transp_def in_balance_def)

lemma even_through: "through_bus in_balance"
  by (simp add: through_bus_def in_balance_def gw_books_def gw_bus_def sessions_def)

named_theorems even_intro \<open>what keeps the books of the process\<close>

lemma even_idle:
  assumes "keeps stays_ok m" "\<And>g. g_pool (snd (m g)) = g_pool g \<and> w_calls (g_w (snd (m g))) = w_calls (g_w g)"
  shows "keeps in_balance m"
  using assms by (auto simp: keeps_def stays_ok_def in_balance_def gw_books_def sessions_def)

lemma even_frame: "keeps sync_frame m \<Longrightarrow> keeps in_balance m"
  by (rule even_idle, erule stays_ok_frame) (auto simp: keeps_def sync_frame_def)

lemma even_local [even_intro]:
  "keeps in_balance (gact h op m d)" "keeps in_balance (store_read f)" "keeps in_balance (store_list G f')" "keeps in_balance (getE e)"
  "keeps in_balance api_now" "keeps in_balance (on_kube k)"
  by (rule even_idle, rule ok_intro, simp add: store_list_def on_kube_def api_now_def getE_def split: prod.split)+

lemma even_write [even_intro]: "keeps stays_ok (store_write G f) \<Longrightarrow> keeps in_balance (store_write G f)"
  by (erule even_idle) (simp add: store_write_def split: prod.split)

lemma even_world: "(\<And>w x w'. f w = (x, w') \<Longrightarrow> sessions w' = sessions w) \<Longrightarrow> keeps in_balance (on_world f)"
  by (auto simp: keeps_def on_world_def in_balance_def gw_books_def split: prod.split)

lemma even_probes [even_intro]: "keeps in_balance (on_world (ProbeHealth E ep))" "keeps in_balance (on_world (RunConnectionTest E ep))"
  by (rule even_world, erule probe_sessions test_sessions)+

lemma even_invalidate [even_intro]: "keeps in_balance (invalidate G vid)"
  by (auto simp: keeps_def invalidate_def modE_def in_balance_def gw_books_def pool_books_def split: prod.split
      dest!: pool_Invalidate_books)

lemma even_mirror [even_intro]:
  assumes "mirrored A"
  shows "keeps in_balance (synced A vid out)" "keeps in_balance (mirror_delete A vid vc)" "keeps in_balance (check_delete_call A vid)"
  using mirror_frames [OF assms]
  by (auto intro: even_frame) (simp add: keeps_def in_balance_def)

text \<open>
  A handler that got a client from the pool: \<open>just_pooled kc\<close> as long as the pool still holds the client as \<open>kc\<close> says,
  \<open>once_used kc\<close> once it has been used.
\<close>

definition just_pooled :: "string \<times> client \<Rightarrow> ('e, 'a) gio \<Rightarrow> bool" where
  "just_pooled kc h \<longleftrightarrow> (\<forall>g. fmlookup (p_clients (g_pool g)) (fst kc) = Some (snd kc) \<longrightarrow> in_balance g (snd (h g)))"

definition once_used :: "string \<times> client \<Rightarrow> ('e, 'a) gio \<Rightarrow> bool" where
  "once_used kc h \<longleftrightarrow> (\<forall>g. fmlookup (p_clients (g_pool g)) (fst kc) \<noteq> None \<longrightarrow> in_balance g (snd (h g)))"

lemma just_pooled_even: "keeps in_balance h \<Longrightarrow> just_pooled kc h"
  by (simp add: just_pooled_def keeps_def)

lemma once_used_even: "keeps in_balance h \<Longrightarrow> once_used kc h"
  by (simp add: once_used_def keeps_def)

lemma balance_trans: "in_balance a b \<Longrightarrow> in_balance b c \<Longrightarrow> in_balance a c"
  by (auto simp: in_balance_def)

lemma even_bus: "in_balance g (g\<lparr>g_w := (g_w g)\<lparr>w_bus := b\<rparr>\<rparr>)"
  by (simp add: in_balance_def gw_books_def sessions_def)

lemma from_gact: "just_pooled kc h \<Longrightarrow> just_pooled kc (thenE (gact k op m d) h)"
  unfolding just_pooled_def
proof (intro allI impI)
  fix g :: gw
  let ?g = "g\<lparr>g_w := (g_w g)\<lparr>w_bus := k (w_clock (g_w g)) op m d (w_bus (g_w g))\<rparr>\<rparr>"
  assume h: "\<forall>g. fmlookup (p_clients (g_pool g)) (fst kc) = Some (snd kc) \<longrightarrow> in_balance g (snd (h g))"
    and "fmlookup (p_clients (g_pool g)) (fst kc) = Some (snd kc)"
  then have "in_balance ?g (snd (h ?g))" by simp
  with even_bus [of g] show "in_balance g (snd (thenE (gact k op m d) h g))" by (auto intro: balance_trans)
qed

lemma from_getE: "(\<And>x. just_pooled kc (h x)) \<Longrightarrow> just_pooled kc (bindE (getE f) h)"
  by (simp add: just_pooled_def bindE_def tryE_def getE_def)

lemma from_on_client:
  assumes m: "keeps same_books m" and e: "\<And>e. keeps in_balance (f e)" and x: "\<And>x. once_used kc (k x)"
  shows "just_pooled kc (or_reply (on_client kc m) f k)"
  unfolding just_pooled_def
proof (intro allI impI)
  fix g :: gw assume kc: "fmlookup (p_clients (g_pool g)) (fst kc) = Some (snd kc)"
  obtain r t where t: "m \<lparr>v_cl = snd kc, v_w = g_w g\<rparr> = (r, t)" by fastforce
  let ?g = "g\<lparr>g_pool := pool_put (fst kc) (v_cl t) (g_pool g), g_w := v_w t\<rparr>"
  have run: "on_client kc m g = (r, ?g)" by (simp add: on_client_def t)
  have "sessions (v_w t) - held (v_cl t) = sessions (g_w g) - held (snd kc)"
    using keepsD [OF m t] by (simp add: same_books_def)
  then have ev: "in_balance g ?g"
    using kc by (simp add: in_balance_def gw_books_def pool_put_def pool_held_upd held_at_def)
  have key: "fmlookup (p_clients (g_pool ?g)) (fst kc) \<noteq> None" by (simp add: pool_put_def)
  have err: "keeps in_balance (bindE (f e) failE)" for e
    by (intro keeps_bindE e keeps_failE) simp_all
  show "in_balance g (snd (or_reply (on_client kc m) f k g))"
  proof (cases r)
    case (Inl y)
    with ev err [of y] show ?thesis by (auto simp: or_reply_run run keeps_def intro: balance_trans)
  next
    case (Inr y)
    with ev key x [of y] show ?thesis by (auto simp: or_reply_run run once_used_def intro: balance_trans)
  qed
qed

lemma at_client_now: "(\<And>kc. just_pooled kc (k kc)) \<Longrightarrow> once_used kc (bindE (client_now kc) k)"
  by (auto simp: once_used_def just_pooled_def client_now_def bindE_def tryE_def getE_def split: option.split)

lemma even_pooled:
  assumes e: "\<And>e. keeps in_balance (f e)" and k: "\<And>kc. just_pooled kc (k kc)"
  shows "keeps in_balance (or_reply (pooled G vc) f k)"
  unfolding keeps_def
proof
  fix g :: gw
  obtain r p w where pl: "pool_For (ge_vs G) vc (g_pool g, g_w g) = (r, p, w)" by (metis prod_cases3)
  let ?g = "g\<lparr>g_pool := p, g_w := w\<rparr>"
  have b: "in_balance g ?g" using pool_For_books [OF pl] by (simp add: in_balance_def gw_books_def pool_books_def)
  have err: "keeps in_balance (bindE (f e) failE)" for e by (intro keeps_bindE e keeps_failE) simp_all
  show "in_balance g (snd (or_reply (pooled G vc) f k g))"
  proof (cases r)
    case (Inl y)
    with b err [of y] show ?thesis by (auto simp: or_reply_run pooled_def pl keeps_def intro: balance_trans)
  next
    case (Inr c)
    with pool_For_books [OF pl] k [of "(vc_ID vc, c)"] have "in_balance ?g (snd (k (vc_ID vc, c) ?g))" by (simp add: just_pooled_def)
    with b Inr show ?thesis by (auto simp: or_reply_run pooled_def pl intro: balance_trans)
  qed
qed

lemma even_pooled_for_uuid:
  assumes e: "\<And>e. keeps in_balance (f e)" and k: "\<And>kc. just_pooled kc (k kc)"
  shows "keeps in_balance (or_reply (pooled_for_uuid G u) f k)"
  unfolding keeps_def
proof
  fix g :: gw
  have err: "keeps in_balance (bindE (f e) failE)" for e by (intro keeps_bindE e keeps_failE) simp_all
  obtain r m p w where cl: "ClientForUUID (ge_vs G) (g_store g) u (g_pool g, g_w g) = (r, m, p, w)" by (metis prod_cases4)
  let ?g = "g\<lparr>g_pool := p, g_w := w\<rparr>"
  have "store_ok (g_store g) \<Longrightarrow> pool_books (p, w) = pool_books (g_pool g, g_w g) \<and>
      (\<forall>c. r = Inr c \<longrightarrow> (\<exists>mp. m = Some mp \<and> fmlookup (p_clients p) (mp_VCenterID mp) = Some c))"
    using cl store_secret_ok [of "g_store g"]
    by (auto simp: ClientForUUID_def split: option.splits prod.splits dest!: pool_For_books)
  then have b: "in_balance g ?g" and key: "store_ok (g_store g) \<Longrightarrow> r = Inr c \<Longrightarrow>
      \<exists>mp. m = Some mp \<and> fmlookup (p_clients p) (mp_VCenterID mp) = Some c" for c
    by (auto simp: in_balance_def gw_books_def pool_books_def)
  show "in_balance g (snd (or_reply (pooled_for_uuid G u) f k g))"
  proof (cases r)
    case (Inl y)
    with b err [of y] show ?thesis by (auto simp: or_reply_run pooled_for_uuid_def cl keeps_def intro: balance_trans)
  next
    case (Inr c)
    show ?thesis
    proof (cases "store_ok (g_store g)")
      case True
      with key Inr obtain mp where mp: "m = Some mp" "fmlookup (p_clients p) (mp_VCenterID mp) = Some c" by blast
      with k [of "(mp_VCenterID mp, c)"] have "in_balance ?g (snd (k (mp_VCenterID mp, c) ?g))" by (simp add: just_pooled_def)
      with b Inr mp(1) show ?thesis by (auto simp: or_reply_run pooled_for_uuid_def cl intro: balance_trans)
    qed (simp add: in_balance_def)
  qed
qed

section \<open>The Redfish server\<close>

lemma even_clientFor [even_intro]: "(\<And>kc. just_pooled kc (k kc)) \<Longrightarrow> keeps in_balance (clientFor G u k)"
  unfolding clientFor_def by (rule even_pooled_for_uuid) (intro keeps_intro even_intro even_preorder)

lemma even_ret [even_intro]: "keeps in_balance (retE x)" "keeps in_balance (failE y)"
  by (simp_all add: keeps_retE keeps_failE)

lemma even_apply_change [even_intro]: "keeps same_books m \<Longrightarrow> keeps in_balance (apply_change G sid op message detail m)"
  unfolding apply_change_def
  by (intro even_clientFor from_gact from_on_client once_used_even keeps_thenE even_intro even_preorder)

lemma even_systemGet [even_intro]: "keeps in_balance (systemGet G sid)"
  unfolding systemGet_def
  by (intro even_clientFor from_on_client books_GetSystem once_used_even keeps_thenE even_intro even_preorder)

lemma even_virtualMediaCd [even_intro]: "keeps in_balance (virtualMediaCd G rq sid)"
  unfolding virtualMediaCd_def Let_def
  by (auto intro!: even_intro just_pooled_even split: prod.split)

lemma even_unless_dry [even_intro]: "keeps in_balance k \<Longrightarrow> keeps in_balance (unless_dry sid op message detail k)"
  unfolding unless_dry_def by (intro keeps_intro even_intro even_preorder)

lemma even_patchBoot [even_intro]: "keeps in_balance (patchBoot G sid b)"
  unfolding patchBoot_def Let_def by (intro keeps_if even_intro books_intro)

lemma even_rf_handle [even_intro]: "keeps in_balance (rf_handle G rq op)"
proof (cases op)
  case (RfReset sid)
  then show ?thesis
    by (auto simp: systemReset_def Let_def split: prod.split option.split intro!: even_intro books_intro)
next
  case (RfInsert sid)
  then show ?thesis
    by (auto simp: rf_insertMedia_def Let_def split: prod.split option.split intro!: even_intro books_intro)
next
  case (RfEject sid)
  then show ?thesis by (auto simp: rf_ejectMedia_def Let_def intro!: even_intro books_intro)
next
  case (RfPatch sid)
  then show ?thesis by (auto simp: systemPatch_def split: prod.split option.split intro!: even_intro)
qed (auto simp: serviceRoot_def systemsCollection_def systemVirtualMediaCollection_def ethernetInterfaces_def managersCollection_def
    managerVirtualMediaCollection_def managerGet_def split: option.split intro!: even_intro keeps_intro)

lemma even_rf_route: "keeps in_balance (rf_route G rq)"
  unfolding rf_route_def Let_def by (intro keeps_thenE even_intro even_preorder)

section \<open>The admin API\<close>

lemma even_pooled_client:
  assumes "keeps same_books m" "\<And>e. keeps in_balance (f e)" "\<And>e. keeps in_balance (f' e)" "\<And>x. keeps in_balance (k x)"
  shows "keeps in_balance (or_reply (pooled G vc) f (\<lambda>kc. or_reply (on_client kc m) f' k))"
  by (intro even_pooled from_on_client once_used_even assms)

lemma even_isoStatus [even_intro]: "keeps in_balance (isoStatus A vid)"
  unfolding isoStatus_def with_secret_def
  by (intro keeps_bindE keeps_case_option even_pooled from_getE from_on_client once_used_even books_intro even_intro even_preorder)

lemma even_vcFolderVMs [even_intro]: "keeps in_balance (vcFolderVMs A vid)"
  unfolding vcFolderVMs_def with_secret_def
  by (intro keeps_bindE keeps_thenE keeps_if keeps_case_option even_pooled_client books_intro even_intro even_preorder)

lemma even_mappingStatus [even_intro]: "keeps in_balance (api_mappingStatus A uuid)"
  unfolding api_mappingStatus_def
  by (intro keeps_thenE even_pooled_for_uuid from_on_client once_used_even books_intro even_intro even_preorder)

lemma even_mappingPower [even_intro]: "keeps in_balance (api_mappingPower A rq uuid)"
proof -
  have status: "just_pooled kc (or_reply (on_client kc (MappingStatus E u)) (\<lambda>e. retE (f e)) (\<lambda>st. retE (h st)))" for kc E u f h
    by (intro from_on_client once_used_even books_intro even_intro)
  show ?thesis
    unfolding api_mappingPower_def with_body_def Let_def
    by (auto split: prod.split option.split
        intro!: even_pooled_for_uuid from_gact from_on_client at_client_now status books_intro even_intro keeps_bindE keeps_thenE)
qed

lemma even_run_test [even_intro]: "keeps in_balance (run_test A vc)"
  unfolding run_test_def Let_def by (intro keeps_intro even_intro even_preorder)

lemma even_tests [even_intro]: "keeps in_balance (testVCenterBody A rq vc)" "keeps in_balance (testVCenter A rq vid)"
proof -
  show b: "keeps in_balance (testVCenterBody A rq vc)" for rq vc
    unfolding testVCenterBody_def by (auto split: prod.split option.split intro!: even_intro)
  show "keeps in_balance (testVCenter A rq vid)"
    unfolding testVCenter_def with_secret_def by (intro keeps_intro even_intro b even_preorder)
qed

lemma api_in_balance:
  assumes "mirrored A" "ids_random (ap_gw A)" "(pat, h) \<in> set (api_routes A)"
  shows "keeps in_balance (h rq)"
proof -
  note w = even_write stays_ok_writes stays_ok_new_ids [OF assms(2)]
  have "keeps in_balance (api_status A rq)" "keeps in_balance (api_settings A rq)" "keeps in_balance (api_activity A rq)"
    "keeps in_balance (api_vcenters A rq)" "keeps in_balance (api_vcenterItem A rq)" "keeps in_balance (api_mappings A rq)"
    "keeps in_balance (api_mappingItem A rq)"
    unfolding api_status_def api_settings_def api_activity_def api_vcenters_def api_vcenterItem_def vcHealth_def
      vcDryRun_def vcenter_root_def putVCenter_def deleteVCenter_def synced_reply_def not_allowed_def
      api_mappings_def api_mappingItem_def mapping_root_def with_body_def with_secret_def stored_def Let_def
    by (intro keeps_intro even_intro even_preorder w assms(1))+
  with assms(3) show ?thesis by (auto simp: api_routes_def)
qed

section \<open>The process\<close>

lemma redfish_in_balance: "(pat, h) \<in> set (redfish_routes G) \<Longrightarrow> keeps in_balance (h rq)"
  by (auto simp: redfish_routes_def rf_redirect_def intro: even_rf_route even_ret)

lemma process_in_balance:
  assumes "mirrored A" "ids_random (ap_gw A)" "listener_mux (process_routes E cfg A) lst = Some mux"
  shows "in_balance g (snd (mux_serve E mux rq g))"
proof -
  have m: "mux = gt_main (process_routes E cfg A) \<or> gt_token (process_routes E cfg A) = Some mux \<or> gt_ui (process_routes E cfg A) = Some mux"
    using assms(3) by (auto simp: listener_mux_def split: listener.splits)
  have "keeps in_balance (h rq)" if "(pat, h) \<in> set mux" for pat h
    using process_routes_set [OF m that] api_in_balance [OF assms(1,2)] redfish_in_balance
    by (auto simp: healthz_def index_page_def split: sum.split intro: even_ret)
  then have "keeps in_balance (mux_handler (gm_url E) mux rq)" by (intro mux_handler_keeps even_preorder)
  then show ?thesis by (simp add: run_mux keeps_def)
qed

lemma Startup_in_balance: "ids_random (sy_gw S) \<Longrightarrow> keeps in_balance (Startup S)"
proof -
  assume r: "ids_random (sy_gw S)"
  note w = even_write stays_ok_new_ids [OF r]
  have applied1: "keeps in_balance (apply_cm S cm)" for cm
    unfolding apply_cm_def sync_credentials_def sync_write_def Let_def
    by (intro keeps_intro even_intro map_errE_keeps w even_preorder)
  have applied: "keeps in_balance (apply_all S cms)" for cms
    by (induction cms) (simp_all, (intro keeps_intro even_intro applied1 even_preorder; assumption)+)
  have exp1: "keeps in_balance (export_one S vc)" for vc
    unfolding export_one_def by (intro keeps_intro even_intro even_frame [OF export_frame] even_preorder)
  have exp: "keeps in_balance (export_all S ids vcs)" for ids vcs
    by (induction vcs) (auto intro!: keeps_intro exp1 even_preorder)
  show "keeps in_balance (Startup S)"
    unfolding Startup_def by (intro keeps_intro even_intro map_errE_keeps applied exp even_preorder)
qed

lemma start_in_balance:
  assumes "ids_random (gm_gw E)"
  shows "keeps in_balance (seed E)" "keeps in_balance (start_api E cfg)" "keeps in_balance (announce E cfg)"
proof -
  have "keeps in_balance (startVCenterSync E mode)" for mode
    unfolding startVCenterSync_def Let_def
    by (intro keeps_intro even_intro Startup_in_balance even_preorder) (simp add: assms)
  then show "keeps in_balance (start_api E cfg)" unfolding start_api_def Let_def by (intro keeps_intro even_preorder)
  show "keeps in_balance (seed E)" "keeps in_balance (announce E cfg)"
    unfolding seed_def announce_def by (intro keeps_intro even_intro even_write stays_ok_new_ids assms even_preorder)+
qed

lemma start_books:
  assumes "gateway_main E path = Inr (cfg, A, gt, st)" "ids_random (gm_gw E)"
  shows "gw_books (st_gw st) = 0"
proof -
  obtain s g1 g2 where m: "store_Open (gm_open E) (path_Join [cf_DataDir cfg, ''state.json'']) (gm_file E (path_Join [cf_DataDir cfg, ''state.json''])) = Inr s"
    "g1 = snd (seed E (initial_gw E cfg s))" "start_api E cfg g1 = (Inr A, g2)" "gt = process_routes E cfg A"
    "st_gw st = snd (announce E cfg g2)"
    using assms(1) by (rule gateway_main_Inr)
  have "store_ok (g_store (initial_gw E cfg s))" "gw_books (initial_gw E cfg s) = 0"
    using store_ok_Open [OF m(1)]
    by (simp_all add: initial_gw_def gw_books_def sessions_def opened_def closed_def given_up_def pool_held_def NewPool_def)
  with start_in_balance(1) [OF assms(2)] have "store_ok (g_store g1) \<and> gw_books g1 = 0"
    by (simp add: m(2) keeps_def in_balance_def)
  with keepsD [OF start_in_balance(2) [OF assms(2)] m(3)] have "store_ok (g_store g2) \<and> gw_books g2 = 0"
    by (simp add: in_balance_def)
  with start_in_balance(3) [OF assms(2)] show ?thesis by (simp add: m(5) keeps_def in_balance_def)
qed

lemma process_reach_books:
  assumes "process_reach E gt st0 st" "gateway_main E path = Inr (cfg, A, gt, st0)" "ids_random (gm_gw E)"
  shows "gw_books (st_gw st) = 0"
  using assms
proof induction
  case start
  then show ?case using start_books by blast
next
  case (request st lst rq rep st')
  from gateway_main_ok [OF request.prems] have A: "mirrored A" "ap_gw A = gm_gw E" "gt = process_routes E cfg A" by auto
  have "in_balance (st_gw st) (st_gw st')"
    using process_serve_cases(3) [OF request.hyps(2)]
  proof (elim disjE exE)
    assume "only_bus (st_gw st) (st_gw st') \<and> rp_Code rep \<in> {401, 403, 503}"
    then show ?thesis by (simp add: through_only_bus [OF even_through])
  next
    fix mux rq' g1
    assume "listener_mux gt lst = Some mux \<and> (exempt rq \<or> let_in E (st_creds st) lst rq st) \<and> same_request rq rq'
       \<and> only_bus (st_gw st) g1 \<and> mux_serve E mux rq' g1 = (rep, st_gw st')"
    then have m: "listener_mux gt lst = Some mux" "only_bus (st_gw st) g1" "mux_serve E mux rq' g1 = (rep, st_gw st')" by simp_all
    from process_in_balance [OF A(1) _ m(1) [unfolded A(3)], of g1 rq'] A(2) request.prems(2) m(3)
    have "in_balance g1 (st_gw st')" by simp
    with through_only_bus [OF even_through m(2)] show ?thesis by (rule balance_trans)
  qed
  with request.IH [OF request.prems] process_reach_ok [OF request.hyps(1) request.prems] show ?case
    by (simp add: in_balance_def)
next
  case (time st t)
  from time.IH [OF time.prems] show ?case by (simp add: gw_books_def sessions_def)
qed

end
