(* ===== verification/Go_Net.thy ===== *)
theory Go_Net
  imports Gw_Prelude
begin

text \<open>
  Go's \<open>net.SplitHostPort\<close>, \<open>net.ParseIP\<close> and \<open>net.IP.IsLoopback\<close>, as the check of the dashboard's listener
  uses them, and what they make of an IPv4 address written in the usual way. An IP is its sixteen bytes.
\<close>

section \<open>Host and port\<close>

text \<open>Before and after the last occurrence of a character.\<close>

definition cut_last :: "char \<Rightarrow> string \<Rightarrow> (string \<times> string) option" where
  "cut_last c s = (if c \<notin> set s then None
     else let after = rev (takeWhile (\<lambda>x. x \<noteq> c) (rev s)) in Some (take (length s - Suc (length after)) s, after))"

text \<open>The reason of the \<open>net.AddrError\<close>, or host and port.\<close>

definition SplitHostPort :: "string \<Rightarrow> string + (string \<times> string)" where
  "SplitHostPort s = (case cut_last CHR '':'' s of
       None \<Rightarrow> Inl ''missing port in address''
     | Some (ahead, port) \<Rightarrow>
        if hd s = CHR ''['' then
          (case CutChar s CHR '']'' of (front, behind, found) \<Rightarrow>
            if \<not> found then Inl (''missing '' @ [CHR 0x27] @ '']'' @ [CHR 0x27] @ '' in address'')
            else if behind = [] then Inl ''missing port in address''
            else if length front + 1 \<noteq> length ahead then
              (if hd behind = CHR '':'' then Inl ''too many colons in address'' else Inl ''missing port in address'')
            else if CHR ''['' \<in> set (tl s) then Inl (''unexpected '' @ [CHR 0x27] @ ''['' @ [CHR 0x27] @ '' in address'')
            else if CHR '']'' \<in> set behind then Inl (''unexpected '' @ [CHR 0x27] @ '']'' @ [CHR 0x27] @ '' in address'')
            else Inr (tl front, port))
        else if CHR '':'' \<in> set ahead then Inl ''too many colons in address''
        else if CHR ''['' \<in> set s then Inl (''unexpected '' @ [CHR 0x27] @ ''['' @ [CHR 0x27] @ '' in address'')
        else if CHR '']'' \<in> set s then Inl (''unexpected '' @ [CHR 0x27] @ '']'' @ [CHR 0x27] @ '' in address'')
        else Inr (ahead, port))"

section \<open>IP addresses\<close>

definition digit_val :: "char \<Rightarrow> nat option" where
  "digit_val c = (let n = of_char c :: nat in if 48 \<le> n \<and> n \<le> 57 then Some (n - 48) else None)"

definition hex_val :: "char \<Rightarrow> nat option" where
  "hex_val c = (let n = of_char c :: nat in
     if 48 \<le> n \<and> n \<le> 57 then Some (n - 48)
     else if 97 \<le> n \<and> n \<le> 102 then Some (n - 87)
     else if 65 \<le> n \<and> n \<le> 70 then Some (n - 55) else None)"

definition number :: "nat \<Rightarrow> nat list \<Rightarrow> nat" where
  "number base ds = fold (\<lambda>d v. base * v + d) ds 0"

text \<open>An octet: digits without a leading zero, at most 255.\<close>

definition v4_octet :: "string \<Rightarrow> nat option" where
  "v4_octet p = (let ds = map digit_val p in
     if p = [] \<or> None \<in> set ds then None
     else if hd p = CHR ''0'' \<and> length p \<noteq> 1 then None
     else let v = number 10 (map the ds) in if v \<le> 255 then Some v else None)"

definition v4_fields :: "string \<Rightarrow> nat list option" where
  "v4_fields s = (let fs = map v4_octet (SplitChar CHR ''.'' s) in
     if length fs = 4 \<and> None \<notin> set fs then Some (map the fs) else None)"

text \<open>
  The groups of an IPv6 address: the bytes so far and where the \<open>::\<close> was. The address may end in
  the four fields of an IPv4 address.
\<close>

function v6_groups :: "string \<Rightarrow> nat list \<Rightarrow> nat option \<Rightarrow> (nat list \<times> nat option) option" where
  "v6_groups s ip gap =
     (if 16 \<le> length ip then (if s = [] then Some (ip, gap) else None)
      else let hex = takeWhile (\<lambda>c. hex_val c \<noteq> None) s; rest = drop (length hex) s;
               v = number 16 (map (the \<circ> hex_val) hex); ip' = ip @ [v div 256, v mod 256] in
        if hex = [] \<or> 4 < length hex then None
        else if rest = [] then Some (ip', gap)
        else if hd rest = CHR ''.'' then
          (if gap = None \<and> length ip \<noteq> 12 \<or> 16 < length ip + 4 then None
           else map_option (\<lambda>f. (ip @ f, gap)) (v4_fields s))
        else if hd rest \<noteq> CHR '':'' \<or> tl rest = [] then None
        else if hd (tl rest) \<noteq> CHR '':'' then v6_groups (tl rest) ip' gap
        else if gap \<noteq> None then None
        else if tl (tl rest) = [] then Some (ip', Some (length ip'))
        else v6_groups (tl (tl rest)) ip' (Some (length ip')))"
  by pat_completeness auto

lemma drop_shorter: "n \<noteq> 0 \<Longrightarrow> drop n s \<noteq> [] \<Longrightarrow> length (tl (drop n s)) < length s \<and> length (tl (tl (drop n s))) < length s"
  by (cases s) auto

termination v6_groups
  by (relation "measure (\<lambda>(s, ip, gap). length s)") (use drop_shorter in \<open>force+\<close>)

declare v6_groups.simps [simp del]

definition parse_v6 :: "string \<Rightarrow> nat list option" where
  "parse_v6 s = (if CHR ''%'' \<in> set s then None
     else if s = ''::'' then Some (replicate 16 0)
     else case (if HasPrefix s ''::'' then v6_groups (drop 2 s) [] (Some 0) else v6_groups s [] None) of
       None \<Rightarrow> None
     | Some (ip, None) \<Rightarrow> if length ip = 16 then Some ip else None
     | Some (ip, Some gap) \<Rightarrow> if length ip = 16 then None else Some (take gap ip @ replicate (16 - length ip) 0 @ drop gap ip))"

definition v4_mapped :: "nat list \<Rightarrow> nat list" where
  "v4_mapped f = replicate 10 0 @ [255, 255] @ f"

text \<open>Which of the three comes first decides how the text is read; a zone makes it none.\<close>

definition ParseIP :: "string \<Rightarrow> nat list option" where
  "ParseIP s = (case dropWhile (\<lambda>c. c \<notin> {CHR ''.'', CHR '':'', CHR ''%''}) s of
       [] \<Rightarrow> None
     | c # _ \<Rightarrow> if c = CHR ''.'' then map_option v4_mapped (v4_fields s)
         else if c = CHR '':'' then parse_v6 s else None)"

definition IsLoopback :: "nat list \<Rightarrow> bool" where
  "IsLoopback ip \<longleftrightarrow> (if take 12 ip = v4_mapped [] then ip ! 12 = 127 else ip = replicate 15 0 @ [1])"

section \<open>IPv4 addresses as they are written\<close>

definition dotted :: "nat \<Rightarrow> nat \<Rightarrow> nat \<Rightarrow> nat \<Rightarrow> string" where
  "dotted a b c d = nat_digits a @ ''.'' @ nat_digits b @ ''.'' @ nat_digits c @ ''.'' @ nat_digits d"

lemma number_snoc [simp]: "number base (ds @ [d]) = base * number base ds + d"
  by (simp add: number_def)

lemma digit_val_char [simp]: "d < 10 \<Longrightarrow> digit_val (char_of (48 + d)) = Some d"
  by (simp add: digit_val_def)

lemma nat_digits_vals: "None \<notin> set (map digit_val (nat_digits n)) \<and> number 10 (map (the \<circ> digit_val) (nat_digits n)) = n"
proof (induction n rule: nat_digits.induct)
  case (1 n)
  show ?case
  proof (cases "n < 10")
    case True
    then show ?thesis by (simp add: nat_digits.simps [of n] number_def)
  next
    case False
    then show ?thesis using 1 by (simp add: nat_digits.simps [of n])
  qed
qed

lemma nat_digits_lead: "nat_digits n \<noteq> [] \<and> (n \<noteq> 0 \<longrightarrow> hd (nat_digits n) \<noteq> CHR ''0'')"
proof (induction n rule: nat_digits.induct)
  case (1 n)
  show ?case
  proof (cases "n < 10")
    case True
    then have "char_of (48 + n) = CHR ''0'' \<Longrightarrow> n = 0" using digit_val_char [of n] by (simp add: digit_val_def)
    with True show ?thesis by (auto simp: nat_digits.simps [of n])
  next
    case False
    with 1 have "nat_digits (n div 10) \<noteq> []" "hd (nat_digits (n div 10)) \<noteq> CHR ''0''" by (simp_all add: div_greater_zero_iff)
    with False show ?thesis by (simp add: nat_digits.simps [of n])
  qed
qed

lemma v4_octet_digits: "n \<le> 255 \<Longrightarrow> v4_octet (nat_digits n) = Some n"
  using nat_digits_vals [of n] nat_digits_lead [of n]
  by (cases "n = 0") (auto simp: v4_octet_def Let_def nat_digits.simps [of 0] number_def)

lemma digits_plain: "c \<in> set (nat_digits n) \<Longrightarrow> digit_val c \<noteq> None"
  using nat_digits_vals [of n] by force

lemma not_digit [simp]: "CHR ''.'' \<notin> set (nat_digits n)" "CHR '':'' \<notin> set (nat_digits n)" "CHR ''%'' \<notin> set (nat_digits n)"
    "CHR ''['' \<notin> set (nat_digits n)" "CHR '']'' \<notin> set (nat_digits n)" "CHR ''l'' \<notin> set (nat_digits n)"
  using digits_plain by (force simp: digit_val_def)+

lemma ParseIP_dotted:
  assumes "a \<le> 255" "b \<le> 255" "c \<le> 255" "d \<le> 255"
  shows "ParseIP (dotted a b c d) = Some (v4_mapped [a, b, c, d])"
proof -
  have "SplitChar CHR ''.'' (dotted a b c d) = [nat_digits a, nat_digits b, nat_digits c, nat_digits d]"
    by (simp add: dotted_def SplitChar_append_sep SplitChar_no_sep)
  then have "v4_fields (dotted a b c d) = Some [a, b, c, d]"
    by (simp add: v4_fields_def v4_octet_digits assms Let_def)
  moreover have "dropWhile (\<lambda>x. x \<notin> {CHR ''.'', CHR '':'', CHR ''%''}) (nat_digits a @ CHR ''.'' # s) = CHR ''.'' # s" for s
  proof -
    have "\<forall>x \<in> set (nat_digits a). x \<notin> {CHR ''.'', CHR '':'', CHR ''%''}" using not_digit by auto
    then show ?thesis by (subst dropWhile_append2) auto
  qed
  ultimately show ?thesis by (simp add: ParseIP_def dotted_def)
qed

lemma IsLoopback_v4 [simp]: "IsLoopback (v4_mapped [a, b, c, d]) \<longleftrightarrow> a = 127"
  by (simp add: IsLoopback_def v4_mapped_def numeral_eq_Suc)

lemma v6_groups_loopback:
  "v6_groups ''1'' [] (Some 0) = Some ([0, 1], Some 0)"
  "v6_groups ''ffff:127.0.0.1'' [] (Some 0) = Some ([255, 255, 127, 0, 0, 1], Some 0)"
proof -
  have f: "v4_fields ''127.0.0.1'' = Some [127, 0, 0, 1]" by code_simp
  have v: "hex_val CHR ''f'' = Some 15" "hex_val CHR ''1'' = Some 1" "hex_val CHR ''2'' = Some 2" "hex_val CHR ''7'' = Some 7"
    "hex_val CHR ''.'' = None" "hex_val CHR '':'' = None" by code_simp+
  show "v6_groups ''1'' [] (Some 0) = Some ([0, 1], Some 0)"
    "v6_groups ''ffff:127.0.0.1'' [] (Some 0) = Some ([255, 255, 127, 0, 0, 1], Some 0)"
    by (simp_all add: v6_groups.simps v f number_def Let_def)
qed

lemma cut_last_plain: "c \<notin> set port \<Longrightarrow> cut_last c (s @ c # port) = Some (s, port)"
proof -
  assume "c \<notin> set port"
  then have "takeWhile (\<lambda>x. x \<noteq> c) (rev port @ c # rev s) = rev port" by (subst takeWhile_append2) auto
  then show ?thesis by (simp add: cut_last_def)
qed

text \<open>\<open>plain\<close>: without a colon or a bracket.\<close>

definition plain :: "string \<Rightarrow> bool" where
  "plain s \<longleftrightarrow> CHR '':'' \<notin> set s \<and> CHR ''['' \<notin> set s \<and> CHR '']'' \<notin> set s"

lemma SplitHostPort_plain: "plain host \<Longrightarrow> plain port \<Longrightarrow> SplitHostPort (host @ CHR '':'' # port) = Inr (host, port)"
proof -
  assume p: "plain host" "plain port"
  then have "cut_last CHR '':'' (host @ CHR '':'' # port) = Some (host, port)" by (simp add: cut_last_plain plain_def)
  moreover have "hd (host @ CHR '':'' # port) \<noteq> CHR ''[''" using p(1) by (cases host) (auto simp: plain_def)
  ultimately show ?thesis using p by (simp add: SplitHostPort_def plain_def)
qed

lemma SplitHostPort_bracketed:
  assumes "CHR ''['' \<notin> set host" "CHR '']'' \<notin> set host" "plain port"
  shows "SplitHostPort (''['' @ host @ '']:'' @ port) = Inr (host, port)"
proof -
  have "CutChar (CHR ''['' # host @ CHR '']'' # CHR '':'' # port) CHR '']'' = (CHR ''['' # host, CHR '':'' # port, True)"
  proof -
    have "takeWhile (\<lambda>x. x \<noteq> CHR '']'') (host @ CHR '']'' # CHR '':'' # port) = host"
      using assms(2) by (subst takeWhile_append2) auto
    then show ?thesis by (simp add: CutChar_def)
  qed
  moreover have "cut_last CHR '':'' (CHR ''['' # host @ CHR '']'' # CHR '':'' # port) = Some (CHR ''['' # host @ '']'', port)"
    using cut_last_plain [of "CHR '':''" port "CHR ''['' # host @ '']''"] assms by (simp add: plain_def)
  ultimately show ?thesis using assms by (simp add: SplitHostPort_def plain_def)
qed

lemma plain_dotted [simp]: "plain (dotted a b c d)"
  by (simp add: plain_def dotted_def)

end
