(* ===== verification/Gateway_Life.thy ===== *)
theory Gateway_Life
  imports Gateway_Demo Gateway_Sessions Go_Net
begin

text \<open>
  How the process listens and how it ends (\<open>cmd/gateway/main.go\<close>, \<open>warnIfNotLoopback\<close> in \<open>auth.go\<close>): the
  listeners with their certificates, what each writes to the log when it starts, and what is left of the
  sessions at vCenter while the process runs and after it ended.
\<close>

section \<open>Listeners\<close>

record listening =
  ls_Which :: listener
  ls_Addr :: string
  ls_TLS :: "(string \<times> string) option"

text \<open>A certificate is used only with its key; the dashboard's listener never has one.\<close>

definition tls_pair :: "string \<Rightarrow> string \<Rightarrow> (string \<times> string) option" where
  "tls_pair cert key = (if cert \<noteq> [] \<and> key \<noteq> [] then Some (cert, key) else None)"

definition process_listeners :: "config \<Rightarrow> listening list" where
  "process_listeners cfg =
     (if cf_APIListen cfg = [] then []
      else [\<lparr>ls_Which = TokenListener, ls_Addr = cf_APIListen cfg, ls_TLS = tls_pair (cf_APITLSCertFile cfg) (cf_APITLSKeyFile cfg)\<rparr>])
   @ (if cf_UIListen cfg = [] then [] else [\<lparr>ls_Which = UIListener, ls_Addr = cf_UIListen cfg, ls_TLS = None\<rparr>])
   @ [\<lparr>ls_Which = MainListener, ls_Addr = cf_Listen cfg, ls_TLS = tls_pair (cf_TLSCertFile cfg) (cf_TLSKeyFile cfg)\<rparr>]"

section \<open>The log\<close>

definition warnIfNotLoopback :: "string \<Rightarrow> string list" where
  "warnIfNotLoopback addr = (case SplitHostPort addr of
       Inl _ \<Rightarrow> [''WARNING: uiListen '' @ go_quote addr @ '' is not host:port'']
     | Inr (host, _) \<Rightarrow>
         if host = ''localhost'' \<or> (case ParseIP host of None \<Rightarrow> False | Some ip \<Rightarrow> IsLoopback ip) then []
         else [''WARNING: uiListen '' @ go_quote addr @
           '' is not loopback; X-Forwarded-User can be forged by anything that reaches it''])"

definition show_bool :: "bool \<Rightarrow> string" where
  "show_bool b = (if b then ''true'' else ''false'')"

text \<open>What each listener's goroutine (for the dashboard, with the line before it) logs as it starts to listen.\<close>

definition listener_log :: "process_env \<Rightarrow> config \<Rightarrow> store \<Rightarrow> resource_attributes \<Rightarrow> listening \<Rightarrow> string list" where
  "listener_log E cfg s attrs l = (case ls_Which l of
       TokenListener \<Rightarrow> (case ls_TLS l of
           Some _ \<Rightarrow> [''/api on '' @ ls_Addr l @ '' (TLS): Kubernetes bearer tokens that may '' @ attributes_String attrs]
         | None \<Rightarrow> [''WARNING: /api on '' @ ls_Addr l @ '' is plain HTTP; bearer tokens travel unencrypted''])
     | UIListener \<Rightarrow> warnIfNotLoopback (ls_Addr l) @ [''dashboard + API on '' @ ls_Addr l @ '' (identity from oauth-proxy)'']
     | MainListener \<Rightarrow> (case Stats s of (vc, mp) \<Rightarrow>
         (''rf2vc '' @ gm_version E @ '' listening on '' @ ls_Addr l @ '' (dataDir='' @ cf_DataDir cfg @ '' vcenters='' @ show_int (int vc)
            @ '' mappings='' @ show_int (int mp) @ '' dryRun='' @ show_bool (set_DryRun (GetSettings s)) @ '')'')
         # (if ls_TLS l = None then [''WARNING: serving plain HTTP (TLS at Route/HAProxy)''] else [])))"

section \<open>The end\<close>

text \<open>A signal stops the process; so does a listener that cannot go on, with the error it ends with.\<close>

datatype process_end = Signalled | ListenerFailed listener string

definition fatal_prefix :: "listener \<Rightarrow> string" where
  "fatal_prefix lst = (case lst of TokenListener \<Rightarrow> ''api listen: '' | UIListener \<Rightarrow> ''ui listen: '' | MainListener \<Rightarrow> ''listen: '')"

text \<open>Exit code, log and what is left: \<open>log.Fatalf\<close> exits at once, only a signal lets \<open>main\<close> return.\<close>

definition process_exit :: "process_env \<Rightarrow> string list \<Rightarrow> process_end \<Rightarrow> process_state \<Rightarrow> int \<times> string list \<times> process_state" where
  "process_exit E order why st = (case why of
       Signalled \<Rightarrow> (0, [], process_stop E order st)
     | ListenerFailed lst err \<Rightarrow> (1, [fatal_prefix lst @ err], st))"

text \<open>The part of it that the sessions need.\<close>

definition st_calls :: "process_state \<Rightarrow> hist" where
  "st_calls st = w_calls (g_w (st_gw st))"

definition open_clients :: "process_state \<Rightarrow> string set" where
  "open_clients st = (let m = p_clients (g_pool (st_gw st)) in
     {vid \<in> fmdom' m. \<exists>c. fmlookup m vid = Some c \<and> cl_connected c})"

section \<open>Listeners and their warnings\<close>

text \<open>
  The process has the listeners whose routes it set up. One that a password or a bearer token
  reaches without TLS warns when it starts; with a certificate and its key it does not.
\<close>

lemma process_listeners_mux:
  "(\<exists>l \<in> set (process_listeners cfg). ls_Which l = lst) \<longleftrightarrow> listener_mux (process_routes E cfg A) lst \<noteq> None"
  by (cases lst) (auto simp: process_listeners_def listener_mux_def process_routes_def Let_def)

lemma plain_listeners_are_announced:
  assumes "l \<in> set (process_listeners cfg)" "ls_Which l \<noteq> UIListener"
  shows "ls_TLS l = None \<longleftrightarrow> (\<exists>line \<in> set (listener_log E cfg s attrs l). HasPrefix line ''WARNING: '')"
  using assms by (cases "ls_Which l"; cases "Stats s") (auto simp: listener_log_def HasPrefix_def split: option.splits)

text \<open>
  C33: The dashboard's listener, which believes the identity in a header, is started without a warning on a
  loopback address and on no other: for every IPv4 address, written in the usual way, it warns unless the first
  byte is 127; it warns when no host is given, which is every interface, and when there is no port; it
  does not warn for ::1, for 127.0.0.1 written as IPv6, or for localhost.
\<close>

theorem dashboard_warning_is_exact:
  assumes "a \<le> 255" "b \<le> 255" "c \<le> 255" "d \<le> 255" "plain port"
  shows "(warnIfNotLoopback (dotted a b c d @ '':'' @ port) = [] \<longleftrightarrow> a = 127)
    \<and> warnIfNotLoopback ('':'' @ port) \<noteq> [] \<and> warnIfNotLoopback (dotted a b c d) \<noteq> []
    \<and> warnIfNotLoopback (''[::1]:'' @ port) = [] \<and> warnIfNotLoopback (''[::ffff:127.0.0.1]:'' @ port) = []
    \<and> warnIfNotLoopback (''localhost:'' @ port) = []"
proof -
  have split: "SplitHostPort (dotted a b c d @ '':'' @ port) = Inr (dotted a b c d, port)" "SplitHostPort ('':'' @ port) = Inr ([], port)"
    "SplitHostPort (''localhost'' @ '':'' @ port) = Inr (''localhost'', port)"
    using SplitHostPort_plain [OF plain_dotted assms(5)] SplitHostPort_plain [of "[]", OF _ assms(5)]
      SplitHostPort_plain [of "''localhost''", OF _ assms(5)] by (simp_all add: plain_def)
  have v6: "SplitHostPort (''[::1]'' @ '':'' @ port) = Inr (''::1'', port)"
    "SplitHostPort (''[::ffff:127.0.0.1]'' @ '':'' @ port) = Inr (''::ffff:127.0.0.1'', port)"
    using SplitHostPort_bracketed [of "''::1''", OF _ _ assms(5)] SplitHostPort_bracketed [of "''::ffff:127.0.0.1''", OF _ _ assms(5)]
    by simp_all
  have ip: "ParseIP [] = None" "ParseIP ''::1'' = Some (replicate 15 0 @ [1])" "ParseIP ''::ffff:127.0.0.1'' = Some (v4_mapped [127, 0, 0, 1])"
    by (simp_all add: ParseIP_def parse_v6_def HasPrefix_def v6_groups_loopback v4_mapped_def numeral_eq_Suc)
  have loop: "IsLoopback (replicate 15 0 @ [1])" by code_simp
  have "CHR ''.'' \<in> set (dotted a b c d)" by (simp add: dotted_def)
  then have "dotted a b c d \<noteq> ''localhost''" by auto
  then have v4: "warnIfNotLoopback (dotted a b c d @ '':'' @ port) = [] \<longleftrightarrow> a = 127"
    by (simp only: warnIfNotLoopback_def split) (simp add: ParseIP_dotted assms)
  have all: "warnIfNotLoopback ('':'' @ port) \<noteq> []" by (simp only: warnIfNotLoopback_def split) (simp add: ip)
  have none: "warnIfNotLoopback (dotted a b c d) \<noteq> []"
    using plain_dotted [of a b c d] by (simp add: warnIfNotLoopback_def SplitHostPort_def cut_last_def plain_def)
  have "warnIfNotLoopback (''[::1]'' @ '':'' @ port) = []" "warnIfNotLoopback (''[::ffff:127.0.0.1]'' @ '':'' @ port) = []"
    "warnIfNotLoopback (''localhost'' @ '':'' @ port) = []"
    by (simp_all only: warnIfNotLoopback_def split v6 sum.case prod.case ip option.case loop IsLoopback_v4 simp_thms if_True)
  with v4 all none show ?thesis by simp
qed

theorem dashboard_warning_is_exact_witness:
  "warnIfNotLoopback ''127.0.0.1:8081'' = [] \<and> warnIfNotLoopback ''10.0.0.1:8081'' \<noteq> []"
proof -
  have d: "dotted 127 0 0 (Suc 0) = ''127.0.0.1''" "dotted 10 0 0 (Suc 0) = ''10.0.0.1''" by code_simp+
  show ?thesis
    using dashboard_warning_is_exact [of 127 0 0 1 "''8081''"] dashboard_warning_is_exact [of 10 0 0 1 "''8081''"]
    by (simp add: d plain_def)
qed

section \<open>Every session is accounted for\<close>

lemma reach_ledger:
  assumes "gateway_main E path = Inr (cfg, A, gt, st0)" "ids_random (gm_gw E)" "process_reach E gt st0 st"
  shows "opened (st_calls st) = closed (st_calls st) + given_up (st_calls st) + card (open_clients st)"
  using process_reach_books [OF assms(3,1,2)]
  by (simp add: gw_books_def sessions_def pool_held_count st_calls_def open_clients_def Let_def)

text \<open>
  C14: Every session at vCenter is accounted for while the gateway runs. In every state that a started gateway
  reaches, whatever was asked of it and whatever failed on the way, the sessions opened (logins that succeeded) are
  those closed (logouts that succeeded), plus one for each logout that failed (the client forgets that session, which
  may still be open), plus exactly one for each client in the pool that is connected. So a session is lost in no
  other way than by a logout that fails.
\<close>

theorem every_session_is_accounted:
  assumes "gateway_main E path = Inr (cfg, A, gt, st0)" "ids_random (gm_gw E)" "process_reach E gt st0 st"
  shows "opened (st_calls st) = closed (st_calls st) + given_up (st_calls st) + card (open_clients st)"
  using assms by (rule reach_ledger)

text \<open>The gateway of \<open>Gateway_Demo\<close> after a request that logged in to vCenter and changed the boot order.\<close>

lemma demo_served:
  obtains st0 st where "gateway_main (demo_penv demo_config_env) ''f'' =
      Inr (demo_config, demo_psrv, process_routes (demo_penv demo_config_env) demo_config demo_psrv, st0)"
    "ids_random (gm_gw (demo_penv demo_config_env))"
    "process_reach (demo_penv demo_config_env) (process_routes (demo_penv demo_config_env) demo_config demo_psrv) st0 st"
    "(CSetBootOptions ''vm-1'' [BootDevice ''disk''], None) \<in> set (st_calls st)"
proof -
  obtain st0 where st0: "gateway_main (demo_penv demo_config_env) ''f'' = Inr (demo_config, demo_psrv, process_routes (demo_penv demo_config_env) demo_config demo_psrv, st0)"
    "demo_mapped (st_gw st0)" "st_creds st0 = gateway_credentials demo_config"
    using demo_start [OF demo_config _ demo_config_fields(2,3,4)] demo_config_fields(5) by (auto simp: demo_mapped_def demo_config_env_def)
  obtain rep st where s: "process_serve (demo_penv demo_config_env) (process_routes (demo_penv demo_config_env) demo_config demo_psrv) MainListener demo_login st0 = Some (rep, st)"
    "(CSetBootOptions ''vm-1'' [BootDevice ''disk''], None) \<in> set (w_calls (g_w (st_gw st)))"
    using demo_login_serve [OF st0(3,2)] .
  have r: "ids_random (gm_gw (demo_penv demo_config_env))" by (simp add: ids_random_def demo_penv_def demo_genv_def demo_env_def)
  show thesis by (rule that [OF st0(1) r process_reach.request [OF process_reach.start s(1)]]) (simp add: st_calls_def s(2))
qed

theorem every_session_is_accounted_witness:
  "\<exists>st. (CSetBootOptions ''vm-1'' [BootDevice ''disk''], None) \<in> set (st_calls st)
     \<and> opened (st_calls st) = closed (st_calls st) + given_up (st_calls st) + card (open_clients st)"
proof -
  obtain st0 st where st: "gateway_main (demo_penv demo_config_env) ''f'' = Inr (demo_config, demo_psrv, process_routes (demo_penv demo_config_env) demo_config demo_psrv, st0)"
    "ids_random (gm_gw (demo_penv demo_config_env))"
    "process_reach (demo_penv demo_config_env) (process_routes (demo_penv demo_config_env) demo_config demo_psrv) st0 st"
    "(CSetBootOptions ''vm-1'' [BootDevice ''disk''], None) \<in> set (st_calls st)"
    by (rule demo_served)
  from every_session_is_accounted [OF st(1-3)] st(4) show ?thesis by blast
qed

text \<open>Closing clients makes logouts and nothing else.\<close>

definition logs_out :: "hist \<Rightarrow> hist \<Rightarrow> bool" where
  "logs_out h t \<longleftrightarrow> (\<exists>l. t = h @ l \<and> list_all (\<lambda>(c, _). c = CLogout) l)"

lemma logs_out_trans: "logs_out a b \<Longrightarrow> logs_out b c \<Longrightarrow> logs_out a c"
  by (auto simp: logs_out_def)

lemma close_client_logs_out: "logs_out (w_calls w) (w_calls (close_client E c w))"
  by (auto simp: logs_out_def close_client_def client_Close_def io_simps do_call_def record_call_def Let_def split: sum.split)

lemma pool_CloseAll_logs_out: "logs_out (w_calls (snd pw)) (w_calls (snd (pool_CloseAll E order pw)))"
proof (induction order arbitrary: pw)
  case (Cons vid order)
  have "logs_out (w_calls (snd pw)) (w_calls (snd (pool_Invalidate E vid pw)))"
    using close_client_logs_out by (auto simp: pool_Invalidate_def logs_out_def split: prod.split option.split)
  with Cons.IH [of "pool_Invalidate E vid pw"] show ?case by (auto simp: pool_CloseAll_def intro: logs_out_trans)
qed (simp add: pool_CloseAll_def logs_out_def)

lemma logouts_count: "list_all (\<lambda>(c, _). c = CLogout) l \<Longrightarrow> opened (h @ l) = opened h \<and> closed (h @ l) + given_up (h @ l) = closed h + given_up h + length l"
  by (induction l arbitrary: h rule: rev_induct) (auto simp: opened_def closed_def given_up_def)

lemma process_stop_sessions:
  assumes "fmdom' (p_clients (g_pool (st_gw st))) \<subseteq> set order"
  shows "gw_books (st_gw (process_stop E order st)) = gw_books (st_gw st)"
    and "fmdom' (p_clients (g_pool (st_gw (process_stop E order st)))) = {}"
    and "logs_out (st_calls st) (st_calls (process_stop E order st))"
proof -
  let ?pw = "(g_pool (st_gw st), g_w (st_gw st))"
  obtain p w where pw: "pool_CloseAll (ge_vs (gm_gw E)) order ?pw = (p, w)" by fastforce
  then have st: "st_gw (process_stop E order st) = (st_gw st)\<lparr>g_pool := p, g_w := w\<rparr>" by (simp add: process_stop_def)
  from pool_CloseAll_books [of "ge_vs (gm_gw E)" order ?pw]
  show "gw_books (st_gw (process_stop E order st)) = gw_books (st_gw st)" by (simp add: st pw gw_books_def pool_books_def)
  from pool_CloseAll_logs_out [of ?pw "ge_vs (gm_gw E)" order]
  show "logs_out (st_calls st) (st_calls (process_stop E order st))" by (simp add: st pw st_calls_def)
  have "fmlookup (p_clients p) k = None" for k
    using pool_CloseAll_clients [of "ge_vs (gm_gw E)" order ?pw k] assms by (auto simp: pw fmdom'_notI intro!: fmdom'_notD)
  then show "fmdom' (p_clients (g_pool (st_gw (process_stop E order st)))) = {}" by (simp add: st fmdom'_alt_def fmlookup_dom_iff) (metis all_not_in_conv fmdom'_notI fmdom'_alt_def)
qed

text \<open>
  C17: A gateway that is stopped by a signal logs out of every session it holds: \<open>main\<close> returns with exit code 0,
  having made exactly one logout for each connected client, in whatever order it ranges over them, and no other
  call; no client is connected any more. Every session opened since the start has then been closed by a
  logout that succeeded, or given up by one that failed.
\<close>

theorem clean_stop_logs_every_client_out:
  assumes "gateway_main E path = Inr (cfg, A, gt, st0)" "ids_random (gm_gw E)" "process_reach E gt st0 st"
    and "iter_order order (p_clients (g_pool (st_gw st)))" "process_exit E order Signalled st = (code, lines, st')"
  shows "code = 0 \<and> open_clients st' = {}
    \<and> (\<exists>l. st_calls st' = st_calls st @ l \<and> length l = card (open_clients st) \<and> list_all (\<lambda>(c, _). c = CLogout) l)
    \<and> opened (st_calls st') = closed (st_calls st') + given_up (st_calls st')"
proof -
  have st': "st' = process_stop E order st" "code = 0" using assms(5) by (simp_all add: process_exit_def)
  have order: "fmdom' (p_clients (g_pool (st_gw st))) \<subseteq> set order" using assms(4) by (simp add: iter_order_def)
  note stop = process_stop_sessions [OF order, of E, folded st'(1)]
  have "gw_books (st_gw st') = 0" using stop(1) process_reach_books [OF assms(3,1,2)] by simp
  then have all: "opened (st_calls st') = closed (st_calls st') + given_up (st_calls st')"
    by (simp add: gw_books_def sessions_def st_calls_def pool_held_empty [OF stop(2)])
  from stop(3) obtain l where l: "st_calls st' = st_calls st @ l" "list_all (\<lambda>(c, _). c = CLogout) l" by (auto simp: logs_out_def)
  have "length l = card (open_clients st)"
    using logouts_count [OF l(2), of "st_calls st"] all reach_ledger [OF assms(1-3)] by (simp add: l(1))
  moreover have "open_clients st' = {}" using stop(2) by (simp add: open_clients_def Let_def)
  ultimately show ?thesis using l all st'(2) by blast
qed

theorem clean_stop_logs_every_client_out_witness:
  "\<exists>st order code lines st'. (CSetBootOptions ''vm-1'' [BootDevice ''disk''], None) \<in> set (st_calls st)
     \<and> process_exit (demo_penv demo_config_env) order Signalled st = (code, lines, st')
     \<and> opened (st_calls st') = closed (st_calls st') + given_up (st_calls st')"
proof -
  obtain st0 st where st: "gateway_main (demo_penv demo_config_env) ''f'' = Inr (demo_config, demo_psrv, process_routes (demo_penv demo_config_env) demo_config demo_psrv, st0)"
    "ids_random (gm_gw (demo_penv demo_config_env))"
    "process_reach (demo_penv demo_config_env) (process_routes (demo_penv demo_config_env) demo_config demo_psrv) st0 st"
    "(CSetBootOptions ''vm-1'' [BootDevice ''disk''], None) \<in> set (st_calls st)"
    by (rule demo_served)
  obtain order where o: "iter_order order (p_clients (g_pool (st_gw st)))" using iter_order_exists by blast
  obtain code lines st' where e: "process_exit (demo_penv demo_config_env) order Signalled st = (code, lines, st')" by (metis prod.collapse)
  from clean_stop_logs_every_client_out [OF st(1-3) o e] st(4) e show ?thesis by blast
qed

text \<open>
  A listener that fails ends the process at once (\<open>log.Fatalf\<close> runs no deferred function): every session that a
  pooled client holds at that moment stays open at vCenter until vCenter times it out.
\<close>

theorem failed_listener_leaves_sessions:
  assumes "gateway_main E path = Inr (cfg, A, gt, st0)" "ids_random (gm_gw E)" "process_reach E gt st0 st"
    and "process_exit E order (ListenerFailed lst err) st = (code, lines, st')"
  shows "code = 1 \<and> opened (st_calls st') = closed (st_calls st') + given_up (st_calls st') + card (open_clients st)"
  using reach_ledger [OF assms(1-3)] assms(4) by (simp add: process_exit_def)

end
