(* ===== verification/Remotessh.thy ===== *)
theory Remotessh
  imports Go_Net
begin

text \<open>
  The CI helper that runs one command on a remote host (\<open>scripts/ci/remotessh/main.go\<close>): arguments, key, the calls
  to the SSH library in their order, and the exit code. The library (\<open>golang.org/x/crypto/ssh\<close>), the
  environment and the key file are parameters; copying standard input, output and error is left out.
\<close>

section \<open>What it calls\<close>

datatype wait_result = WaitOk | WaitExit int | WaitError string

record ssh_env =
  sh_getenv :: "string \<Rightarrow> string"
  sh_ReadFile :: "string \<Rightarrow> string + string"
  sh_ParsePrivateKey :: "string \<Rightarrow> string + string"
  sh_Dial :: "string \<Rightarrow> string \<Rightarrow> string \<Rightarrow> string option"
  sh_NewSession :: "string option"
  sh_Start :: "string \<Rightarrow> string option"
  sh_Wait :: wait_result

text \<open>The calls made: the address, the user and the key of a connection, the command.\<close>

datatype scall = SDial string string string | SSession | SStart string | SWait | SCloseSession | SCloseClient

text \<open>An error is the exit code and what was written to standard error.\<close>

type_synonym 'a sio = "(scall list, int \<times> string, 'a) eio"

definition ssh_call :: "scall \<Rightarrow> unit sio" where
  "ssh_call c = modE (\<lambda>calls. calls @ [c])"

definition line :: "string \<Rightarrow> string" where
  "line s = s @ [CHR 0x0A]"

definition ssh_try :: "scall \<Rightarrow> string option \<Rightarrow> string \<Rightarrow> unit sio" where
  "ssh_try c e what = thenE (ssh_call c) (case e of None \<Rightarrow> retE () | Some err \<Rightarrow> failE (1, line (what @ '': '' @ err)))"

section \<open>The program\<close>

text \<open>The leading \<open>-i keyfile\<close> pairs; the last one counts.\<close>

fun take_identity :: "string \<Rightarrow> string list \<Rightarrow> string \<times> string list" where
  "take_identity identity (a # k # args) =
     (if a = ''-i'' then take_identity k args else (identity, a # k # args))"
| "take_identity identity args = (identity, args)"

definition loadSigner :: "ssh_env \<Rightarrow> string \<Rightarrow> string + string" where
  "loadSigner E identity =
     (if identity \<noteq> [] then (case sh_ReadFile E identity of Inl e \<Rightarrow> Inl e | Inr pem \<Rightarrow> sh_ParsePrivateKey E pem)
      else let v = TrimSpace (sh_getenv E ''PREVIEW_PROXY_SSH_KEY'') in
        if v \<noteq> [] then sh_ParsePrivateKey E v else Inl ''set -i keyfile or PREVIEW_PROXY_SSH_KEY'')"

definition dial_address :: "string \<Rightarrow> string" where
  "dial_address host = (if CHR '':'' \<in> set host then host else host @ '':22'')"

definition wait_end :: "ssh_env \<Rightarrow> unit sio" where
  "wait_end E = thenE (ssh_call SWait) (case sh_Wait E of
       WaitOk \<Rightarrow> retE ()
     | WaitExit n \<Rightarrow> failE (n, [])
     | WaitError e \<Rightarrow> failE (1, line (''ssh wait: '' @ e)))"

text \<open>\<open>os.Exit\<close> runs no deferred call, so only a command that succeeded is followed by the two \<open>Close\<close>.\<close>

definition ssh_session :: "ssh_env \<Rightarrow> string \<Rightarrow> string \<Rightarrow> string \<Rightarrow> string \<Rightarrow> unit sio" where
  "ssh_session E addr user signer remoteCmd =
     thenE (ssh_try (SDial addr user signer) (sh_Dial E addr user signer) ''ssh dial'')
     (thenE (ssh_try SSession (sh_NewSession E) ''ssh session'')
     (thenE (ssh_try (SStart remoteCmd) (sh_Start E remoteCmd) ''ssh start'')
     (thenE (wait_end E) (thenE (ssh_call SCloseSession) (ssh_call SCloseClient)))))"

definition ssh_main :: "ssh_env \<Rightarrow> string list \<Rightarrow> unit sio" where
  "ssh_main E argv = (case take_identity [] argv of (identity, args) \<Rightarrow>
     if length args < 2 then failE (2, line ''usage: remotessh [-i keyfile] user@host remote-command...'')
     else let target = hd args; remoteCmd = join_with CHR '' '' (tl args) in
       (case CutChar target CHR ''@'' of (user, host, ok) \<Rightarrow>
         if \<not> ok \<or> user = [] \<or> host = [] then failE (2, line (''invalid target '' @ go_quote target @ '' (want user@host)''))
         else (case loadSigner E identity of
             Inl e \<Rightarrow> failE (1, line (''load key: '' @ e))
           | Inr signer \<Rightarrow> ssh_session E (dial_address host) user signer remoteCmd)))"

text \<open>The exit code as the caller of the process sees it: one byte.\<close>

definition ssh_run :: "ssh_env \<Rightarrow> string list \<Rightarrow> int \<times> string \<times> scall list" where
  "ssh_run E argv = (case ssh_main E argv [] of
       (Inl (code, err), calls) \<Rightarrow> (code mod 256, err, calls)
     | (Inr _, calls) \<Rightarrow> (0, [], calls))"

section \<open>What it does\<close>

definition key_args :: "string list \<Rightarrow> string list" where
  "key_args keys = concat (map (\<lambda>k. [''-i'', k]) keys)"

lemma take_identity_args:
  "take_identity identity (key_args keys @ rest) = take_identity (last (identity # keys)) rest"
  by (induction keys arbitrary: identity) (simp_all add: key_args_def)

lemma take_identity_stop [simp]: "a \<noteq> ''-i'' \<Longrightarrow> take_identity identity (a # args) = (identity, a # args)"
  by (cases args) auto

lemma take_identity_shape: "take_identity identity argv = (i, args) \<Longrightarrow>
    \<exists>keys. argv = key_args keys @ args \<and> i = last (identity # keys)"
proof (induction identity argv rule: take_identity.induct)
  case (1 identity a k args')
  show ?case
  proof (cases "a = ''-i''")
    case True
    with 1 obtain keys where "args' = key_args keys @ args" "i = last (k # keys)" by auto
    with True show ?thesis by (intro exI [of _ "k # keys"]) (simp add: key_args_def)
  next
    case False
    with 1 show ?thesis by (intro exI [of _ "[]"]) (simp add: key_args_def)
  qed
qed (auto simp: key_args_def intro: exI [of _ "[]"])

lemma ssh_call_run [simp]: "ssh_call c calls = (Inr (), calls @ [c])"
  by (simp add: ssh_call_def modE_def)

lemma ssh_try_run: "ssh_try c e what calls = (case e of None \<Rightarrow> Inr () | Some err \<Rightarrow> Inl (1, line (what @ '': '' @ err)), calls @ [c])"
  by (simp add: ssh_try_def thenE_def bindE_def tryE_def retE_def failE_def split: option.split)

lemma ssh_session_run:
  "ssh_session E addr user signer cmd [] =
     (case sh_Dial E addr user signer of Some e \<Rightarrow> (Inl (1, line (''ssh dial: '' @ e)), [SDial addr user signer])
      | None \<Rightarrow> (case sh_NewSession E of Some e \<Rightarrow> (Inl (1, line (''ssh session: '' @ e)), [SDial addr user signer, SSession])
      | None \<Rightarrow> (case sh_Start E cmd of Some e \<Rightarrow> (Inl (1, line (''ssh start: '' @ e)), [SDial addr user signer, SSession, SStart cmd])
      | None \<Rightarrow> (case sh_Wait E of
          WaitOk \<Rightarrow> (Inr (), [SDial addr user signer, SSession, SStart cmd, SWait, SCloseSession, SCloseClient])
        | WaitExit n \<Rightarrow> (Inl (n, []), [SDial addr user signer, SSession, SStart cmd, SWait])
        | WaitError e \<Rightarrow> (Inl (1, line (''ssh wait: '' @ e)), [SDial addr user signer, SSession, SStart cmd, SWait])))))"
  by (simp add: ssh_session_def wait_end_def thenE_def bindE_def tryE_def retE_def failE_def ssh_try_run
      split: option.split wait_result.split)

text \<open>How the arguments must read for a command to run, and what it is run with.\<close>

definition reads_as :: "ssh_env \<Rightarrow> string list \<Rightarrow> string \<Rightarrow> string \<Rightarrow> string \<Rightarrow> string list \<Rightarrow> bool" where
  "reads_as E argv user host signer words \<longleftrightarrow> user \<noteq> [] \<and> host \<noteq> [] \<and> words \<noteq> [] \<and> CHR ''@'' \<notin> set user \<and>
     (\<exists>keys. argv = key_args keys @ (user @ CHR ''@'' # host) # words \<and> loadSigner E (last ([] # keys)) = Inr signer)"

lemma CutChar_first: "c \<notin> set a \<Longrightarrow> CutChar (a @ c # b) c = (a, b, True)"
proof -
  assume "c \<notin> set a"
  then have "takeWhile (\<lambda>x. x \<noteq> c) (a @ c # b) = a" by (subst takeWhile_append2) auto
  then show ?thesis by (simp add: CutChar_def)
qed

lemma CutChar_found:
  assumes "CutChar s c = (a, b, True)" shows "s = a @ c # b \<and> c \<notin> set a"
proof -
  have "c \<in> set s" using assms by (auto simp: CutChar_def Let_def split: if_splits)
  then obtain a' b' where s: "s = a' @ c # b'" "c \<notin> set a'" by (meson split_list_first)
  with assms show ?thesis by (simp add: CutChar_first)
qed

lemma ssh_main_reads:
  assumes "reads_as E argv user host signer words"
  shows "ssh_main E argv = ssh_session E (dial_address host) user signer (join_with CHR '' '' words)"
proof -
  obtain keys where r: "argv = key_args keys @ (user @ CHR ''@'' # host) # words" "loadSigner E (last ([] # keys)) = Inr signer"
    "user \<noteq> []" "host \<noteq> []" "words \<noteq> []" "CHR ''@'' \<notin> set user" using assms by (auto simp: reads_as_def)
  have "CHR ''@'' \<in> set (user @ CHR ''@'' # host)" "CHR ''@'' \<notin> set ''-i''" by simp_all
  then have "user @ CHR ''@'' # host \<noteq> ''-i''" by metis
  then have "take_identity [] argv = (last ([] # keys), (user @ CHR ''@'' # host) # words)"
    unfolding r(1) take_identity_args by simp
  with r(2-) show ?thesis by (cases words) (simp_all add: ssh_main_def CutChar_first)
qed

lemma ssh_main_refuses:
  "(\<exists>user host signer words. reads_as E argv user host signer words)
   \<or> (\<exists>code err. ssh_main E argv = failE (code, err) \<and> code \<in> {1, 2})"
proof -
  obtain i args where t: "take_identity [] argv = (i, args)" by fastforce
  show ?thesis
  proof (cases "length args < 2")
    case True
    then show ?thesis by (simp add: ssh_main_def t) blast
  next
    case False
    then obtain target words where a: "args = target # words" "words \<noteq> []" by (cases args) auto
    obtain user host ok where c: "CutChar target CHR ''@'' = (user, host, ok)" by (metis prod.collapse)
    show ?thesis
    proof (cases "\<not> ok \<or> user = [] \<or> host = [] \<or> (\<exists>e. loadSigner E i = Inl e)")
      case True
      with False have "(\<exists>err. ssh_main E argv = failE (2, err)) \<or> (\<exists>err. ssh_main E argv = failE (1, err))"
        by (auto simp: ssh_main_def t a c)
      then show ?thesis by blast
    next
      case no: False
      then obtain signer where s: "loadSigner E i = Inr signer" by (cases "loadSigner E i") auto
      from take_identity_shape [OF t] obtain keys where "argv = key_args keys @ args" "i = last ([] # keys)" by blast
      moreover have "target = user @ CHR ''@'' # host" "CHR ''@'' \<notin> set user" using CutChar_found [of target] c no by simp_all
      ultimately have "reads_as E argv user host signer words"
        unfolding reads_as_def a(1) using a(2) no s by blast
      then show ?thesis by blast
    qed
  qed
qed

lemma ssh_run_reads:
  assumes "reads_as E argv user host signer words" "ssh_run E argv = (code, err, calls)"
    and "\<forall>n. sh_Wait E = WaitExit n \<longrightarrow> 0 < n \<and> n < 256"
  shows "code = 0 \<longleftrightarrow> (\<exists>addr user signer cmd. calls = [SDial addr user signer, SSession, SStart cmd, SWait, SCloseSession, SCloseClient])"
    and "SWait \<in> set calls \<Longrightarrow> sh_Wait E = WaitExit n \<Longrightarrow> code = n"
    and "SStart cmd \<in> set calls \<Longrightarrow> cmd = join_with CHR '' '' words"
    and "hd calls = SDial (dial_address host) user signer"
  using assms(2,3) unfolding ssh_run_def ssh_main_reads [OF assms(1)] ssh_session_run
  by (auto split: option.splits wait_result.splits)

lemma ssh_run_refuses:
  assumes "\<nexists>user host signer words. reads_as E argv user host signer words" "ssh_run E argv = (code, err, calls)"
  shows "code \<in> {1, 2} \<and> calls = []"
  using ssh_main_refuses [of E argv] assms by (auto simp: ssh_run_def failE_def)

text \<open>
  C34: The CI helper reports what the remote command did. If the remote side ends with a status between 1 and
  255, as POSIX systems do, then the exit code is 0 exactly when the command was run and succeeded, and session and
  connection were closed after it; once the command is waited for, its status is the exit code; and a command is
  started only as it was given, joined by spaces, over a connection to the user and host that the arguments name,
  port 22 unless they name one, with the key of the last -i or else of the environment.
\<close>

theorem remote_status_is_reported:
  assumes "\<forall>n. sh_Wait E = WaitExit n \<longrightarrow> 0 < n \<and> n < 256" and "ssh_run E argv = (code, err, calls)"
  shows "(code = 0 \<longleftrightarrow> (\<exists>addr user signer cmd. calls = [SDial addr user signer, SSession, SStart cmd, SWait, SCloseSession, SCloseClient]))
    \<and> (SWait \<in> set calls \<longrightarrow> sh_Wait E = WaitExit n \<longrightarrow> code = n)
    \<and> (SStart cmd \<in> set calls \<longrightarrow> (\<exists>user host signer words. reads_as E argv user host signer words
      \<and> cmd = join_with CHR '' '' words \<and> hd calls = SDial (dial_address host) user signer))"
proof (cases "\<exists>user host signer words. reads_as E argv user host signer words")
  case True
  then obtain user host signer words where r: "reads_as E argv user host signer words" by blast
  show ?thesis using ssh_run_reads [OF r assms(2,1)] r by blast
next
  case False
  then show ?thesis using ssh_run_refuses [OF _ assms(2)] by auto
qed

definition demo_ssh :: ssh_env where
  "demo_ssh = \<lparr>sh_getenv = (\<lambda>_. []), sh_ReadFile = (\<lambda>_. Inr ''pem''), sh_ParsePrivateKey = Inr, sh_Dial = (\<lambda>_ _ _. None),
     sh_NewSession = None, sh_Start = (\<lambda>_. None), sh_Wait = WaitExit 3\<rparr>"

theorem remote_status_is_reported_witness:
  "\<exists>calls. ssh_run demo_ssh [''-i'', ''key'', ''root@lab'', ''ls'', ''/tmp''] = (3, [], calls)
     \<and> hd calls = SDial ''lab:22'' ''root'' ''pem'' \<and> SStart ''ls /tmp'' \<in> set calls"
proof -
  have run: "ssh_run demo_ssh [''-i'', ''key'', ''root@lab'', ''ls'', ''/tmp''] =
      (3, [], [SDial ''lab:22'' ''root'' ''pem'', SSession, SStart ''ls /tmp'', SWait])" by code_simp
  have w: "\<forall>n. sh_Wait demo_ssh = WaitExit n \<longrightarrow> 0 < n \<and> n < 256" "sh_Wait demo_ssh = WaitExit 3" by (simp_all add: demo_ssh_def)
  from remote_status_is_reported [OF w(1) run] w(2) run show ?thesis by simp
qed

text \<open>
  The port is added only when the host has no colon, so an IPv6 address without a port is dialled as it is,
  which \<open>net.Dial\<close> cannot split into host and port; in brackets it is not given port 22 either.
\<close>

theorem ipv6_target_has_no_port:
  "SplitHostPort (dial_address ''::1'') = Inl ''too many colons in address''"
  "SplitHostPort (dial_address ''[::1]'') = Inl ''missing port in address''"
  "plain host \<Longrightarrow> SplitHostPort (dial_address host) = Inr (host, ''22'')"
  using SplitHostPort_plain [of host "''22''"] by (code_simp, code_simp, simp add: dial_address_def plain_def)

end
