(* ===== verification/Spec2Isabelle.thy ===== *)
theory Spec2Isabelle
  imports Gw_Prelude Activity Gw_Store Vsphere_World Vsphere_Lookup Vsphere_Power Vsphere_Iso Upload_Flight Vsphere_Media Vsphere_Probe Vsphere_Pool
    Session_Books Pool_Flight Gw_Http Kube Gw_State Redfish Kubeauth Gw_Config Gw_Auth Vcsync Sync_Flight Api Api_Laws Gateway Gateway_Laws
    Gateway_Demo Gateway_Sessions Go_Net Gateway_Life Remotessh
begin

text \<open>
  \<^bold>\<open>The program.\<close> rf2vc is a gateway that looks like a baseboard management controller to bare-metal
  provisioners (Redfish: power, boot override, virtual media) and turns what they ask into calls to vCenter.
  A store maps each system UUID to a vCenter; an admin API and a dashboard edit the store, a mirror keeps
  vCenter definitions in Kubernetes ConfigMaps, and up to three listeners authenticate the callers.

  \<^bold>\<open>Theories and sources\<close> (paths under \<open>src/\<close>), in the order of their imports:

    \<^item> \<open>Gw_Prelude\<close>: Go's string functions, maps and their iteration order, the error monad \<open>eio\<close> and the
      composition rules for \<open>keeps R\<close> (every step of a function stays within the preorder \<open>R\<close>).
    \<^item> \<open>Activity\<close>: \<open>internal/activity/bus.go\<close>. \<open>bus\<close> is the ring of events; \<open>Emit\<close>, \<open>Since\<close>, \<open>Snapshot\<close>.
    \<^item> \<open>Gw_Store\<close>: \<open>internal/store/store.go\<close>. \<open>store\<close> holds vCenters, mappings by UUID, settings and the content of
      \<open>state.json\<close>; one definition per exported operation, all of them in \<open>run_op\<close>.
    \<^item> \<open>Vsphere_World\<close>: the client of \<open>internal/vsphere/client.go\<close> and the record \<open>vsphere\<close> of everything outside:
      each answer of vCenter, the network and the disk is a function of the calls made so far.
    \<^item> \<open>Vsphere_Lookup\<close>, \<open>Vsphere_Power\<close>, \<open>Vsphere_Iso\<close>, \<open>Vsphere_Media\<close>, \<open>Vsphere_Probe\<close>, \<open>Vsphere_Pool\<close>: sessions, UUID
      lookup, folder gate and walk (\<open>client.go\<close>, \<open>folder_vms.go\<close>), power and boot order (\<open>client.go\<close>), ISO download and
      upload (\<open>iso.go\<close>, \<open>client.go\<close>), InsertMedia and EjectMedia (\<open>client.go\<close>), health and connection tests
      (\<open>probe.go\<close>), the client pool (\<open>pool.go\<close>).
    \<^item> \<open>Upload_Flight\<close>: \<open>uploadISOIfNeeded\<close> as goroutines that interleave: the table of uploads in flight, the serial
      lock, the channel on which followers wait. \<open>Session_Books\<close>: every operation on a client opens and closes sessions
      in balance. \<open>Pool_Flight\<close>: the pool as requests share it, with pointers to clients in a heap.
    \<^item> \<open>Gw_Http\<close>: JSON values and Go's decoding of them into structs, requests, replies. \<open>Gw_State\<close>: the state \<open>gw\<close> that
      all handlers share (store, pool, world, Kubernetes history) and the type \<open>handler\<close>.
    \<^item> \<open>Kube\<close>: \<open>internal/kube/kube.go\<close>. \<open>Kubeauth\<close>: \<open>internal/kubeauth/kubeauth.go\<close>, the review of bearer tokens.
    \<^item> \<open>Redfish\<close>: \<open>internal/redfish/server.go\<close>: routing, every handler, every document.
    \<^item> \<open>Gw_Config\<close>: \<open>internal/config/config.go\<close>. \<open>Gw_Auth\<close>: \<open>cmd/gateway/auth.go\<close>, \<open>redfishauth.go\<close>.
    \<^item> \<open>Vcsync\<close>: \<open>internal/vcsync/vcsync.go\<close>, the mirror; \<open>Sync_Flight\<close> its calls by concurrent edits, interleaved.
    \<^item> \<open>Api\<close>: \<open>internal/api/api.go\<close>; \<open>Api_Laws\<close> its laws.
    \<^item> \<open>Gateway\<close>: \<open>cmd/gateway/main.go\<close>: set-up, routes, middleware, serving one request; \<open>Gateway_Laws\<close> what holds
      of the whole process; \<open>Gateway_Demo\<close> a small gateway run from its state file to a change in vSphere;
      \<open>Gateway_Sessions\<close> the balance of sessions for every handler; \<open>Gateway_Life\<close> the listeners, what they log and how
      the process ends, with \<open>Go_Net\<close> for the addresses.
    \<^item> \<open>Remotessh\<close>: \<open>scripts/ci/remotessh/main.go\<close>, which runs a command over SSH.

  \<^bold>\<open>How a request runs.\<close> \<open>process_serve\<close> picks the listener, whose middleware (\<open>basicAuth\<close>, \<open>tokenAuth\<close>, \<open>proxyAuth\<close>)
  answers itself or calls \<open>mux_serve\<close>; the route's handler reads the store, takes a client from the pool and
  runs one operation of the \<open>Vsphere\<close> theories on it, in the state \<open>vstate\<close> of client and world. Every vCenter
  call is appended to \<open>w_calls\<close> with its outcome, every Kubernetes exchange to \<open>g_kube\<close>, so that theorems speak
  of what was done and in which order. Requests are atomic steps of \<open>process_reach\<close>, one after the other.

  \<^bold>\<open>Interfaces\<close> are locales, interpreted on the model's own definitions: \<open>uuid_router\<close> (what the Redfish
  side needs of the store), \<open>token_reviewer\<close> (what \<open>tokenAuth\<close> needs of the reviewer), \<open>vcenter_sync\<close> (what the
  API needs of the mirror), \<open>fair_turns\<close> (goroutines that all come to an end when each gets its turns).

  \<^bold>\<open>What is shown.\<close>

    \<^item> Authority: whoever changes vSphere was admitted by the listener (a bearer token: the API server itself
      named its user and allowed the access in the last 30 seconds, read off the record of the exchanges) and names
      a mapped system under no dry run (whole process); the same per server for Redfish and for the API; nobody
      passes Basic Auth or the token listener without what the specification asks; the folder gate compares
      whole components.
    \<^item> Effects: a successful InsertMedia, EjectMedia or Reset left in the call history what it promises, the
      media with the bytes of the image asked for, an upload is confirmed on the datastore, a download never leaves
      half a file; every link of the Redfish documents leads to a handler.
    \<^item> State: every reachable store is well formed, survives a restart, never shows passwords; deleting a
      vCenter takes its mappings along; the API refines an abstract registry (\<open>registry_step\<close>); an accepted edit is
      what the next connection uses; the mirror writes only ConfigMaps it owns and what it writes reads back.
    \<^item> Sessions: while the gateway runs the sessions opened are those closed by a logout that succeeded, plus
      those given up by one that failed (the client forgets them, they may still be open), plus one per connected
      client of the pool; a clean stop logs out of each of the last. With requests interleaved this needs that no client
      is retired while a request holds it, and a run that breaks it leaks a session.
    \<^item> Concurrency: the shared pool agrees with the sequential one; of concurrent uploads one runs at a time, followers get
      the leader's outcome, success means the image is there, all return, and one alone is the sequential upload;
      concurrent calls of the mirror write only ConfigMaps of their own, but an older edit can overwrite a newer.
    \<^item> Bounds and termination: retries, the guest shutdown loop, cache lifetimes, the event ring; health checks
      are always answered. Equivalences: bare UUID paths, the advertised reset types, the passwords in force.

  \<^bold>\<open>Bounds.\<close> Loops over finite data are structural. \<open>soft_loop\<close> recurses on the nanoseconds left until the
  deadline (each round sleeps); \<open>upload_attempts\<close> counts down the attempts of the source, \<open>answer_ticks\<close> the ticks
  that pass, by the environment's answer, before a task ends. A goroutine of an upload and a call of the mirror
  take at most six turns. No fuel could run out before the code would stop.

  \<^bold>\<open>Parameters.\<close> Code that is not in the repository is an argument: govmomi and vCenter (\<open>vsphere\<close>), the API server
  (\<open>kube_env\<close>, \<open>review_env\<close>), the YAML library (\<open>yaml_env\<close>), disk and randomness (\<open>store_env\<close>), the SSH
  library (\<open>ssh_env\<close>), SHA-256, bcrypt, time and
  URL formatting, the file server. Named hypotheses state their documented behaviour: \<open>ids_random\<close> (eight
  random bytes are eight), \<open>scans_all\<close> (a range over a map visits every key), \<open>disk_works\<close>, \<open>reports_uuids\<close> (vCenter
  reports a UUID for a VM). The state file is the document itself: encoding it and decoding it again is the identity.

  \<^bold>\<open>Not modelled.\<close> Concurrent requests on one client in full: interleaved are the event bus, uploads, the pool's
  clients and the mirror, elsewhere a request is one step. The TLS handshake, timeouts and the log lines of the handlers; a request whose
  path needs escaping (routes are matched on the decoded path); the assets under \<open>web/\<close>, shell scripts, manifests and tests.
\<close>

end
